(* ===== verification/RRW_Prelude.thy ===== *)
theory RRW_Prelude
  imports Main "HOL-Library.Word"
begin

text \<open>
  Shared ground of the development: the machine types of the i386 build (the
  Makefile compiles every helper with \<open>-m32\<close>), the result type by which a
  definition reports that the C or C++ code aborts, runs into undefined
  behaviour or recurses too deeply, the collections of rewrite rules that the
  component proofs use, and generic lemmas on lists, sums and words.
\<close>

section \<open>Machine types\<close>

type_synonym byte = "8 word"
type_synonym u32 = "32 word"
type_synonym u64 = "64 word"

text \<open>\<open>long\<close> and \<open>unsigned long\<close> are 32 bits wide on i386.\<close>

type_synonym clong = "32 word"

section \<open>Collections\<close>

named_theorems dag_simps \<open>rewrite rules between the getters and setters of the instrumentation dag\<close>
named_theorems topo_intros \<open>operations that keep the shape of the instrumentation dag\<close>
named_theorems rt_simps \<open>rewrite rules of the path record runtime\<close>
named_theorems status_simps \<open>definitions of the wait status macros\<close>
named_theorems bpf_simps \<open>execution rules of the seccomp filter machine\<close>
named_theorems ptrace_simps \<open>rewrite rules of the tracer requests\<close>
named_theorems asm_simps \<open>execution rules of the i386 fragments\<close>

section \<open>Results\<close>

text \<open>
  \<open>Bad_Deref\<close> is a read through an iterator or pointer that does not refer to
  an element, \<open>Assert_Failed\<close> an \<open>assert\<close> that does not hold, \<open>Fatal\<close> a call
  of the \<open>fatal\<close>, \<open>err\<close> or \<open>abort\<close> exits, \<open>Blocked\<close> a wait for an event that does
  not come, and \<open>Out_Of_Fuel\<close> the end of the recursion budget of a definition
  whose source recursion is unbounded.
\<close>

datatype run_error = Bad_Deref | Assert_Failed string | Fatal string | Blocked | Out_Of_Fuel

type_synonym 'a res = "run_error + 'a"

definition bind_res :: "'a res \<Rightarrow> ('a \<Rightarrow> 'b res) \<Rightarrow> 'b res" where
  "bind_res m f = (case m of Inl e \<Rightarrow> Inl e | Inr x \<Rightarrow> f x)"

lemma bind_res_Inl [simp]: "bind_res (Inl e) f = Inl e"
  by (simp add: bind_res_def)

lemma bind_res_Inr [simp]: "bind_res (Inr x) f = f x"
  by (simp add: bind_res_def)

lemma bind_res_eq_Inr: "bind_res m f = Inr y \<longleftrightarrow> (\<exists>x. m = Inr x \<and> f x = Inr y)"
  by (cases m) auto

lemma bind_res_InrE:
  assumes "bind_res m f = Inr y"
  obtains x where "m = Inr x" and "f x = Inr y"
  using assms by (auto simp: bind_res_eq_Inr)

lemma bind_res_assoc: "bind_res (bind_res m f) g = bind_res m (\<lambda>x. bind_res (f x) g)"
  by (cases m) auto

lemma bind_res_cong [fundef_cong]:
  assumes "m = m'" and "\<And>x. m' = Inr x \<Longrightarrow> f x = g x"
  shows "bind_res m f = bind_res m' g"
  using assms by (cases m') auto

text \<open>A C++ range loop whose body may fail.\<close>

fun fold_res :: "('a \<Rightarrow> 's \<Rightarrow> 's res) \<Rightarrow> 'a list \<Rightarrow> 's \<Rightarrow> 's res" where
  "fold_res f [] s = Inr s"
| "fold_res f (x # xs) s = bind_res (f x s) (fold_res f xs)"

lemma fold_res_append: "fold_res f (xs @ ys) s = bind_res (fold_res f xs s) (fold_res f ys)"
  by (induction xs arbitrary: s) (auto simp: bind_res_def split: sum.splits)

lemma fold_res_total: "(\<And>x s. x \<in> set xs \<Longrightarrow> f x s = Inr (g x s)) \<Longrightarrow> fold_res f xs s = Inr (fold g xs s)"
  by (induction xs arbitrary: s) auto

section \<open>Lists and sums\<close>

lemma fold_keeps: "(\<And>x s. x \<in> set xs \<Longrightarrow> h (f x s) = h s) \<Longrightarrow> h (fold f xs s) = h s"
  by (induction xs arbitrary: s) auto

lemma fold_keeps_inv: "P s \<Longrightarrow> (\<And>x s. x \<in> set xs \<Longrightarrow> P s \<Longrightarrow> P (f x s)) \<Longrightarrow> P (fold f xs s)"
  by (induction xs arbitrary: s) auto

lemma singleton_list_iff:
  assumes d: "distinct xs"
  shows "set xs = {x} \<longleftrightarrow> xs = [x]"
proof (rule iffI)
  assume s: "set xs = {x}"
  from d have "length xs = card (set xs)" by (simp add: distinct_card)
  with s have "length xs = Suc 0" by simp
  then obtain y where "xs = [y]" by (cases xs) auto
  with s show "xs = [x]" by simp
qed simp

lemma length_le_Suc_0_unique: "length xs \<le> Suc 0 \<Longrightarrow> x \<in> set xs \<Longrightarrow> y \<in> set xs \<Longrightarrow> x = y"
  by (cases xs) auto

lemma two_members_length: "x \<in> set xs \<Longrightarrow> y \<in> set xs \<Longrightarrow> x \<noteq> y \<Longrightarrow> 1 < length xs"
  using length_le_Suc_0_unique [of xs x y] by linarith

text \<open>Sums along a list of edges telescope when each summand is a difference of potentials.\<close>

lemma sum_list_map_add:
  fixes f g :: "'a \<Rightarrow> 'b::comm_monoid_add"
  shows "(\<Sum>x\<leftarrow>xs. f x + g x) = (\<Sum>x\<leftarrow>xs. f x) + (\<Sum>x\<leftarrow>xs. g x)"
  by (induction xs) (auto simp: ac_simps)

lemma sum_list_single:
  fixes g :: "'a \<Rightarrow> 'b::comm_monoid_add"
  assumes "distinct xs" and "z \<in> set xs" and "\<And>x. x \<in> set xs \<Longrightarrow> x \<noteq> z \<Longrightarrow> g x = 0"
  shows "(\<Sum>x\<leftarrow>xs. g x) = g z"
proof -
  have "(\<Sum>x\<leftarrow>xs. g x) = (\<Sum>x\<in>set xs. g x)"
    using assms(1) by (rule sum_list_distinct_conv_sum_set)
  also have "\<dots> = (\<Sum>x\<in>{z}. g x)"
    using assms(2,3) by (intro sum.mono_neutral_right) auto
  finally show ?thesis by simp
qed

lemma sum_list_all_zero:
  fixes g :: "'a \<Rightarrow> 'b::monoid_add"
  shows "(\<And>x. x \<in> set xs \<Longrightarrow> g x = 0) \<Longrightarrow> (\<Sum>x\<leftarrow>xs. g x) = 0"
  by (induction xs) auto

section \<open>Words\<close>

text \<open>
  A 32-bit \<open>long\<close> stored in a \<open>long long\<close> field is sign extended on the way in
  and truncated on the way out; nothing is lost.
\<close>

lemma ucast_scast_32_64 [simp]: "(ucast (scast (w :: 32 word) :: 64 word) :: 32 word) = w"
  by (rule bit_word_eqI) (auto simp: bit_simps)

section \<open>Words\<close>

lemma unat_add_no_wrap: "unat x + unat y < 2 ^ 32 \<Longrightarrow> unat (x + y) = unat x + unat y" for x y :: u32
  by (simp add: unat_plus_if_size word_size)

lemma unat_of_nat_small: "n < 2 ^ 32 \<Longrightarrow> unat (of_nat n :: u32) = n"
  by (simp add: unsigned_of_nat take_bit_nat_eq_self)

end
