(* ===== verification/BL_Dag.thy ===== *)
theory BL_Dag
  imports RRW_Prelude
begin

text \<open>
  The data model of the path logging pass (\<open>src/PathLogging.cpp\<close>): the nodes,
  edges and the dag of the Ball-Larus graph with the members that the pass adds
  to them, and the getters and setters of the three classes. Pointers are numbers
  into the two heaps \<open>d_node\<close> and \<open>d_edge\<close> of the dag; the members of the base
  classes \<open>BallLarusNode\<close>, \<open>BallLarusEdge\<close> and \<open>BallLarusDag\<close> are fields of the
  same records. The graph construction and the path numbering are LLVM's
  \<open>PathNumbering\<close> library; what the pass relies on is stated here as \<open>bl_wf\<close>, the
  dag that \<open>BallLarusDag::init\<close> hands over.
\<close>

section \<open>Nodes, edges, dag\<close>

type_synonym node_id = nat
type_synonym edge_id = nat
type_synonym block_id = nat
type_synonym inst_id = nat

text \<open>\<open>BallLarusNode::NodeColor\<close> and \<open>BallLarusEdge::EdgeType\<close>.\<close>

datatype node_color = WHITE | GRAY | BLACK

datatype edge_type = NORMAL | BACKEDGE | SPLITEDGE
  | BACKEDGE_PHONY | SPLITEDGE_PHONY | CALLEDGE_PHONY

text \<open>
  The \<open>Value*\<close>s that a node remembers are path numbers: an \<open>i32\<close> constant or the
  result of an instruction. A null pointer is \<open>None\<close>.
\<close>

datatype ir_value = ConstInt u32 | InstVal inst_id

record bl_node =
  n_block :: "block_id option"
  n_color :: node_color
  n_predEdges :: "edge_id list"
  n_succEdges :: "edge_id list"
  n_startingPathNumber :: "ir_value option"
  n_endingPathNumber :: "ir_value option"
  n_pathPHI :: "inst_id option"

record bl_edge =
  e_source :: node_id
  e_target :: node_id
  e_type :: edge_type
  e_weight :: u32
  e_phonyRoot :: "edge_id option"
  e_phonyExit :: "edge_id option"
  e_increment :: u64
  e_isInSpanningTree :: bool
  e_isInitialization :: bool
  e_isCounterIncrement :: bool
  e_hasInstrumentation :: bool

record bl_dag =
  d_nodes :: "node_id list"
  d_edges :: "edge_id list"
  d_node :: "node_id \<Rightarrow> bl_node"
  d_edge :: "edge_id \<Rightarrow> bl_edge"
  d_root :: node_id
  d_exit :: node_id
  d_treeEdges :: "edge_id list"
  d_chordEdges :: "edge_id list"
  d_counterArray :: "nat option"
  d_numberOfPaths :: u32

definition upd_node :: "node_id \<Rightarrow> (bl_node \<Rightarrow> bl_node) \<Rightarrow> bl_dag \<Rightarrow> bl_dag" where
  "upd_node v f d = d\<lparr>d_node := (d_node d)(v := f (d_node d v))\<rparr>"

definition upd_edge :: "edge_id \<Rightarrow> (bl_edge \<Rightarrow> bl_edge) \<Rightarrow> bl_dag \<Rightarrow> bl_dag" where
  "upd_edge e f d = d\<lparr>d_edge := (d_edge d)(e := f (d_edge d e))\<rparr>"

subsection \<open>Constructors\<close>

definition createNode :: "block_id option \<Rightarrow> bl_node" where
  "createNode BB = \<lparr>n_block = BB, n_color = WHITE, n_predEdges = [], n_succEdges = [],
     n_startingPathNumber = None, n_endingPathNumber = None, n_pathPHI = None\<rparr>"

definition createEdge :: "node_id \<Rightarrow> node_id \<Rightarrow> bl_edge" where
  "createEdge s t = \<lparr>e_source = s, e_target = t, e_type = NORMAL, e_weight = 0,
     e_phonyRoot = None, e_phonyExit = None, e_increment = 0, e_isInSpanningTree = False,
     e_isInitialization = False, e_isCounterIncrement = False, e_hasInstrumentation = False\<rparr>"

subsection \<open>Getters\<close>

definition getSource :: "bl_dag \<Rightarrow> edge_id \<Rightarrow> node_id" where
  "getSource d = (\<lambda>e. e_source (d_edge d e))"

definition getTarget :: "bl_dag \<Rightarrow> edge_id \<Rightarrow> node_id" where
  "getTarget d = (\<lambda>e. e_target (d_edge d e))"

definition getType :: "bl_dag \<Rightarrow> edge_id \<Rightarrow> edge_type" where
  "getType d = (\<lambda>e. e_type (d_edge d e))"

definition getWeight :: "bl_dag \<Rightarrow> edge_id \<Rightarrow> u32" where
  "getWeight d = (\<lambda>e. e_weight (d_edge d e))"

definition getPhonyRoot :: "bl_dag \<Rightarrow> edge_id \<Rightarrow> edge_id option" where
  "getPhonyRoot d = (\<lambda>e. e_phonyRoot (d_edge d e))"

definition getPhonyExit :: "bl_dag \<Rightarrow> edge_id \<Rightarrow> edge_id option" where
  "getPhonyExit d = (\<lambda>e. e_phonyExit (d_edge d e))"

definition isInSpanningTree :: "bl_dag \<Rightarrow> edge_id \<Rightarrow> bool" where
  "isInSpanningTree d = (\<lambda>e. e_isInSpanningTree (d_edge d e))"

definition isInitialization :: "bl_dag \<Rightarrow> edge_id \<Rightarrow> bool" where
  "isInitialization d = (\<lambda>e. e_isInitialization (d_edge d e))"

definition isCounterIncrement :: "bl_dag \<Rightarrow> edge_id \<Rightarrow> bool" where
  "isCounterIncrement d = (\<lambda>e. e_isCounterIncrement (d_edge d e))"

definition hasInstrumentation :: "bl_dag \<Rightarrow> edge_id \<Rightarrow> bool" where
  "hasInstrumentation d = (\<lambda>e. e_hasInstrumentation (d_edge d e))"

text \<open>\<open>_increment\<close> is a \<open>long long\<close>, \<open>getIncrement\<close> returns a \<open>long\<close>.\<close>

definition getIncrement :: "bl_dag \<Rightarrow> edge_id \<Rightarrow> clong" where
  "getIncrement d = (\<lambda>e. ucast (e_increment (d_edge d e)))"

definition getBlock :: "bl_dag \<Rightarrow> node_id \<Rightarrow> block_id option" where
  "getBlock d = (\<lambda>v. n_block (d_node d v))"

definition getColor :: "bl_dag \<Rightarrow> node_id \<Rightarrow> node_color" where
  "getColor d = (\<lambda>v. n_color (d_node d v))"

definition predEdges :: "bl_dag \<Rightarrow> node_id \<Rightarrow> edge_id list" where
  "predEdges d = (\<lambda>v. n_predEdges (d_node d v))"

definition succEdges :: "bl_dag \<Rightarrow> node_id \<Rightarrow> edge_id list" where
  "succEdges d = (\<lambda>v. n_succEdges (d_node d v))"

definition getNumberPredEdges :: "bl_dag \<Rightarrow> node_id \<Rightarrow> nat" where
  "getNumberPredEdges d v = length (predEdges d v)"

definition getNumberSuccEdges :: "bl_dag \<Rightarrow> node_id \<Rightarrow> nat" where
  "getNumberSuccEdges d v = length (succEdges d v)"

definition getStartingPathNumber :: "bl_dag \<Rightarrow> node_id \<Rightarrow> ir_value option" where
  "getStartingPathNumber d = (\<lambda>v. n_startingPathNumber (d_node d v))"

definition getEndingPathNumber :: "bl_dag \<Rightarrow> node_id \<Rightarrow> ir_value option" where
  "getEndingPathNumber d = (\<lambda>v. n_endingPathNumber (d_node d v))"

definition getPathPHI :: "bl_dag \<Rightarrow> node_id \<Rightarrow> inst_id option" where
  "getPathPHI d = (\<lambda>v. n_pathPHI (d_node d v))"

lemmas getter_defs = getSource_def getTarget_def getType_def getWeight_def getPhonyRoot_def
  getPhonyExit_def isInSpanningTree_def isInitialization_def isCounterIncrement_def
  hasInstrumentation_def getIncrement_def getBlock_def getColor_def predEdges_def succEdges_def
  getStartingPathNumber_def getEndingPathNumber_def getPathPHI_def

subsection \<open>Setters\<close>

definition setTarget :: "edge_id \<Rightarrow> node_id \<Rightarrow> bl_dag \<Rightarrow> bl_dag" where
  "setTarget e v = upd_edge e (\<lambda>r. r\<lparr>e_target := v\<rparr>)"

definition setIsInSpanningTree :: "edge_id \<Rightarrow> bool \<Rightarrow> bl_dag \<Rightarrow> bl_dag" where
  "setIsInSpanningTree e b = upd_edge e (\<lambda>r. r\<lparr>e_isInSpanningTree := b\<rparr>)"

definition setIsInitialization :: "edge_id \<Rightarrow> bool \<Rightarrow> bl_dag \<Rightarrow> bl_dag" where
  "setIsInitialization e b = upd_edge e (\<lambda>r. r\<lparr>e_isInitialization := b\<rparr>)"

definition setIsCounterIncrement :: "edge_id \<Rightarrow> bool \<Rightarrow> bl_dag \<Rightarrow> bl_dag" where
  "setIsCounterIncrement e b = upd_edge e (\<lambda>r. r\<lparr>e_isCounterIncrement := b\<rparr>)"

definition setHasInstrumentation :: "edge_id \<Rightarrow> bool \<Rightarrow> bl_dag \<Rightarrow> bl_dag" where
  "setHasInstrumentation e b = upd_edge e (\<lambda>r. r\<lparr>e_hasInstrumentation := b\<rparr>)"

definition setIncrement :: "edge_id \<Rightarrow> clong \<Rightarrow> bl_dag \<Rightarrow> bl_dag" where
  "setIncrement e i = upd_edge e (\<lambda>r. r\<lparr>e_increment := scast i\<rparr>)"

definition setType :: "edge_id \<Rightarrow> edge_type \<Rightarrow> bl_dag \<Rightarrow> bl_dag" where
  "setType e t = upd_edge e (\<lambda>r. r\<lparr>e_type := t\<rparr>)"

definition setPhonyRoot :: "edge_id \<Rightarrow> edge_id option \<Rightarrow> bl_dag \<Rightarrow> bl_dag" where
  "setPhonyRoot e p = upd_edge e (\<lambda>r. r\<lparr>e_phonyRoot := p\<rparr>)"

definition setPhonyExit :: "edge_id \<Rightarrow> edge_id option \<Rightarrow> bl_dag \<Rightarrow> bl_dag" where
  "setPhonyExit e p = upd_edge e (\<lambda>r. r\<lparr>e_phonyExit := p\<rparr>)"

definition setColor :: "node_id \<Rightarrow> node_color \<Rightarrow> bl_dag \<Rightarrow> bl_dag" where
  "setColor v c = upd_node v (\<lambda>r. r\<lparr>n_color := c\<rparr>)"

definition setStartingPathNumber :: "node_id \<Rightarrow> ir_value option \<Rightarrow> bl_dag \<Rightarrow> bl_dag" where
  "setStartingPathNumber v p = upd_node v (\<lambda>r. r\<lparr>n_startingPathNumber := p\<rparr>)"

definition setEndingPathNumber :: "node_id \<Rightarrow> ir_value option \<Rightarrow> bl_dag \<Rightarrow> bl_dag" where
  "setEndingPathNumber v p = upd_node v (\<lambda>r. r\<lparr>n_endingPathNumber := p\<rparr>)"

definition setPathPHI :: "node_id \<Rightarrow> inst_id option \<Rightarrow> bl_dag \<Rightarrow> bl_dag" where
  "setPathPHI v p = upd_node v (\<lambda>r. r\<lparr>n_pathPHI := p\<rparr>)"

lemmas setter_defs = setTarget_def setIsInSpanningTree_def setIsInitialization_def
  setIsCounterIncrement_def setHasInstrumentation_def setIncrement_def setType_def
  setPhonyRoot_def setPhonyExit_def setColor_def setStartingPathNumber_def
  setEndingPathNumber_def setPathPHI_def upd_node_def upd_edge_def

subsection \<open>What each setter changes\<close>

text \<open>
  \<open>topo\<close> is the part of a dag that the placement passes only read: the nodes,
  the edges with their ends, types, weights and phony partners, and the edge
  lists of the nodes.
\<close>

definition topo where
  "topo d = (d_nodes d, d_edges d, d_root d, d_exit d,
     (getSource d, getTarget d, getType d, getWeight d, getPhonyRoot d, getPhonyExit d),
     (predEdges d, succEdges d, getBlock d))"

lemma topo_eqD:
  assumes "topo d' = topo d"
  shows "d_nodes d' = d_nodes d" "d_edges d' = d_edges d" "d_root d' = d_root d"
    "d_exit d' = d_exit d" "getSource d' = getSource d" "getTarget d' = getTarget d"
    "getType d' = getType d" "getWeight d' = getWeight d"
    "getPhonyRoot d' = getPhonyRoot d" "getPhonyExit d' = getPhonyExit d"
    "predEdges d' = predEdges d" "succEdges d' = succEdges d" "getBlock d' = getBlock d"
  using assms by (simp_all add: topo_def)

lemma topo_setters [simp, dag_simps]:
  "topo (setIncrement e i d) = topo d"
  "topo (setIsInitialization e b d) = topo d"
  "topo (setIsCounterIncrement e b d) = topo d"
  "topo (setIsInSpanningTree e b d) = topo d"
  "topo (setHasInstrumentation e b d) = topo d"
  "topo (setColor v c d) = topo d"
  "topo (setStartingPathNumber v p d) = topo d"
  "topo (setEndingPathNumber v p d) = topo d"
  "topo (setPathPHI v q d) = topo d"
  by (simp_all add: topo_def getter_defs setter_defs fun_eq_iff)

lemma topo_edge_vectors [simp, dag_simps]:
  "topo (d\<lparr>d_treeEdges := xs\<rparr>) = topo d"
  "topo (d\<lparr>d_chordEdges := xs\<rparr>) = topo d"
  "topo (d\<lparr>d_counterArray := c\<rparr>) = topo d"
  by (simp_all add: topo_def getter_defs)

lemma setIncrement_simps [simp, dag_simps]:
  "getIncrement (setIncrement e i d) = (getIncrement d)(e := i)"
  "isInitialization (setIncrement e i d) = isInitialization d"
  "isCounterIncrement (setIncrement e i d) = isCounterIncrement d"
  "isInSpanningTree (setIncrement e i d) = isInSpanningTree d"
  "d_treeEdges (setIncrement e i d) = d_treeEdges d"
  "d_chordEdges (setIncrement e i d) = d_chordEdges d"
  by (simp_all add: getter_defs setter_defs fun_eq_iff)

lemma setIsInitialization_simps [simp, dag_simps]:
  "isInitialization (setIsInitialization e b d) = (isInitialization d)(e := b)"
  "getIncrement (setIsInitialization e b d) = getIncrement d"
  "isCounterIncrement (setIsInitialization e b d) = isCounterIncrement d"
  "isInSpanningTree (setIsInitialization e b d) = isInSpanningTree d"
  by (simp_all add: getter_defs setter_defs fun_eq_iff)

lemma setIsCounterIncrement_simps [simp, dag_simps]:
  "isCounterIncrement (setIsCounterIncrement e b d) = (isCounterIncrement d)(e := b)"
  "getIncrement (setIsCounterIncrement e b d) = getIncrement d"
  "isInitialization (setIsCounterIncrement e b d) = isInitialization d"
  "isInSpanningTree (setIsCounterIncrement e b d) = isInSpanningTree d"
  by (simp_all add: getter_defs setter_defs fun_eq_iff)

lemma setIsInSpanningTree_simps [simp, dag_simps]:
  "isInSpanningTree (setIsInSpanningTree e b d) = (isInSpanningTree d)(e := b)"
  "getIncrement (setIsInSpanningTree e b d) = getIncrement d"
  "isInitialization (setIsInSpanningTree e b d) = isInitialization d"
  "isCounterIncrement (setIsInSpanningTree e b d) = isCounterIncrement d"
  by (simp_all add: getter_defs setter_defs fun_eq_iff)

lemma setColor_simps [simp, dag_simps]:
  "getColor (setColor v c d) = (getColor d)(v := c)"
  "getIncrement (setColor v c d) = getIncrement d"
  "isInitialization (setColor v c d) = isInitialization d"
  "isCounterIncrement (setColor v c d) = isCounterIncrement d"
  "isInSpanningTree (setColor v c d) = isInSpanningTree d"
  "d_treeEdges (setColor v c d) = d_treeEdges d"
  "d_chordEdges (setColor v c d) = d_chordEdges d"
  by (simp_all add: getter_defs setter_defs fun_eq_iff)

lemma edge_vector_simps [simp, dag_simps]:
  "getIncrement (d\<lparr>d_chordEdges := xs\<rparr>) = getIncrement d"
  "isInitialization (d\<lparr>d_chordEdges := xs\<rparr>) = isInitialization d"
  "isCounterIncrement (d\<lparr>d_chordEdges := xs\<rparr>) = isCounterIncrement d"
  "isInSpanningTree (d\<lparr>d_chordEdges := xs\<rparr>) = isInSpanningTree d"
  "getColor (d\<lparr>d_chordEdges := xs\<rparr>) = getColor d"
  "getIncrement (d\<lparr>d_treeEdges := xs\<rparr>) = getIncrement d"
  "isInitialization (d\<lparr>d_treeEdges := xs\<rparr>) = isInitialization d"
  "isCounterIncrement (d\<lparr>d_treeEdges := xs\<rparr>) = isCounterIncrement d"
  "isInSpanningTree (d\<lparr>d_treeEdges := xs\<rparr>) = isInSpanningTree d"
  by (simp_all add: getter_defs)

lemma setStartingPathNumber_simps [simp, dag_simps]:
  "getSource (setStartingPathNumber v p d) = getSource d"
  "getTarget (setStartingPathNumber v p d) = getTarget d"
  "getType (setStartingPathNumber v p d) = getType d"
  "getIncrement (setStartingPathNumber v p d) = getIncrement d"
  "isInitialization (setStartingPathNumber v p d) = isInitialization d"
  "isCounterIncrement (setStartingPathNumber v p d) = isCounterIncrement d"
  "hasInstrumentation (setStartingPathNumber v p d) = hasInstrumentation d"
  "getPhonyRoot (setStartingPathNumber v p d) = getPhonyRoot d"
  "getPhonyExit (setStartingPathNumber v p d) = getPhonyExit d"
  "getBlock (setStartingPathNumber v p d) = getBlock d"
  "succEdges (setStartingPathNumber v p d) = succEdges d"
  "predEdges (setStartingPathNumber v p d) = predEdges d"
  "getNumberSuccEdges (setStartingPathNumber v p d) = getNumberSuccEdges d"
  "getNumberPredEdges (setStartingPathNumber v p d) = getNumberPredEdges d"
  "getStartingPathNumber (setStartingPathNumber v p d) = (getStartingPathNumber d)(v := p)"
  "getEndingPathNumber (setStartingPathNumber v p d) = getEndingPathNumber d"
  "getPathPHI (setStartingPathNumber v p d) = getPathPHI d"
  "d_nodes (setStartingPathNumber v p d) = d_nodes d"
  "d_edges (setStartingPathNumber v p d) = d_edges d"
  "d_root (setStartingPathNumber v p d) = d_root d"
  "d_exit (setStartingPathNumber v p d) = d_exit d"
  "d_numberOfPaths (setStartingPathNumber v p d) = d_numberOfPaths d"
  by (simp_all add: getter_defs setter_defs getNumberSuccEdges_def getNumberPredEdges_def fun_eq_iff)

lemma setEndingPathNumber_simps [simp, dag_simps]:
  "getSource (setEndingPathNumber v p d) = getSource d"
  "getTarget (setEndingPathNumber v p d) = getTarget d"
  "getType (setEndingPathNumber v p d) = getType d"
  "getIncrement (setEndingPathNumber v p d) = getIncrement d"
  "isInitialization (setEndingPathNumber v p d) = isInitialization d"
  "isCounterIncrement (setEndingPathNumber v p d) = isCounterIncrement d"
  "hasInstrumentation (setEndingPathNumber v p d) = hasInstrumentation d"
  "getPhonyRoot (setEndingPathNumber v p d) = getPhonyRoot d"
  "getPhonyExit (setEndingPathNumber v p d) = getPhonyExit d"
  "getBlock (setEndingPathNumber v p d) = getBlock d"
  "succEdges (setEndingPathNumber v p d) = succEdges d"
  "predEdges (setEndingPathNumber v p d) = predEdges d"
  "getNumberSuccEdges (setEndingPathNumber v p d) = getNumberSuccEdges d"
  "getNumberPredEdges (setEndingPathNumber v p d) = getNumberPredEdges d"
  "getStartingPathNumber (setEndingPathNumber v p d) = getStartingPathNumber d"
  "getEndingPathNumber (setEndingPathNumber v p d) = (getEndingPathNumber d)(v := p)"
  "getPathPHI (setEndingPathNumber v p d) = getPathPHI d"
  "d_nodes (setEndingPathNumber v p d) = d_nodes d"
  "d_edges (setEndingPathNumber v p d) = d_edges d"
  "d_root (setEndingPathNumber v p d) = d_root d"
  "d_exit (setEndingPathNumber v p d) = d_exit d"
  "d_numberOfPaths (setEndingPathNumber v p d) = d_numberOfPaths d"
  by (simp_all add: getter_defs setter_defs getNumberSuccEdges_def getNumberPredEdges_def fun_eq_iff)

lemma setPathPHI_simps [simp, dag_simps]:
  "getSource (setPathPHI v q d) = getSource d"
  "getTarget (setPathPHI v q d) = getTarget d"
  "getType (setPathPHI v q d) = getType d"
  "getIncrement (setPathPHI v q d) = getIncrement d"
  "isInitialization (setPathPHI v q d) = isInitialization d"
  "isCounterIncrement (setPathPHI v q d) = isCounterIncrement d"
  "hasInstrumentation (setPathPHI v q d) = hasInstrumentation d"
  "getPhonyRoot (setPathPHI v q d) = getPhonyRoot d"
  "getPhonyExit (setPathPHI v q d) = getPhonyExit d"
  "getBlock (setPathPHI v q d) = getBlock d"
  "succEdges (setPathPHI v q d) = succEdges d"
  "predEdges (setPathPHI v q d) = predEdges d"
  "getNumberSuccEdges (setPathPHI v q d) = getNumberSuccEdges d"
  "getNumberPredEdges (setPathPHI v q d) = getNumberPredEdges d"
  "getStartingPathNumber (setPathPHI v q d) = getStartingPathNumber d"
  "getEndingPathNumber (setPathPHI v q d) = getEndingPathNumber d"
  "getPathPHI (setPathPHI v q d) = (getPathPHI d)(v := q)"
  "d_nodes (setPathPHI v q d) = d_nodes d"
  "d_edges (setPathPHI v q d) = d_edges d"
  "d_root (setPathPHI v q d) = d_root d"
  "d_exit (setPathPHI v q d) = d_exit d"
  "d_numberOfPaths (setPathPHI v q d) = d_numberOfPaths d"
  by (simp_all add: getter_defs setter_defs getNumberSuccEdges_def getNumberPredEdges_def fun_eq_iff)

lemma setHasInstrumentation_simps [simp, dag_simps]:
  "getSource (setHasInstrumentation e b d) = getSource d"
  "getTarget (setHasInstrumentation e b d) = getTarget d"
  "getType (setHasInstrumentation e b d) = getType d"
  "getIncrement (setHasInstrumentation e b d) = getIncrement d"
  "isInitialization (setHasInstrumentation e b d) = isInitialization d"
  "isCounterIncrement (setHasInstrumentation e b d) = isCounterIncrement d"
  "hasInstrumentation (setHasInstrumentation e b d) = (hasInstrumentation d)(e := b)"
  "getPhonyRoot (setHasInstrumentation e b d) = getPhonyRoot d"
  "getPhonyExit (setHasInstrumentation e b d) = getPhonyExit d"
  "getBlock (setHasInstrumentation e b d) = getBlock d"
  "succEdges (setHasInstrumentation e b d) = succEdges d"
  "predEdges (setHasInstrumentation e b d) = predEdges d"
  "getNumberSuccEdges (setHasInstrumentation e b d) = getNumberSuccEdges d"
  "getNumberPredEdges (setHasInstrumentation e b d) = getNumberPredEdges d"
  "getStartingPathNumber (setHasInstrumentation e b d) = getStartingPathNumber d"
  "getEndingPathNumber (setHasInstrumentation e b d) = getEndingPathNumber d"
  "getPathPHI (setHasInstrumentation e b d) = getPathPHI d"
  "d_nodes (setHasInstrumentation e b d) = d_nodes d"
  "d_edges (setHasInstrumentation e b d) = d_edges d"
  "d_root (setHasInstrumentation e b d) = d_root d"
  "d_exit (setHasInstrumentation e b d) = d_exit d"
  "d_numberOfPaths (setHasInstrumentation e b d) = d_numberOfPaths d"
  by (simp_all add: getter_defs setter_defs getNumberSuccEdges_def getNumberPredEdges_def fun_eq_iff)

section \<open>The dag handed over by BallLarusDag\<close>

text \<open>
  The edge from the exit back to the root is the first successor edge of the
  exit; reading it from an empty vector is undefined.
\<close>

definition getExitRootEdge :: "bl_dag \<Rightarrow> edge_id res" where
  "getExitRootEdge d = (case succEdges d (d_exit d) of [] \<Rightarrow> Inl Bad_Deref | e # _ \<Rightarrow> Inr e)"

definition getCallPhonyEdges :: "bl_dag \<Rightarrow> edge_id list" where
  "getCallPhonyEdges d = filter (\<lambda>e. getType d e = CALLEDGE_PHONY) (d_edges d)"

text \<open>
  The edges of the acyclic paths: neither loop back edges nor split edges (their
  phony partners stand for them) nor the edge from exit to root.
\<close>

definition dag_edge :: "bl_dag \<Rightarrow> edge_id \<Rightarrow> bool" where
  "dag_edge d e \<longleftrightarrow> e \<in> set (d_edges d) \<and> getType d e \<noteq> BACKEDGE \<and> getType d e \<noteq> SPLITEDGE
     \<and> getExitRootEdge d \<noteq> Inr e"

definition phony_partners :: "bl_dag \<Rightarrow> edge_id \<Rightarrow> bool" where
  "phony_partners d b \<longleftrightarrow> (case (getPhonyRoot d b, getPhonyExit d b) of
       (Some p, Some q) \<Rightarrow>
         p \<in> set (d_edges d) \<and> q \<in> set (d_edges d)
         \<and> getSource d p = d_root d \<and> getTarget d p = getTarget d b
         \<and> getSource d q = getSource d b \<and> getTarget d q = d_exit d
         \<and> getType d p \<in> {BACKEDGE_PHONY, SPLITEDGE_PHONY}
         \<and> getType d q \<in> {BACKEDGE_PHONY, SPLITEDGE_PHONY}
     | _ \<Rightarrow> False)"

text \<open>
  The well-formed dag: edge vectors agree with the ends of the edges, exit and
  root are joined by exactly one edge, which is the only edge into the root and
  the only edge out of the exit, \<open>rk\<close> ranks the nodes along the acyclic edges,
  and every back or split edge \<open>v \<rightarrow> w\<close> has its phony edges \<open>root \<rightarrow> w\<close> and
  \<open>v \<rightarrow> exit\<close>, as the head of the source file describes the conversion.
\<close>

definition bl_wf :: "(node_id \<Rightarrow> nat) \<Rightarrow> bl_dag \<Rightarrow> bool" where
  "bl_wf rk d \<longleftrightarrow>
     distinct (d_edges d) \<and> d_root d \<in> set (d_nodes d) \<and> d_exit d \<in> set (d_nodes d)
     \<and> d_root d \<noteq> d_exit d
     \<and> (\<forall>e\<in>set (d_edges d). getSource d e \<in> set (d_nodes d) \<and> getTarget d e \<in> set (d_nodes d))
     \<and> (\<forall>v\<in>set (d_nodes d). distinct (succEdges d v) \<and> distinct (predEdges d v)
          \<and> set (succEdges d v) = {e \<in> set (d_edges d). getSource d e = v}
          \<and> set (predEdges d v) = {e \<in> set (d_edges d). getTarget d e = v})
     \<and> length (succEdges d (d_exit d)) = 1
     \<and> predEdges d (d_root d) = succEdges d (d_exit d)
     \<and> (\<forall>e\<in>set (succEdges d (d_exit d)). getType d e = NORMAL)
     \<and> (\<forall>e\<in>set (d_edges d). dag_edge d e \<longrightarrow> rk (getSource d e) < rk (getTarget d e))
     \<and> (\<forall>e\<in>set (d_edges d). getType d e \<in> {BACKEDGE, SPLITEDGE} \<longrightarrow> phony_partners d e)"

lemma topo_eq_wf:
  assumes "topo d' = topo d"
  shows "getExitRootEdge d' = getExitRootEdge d" "dag_edge d' = dag_edge d"
    "bl_wf rk d' = bl_wf rk d" "getNumberPredEdges d' = getNumberPredEdges d"
    "getNumberSuccEdges d' = getNumberSuccEdges d" "phony_partners d' = phony_partners d"
    "getCallPhonyEdges d' = getCallPhonyEdges d"
proof -
  note t = topo_eqD [OF assms]
  show er: "getExitRootEdge d' = getExitRootEdge d"
    by (simp add: getExitRootEdge_def t)
  show de: "dag_edge d' = dag_edge d"
    by (simp add: dag_edge_def fun_eq_iff t er)
  show pp: "phony_partners d' = phony_partners d"
    by (simp add: phony_partners_def fun_eq_iff t split: option.splits)
  show "bl_wf rk d' = bl_wf rk d"
    by (simp add: bl_wf_def t de pp)
  show "getNumberPredEdges d' = getNumberPredEdges d"
    by (simp add: getNumberPredEdges_def fun_eq_iff t)
  show "getNumberSuccEdges d' = getNumberSuccEdges d"
    by (simp add: getNumberSuccEdges_def fun_eq_iff t)
  show "getCallPhonyEdges d' = getCallPhonyEdges d"
    by (simp add: getCallPhonyEdges_def t)
qed

lemmas topo_eqs = topo_eqD topo_eq_wf

subsection \<open>Consequences of well-formedness\<close>

lemma wf_succ_iff:
  assumes "bl_wf rk d" "v \<in> set (d_nodes d)"
  shows "e \<in> set (succEdges d v) \<longleftrightarrow> e \<in> set (d_edges d) \<and> getSource d e = v"
  using assms by (auto simp: bl_wf_def)

lemma wf_pred_iff:
  assumes "bl_wf rk d" "v \<in> set (d_nodes d)"
  shows "e \<in> set (predEdges d v) \<longleftrightarrow> e \<in> set (d_edges d) \<and> getTarget d e = v"
  using assms by (auto simp: bl_wf_def)

lemma wf_edge_vectors:
  assumes "bl_wf rk d" "v \<in> set (d_nodes d)"
  shows "distinct (succEdges d v)" "set (succEdges d v) = {e \<in> set (d_edges d). getSource d e = v}"
    "distinct (predEdges d v)" "set (predEdges d v) = {e \<in> set (d_edges d). getTarget d e = v}"
  using assms unfolding bl_wf_def by blast+

lemma wf_ends:
  assumes "bl_wf rk d" "e \<in> set (d_edges d)"
  shows "getSource d e \<in> set (d_nodes d)" "getTarget d e \<in> set (d_nodes d)"
  using assms by (auto simp: bl_wf_def)

lemma wf_rank:
  assumes "bl_wf rk d" "dag_edge d e"
  shows "rk (getSource d e) < rk (getTarget d e)"
  using assms by (auto simp: bl_wf_def dag_edge_def)

lemma wf_exit_root:
  assumes "bl_wf rk d"
  obtains er where "getExitRootEdge d = Inr er" "succEdges d (d_exit d) = [er]"
    "predEdges d (d_root d) = [er]" "er \<in> set (d_edges d)" "getSource d er = d_exit d"
    "getTarget d er = d_root d" "getType d er = NORMAL"
proof -
  from assms have "length (succEdges d (d_exit d)) = 1"
    and pr: "predEdges d (d_root d) = succEdges d (d_exit d)"
    and ty: "\<forall>e\<in>set (succEdges d (d_exit d)). getType d e = NORMAL"
    and ex: "d_exit d \<in> set (d_nodes d)" and ro: "d_root d \<in> set (d_nodes d)"
    by (auto simp: bl_wf_def)
  then obtain er where s: "succEdges d (d_exit d) = [er]"
    by (cases "succEdges d (d_exit d)") auto
  with wf_succ_iff [OF assms ex, of er] wf_pred_iff [OF assms ro, of er] pr ty
  show thesis by (intro that [of er]) (auto simp: getExitRootEdge_def)
qed

lemma wf_exit_root_edge:
  assumes "bl_wf rk d" "getExitRootEdge d = Inr e"
  shows "getSource d e = d_exit d" "getTarget d e = d_root d" "e \<in> set (d_edges d)"
    "getType d e = NORMAL" "succEdges d (d_exit d) = [e]" "predEdges d (d_root d) = [e]"
proof -
  from assms(1) obtain er where "getExitRootEdge d = Inr er" "succEdges d (d_exit d) = [er]"
      "predEdges d (d_root d) = [er]" "er \<in> set (d_edges d)" "getSource d er = d_exit d"
      "getTarget d er = d_root d" "getType d er = NORMAL"
    by (rule wf_exit_root)
  with assms(2) show "getSource d e = d_exit d" "getTarget d e = d_root d" "e \<in> set (d_edges d)"
    "getType d e = NORMAL" "succEdges d (d_exit d) = [e]" "predEdges d (d_root d) = [e]"
    by simp_all
qed

lemma wf_out_of_exit:
  assumes "bl_wf rk d" "e \<in> set (d_edges d)" "getSource d e = d_exit d"
  shows "getExitRootEdge d = Inr e"
proof -
  from assms(1) obtain er where er: "getExitRootEdge d = Inr er" "succEdges d (d_exit d) = [er]"
    by (rule wf_exit_root)
  from assms have "d_exit d \<in> set (d_nodes d)" by (simp add: bl_wf_def)
  from wf_succ_iff [OF assms(1) this, of e] assms(2,3) er show ?thesis by simp
qed

lemma wf_into_root:
  assumes "bl_wf rk d" "e \<in> set (d_edges d)" "getTarget d e = d_root d"
  shows "getExitRootEdge d = Inr e"
proof -
  from assms(1) obtain er where er: "getExitRootEdge d = Inr er" "predEdges d (d_root d) = [er]"
    by (rule wf_exit_root)
  from assms have "d_root d \<in> set (d_nodes d)" by (simp add: bl_wf_def)
  from wf_pred_iff [OF assms(1) this, of e] assms(2,3) er show ?thesis by simp
qed

lemma wf_loop_partners:
  assumes wf: "bl_wf rk d" and b: "b \<in> set (d_edges d)" and ty: "getType d b \<in> {BACKEDGE, SPLITEDGE}"
  obtains p q where "getPhonyRoot d b = Some p" "getPhonyExit d b = Some q"
    "dag_edge d p" "dag_edge d q" "p \<noteq> b" "q \<noteq> b"
    "getSource d p = d_root d" "getTarget d p = getTarget d b"
    "getSource d q = getSource d b" "getTarget d q = d_exit d"
proof -
  from wf b ty have "phony_partners d b" by (auto simp: bl_wf_def)
  then obtain p q where *: "getPhonyRoot d b = Some p" "getPhonyExit d b = Some q"
      "p \<in> set (d_edges d)" "q \<in> set (d_edges d)"
      "getSource d p = d_root d" "getTarget d p = getTarget d b"
      "getSource d q = getSource d b" "getTarget d q = d_exit d"
      "getType d p \<in> {BACKEDGE_PHONY, SPLITEDGE_PHONY}"
      "getType d q \<in> {BACKEDGE_PHONY, SPLITEDGE_PHONY}"
    by (auto simp: phony_partners_def split: option.splits)
  from wf obtain er where er: "getExitRootEdge d = Inr er" "getType d er = NORMAL"
    by (rule wf_exit_root)
  from * ty er(2) have ne: "er \<noteq> p" "er \<noteq> q" "p \<noteq> b" "q \<noteq> b" by auto
  from * ne(1,2) er(1) have "dag_edge d p" "dag_edge d q" by (auto simp: dag_edge_def)
  with * ne(3,4) that [of p q] show thesis by simp
qed

text \<open>The target of a loop or split edge has two predecessor edges, its source two successor edges.\<close>

lemma wf_loop_target_preds:
  assumes wf: "bl_wf rk d" and b: "b \<in> set (d_edges d)" and ty: "getType d b \<in> {BACKEDGE, SPLITEDGE}"
  shows "1 < getNumberPredEdges d (getTarget d b)"
proof -
  obtain p q where p: "dag_edge d p" "p \<noteq> b" "getTarget d p = getTarget d b"
    using wf b ty by (rule wf_loop_partners) blast
  have "b \<in> set (predEdges d (getTarget d b))" "p \<in> set (predEdges d (getTarget d b))"
    using wf_pred_iff [OF wf wf_ends(2) [OF wf b]] b p by (auto simp: dag_edge_def)
  then show ?thesis
    using p(2) two_members_length [of b _ p] by (simp add: getNumberPredEdges_def)
qed

lemma wf_loop_source_succs:
  assumes wf: "bl_wf rk d" and b: "b \<in> set (d_edges d)" and ty: "getType d b \<in> {BACKEDGE, SPLITEDGE}"
  shows "1 < getNumberSuccEdges d (getSource d b)"
proof -
  obtain p q where q: "dag_edge d q" "q \<noteq> b" "getSource d q = getSource d b"
    using wf b ty by (rule wf_loop_partners) blast
  have "b \<in> set (succEdges d (getSource d b))" "q \<in> set (succEdges d (getSource d b))"
    using wf_succ_iff [OF wf wf_ends(1) [OF wf b]] b q by (auto simp: dag_edge_def)
  then show ?thesis
    using q(2) two_members_length [of b _ q] by (simp add: getNumberSuccEdges_def)
qed

end
