(* ===== verification/BL_Spanning.thy ===== *)
theory BL_Spanning
  imports BL_Dag
begin

text \<open>
  \<open>BLInstrumentationDag::calculateSpanningTree\<close> and \<open>makeEdgeSpanning\<close>: the
  colouring of all nodes, the stack loop with its scan of the successor and
  then the predecessor edges of a node, and the collection of the chords. The
  lemmas say what the routine leaves in the dag.
\<close>

section \<open>The routine\<close>

definition makeEdgeSpanning :: "edge_id \<Rightarrow> bl_dag \<Rightarrow> bl_dag" where
  "makeEdgeSpanning e d =
     (let d1 = setIsInSpanningTree e True d in d1\<lparr>d_treeEdges := d_treeEdges d1 @ [e]\<rparr>)"

text \<open>The body of the scan for one edge; split edges are ignored.\<close>

definition spanning_visit_edge :: "bool \<Rightarrow> edge_id \<Rightarrow> bl_dag \<Rightarrow> bl_dag" where
  "spanning_visit_edge forward e d =
     (if getType d e = SPLITEDGE then d
      else let nextNode = (if forward then getTarget d e else getSource d e)
           in if getColor d nextNode \<noteq> WHITE
              then makeEdgeSpanning e (setColor nextNode WHITE d)
              else d)"

text \<open>
  The scan of one node runs a single iterator over the successor vector and, on
  reaching its end, moves it to the start of the predecessor vector and
  dereferences it there without a further test, so an empty predecessor vector
  behind a non-empty successor vector is read out of range. The loop condition
  compares with the end of the predecessor vector only; when both vectors are
  empty (both iterators null) it fails at once.
\<close>

definition spanning_scan_node :: "node_id \<Rightarrow> bl_dag \<Rightarrow> bl_dag res" where
  "spanning_scan_node v d =
     (if succEdges d v = [] \<and> predEdges d v = [] then Inr d
      else let d1 = fold (spanning_visit_edge True) (succEdges d v) d
           in if predEdges d v = [] then Inl Bad_Deref
              else Inr (fold (spanning_visit_edge False) (predEdges d v) d1))"

text \<open>The stack is popped and never pushed to inside the loop.\<close>

fun spanning_loop :: "node_id list \<Rightarrow> bl_dag \<Rightarrow> bl_dag res" where
  "spanning_loop [] d = Inr d"
| "spanning_loop (v # dfsStack) d =
     (if getColor d v = WHITE then spanning_loop dfsStack d
      else bind_res (spanning_scan_node v (setColor v WHITE d)) (spanning_loop dfsStack))"

definition add_chord :: "edge_id \<Rightarrow> bl_dag \<Rightarrow> bl_dag" where
  "add_chord e d =
     (if \<not> isInSpanningTree d e \<and> getType d e \<noteq> SPLITEDGE
      then d\<lparr>d_chordEdges := d_chordEdges d @ [e]\<rparr> else d)"

definition calculateSpanningTree :: "bl_dag \<Rightarrow> bl_dag res" where
  "calculateSpanningTree d =
     bind_res (spanning_loop [d_root d] (fold (\<lambda>v. setColor v WHITE) (d_nodes d) d))
       (\<lambda>d1. Inr (fold add_chord (d_edges d1) d1))"

section \<open>What it computes\<close>

text \<open>The colouring touches nothing but colours.\<close>

lemma whiten_keeps:
  "topo (fold (\<lambda>v. setColor v WHITE) vs d) = topo d"
  "getIncrement (fold (\<lambda>v. setColor v WHITE) vs d) = getIncrement d"
  "isInitialization (fold (\<lambda>v. setColor v WHITE) vs d) = isInitialization d"
  "isCounterIncrement (fold (\<lambda>v. setColor v WHITE) vs d) = isCounterIncrement d"
  "isInSpanningTree (fold (\<lambda>v. setColor v WHITE) vs d) = isInSpanningTree d"
  "d_treeEdges (fold (\<lambda>v. setColor v WHITE) vs d) = d_treeEdges d"
  "d_chordEdges (fold (\<lambda>v. setColor v WHITE) vs d) = d_chordEdges d"
  by (rule fold_keeps, simp)+

lemma whiten_color:
  "getColor (fold (\<lambda>v. setColor v WHITE) vs d) v = (if v \<in> set vs then WHITE else getColor d v)"
  by (induction vs arbitrary: d) auto

text \<open>
  Since every node, the root included, is white when the loop starts, and a
  white node is skipped, the loop ends without visiting a single edge.
\<close>

lemma spanning_loop_white: "getColor d v = WHITE \<Longrightarrow> spanning_loop [v] d = Inr d"
  by simp

lemma add_chords_eq:
  "fold add_chord es d = d\<lparr>d_chordEdges := d_chordEdges d @
     filter (\<lambda>e. \<not> isInSpanningTree d e \<and> getType d e \<noteq> SPLITEDGE) es\<rparr>"
proof (induction es arbitrary: d)
  case Nil
  show ?case by simp
next
  case (Cons e es)
  have "getType (add_chord e d) = getType d" "isInSpanningTree (add_chord e d) = isInSpanningTree d"
    by (simp_all add: add_chord_def getType_def)
  then show ?case by (simp add: Cons.IH) (simp add: add_chord_def)
qed

definition non_split_edges :: "bl_dag \<Rightarrow> edge_id list" where
  "non_split_edges d = filter (\<lambda>e. getType d e \<noteq> SPLITEDGE) (d_edges d)"

lemma calculateSpanningTree_result:
  assumes root: "d_root d \<in> set (d_nodes d)"
  shows "calculateSpanningTree d =
    Inr (let d1 = fold (\<lambda>v. setColor v WHITE) (d_nodes d) d
         in d1\<lparr>d_chordEdges := d_chordEdges d @
              filter (\<lambda>e. \<not> isInSpanningTree d e \<and> getType d e \<noteq> SPLITEDGE) (d_edges d)\<rparr>)"
proof -
  let ?d1 = "fold (\<lambda>v. setColor v WHITE) (d_nodes d) d"
  have "getColor ?d1 (d_root d) = WHITE" using root by (simp add: whiten_color)
  then have "spanning_loop [d_root d] ?d1 = Inr ?d1" by simp
  moreover have "topo ?d1 = topo d" by (rule whiten_keeps)
  note topo_eqD [OF this]
  ultimately show ?thesis
    by (simp add: calculateSpanningTree_def add_chords_eq whiten_keeps Let_def)
qed

lemma calculateSpanningTree_frame:
  assumes "d_root d \<in> set (d_nodes d)"
  obtains d' where "calculateSpanningTree d = Inr d'" "topo d' = topo d"
    "d_treeEdges d' = d_treeEdges d" "isInSpanningTree d' = isInSpanningTree d"
    "getIncrement d' = getIncrement d" "isInitialization d' = isInitialization d"
    "isCounterIncrement d' = isCounterIncrement d"
    "d_chordEdges d' = d_chordEdges d @
       filter (\<lambda>e. \<not> isInSpanningTree d e \<and> getType d e \<noteq> SPLITEDGE) (d_edges d)"
proof -
  show thesis
    by (rule that [OF calculateSpanningTree_result [OF assms]]) (simp_all add: whiten_keeps Let_def)
qed

end
