(* ===== verification/BL_Chords.thy ===== *)
theory BL_Chords
  imports BL_Spanning
begin

text \<open>
  \<open>BLInstrumentationDag::calculateChordIncrements\<close> with its depth first search
  \<open>calculateChordIncrementsDfs\<close> and the direction test
  \<open>calculateChordIncrementsDir\<close>, the algorithm of Figure 4 of [Ball94]. The
  recursion over the tree edges takes fuel; on a tree, one unit more than the
  number of tree edges is enough. The result is stated with a potential of the
  nodes: the increment of an edge becomes its weight plus the potential of its
  source minus the potential of its target, and tree edges become zero.
\<close>

section \<open>The algorithm\<close>

definition calculateChordIncrementsDir :: "bl_dag \<Rightarrow> edge_id option \<Rightarrow> edge_id \<Rightarrow> clong" where
  "calculateChordIncrementsDir d eo f =
     (case eo of
        None \<Rightarrow> 1
      | Some e \<Rightarrow> if getSource d e = getTarget d f \<or> getTarget d e = getSource d f then 1 else - 1)"

definition chord_visit :: "clong \<Rightarrow> node_id \<Rightarrow> edge_id option \<Rightarrow> edge_id \<Rightarrow> bl_dag \<Rightarrow> bl_dag" where
  "chord_visit weight v e f d =
     (if v = getSource d f \<or> v = getTarget d f
      then setIncrement f (getIncrement d f + calculateChordIncrementsDir d e f * weight) d
      else d)"

fun calculateChordIncrementsDfs ::
    "nat \<Rightarrow> clong \<Rightarrow> node_id \<Rightarrow> edge_id option \<Rightarrow> bl_dag \<Rightarrow> bl_dag res"
  and chord_tree_loop ::
    "nat \<Rightarrow> clong \<Rightarrow> node_id \<Rightarrow> edge_id option \<Rightarrow> edge_id list \<Rightarrow> bl_dag \<Rightarrow> bl_dag res"
where
  "calculateChordIncrementsDfs 0 weight v e d = Inl Out_Of_Fuel"
| "calculateChordIncrementsDfs (Suc n) weight v e d =
     bind_res (chord_tree_loop n weight v e (d_treeEdges d) d)
       (\<lambda>d1. Inr (fold (chord_visit weight v e) (d_chordEdges d1) d1))"
| "chord_tree_loop n weight v e [] d = Inr d"
| "chord_tree_loop n weight v e (f # fs) d =
     bind_res
       (if e \<noteq> Some f \<and> v = getTarget d f
        then calculateChordIncrementsDfs n
               (calculateChordIncrementsDir d e f * weight + getWeight d f) (getSource d f) (Some f) d
        else Inr d)
       (\<lambda>d1. bind_res
          (if e \<noteq> Some f \<and> v = getSource d1 f
           then calculateChordIncrementsDfs n
                  (calculateChordIncrementsDir d1 e f * weight + getWeight d1 f) (getTarget d1 f) (Some f) d1
           else Inr d1)
          (\<lambda>d2. chord_tree_loop n weight v e fs d2))"

definition add_weight :: "edge_id \<Rightarrow> bl_dag \<Rightarrow> bl_dag" where
  "add_weight f d = setIncrement f (getIncrement d f + getWeight d f) d"

definition calculateChordIncrements :: "nat \<Rightarrow> bl_dag \<Rightarrow> bl_dag res" where
  "calculateChordIncrements n d =
     bind_res (calculateChordIncrementsDfs n 0 (d_root d) None d)
       (\<lambda>d1. Inr (fold add_weight (d_chordEdges d1) d1))"

section \<open>Frames of the loops over the chords\<close>

definition same_but_increments :: "bl_dag \<Rightarrow> bl_dag \<Rightarrow> bool" where
  "same_but_increments d d' \<longleftrightarrow> topo d' = topo d \<and> d_treeEdges d' = d_treeEdges d
     \<and> d_chordEdges d' = d_chordEdges d \<and> isInitialization d' = isInitialization d
     \<and> isCounterIncrement d' = isCounterIncrement d"

lemma same_but_increments_refl [simp]: "same_but_increments d d"
  by (simp add: same_but_increments_def)

lemma same_but_increments_trans:
  "same_but_increments d d1 \<Longrightarrow> same_but_increments d1 d2 \<Longrightarrow> same_but_increments d d2"
  by (simp add: same_but_increments_def)

lemma same_but_increments_setIncrement [simp]: "same_but_increments d (setIncrement e i d)"
  by (simp add: same_but_increments_def)

lemma dir_topo: "topo d' = topo d \<Longrightarrow> calculateChordIncrementsDir d' = calculateChordIncrementsDir d"
  by (intro ext) (auto simp: calculateChordIncrementsDir_def topo_eqD [of d' d] split: option.splits)

lemma fold_chord_visit:
  assumes "distinct cs"
  shows "same_but_increments d (fold (chord_visit w v e) cs d) \<and>
    (\<forall>c. getIncrement (fold (chord_visit w v e) cs d) c = getIncrement d c +
      (if c \<in> set cs \<and> (v = getSource d c \<or> v = getTarget d c)
       then calculateChordIncrementsDir d e c * w else 0))"
  using assms
proof (induction cs arbitrary: d)
  case Nil
  show ?case by simp
next
  case (Cons f cs)
  let ?d1 = "chord_visit w v e f d"
  have s: "same_but_increments d ?d1" by (simp add: chord_visit_def)
  then have t: "topo ?d1 = topo d" by (simp add: same_but_increments_def)
  note IH = Cons.IH [of ?d1, unfolded topo_eqD [OF t] dir_topo [OF t]]
  from Cons.prems IH s show ?case
    by (auto simp: chord_visit_def intro: same_but_increments_trans)
qed

lemma fold_add_weight:
  assumes "distinct cs"
  shows "same_but_increments d (fold add_weight cs d) \<and>
    (\<forall>c. getIncrement (fold add_weight cs d) c =
       getIncrement d c + (if c \<in> set cs then getWeight d c else 0))"
  using assms
proof (induction cs arbitrary: d)
  case Nil
  show ?case by simp
next
  case (Cons f cs)
  let ?d1 = "add_weight f d"
  have s: "same_but_increments d ?d1" by (simp add: add_weight_def)
  then have t: "topo ?d1 = topo d" by (simp add: same_but_increments_def)
  note IH = Cons.IH [of ?d1, unfolded topo_eqD [OF t]]
  have i: "getIncrement ?d1 = (getIncrement d)(f := getIncrement d f + getWeight d f)"
    by (simp add: add_weight_def)
  from Cons.prems IH s i show ?case
    by (auto intro: same_but_increments_trans)
qed

section \<open>Rooted trees\<close>

text \<open>
  \<open>tree_grows d N T\<close>: the edges \<open>T\<close> form a tree on the nodes \<open>N\<close>, grown from the
  root by edges that reach a new node in either direction, the way
  \<open>makeEdgeSpanning\<close> is meant to be called.
\<close>

inductive tree_grows :: "bl_dag \<Rightarrow> node_id set \<Rightarrow> edge_id set \<Rightarrow> bool" for d where
  tree_root: "tree_grows d {d_root d} {}"
| tree_forward: "tree_grows d N T \<Longrightarrow> getSource d f \<in> N \<Longrightarrow> getTarget d f \<notin> N \<Longrightarrow>
     tree_grows d (insert (getTarget d f) N) (insert f T)"
| tree_backward: "tree_grows d N T \<Longrightarrow> getTarget d f \<in> N \<Longrightarrow> getSource d f \<notin> N \<Longrightarrow>
     tree_grows d (insert (getSource d f) N) (insert f T)"

text \<open>
  A rooted tree with the edge to the parent, the depth and the potential of each
  node. The potential of a node adds the weights on its tree path from the root,
  with the sign of the direction in which each edge is crossed.
\<close>

definition child_at :: "bl_dag \<Rightarrow> (node_id \<Rightarrow> edge_id option) \<Rightarrow> (node_id \<Rightarrow> nat) \<Rightarrow>
    (node_id \<Rightarrow> clong) \<Rightarrow> edge_id \<Rightarrow> node_id \<Rightarrow> node_id \<Rightarrow> bool" where
  "child_at d par dep pot f u v \<longleftrightarrow> par v = Some f \<and> par u \<noteq> Some f \<and> dep v = Suc (dep u)
     \<and> (getSource d f = u \<and> getTarget d f = v \<and> pot v = pot u + getWeight d f
        \<or> getTarget d f = u \<and> getSource d f = v \<and> pot v = pot u - getWeight d f)"

definition rooted_tree :: "bl_dag \<Rightarrow> node_id set \<Rightarrow> edge_id set \<Rightarrow> (node_id \<Rightarrow> edge_id option) \<Rightarrow>
    (node_id \<Rightarrow> nat) \<Rightarrow> (node_id \<Rightarrow> clong) \<Rightarrow> bool" where
  "rooted_tree d N T par dep pot \<longleftrightarrow>
     d_root d \<in> N \<and> par (d_root d) = None \<and> dep (d_root d) = 0 \<and> pot (d_root d) = 0
     \<and> (\<forall>f\<in>T. \<exists>u\<in>N. \<exists>v\<in>N. child_at d par dep pot f u v)
     \<and> (\<forall>v\<in>N. v \<noteq> d_root d \<longrightarrow> (\<exists>f\<in>T. \<exists>u\<in>N. child_at d par dep pot f u v))
     \<and> (\<forall>v. v \<notin> N \<longrightarrow> par v = None \<and> pot v = 0)
     \<and> (\<forall>v\<in>N. dep v \<le> card T) \<and> finite T"

lemma child_at_upd:
  assumes "child_at d par dep pot f u v" "u \<noteq> x" "v \<noteq> x" "f \<noteq> g"
  shows "child_at d (par(x := Some g)) (dep(x := n)) (pot(x := p)) f u v"
  using assms by (auto simp: child_at_def)

lemma rooted_tree_extend:
  assumes rt: "rooted_tree d N T par dep pot" and u: "u \<in> N" and x: "x \<notin> N"
    and e: "getSource d g = u \<and> getTarget d g = x \<and> p = pot u + getWeight d g
      \<or> getTarget d g = u \<and> getSource d g = x \<and> p = pot u - getWeight d g"
  shows "rooted_tree d (insert x N) (insert g T)
    (par(x := Some g)) (dep(x := Suc (dep u))) (pot(x := p))"
proof -
  have ux: "u \<noteq> x" using u x by auto
  have g: "g \<notin> T"
  proof
    assume "g \<in> T"
    with rt obtain u' v' where "u' \<in> N" "v' \<in> N" "child_at d par dep pot g u' v'"
      by (auto simp: rooted_tree_def)
    with e x show False by (auto simp: child_at_def)
  qed
  have par_u: "par u \<noteq> Some g"
  proof
    assume pu: "par u = Some g"
    then have "u \<noteq> d_root d" using rt by (auto simp: rooted_tree_def)
    then obtain f u' where "f \<in> T" "child_at d par dep pot f u' u"
      using rt u by (auto simp: rooted_tree_def)
    then show False using pu g by (auto simp: child_at_def)
  qed
  have new: "child_at d (par(x := Some g)) (dep(x := Suc (dep u))) (pot(x := p)) g u x"
    using e ux par_u by (auto simp: child_at_def)
  have old: "child_at d (par(x := Some g)) (dep(x := Suc (dep u))) (pot(x := p)) f a b"
    if "child_at d par dep pot f a b" "f \<in> T" "a \<in> N" "b \<in> N" for f a b
    using that g x by (intro child_at_upd) auto
  have "card (insert g T) = Suc (card T)" using g rt by (simp add: rooted_tree_def)
  moreover have "dep v \<le> card T" if "v \<in> N" for v using rt that by (simp add: rooted_tree_def)
  ultimately have dep: "\<forall>v\<in>insert x N. (dep(x := Suc (dep u))) v \<le> card (insert g T)"
    using u by (auto simp: le_SucI)
  have edges: "\<forall>f\<in>insert g T. \<exists>a\<in>insert x N. \<exists>b\<in>insert x N.
      child_at d (par(x := Some g)) (dep(x := Suc (dep u))) (pot(x := p)) f a b"
    using rt new old u unfolding rooted_tree_def by (metis insert_iff)
  have parents: "\<forall>b\<in>insert x N. b \<noteq> d_root d \<longrightarrow> (\<exists>f\<in>insert g T. \<exists>a\<in>insert x N.
      child_at d (par(x := Some g)) (dep(x := Suc (dep u))) (pot(x := p)) f a b)"
    using rt new old u unfolding rooted_tree_def by (metis insert_iff)
  from rt x dep edges parents show ?thesis
    by (auto simp: rooted_tree_def)
qed

lemma tree_grows_rooted:
  assumes "tree_grows d N T"
  shows "\<exists>par dep pot. rooted_tree d N T par dep pot"
  using assms
proof induction
  case tree_root
  have "rooted_tree d {d_root d} {} (\<lambda>_. None) (\<lambda>_. 0) (\<lambda>_. 0)"
    by (simp add: rooted_tree_def)
  then show ?case by blast
next
  case (tree_forward N T f)
  then show ?case using rooted_tree_extend [of d N T _ _ _ "getSource d f" "getTarget d f" f] by blast
next
  case (tree_backward N T f)
  then show ?case using rooted_tree_extend [of d N T _ _ _ "getTarget d f" "getSource d f" f] by blast
qed

section \<open>What the search adds to the chords\<close>

text \<open>\<open>below d par v x\<close>: the chain of parents of \<open>x\<close> passes through \<open>v\<close>.\<close>

definition other_end :: "bl_dag \<Rightarrow> edge_id \<Rightarrow> node_id \<Rightarrow> node_id" where
  "other_end d f v = (if getTarget d f = v then getSource d f else getTarget d f)"

inductive below :: "bl_dag \<Rightarrow> (node_id \<Rightarrow> edge_id option) \<Rightarrow> node_id \<Rightarrow> node_id \<Rightarrow> bool" for d par v where
  below_refl: "below d par v v"
| below_step: "par x = Some f \<Longrightarrow> below d par v (other_end d f x) \<Longrightarrow> below d par v x"

inductive_cases below_noneE: "below d par v x"

lemma child_at_ends:
  assumes "child_at d par dep pot f u v"
  shows "other_end d f v = u" "other_end d f u = v" "u \<noteq> v"
    "getSource d f = u \<or> getTarget d f = u" "getSource d f = v \<or> getTarget d f = v"
  using assms by (auto simp: child_at_def other_end_def)

text \<open>\<open>child_edge\<close>: the tree edges along which the search leaves a node.\<close>

definition child_edge :: "bl_dag \<Rightarrow> (node_id \<Rightarrow> edge_id option) \<Rightarrow> node_id \<Rightarrow> edge_id \<Rightarrow> bool" where
  "child_edge d par v f \<longleftrightarrow> par v \<noteq> Some f \<and> (v = getSource d f \<or> v = getTarget d f)"

lemma child_edge_child:
  assumes "rooted_tree d N T par dep pot" "f \<in> T" "child_edge d par v f"
  shows "child_at d par dep pot f v (other_end d f v)" "v \<in> N" "other_end d f v \<in> N"
proof -
  from assms(1,2) obtain a b where ab: "a \<in> N" "b \<in> N" "child_at d par dep pot f a b"
    by (auto simp: rooted_tree_def)
  with assms(3) have "v = a" by (auto simp: child_edge_def child_at_def)
  with ab child_at_ends [OF ab(3)]
  show "child_at d par dep pot f v (other_end d f v)" "v \<in> N" "other_end d f v \<in> N" by auto
qed

lemma below_depth:
  assumes "rooted_tree d N T par dep pot" "below d par v x"
  shows "x = v \<or> dep v < dep x"
  using assms(2,1)
proof induction
  case below_refl
  show ?case by simp
next
  case (below_step x f)
  have "x \<noteq> d_root d" "x \<in> N"
    using below_step.hyps(1) below_step.prems by (auto simp: rooted_tree_def)
  then obtain g u where "child_at d par dep pot g u x"
    using below_step.prems by (auto simp: rooted_tree_def)
  moreover from this have "g = f" using below_step.hyps(1) by (simp add: child_at_def)
  ultimately have "dep x = Suc (dep (other_end d f x))"
    using child_at_ends(1) by (auto simp: child_at_def)
  then show ?case using below_step.IH [OF below_step.prems] by auto
qed

lemma below_child_iff:
  assumes rt: "rooted_tree d N T par dep pot" and v: "v \<in> N"
  shows "below d par v x \<longleftrightarrow> x = v \<or> (\<exists>f\<in>T. child_edge d par v f \<and> below d par (other_end d f v) x)"
proof
  assume "below d par v x"
  then show "x = v \<or> (\<exists>f\<in>T. child_edge d par v f \<and> below d par (other_end d f v) x)"
  proof induction
    case below_refl
    show ?case by simp
  next
    case (below_step x f)
    have "x \<noteq> d_root d" "x \<in> N"
      using below_step.hyps(1) rt by (auto simp: rooted_tree_def)
    then obtain g u where g: "g \<in> T" "child_at d par dep pot g u x"
      using rt by (auto simp: rooted_tree_def)
    then have gf: "g = f" using below_step.hyps(1) by (simp add: child_at_def)
    have u: "other_end d f x = u" "other_end d f u = x"
      using child_at_ends [OF g(2)] gf by auto
    show ?case
    proof (cases "u = v")
      case True
      then have "child_edge d par v f"
        using g gf by (auto simp: child_edge_def child_at_def)
      moreover have "below d par (other_end d f v) x"
        using u True by (simp add: below.below_refl)
      ultimately show ?thesis using g(1) gf by blast
    next
      case False
      then obtain h where h: "h \<in> T" "child_edge d par v h" "below d par (other_end d h v) u"
        using below_step.IH u by auto
      then have "below d par (other_end d h v) x"
        using below_step.hyps(1) u by (auto intro: below.below_step)
      then show ?thesis using h by blast
    qed
  qed
next
  have step: "below d par v x" if "f \<in> T" "child_edge d par v f" "below d par (other_end d f v) x" for f
    using that(3)
  proof induction
    case below_refl
    have c: "child_at d par dep pot f v (other_end d f v)"
      by (rule child_edge_child [OF rt that(1,2)])
    then have p: "par (other_end d f v) = Some f" unfolding child_at_def by blast
    show ?case
      using below.below_step [of par "other_end d f v" f d v] p child_at_ends(1) [OF c]
      by (simp only: below.below_refl)
  next
    case (below_step x g)
    then show ?case by (intro below.below_step [of par x g])
  qed
  assume "x = v \<or> (\<exists>f\<in>T. child_edge d par v f \<and> below d par (other_end d f v) x)"
  then show "below d par v x"
  proof
    assume "x = v"
    then show ?thesis by (simp only: below.below_refl)
  next
    assume "\<exists>f\<in>T. child_edge d par v f \<and> below d par (other_end d f v) x"
    then show ?thesis using step by blast
  qed
qed

lemma below_parent_unique:
  assumes rt: "rooted_tree d N T par dep pot"
    and f: "f \<in> T" "child_edge d par v f" "below d par (other_end d f v) x"
    and g: "g \<in> T" "child_edge d par v g" "below d par (other_end d g v) x"
  shows "f = g"
  using f(3) g(3)
proof induction
  case below_refl
  let ?c = "other_end d f v"
  have cf: "child_at d par dep pot f v ?c" by (rule child_edge_child [OF rt f(1,2)])
  have cg: "child_at d par dep pot g v (other_end d g v)" by (rule child_edge_child [OF rt g(1,2)])
  have "dep ?c = dep (other_end d g v)" using cf cg by (simp add: child_at_def)
  with below_depth [OF rt below_refl] have "?c = other_end d g v" by auto
  with cf cg show ?case by (simp add: child_at_def)
next
  case (below_step x h)
  have cf: "child_at d par dep pot f v (other_end d f v)" by (rule child_edge_child [OF rt f(1,2)])
  have cg: "child_at d par dep pot g v (other_end d g v)" by (rule child_edge_child [OF rt g(1,2)])
  show ?case
  proof (cases "x = other_end d g v")
    case True
    then have "h = g" using cg below_step.hyps(1) by (simp add: child_at_def)
    then have "other_end d h x = v" using child_at_ends(1) [OF cg] True by simp
    then have "v = other_end d f v \<or> dep (other_end d f v) < dep v"
      using below_depth [OF rt below_step.hyps(2)] by simp
    then show ?thesis using cf by (auto simp: child_at_def)
  next
    case False
    from below_step.prems have "below d par (other_end d g v) (other_end d h x)"
      using False below_step.hyps(1) by (cases rule: below.cases) auto
    then show ?thesis by (rule below_step.IH)
  qed
qed

text \<open>An amount that is due at the nodes below \<open>v\<close> splits over \<open>v\<close> and its children.\<close>

lemma below_split_sum:
  fixes a :: clong
  assumes rt: "rooted_tree d N T par dep pot" and v: "v \<in> N"
    and ts: "distinct ts" "set ts = T"
  shows "(if below d par v x then a else 0) = (if x = v then a else 0) +
    (\<Sum>f\<leftarrow>ts. if child_edge d par v f then (if below d par (other_end d f v) x then a else 0) else 0)"
    (is "_ = _ + (\<Sum>f\<leftarrow>ts. ?g f)")
proof (cases "\<exists>f\<in>T. child_edge d par v f \<and> below d par (other_end d f v) x")
  case True
  then obtain f where f: "f \<in> T" "child_edge d par v f" "below d par (other_end d f v) x" by blast
  have "dep (other_end d f v) = Suc (dep v)"
    using child_edge_child(1) [OF rt f(1,2)] unfolding child_at_def by blast
  with below_depth [OF rt f(3)] have "x \<noteq> v" by fastforce
  moreover have "(\<Sum>f\<leftarrow>ts. ?g f) = ?g f"
  proof (rule sum_list_single [of ts f ?g])
    show "distinct ts" "f \<in> set ts" using ts f(1) by simp_all
    fix g
    assume g: "g \<in> set ts" "g \<noteq> f"
    show "?g g = 0"
    proof (rule ccontr)
      assume "?g g \<noteq> 0"
      then have "child_edge d par v g" "below d par (other_end d g v) x"
        by (simp_all split: if_splits)
      with below_parent_unique [OF rt f] g ts(2) show False by blast
    qed
  qed
  moreover have "below d par v x" using f below_child_iff [OF rt v, of x] by blast
  ultimately show ?thesis using f(2,3) by simp
next
  case False
  then have "(\<Sum>f\<leftarrow>ts. ?g f) = 0"
    using ts(2) by (intro sum_list_all_zero [of ts ?g]) auto
  moreover have "below d par v x \<longleftrightarrow> x = v" using False below_child_iff [OF rt v, of x] by blast
  ultimately show ?thesis by simp
qed

text \<open>
  The weight that the search carries to a node is the potential of the node,
  negated when the edge it arrived by points away from the node.
\<close>

definition arrive_weight :: "bl_dag \<Rightarrow> (node_id \<Rightarrow> edge_id option) \<Rightarrow> (node_id \<Rightarrow> clong) \<Rightarrow> node_id \<Rightarrow> clong" where
  "arrive_weight d par pot v =
     (case par v of None \<Rightarrow> 0 | Some f \<Rightarrow> if getTarget d f = v then pot v else - pot v)"

definition due :: "bl_dag \<Rightarrow> (node_id \<Rightarrow> edge_id option) \<Rightarrow> (node_id \<Rightarrow> clong) \<Rightarrow> node_id \<Rightarrow> edge_id \<Rightarrow> clong" where
  "due d par pot v c =
     (if below d par v (getSource d c) then pot (getSource d c) else 0)
     - (if below d par v (getTarget d c) then pot (getTarget d c) else 0)"

lemma tree_node_cases:
  assumes "rooted_tree d N T par dep pot" "v \<in> N"
  obtains "par v = None" "pot v = 0" | e u where "par v = Some e" "child_at d par dep pot e u v"
proof (cases "v = d_root d")
  case True
  with assms that(1) show thesis by (auto simp: rooted_tree_def)
next
  case False
  with assms obtain e u where "child_at d par dep pot e u v" by (auto simp: rooted_tree_def)
  with that(2) show thesis by (auto simp: child_at_def)
qed

lemma arrive_weight_child:
  assumes rt: "rooted_tree d N T par dep pot" and f: "f \<in> T" "child_edge d par v f"
  shows "arrive_weight d par pot (other_end d f v) =
    calculateChordIncrementsDir d (par v) f * arrive_weight d par pot v + getWeight d f"
proof -
  define c where "c = other_end d f v"
  have c: "child_at d par dep pot f v c" and v: "v \<in> N"
    using child_edge_child [OF rt f] by (simp_all add: c_def)
  have vc: "v \<noteq> c" by (rule child_at_ends(3) [OF c])
  have pc: "par c = Some f" using c by (simp add: child_at_def)
  have dir: "getSource d f = v \<and> getTarget d f = c \<and> pot c = pot v + getWeight d f
      \<or> getTarget d f = v \<and> getSource d f = c \<and> pot c = pot v - getWeight d f"
    using c by (simp add: child_at_def)
  from rt v have "arrive_weight d par pot c =
    calculateChordIncrementsDir d (par v) f * arrive_weight d par pot v + getWeight d f"
  proof (cases rule: tree_node_cases)
    case 1
    from dir show ?thesis
      by (elim disjE conjE) (simp_all add: arrive_weight_def calculateChordIncrementsDir_def pc 1 vc)
  next
    case (2 e u)
    have uv: "u \<noteq> v" by (rule child_at_ends(3) [OF 2(2)])
    have "getSource d e = u \<and> getTarget d e = v \<or> getTarget d e = u \<and> getSource d e = v"
      using 2(2) by (auto simp: child_at_def)
    with dir show ?thesis
      by (elim disjE conjE)
        (simp_all add: arrive_weight_def calculateChordIncrementsDir_def pc 2(1) vc uv vc [symmetric] uv [symmetric])
  qed
  then show ?thesis by (simp add: c_def)
qed

lemma chord_contribution:
  assumes rt: "rooted_tree d N T par dep pot" and v: "v \<in> N" and c: "getSource d c \<noteq> getTarget d c"
  shows "(if v = getSource d c \<or> v = getTarget d c
      then calculateChordIncrementsDir d (par v) c * arrive_weight d par pot v else 0) =
    (if getSource d c = v then pot (getSource d c) else 0)
    - (if getTarget d c = v then pot (getTarget d c) else 0)"
  using rt v
proof (cases rule: tree_node_cases)
  case 1
  then show ?thesis by (auto simp: arrive_weight_def)
next
  case (2 e u)
  have uv: "u \<noteq> v" by (rule child_at_ends(3) [OF 2(2)])
  have e: "getSource d e = u \<and> getTarget d e = v \<or> getTarget d e = u \<and> getSource d e = v"
    using 2(2) by (auto simp: child_at_def)
  consider "getSource d c = v" "getTarget d c \<noteq> v" | "getTarget d c = v" "getSource d c \<noteq> v"
    | "getTarget d c \<noteq> v" "getSource d c \<noteq> v"
    using c by auto
  then show ?thesis
    using e by cases (elim disjE conjE;
      simp add: arrive_weight_def calculateChordIncrementsDir_def 2(1) uv uv [symmetric])+
qed

lemma due_split:
  assumes rt: "rooted_tree d N T par dep pot" and v: "v \<in> N" and ts: "distinct ts" "set ts = T"
  shows "due d par pot v c =
    (if getSource d c = v then pot (getSource d c) else 0)
    - (if getTarget d c = v then pot (getTarget d c) else 0)
    + (\<Sum>f\<leftarrow>ts. if child_edge d par v f then due d par pot (other_end d f v) c else 0)"
proof -
  let ?g = "\<lambda>x f. if child_edge d par v f then (if below d par (other_end d f v) x then pot x else 0) else 0"
  have "(if child_edge d par v f then due d par pot (other_end d f v) c else 0) =
      ?g (getSource d c) f - ?g (getTarget d c) f" for f
    by (simp add: due_def)
  then have "(\<Sum>f\<leftarrow>ts. if child_edge d par v f then due d par pot (other_end d f v) c else 0) =
      (\<Sum>f\<leftarrow>ts. ?g (getSource d c) f) - (\<Sum>f\<leftarrow>ts. ?g (getTarget d c) f)"
    by (simp add: sum_list_subtractf)
  then show ?thesis
    unfolding due_def [of d par pot v c] below_split_sum [OF rt v ts]
    by (simp add: algebra_simps)
qed

text \<open>The search started at a node with the weight due there ends, and adds to each chord what is due.\<close>

definition search_adds :: "bl_dag \<Rightarrow> (edge_id \<Rightarrow> clong) \<Rightarrow> edge_id list \<Rightarrow> bl_dag \<Rightarrow> bl_dag \<Rightarrow> bool" where
  "search_adds d0 a cs d d' \<longleftrightarrow> same_but_increments d d' \<and>
     (\<forall>c. getSource d0 c \<noteq> getTarget d0 c \<longrightarrow>
        getIncrement d' c = getIncrement d c + (if c \<in> set cs then a c else 0))"

lemma search_adds_trans:
  assumes "search_adds d0 a cs d d1" "search_adds d0 b cs d1 d2"
  shows "search_adds d0 (\<lambda>c. a c + b c) cs d d2"
  using assms by (auto simp: search_adds_def intro: same_but_increments_trans)

lemma search_adds_zero: "search_adds d0 (\<lambda>c. 0) cs d d"
  by (simp add: search_adds_def)

lemma chord_tree_loop_adds:
  assumes rt: "rooted_tree d0 N T par dep pot" and fs: "set fs \<subseteq> T" and v: "v \<in> N"
    and call: "\<And>f d. f \<in> T \<Longrightarrow> child_edge d0 par v f \<Longrightarrow> topo d = topo d0 \<Longrightarrow> d_treeEdges d = ts \<Longrightarrow>
      d_chordEdges d = cs \<Longrightarrow> \<exists>d'. calculateChordIncrementsDfs n
        (arrive_weight d0 par pot (other_end d0 f v)) (other_end d0 f v) (Some f) d = Inr d' \<and>
        search_adds d0 (due d0 par pot (other_end d0 f v)) cs d d'"
    and d: "topo d = topo d0" "d_treeEdges d = ts" "d_chordEdges d = cs"
  shows "\<exists>d'. chord_tree_loop n (arrive_weight d0 par pot v) v (par v) fs d = Inr d' \<and>
    search_adds d0 (\<lambda>c. \<Sum>f\<leftarrow>fs. if child_edge d0 par v f then due d0 par pot (other_end d0 f v) c else 0) cs d d'"
  using fs d
proof (induction fs arbitrary: d)
  case Nil
  then show ?case by (simp add: search_adds_zero)
next
  case (Cons f fs)
  let ?a = "\<lambda>fs c. \<Sum>f\<leftarrow>fs. if child_edge d0 par v f then due d0 par pot (other_end d0 f v) c else 0"
  note t = topo_eqD [OF Cons.prems(2)] and dir = dir_topo [OF Cons.prems(2)]
  have f: "f \<in> T" using Cons.prems by simp
  show ?case
  proof (cases "child_edge d0 par v f")
    case False
    then have "chord_tree_loop n (arrive_weight d0 par pot v) v (par v) (f # fs) d =
        chord_tree_loop n (arrive_weight d0 par pot v) v (par v) fs d"
      by (auto simp: t child_edge_def)
    with False Cons.IH [of d] Cons.prems show ?thesis by simp
  next
    case True
    obtain d1 where d1: "calculateChordIncrementsDfs n
        (arrive_weight d0 par pot (other_end d0 f v)) (other_end d0 f v) (Some f) d = Inr d1"
        "search_adds d0 (due d0 par pot (other_end d0 f v)) cs d d1"
      using call [OF f True Cons.prems(2-4)] by blast
    then have s: "topo d1 = topo d0" "d_treeEdges d1 = ts" "d_chordEdges d1 = cs"
      using Cons.prems by (simp_all add: search_adds_def same_but_increments_def)
    obtain d2 where d2: "chord_tree_loop n (arrive_weight d0 par pot v) v (par v) fs d1 = Inr d2"
        "search_adds d0 (?a fs) cs d1 d2"
      using Cons.IH [of d1] Cons.prems s by auto
    have c: "child_at d0 par dep pot f v (other_end d0 f v)" by (rule child_edge_child [OF rt f True])
    have "chord_tree_loop n (arrive_weight d0 par pot v) v (par v) (f # fs) d = Inr d2"
      using True d1(1) d2(1) child_at_ends [OF c] arrive_weight_child [OF rt f True]
      by (auto simp: t dir child_edge_def topo_eqD [OF s(1)] dir_topo [OF s(1)] other_end_def split: if_splits)
    moreover have "search_adds d0 (?a (f # fs)) cs d d2"
      using search_adds_trans [OF d1(2) d2(2)] True by simp
    ultimately show ?thesis by blast
  qed
qed

lemma calculateChordIncrementsDfs_adds:
  assumes rt: "rooted_tree d0 N T par dep pot" and ts: "distinct ts" "set ts = T" and cs: "distinct cs"
    and v: "v \<in> N" "\<forall>x\<in>N. dep x < dep v + n"
    and d: "topo d = topo d0" "d_treeEdges d = ts" "d_chordEdges d = cs"
  shows "\<exists>d'. calculateChordIncrementsDfs n (arrive_weight d0 par pot v) v (par v) d = Inr d' \<and>
    search_adds d0 (due d0 par pot v) cs d d'"
  using v d
proof (induction n arbitrary: v d)
  case 0
  then show ?case by auto
next
  case (Suc n)
  let ?a = "\<lambda>c. \<Sum>f\<leftarrow>ts. if child_edge d0 par v f then due d0 par pot (other_end d0 f v) c else 0"
  have call: "\<exists>d'. calculateChordIncrementsDfs n (arrive_weight d0 par pot (other_end d0 f v))
        (other_end d0 f v) (Some f) d = Inr d' \<and> search_adds d0 (due d0 par pot (other_end d0 f v)) cs d d'"
    if f: "f \<in> T" "child_edge d0 par v f" and d: "topo d = topo d0" "d_treeEdges d = ts" "d_chordEdges d = cs"
    for f d
  proof -
    note c = child_edge_child [OF rt f]
    have "par (other_end d0 f v) = Some f" "dep (other_end d0 f v) = Suc (dep v)"
      using c(1) by (simp_all add: child_at_def)
    with Suc.IH [of "other_end d0 f v" d] c(3) d Suc.prems(2) show ?thesis by simp
  qed
  obtain d1 where d1: "chord_tree_loop n (arrive_weight d0 par pot v) v (par v) ts d = Inr d1"
      "search_adds d0 ?a cs d d1"
    using chord_tree_loop_adds [OF rt _ Suc.prems(1) call Suc.prems(3-5), of ts] ts by blast
  then have s: "topo d1 = topo d0" "d_chordEdges d1 = cs"
    using Suc.prems by (simp_all add: search_adds_def same_but_increments_def)
  let ?d2 = "fold (chord_visit (arrive_weight d0 par pot v) v (par v)) cs d1"
  let ?b = "\<lambda>c. (if getSource d0 c = v then pot (getSource d0 c) else 0)
    - (if getTarget d0 c = v then pot (getTarget d0 c) else 0)"
  have "search_adds d0 ?b cs d1 ?d2"
    using fold_chord_visit [OF cs, of d1 "arrive_weight d0 par pot v" v "par v"]
      chord_contribution [OF rt Suc.prems(1)]
    unfolding search_adds_def topo_eqD [OF s(1)] dir_topo [OF s(1)] by (simp split: if_splits)
  from search_adds_trans [OF d1(2) this]
  have "search_adds d0 (due d0 par pot v) cs d ?d2"
    unfolding search_adds_def due_split [OF rt Suc.prems(1) ts] by (simp add: algebra_simps)
  with d1(1) s(2) Suc.prems(4) show ?case by auto
qed

section \<open>The increments of the chords\<close>

lemma tree_below_root:
  assumes rt: "rooted_tree d N T par dep pot" and x: "x \<in> N"
  shows "below d par (d_root d) x"
  using x
proof (induction "dep x" arbitrary: x rule: less_induct)
  case less
  show ?case
  proof (cases "x = d_root d")
    case True
    then show ?thesis by (simp only: below.below_refl)
  next
    case False
    with rt less.prems obtain f u where u: "u \<in> N" "child_at d par dep pot f u x"
      by (auto simp: rooted_tree_def)
    then have "below d par (d_root d) u" by (intro less.hyps) (simp_all add: child_at_def)
    moreover have "par x = Some f" using u(2) by (simp add: child_at_def)
    ultimately show ?thesis
      using below.below_step [of par x f d "d_root d"] child_at_ends(1) [OF u(2)] by simp
  qed
qed

lemma due_root:
  assumes rt: "rooted_tree d N T par dep pot"
  shows "due d par pot (d_root d) c = pot (getSource d c) - pot (getTarget d c)"
proof -
  have "(if below d par (d_root d) x then pot x else 0) = pot x" for x
    using tree_below_root [OF rt, of x] rt by (auto simp: rooted_tree_def)
  then show ?thesis by (simp add: due_def)
qed

lemma tree_edge_balance:
  assumes "rooted_tree d N T par dep pot" "f \<in> T"
  shows "getWeight d f + pot (getSource d f) - pot (getTarget d f) = 0"
  using assms by (force simp: rooted_tree_def child_at_def)

lemma calculateChordIncrements_potential:
  assumes tree: "tree_grows d N (set (d_treeEdges d))" and ts: "distinct (d_treeEdges d)"
    and cs: "distinct (d_chordEdges d)" and fuel: "length (d_treeEdges d) < n"
  obtains pot d' where "calculateChordIncrements n d = Inr d'" "same_but_increments d d'"
    "\<And>v. v \<notin> N \<Longrightarrow> pot v = 0" "pot (d_root d) = 0"
    "\<And>c. c \<in> set (d_chordEdges d) \<Longrightarrow> getSource d c \<noteq> getTarget d c \<Longrightarrow>
       getIncrement d' c = getIncrement d c + getWeight d c + pot (getSource d c) - pot (getTarget d c)"
    "\<And>f. f \<in> set (d_treeEdges d) \<Longrightarrow> getWeight d f + pot (getSource d f) - pot (getTarget d f) = 0"
    "\<And>f. f \<notin> set (d_chordEdges d) \<Longrightarrow> getSource d f \<noteq> getTarget d f \<Longrightarrow>
       getIncrement d' f = getIncrement d f"
proof -
  obtain par dep pot where rt: "rooted_tree d N (set (d_treeEdges d)) par dep pot"
    using tree_grows_rooted [OF tree] by blast
  have root: "d_root d \<in> N" "par (d_root d) = None" "pot (d_root d) = 0" "dep (d_root d) = 0"
    using rt by (simp_all add: rooted_tree_def)
  have "\<forall>x\<in>N. dep x < dep (d_root d) + n"
    using rt fuel by (auto simp: rooted_tree_def distinct_card [OF ts])
  from calculateChordIncrementsDfs_adds [OF rt ts refl cs root(1) this refl refl refl]
  obtain d1 where d1: "calculateChordIncrementsDfs n 0 (d_root d) None d = Inr d1"
      "search_adds d (due d par pot (d_root d)) (d_chordEdges d) d d1"
    by (auto simp: root arrive_weight_def)
  let ?d2 = "fold add_weight (d_chordEdges d) d1"
  from d1(2) have s: "same_but_increments d d1" by (simp add: search_adds_def)
  then have t: "topo d1 = topo d" "d_chordEdges d1 = d_chordEdges d"
    by (simp_all add: same_but_increments_def)
  note w = fold_add_weight [OF cs, of d1, unfolded topo_eqD [OF t(1)]]
  show thesis
  proof (rule that [of ?d2 pot])
    show "calculateChordIncrements n d = Inr ?d2"
      by (simp add: calculateChordIncrements_def d1(1) t(2))
    show "same_but_increments d ?d2"
      using s w by (auto intro: same_but_increments_trans)
    show "pot v = 0" if "v \<notin> N" for v using rt that by (simp add: rooted_tree_def)
    show "pot (d_root d) = 0" by (rule root)
    show "getIncrement ?d2 c = getIncrement d c + getWeight d c + pot (getSource d c) - pot (getTarget d c)"
      if "c \<in> set (d_chordEdges d)" "getSource d c \<noteq> getTarget d c" for c
      using d1(2) w that by (simp add: search_adds_def due_root [OF rt])
    show "getWeight d f + pot (getSource d f) - pot (getTarget d f) = 0" if "f \<in> set (d_treeEdges d)" for f
      using rt that by (rule tree_edge_balance)
    show "getIncrement ?d2 f = getIncrement d f"
      if "f \<notin> set (d_chordEdges d)" "getSource d f \<noteq> getTarget d f" for f
      using d1(2) w that by (simp add: search_adds_def)
  qed
qed

text \<open>With no tree edges nothing is moved: every chord keeps its own weight.\<close>

lemma calculateChordIncrements_no_tree:
  assumes "d_treeEdges d = []" and cs: "distinct (d_chordEdges d)" and n: "0 < n"
  obtains d' where "calculateChordIncrements n d = Inr d'" "same_but_increments d d'"
    "\<And>c. getIncrement d' c =
       getIncrement d c + (if c \<in> set (d_chordEdges d) then getWeight d c else 0)"
proof -
  obtain m where m: "n = Suc m" using n by (cases n) auto
  let ?d1 = "fold (chord_visit 0 (d_root d) None) (d_chordEdges d) d"
  have dfs: "calculateChordIncrementsDfs n 0 (d_root d) None d = Inr ?d1"
    using assms(1) by (simp add: m)
  note v = fold_chord_visit [OF cs, of d 0 "d_root d" None]
  have t: "topo ?d1 = topo d" "d_chordEdges ?d1 = d_chordEdges d"
    using v by (auto simp: same_but_increments_def)
  note w = fold_add_weight [OF cs, of ?d1, unfolded topo_eqD [OF t(1)]]
  show thesis
    by (rule that [of "fold add_weight (d_chordEdges d) ?d1"])
      (use v w in \<open>auto simp: calculateChordIncrements_def dfs t(2) intro: same_but_increments_trans\<close>)
qed

end
