(* ===== verification/BL_Paths.thy ===== *)
theory BL_Paths
  imports BL_Chords
begin

text \<open>
  Walks and acyclic paths of the dag, sums along them, and the interface
  \<open>placement_pass\<close>: a pass over the dag that keeps its shape and changes the
  increments of the edges by a difference of node potentials only. Such a pass
  does not change the sum of the increments around any cycle, so it does not
  change the number that a path gets.
\<close>

section \<open>Walks\<close>

fun walk :: "bl_dag \<Rightarrow> node_id \<Rightarrow> edge_id list \<Rightarrow> node_id \<Rightarrow> bool" where
  "walk d u [] v \<longleftrightarrow> u = v"
| "walk d u (e # es) v \<longleftrightarrow> getSource d e = u \<and> walk d (getTarget d e) es v"

definition dag_path :: "bl_dag \<Rightarrow> edge_id list \<Rightarrow> bool" where
  "dag_path d p \<longleftrightarrow> walk d (d_root d) p (d_exit d) \<and> (\<forall>e\<in>set p. dag_edge d e)"

text \<open>The edges on which instrumentation is placed: those of the acyclic paths and exit to root.\<close>

definition placement_edge :: "bl_dag \<Rightarrow> edge_id \<Rightarrow> bool" where
  "placement_edge d e \<longleftrightarrow> dag_edge d e \<or> getExitRootEdge d = Inr e"

lemma walk_append: "walk d u (p @ q) v \<longleftrightarrow> (\<exists>w. walk d u p w \<and> walk d w q v)"
  by (induction p arbitrary: u) auto

lemma topo_eq_paths:
  assumes "topo d' = topo d"
  shows "walk d' = walk d" "dag_path d' = dag_path d" "placement_edge d' = placement_edge d"
proof -
  note t = topo_eqs [OF assms]
  have "walk d' u p v = walk d u p v" for u p v
    by (induction p arbitrary: u) (simp_all add: t)
  then show w: "walk d' = walk d" by (simp add: fun_eq_iff)
  show "dag_path d' = dag_path d" by (simp add: dag_path_def fun_eq_iff t w)
  show "placement_edge d' = placement_edge d" by (simp add: placement_edge_def fun_eq_iff t)
qed

lemma walk_telescope:
  fixes pot :: "node_id \<Rightarrow> clong"
  shows "walk d u p v \<Longrightarrow> (\<Sum>e\<leftarrow>p. pot (getSource d e) - pot (getTarget d e)) = pot u - pot v"
  by (induction p arbitrary: u) auto

lemma wf_walk_rank:
  assumes "bl_wf rk d"
  shows "walk d u p v \<Longrightarrow> \<forall>e\<in>set p. dag_edge d e \<Longrightarrow> rk u + length p \<le> rk v"
proof (induction p arbitrary: u)
  case Nil
  then show ?case by simp
next
  case (Cons e p)
  then have "rk (getTarget d e) + length p \<le> rk v" by simp
  moreover have "rk (getSource d e) < rk (getTarget d e)"
    using wf_rank [OF assms, of e] Cons.prems by simp
  ultimately show ?case using Cons.prems by simp
qed

lemma wf_placement_edge_ends:
  assumes "bl_wf rk d" "placement_edge d e"
  shows "getSource d e \<noteq> getTarget d e" "e \<in> set (d_edges d)" "getType d e \<noteq> SPLITEDGE"
proof -
  from assms(1) obtain er where "getExitRootEdge d = Inr er" "er \<in> set (d_edges d)"
      "getSource d er = d_exit d" "getTarget d er = d_root d" "getType d er = NORMAL"
    by (rule wf_exit_root)
  with assms wf_rank [OF assms(1), of e]
  show "getSource d e \<noteq> getTarget d e" "e \<in> set (d_edges d)" "getType d e \<noteq> SPLITEDGE"
    by (auto simp: placement_edge_def dag_edge_def bl_wf_def)
qed

section \<open>Passes that move increments\<close>

definition shifted :: "bl_dag \<Rightarrow> (edge_id \<Rightarrow> clong) \<Rightarrow> (edge_id \<Rightarrow> clong) \<Rightarrow> bool" where
  "shifted d a b \<longleftrightarrow> (\<exists>pot. \<forall>e. placement_edge d e \<longrightarrow>
     b e = a e + pot (getSource d e) - pot (getTarget d e))"

lemma shifted_refl: "shifted d a a"
  unfolding shifted_def by (rule exI [of _ "\<lambda>_. 0"]) simp

lemma shifted_trans:
  assumes "shifted d a b" "shifted d b c"
  shows "shifted d a c"
proof -
  from assms obtain p q where
    p: "\<And>e. placement_edge d e \<Longrightarrow> b e = a e + p (getSource d e) - p (getTarget d e)" and
    q: "\<And>e. placement_edge d e \<Longrightarrow> c e = b e + q (getSource d e) - q (getTarget d e)"
    unfolding shifted_def by metis
  show ?thesis
    unfolding shifted_def
    by (rule exI [of _ "\<lambda>v. p v + q v"]) (simp add: p q algebra_simps)
qed

lemma shifted_closed_walk:
  assumes "shifted d a b" and p: "walk d u p u" "\<forall>e\<in>set p. placement_edge d e"
  shows "(\<Sum>e\<leftarrow>p. b e) = (\<Sum>e\<leftarrow>p. a e)"
proof -
  from assms(1) obtain pot where
    pot: "\<And>e. placement_edge d e \<Longrightarrow> b e = a e + (pot (getSource d e) - pot (getTarget d e))"
    unfolding shifted_def by (metis add_diff_eq)
  have "(\<Sum>e\<leftarrow>p. b e) = (\<Sum>e\<leftarrow>p. a e + (pot (getSource d e) - pot (getTarget d e)))"
    using p(2) pot by (intro arg_cong [of _ _ sum_list] map_cong) auto
  also have "\<dots> = (\<Sum>e\<leftarrow>p. a e) + (\<Sum>e\<leftarrow>p. pot (getSource d e) - pot (getTarget d e))"
    by (rule sum_list_map_add)
  also have "(\<Sum>e\<leftarrow>p. pot (getSource d e) - pot (getTarget d e)) = 0"
    using walk_telescope [OF p(1), of pot] by simp
  finally show ?thesis by simp
qed

text \<open>
  \<open>base\<close> is the increment that a pass starts from: the weight for the passes
  that compute the increments, the increment itself for those that push them.
\<close>

locale placement_pass =
  fixes pass :: "bl_dag \<Rightarrow> bl_dag res" and pre :: "bl_dag \<Rightarrow> bool"
    and base :: "bl_dag \<Rightarrow> edge_id \<Rightarrow> clong"
  assumes pass_returns: "pre d \<Longrightarrow> \<exists>d'. pass d = Inr d'"
    and pass_topo: "pre d \<Longrightarrow> pass d = Inr d' \<Longrightarrow> topo d' = topo d"
    and pass_shifts: "pre d \<Longrightarrow> pass d = Inr d' \<Longrightarrow> shifted d (base d) (getIncrement d')"
begin

lemma cycle_sum:
  assumes "pre d" "pass d = Inr d'" "walk d u p u" "\<forall>e\<in>set p. placement_edge d e"
  shows "(\<Sum>e\<leftarrow>p. getIncrement d' e) = (\<Sum>e\<leftarrow>p. base d e)"
  using pass_shifts [OF assms(1,2)] assms(3,4) by (rule shifted_closed_walk)

lemma keeps_wf: "pre d \<Longrightarrow> pass d = Inr d' \<Longrightarrow> bl_wf rk d' = bl_wf rk d"
  using pass_topo by (rule topo_eq_wf)

lemma keeps_paths: "pre d \<Longrightarrow> pass d = Inr d' \<Longrightarrow> dag_path d' = dag_path d"
  using pass_topo by (rule topo_eq_paths)

end

text \<open>A dag as \<open>BallLarusDag\<close> builds it: no tree, no chords, no marks, no increments.\<close>

definition fresh_dag :: "bl_dag \<Rightarrow> bool" where
  "fresh_dag d \<longleftrightarrow> d_treeEdges d = [] \<and> d_chordEdges d = []
     \<and> (\<forall>e\<in>set (d_edges d). getIncrement d e = 0 \<and> \<not> isInSpanningTree d e
          \<and> \<not> isInitialization d e \<and> \<not> isCounterIncrement d e)"

text \<open>The two passes that compute the increments, as \<open>runOnFunction\<close> calls them.\<close>

definition compute_increments :: "nat \<Rightarrow> bl_dag \<Rightarrow> bl_dag res" where
  "compute_increments n d = bind_res (calculateSpanningTree d) (calculateChordIncrements n)"

lemma compute_increments_fresh:
  assumes wf: "bl_wf rk d" and fr: "fresh_dag d" and n: "0 < n"
  obtains d' where "compute_increments n d = Inr d'" "topo d' = topo d"
    "isInitialization d' = isInitialization d" "isCounterIncrement d' = isCounterIncrement d"
    "d_treeEdges d' = []" "d_chordEdges d' = non_split_edges d"
    "\<And>e. e \<in> set (d_edges d) \<Longrightarrow> getType d e \<noteq> SPLITEDGE \<Longrightarrow> getIncrement d' e = getWeight d e"
    "\<And>e. e \<in> set (d_edges d) \<Longrightarrow> getType d e = SPLITEDGE \<Longrightarrow> getIncrement d' e = 0"
proof -
  from wf have root: "d_root d \<in> set (d_nodes d)" and de: "distinct (d_edges d)"
    by (simp_all add: bl_wf_def)
  obtain d1 where d1: "calculateSpanningTree d = Inr d1" "topo d1 = topo d"
      "d_treeEdges d1 = d_treeEdges d" "getIncrement d1 = getIncrement d"
      "isInitialization d1 = isInitialization d" "isCounterIncrement d1 = isCounterIncrement d"
      "d_chordEdges d1 = d_chordEdges d @
         filter (\<lambda>e. \<not> isInSpanningTree d e \<and> getType d e \<noteq> SPLITEDGE) (d_edges d)"
    using root by (rule calculateSpanningTree_frame)
  have "filter (\<lambda>e. \<not> isInSpanningTree d e \<and> getType d e \<noteq> SPLITEDGE) (d_edges d) = non_split_edges d"
    unfolding non_split_edges_def using fr by (intro filter_cong) (auto simp: fresh_dag_def)
  with d1(7) fr have ch: "d_chordEdges d1 = non_split_edges d" by (simp add: fresh_dag_def)
  have "d_treeEdges d1 = []" using d1(3) fr by (simp add: fresh_dag_def)
  moreover have "distinct (d_chordEdges d1)" using de ch by (simp add: non_split_edges_def)
  ultimately obtain d2 where d2: "calculateChordIncrements n d1 = Inr d2" "same_but_increments d1 d2"
      "\<And>c. getIncrement d2 c = getIncrement d1 c + (if c \<in> set (d_chordEdges d1) then getWeight d1 c else 0)"
    using n by (rule calculateChordIncrements_no_tree) blast
  show thesis
  proof (rule that [of d2])
    show "compute_increments n d = Inr d2" by (simp add: compute_increments_def d1(1) d2(1))
    show "getIncrement d2 e = getWeight d e" if "e \<in> set (d_edges d)" "getType d e \<noteq> SPLITEDGE" for e
      using d2(3) [of e] d1(4) ch topo_eqD [OF d1(2)] that fr
      by (simp add: non_split_edges_def fresh_dag_def)
    show "getIncrement d2 e = 0" if "e \<in> set (d_edges d)" "getType d e = SPLITEDGE" for e
      using d2(3) [of e] d1(4) ch that fr by (simp add: non_split_edges_def fresh_dag_def)
  qed (use d1 d2(2) fr ch in \<open>auto simp: same_but_increments_def fresh_dag_def\<close>)
qed

text \<open>The weights are what the computing passes start from.\<close>

interpretation ci: placement_pass "compute_increments (Suc n)"
  "\<lambda>d. bl_wf rk d \<and> fresh_dag d" getWeight for n rk
proof (unfold_locales)
  fix d d'
  assume pre: "bl_wf rk d \<and> fresh_dag d"
  then obtain d1 where d1: "compute_increments (Suc n) d = Inr d1" "topo d1 = topo d"
    "\<And>e. e \<in> set (d_edges d) \<Longrightarrow> getType d e \<noteq> SPLITEDGE \<Longrightarrow> getIncrement d1 e = getWeight d e"
    using compute_increments_fresh [of rk d "Suc n"] by (metis zero_less_Suc)
  show "\<exists>d'. compute_increments (Suc n) d = Inr d'" using d1 by blast
  assume "compute_increments (Suc n) d = Inr d'"
  with d1 have eq: "d' = d1" by simp
  show "topo d' = topo d" using d1 eq by simp
  show "shifted d (getWeight d) (getIncrement d')"
    unfolding shifted_def
    by (rule exI [of _ "\<lambda>_. 0"]) (use pre d1(3) eq wf_placement_edge_ends [of rk d] in auto)
qed

end
