(* ===== verification/BL_Surgery.thy ===== *)
theory BL_Surgery
  imports BL_Paths
begin

text \<open>
  The changes that the pass makes to the graph itself: \<open>unlinkPhony\<close> and
  \<open>unlinkEdge\<close>, which take the phony edges out of the edge vectors once the
  placement is done, and \<open>splitUpdate\<close>, which follows the split of a critical edge.
  The vector primitives and \<open>addNode\<close>, \<open>addEdge\<close> belong to LLVM's \<open>BallLarusNode\<close>
  and \<open>BallLarusDag\<close>: they are the argument \<open>B\<close> of the definitions, and \<open>base_ok\<close>
  states what the library documents of them.
\<close>

section \<open>The primitives of the base classes\<close>

record bl_base =
  b_addNode :: "block_id \<Rightarrow> bl_dag \<Rightarrow> node_id \<times> bl_dag"
  b_addEdge :: "node_id \<Rightarrow> node_id \<Rightarrow> nat \<Rightarrow> bl_dag \<Rightarrow> edge_id \<times> bl_dag"
  b_addPredEdge :: "node_id \<Rightarrow> edge_id \<Rightarrow> bl_dag \<Rightarrow> bl_dag"
  b_removePredEdge :: "node_id \<Rightarrow> edge_id \<Rightarrow> bl_dag \<Rightarrow> bl_dag"
  b_removeSuccEdge :: "node_id \<Rightarrow> edge_id \<Rightarrow> bl_dag \<Rightarrow> bl_dag"

section \<open>The operations\<close>

definition is_phony :: "bl_dag \<Rightarrow> edge_id \<Rightarrow> bool" where
  "is_phony d e \<longleftrightarrow> getType d e = BACKEDGE_PHONY \<or> getType d e = SPLITEDGE_PHONY
     \<or> getType d e = CALLEDGE_PHONY"

text \<open>The comparison with the edge from exit to root only guards a debug message, but reads that edge.\<close>

definition unlinkEdge :: "bl_base \<Rightarrow> edge_id \<Rightarrow> bl_dag \<Rightarrow> bl_dag res" where
  "unlinkEdge B e d =
     bind_res (getExitRootEdge d) (\<lambda>_.
       let d1 = b_removeSuccEdge B (getSource d e) e d
       in Inr (b_removePredEdge B (getTarget d1 e) e d1))"

definition unlinkPhony :: "bl_base \<Rightarrow> bl_dag \<Rightarrow> bl_dag res" where
  "unlinkPhony B d = fold_res (\<lambda>e d. if is_phony d e then unlinkEdge B e d else Inr d) (d_edges d) d"

definition splitUpdate :: "bl_base \<Rightarrow> edge_id \<Rightarrow> block_id \<Rightarrow> bl_dag \<Rightarrow> bl_dag" where
  "splitUpdate B formerEdge newBlock d =
     (let oldTarget = getTarget d formerEdge;
          (newNode, d1) = b_addNode B newBlock d;
          d2 = setTarget formerEdge newNode d1;
          d3 = b_addPredEdge B newNode formerEdge d2;
          d4 = b_removePredEdge B oldTarget formerEdge d3;
          (newEdge, d5) = b_addEdge B newNode oldTarget 0 d4
      in if getType d5 formerEdge = BACKEDGE \<or> getType d5 formerEdge = SPLITEDGE
         then let d6 = setType newEdge (getType d5 formerEdge) d5;
                  d7 = setPhonyRoot newEdge (getPhonyRoot d6 formerEdge) d6;
                  d8 = setPhonyExit newEdge (getPhonyExit d7 formerEdge) d7;
                  d9 = setType formerEdge NORMAL d8;
                  d10 = setPhonyRoot formerEdge None d9
              in setPhonyExit formerEdge None d10
         else d5)"

section \<open>What the library promises\<close>

definition add_pred :: "node_id \<Rightarrow> edge_id \<Rightarrow> bl_dag \<Rightarrow> bl_dag" where
  "add_pred v e = upd_node v (\<lambda>n. n\<lparr>n_predEdges := n_predEdges n @ [e]\<rparr>)"

definition add_succ :: "node_id \<Rightarrow> edge_id \<Rightarrow> bl_dag \<Rightarrow> bl_dag" where
  "add_succ v e = upd_node v (\<lambda>n. n\<lparr>n_succEdges := n_succEdges n @ [e]\<rparr>)"

definition remove_pred :: "node_id \<Rightarrow> edge_id \<Rightarrow> bl_dag \<Rightarrow> bl_dag" where
  "remove_pred v e = upd_node v (\<lambda>n. n\<lparr>n_predEdges := remove1 e (n_predEdges n)\<rparr>)"

definition remove_succ :: "node_id \<Rightarrow> edge_id \<Rightarrow> bl_dag \<Rightarrow> bl_dag" where
  "remove_succ v e = upd_node v (\<lambda>n. n\<lparr>n_succEdges := remove1 e (n_succEdges n)\<rparr>)"

definition with_node :: "node_id \<Rightarrow> block_id \<Rightarrow> bl_dag \<Rightarrow> bl_dag" where
  "with_node v BB d = d\<lparr>d_nodes := d_nodes d @ [v], d_node := (d_node d)(v := createNode (Some BB))\<rparr>"

definition with_edge :: "edge_id \<Rightarrow> node_id \<Rightarrow> node_id \<Rightarrow> bl_dag \<Rightarrow> bl_dag" where
  "with_edge e s t d = add_pred t e (add_succ s e
     (d\<lparr>d_edges := d_edges d @ [e], d_edge := (d_edge d)(e := createEdge s t)\<rparr>))"

definition base_ok :: "bl_base \<Rightarrow> bool" where
  "base_ok B \<longleftrightarrow>
     (\<forall>BB d. \<exists>v. v \<notin> set (d_nodes d) \<and> b_addNode B BB d = (v, with_node v BB d))
     \<and> (\<forall>s t k d. \<exists>e. e \<notin> set (d_edges d) \<and> b_addEdge B s t k d = (e, with_edge e s t d))
     \<and> b_addPredEdge B = add_pred \<and> b_removePredEdge B = remove_pred \<and> b_removeSuccEdge B = remove_succ"

text \<open>A library for the witnesses: new objects get the first number above all used ones.\<close>

definition next_id :: "nat list \<Rightarrow> nat" where
  "next_id xs = Suc (foldr max xs 0)"

definition simple_base :: bl_base where
  "simple_base = \<lparr>b_addNode = (\<lambda>BB d. (next_id (d_nodes d), with_node (next_id (d_nodes d)) BB d)),
     b_addEdge = (\<lambda>s t k d. (next_id (d_edges d), with_edge (next_id (d_edges d)) s t d)),
     b_addPredEdge = add_pred, b_removePredEdge = remove_pred, b_removeSuccEdge = remove_succ\<rparr>"

lemma next_id_fresh: "next_id xs \<notin> set xs"
proof -
  have "x \<in> set xs \<Longrightarrow> x \<le> foldr max xs 0" for x by (induction xs) auto
  then show ?thesis by (auto simp: next_id_def dest: Suc_le_lessD)
qed

lemma simple_base_ok: "base_ok simple_base"
  unfolding base_ok_def simple_base_def using next_id_fresh by auto

lemma base_okD:
  assumes "base_ok B"
  shows "b_addPredEdge B = add_pred" "b_removePredEdge B = remove_pred" "b_removeSuccEdge B = remove_succ"
  using assms by (simp_all add: base_ok_def)

section \<open>Unlinking\<close>

text \<open>\<open>unlinked R d\<close> is \<open>d\<close> with the edges of \<open>R\<close> taken out of the edge vectors.\<close>

definition unlinked :: "edge_id set \<Rightarrow> bl_dag \<Rightarrow> bl_dag" where
  "unlinked R d = d\<lparr>d_node := (\<lambda>v. if v \<in> set (d_nodes d)
     then (d_node d v)\<lparr>n_predEdges := filter (\<lambda>e. e \<notin> R) (predEdges d v),
                       n_succEdges := filter (\<lambda>e. e \<notin> R) (succEdges d v)\<rparr>
     else d_node d v)\<rparr>"

lemma unlinked_simps [simp, dag_simps]:
  "d_nodes (unlinked R d) = d_nodes d" "d_edges (unlinked R d) = d_edges d" "d_root (unlinked R d) = d_root d"
  "d_exit (unlinked R d) = d_exit d" "getSource (unlinked R d) = getSource d" "getTarget (unlinked R d) = getTarget d"
  "getType (unlinked R d) = getType d" "getWeight (unlinked R d) = getWeight d"
  "getIncrement (unlinked R d) = getIncrement d" "isInitialization (unlinked R d) = isInitialization d"
  "isCounterIncrement (unlinked R d) = isCounterIncrement d" "getPhonyRoot (unlinked R d) = getPhonyRoot d"
  "getPhonyExit (unlinked R d) = getPhonyExit d" "hasInstrumentation (unlinked R d) = hasInstrumentation d"
  "getBlock (unlinked R d) = getBlock d" "getStartingPathNumber (unlinked R d) = getStartingPathNumber d"
  "getEndingPathNumber (unlinked R d) = getEndingPathNumber d" "getPathPHI (unlinked R d) = getPathPHI d"
  "d_numberOfPaths (unlinked R d) = d_numberOfPaths d"
  by (simp_all add: unlinked_def getter_defs fun_eq_iff)

lemma unlinked_nothing [simp]: "unlinked {} d = d"
  by (intro bl_dag.equality) (simp_all add: unlinked_def predEdges_def succEdges_def fun_eq_iff)

lemma unlinked_vectors:
  assumes "v \<in> set (d_nodes d)"
  shows "succEdges (unlinked R d) v = filter (\<lambda>e. e \<notin> R) (succEdges d v)"
    "predEdges (unlinked R d) v = filter (\<lambda>e. e \<notin> R) (predEdges d v)"
  using assms by (simp_all add: unlinked_def succEdges_def predEdges_def)

lemma remove1_filter_insert:
  "distinct xs \<Longrightarrow> remove1 e (filter (\<lambda>x. x \<notin> R) xs) = filter (\<lambda>x. x \<notin> insert e R) xs"
  by (simp add: distinct_remove1_removeAll removeAll_filter_not_eq filter_filter conj_commute)
    (intro filter_cong, auto)

lemma filter_insert_absent:
  "e \<notin> set xs \<Longrightarrow> filter (\<lambda>x. x \<notin> insert e R) xs = filter (\<lambda>x. x \<notin> R) xs"
  by (intro filter_cong) auto

lemma unlinked_exit_root:
  assumes wf: "bl_wf rk d" and er: "getExitRootEdge d = Inr er" and R: "er \<notin> R"
  shows "getExitRootEdge (unlinked R d) = Inr er"
proof -
  have "d_exit d \<in> set (d_nodes d)" using wf by (simp add: bl_wf_def)
  from unlinked_vectors(1) [OF this, of R] wf_exit_root_edge(5) [OF wf er] R
  show ?thesis by (simp add: getExitRootEdge_def)
qed

lemma unlinkEdge_unlinked:
  assumes B: "base_ok B" and wf: "bl_wf rk d" and er: "getExitRootEdge d = Inr er" "er \<notin> R"
    and e: "e \<in> set (d_edges d)"
  shows "unlinkEdge B e (unlinked R d) = Inr (unlinked (insert e R) d)"
proof -
  let ?s = "getSource d e" and ?t = "getTarget d e"
  note ends = wf_ends [OF wf e]
  have "remove_pred ?t e (remove_succ ?s e (unlinked R d)) = unlinked (insert e R) d" (is "?l = ?r")
  proof -
    have "d_node ?l v = d_node ?r v" for v
    proof (cases "v \<in> set (d_nodes d)")
      case True
      note vec = wf_edge_vectors [OF wf True]
      have s: "(if v = ?s then remove1 e (filter (\<lambda>x. x \<notin> R) (succEdges d v)) else filter (\<lambda>x. x \<notin> R) (succEdges d v))
        = filter (\<lambda>x. x \<notin> insert e R) (succEdges d v)"
        using vec(1,2) remove1_filter_insert [of "succEdges d v"] filter_insert_absent [of e "succEdges d v"] by auto
      have p: "(if v = ?t then remove1 e (filter (\<lambda>x. x \<notin> R) (predEdges d v)) else filter (\<lambda>x. x \<notin> R) (predEdges d v))
        = filter (\<lambda>x. x \<notin> insert e R) (predEdges d v)"
        using vec(3,4) remove1_filter_insert [of "predEdges d v"] filter_insert_absent [of e "predEdges d v"] by auto
      show ?thesis
        unfolding unlinked_def remove_pred_def remove_succ_def upd_node_def using True ends
        by (simp del: insert_iff add: s [symmetric] p [symmetric])
    next
      case False
      with ends show ?thesis
        by (auto simp: unlinked_def remove_pred_def remove_succ_def upd_node_def)
    qed
    then show ?thesis
      by (intro bl_dag.equality) (simp_all add: unlinked_def remove_pred_def remove_succ_def upd_node_def fun_eq_iff)
  qed
  moreover have "getTarget (remove_succ ?s e (unlinked R d)) e = ?t"
    by (simp add: remove_succ_def upd_node_def getTarget_def unlinked_def)
  ultimately show ?thesis
    using unlinked_exit_root [OF wf er] by (simp add: unlinkEdge_def base_okD [OF B])
qed

lemma unlinkPhony_unlinked:
  assumes B: "base_ok B" and wf: "bl_wf rk d"
  shows "unlinkPhony B d = Inr (unlinked {e \<in> set (d_edges d). is_phony d e} d)"
proof -
  obtain er where er: "getExitRootEdge d = Inr er" "getType d er = NORMAL" using wf by (rule wf_exit_root)
  let ?step = "\<lambda>e d. if is_phony d e then unlinkEdge B e d else Inr d"
  have phony: "is_phony (unlinked R d) = is_phony d" for R by (simp add: is_phony_def fun_eq_iff)
  have "fold_res ?step es (unlinked R d) = Inr (unlinked (R \<union> {e \<in> set es. is_phony d e}) d)"
    if "set es \<subseteq> set (d_edges d)" "er \<notin> R" for es R
    using that
  proof (induction es arbitrary: R)
    case (Cons e es)
    have "\<not> is_phony d er" using er(2) by (simp add: is_phony_def)
    moreover have "{x \<in> set (e # es). is_phony d x} =
        (if is_phony d e then insert e {x \<in> set es. is_phony d x} else {x \<in> set es. is_phony d x})" by auto
    moreover have "e \<in> set (d_edges d)" "set es \<subseteq> set (d_edges d)" using Cons.prems(1) by simp_all
    ultimately show ?case
      using Cons.IH [of "insert e R"] Cons.IH [of R] Cons.prems(2)
      by (auto simp: phony unlinkEdge_unlinked [OF B wf er(1)] simp del: set_simps)
  qed simp
  from this [of "d_edges d" "{}"] show ?thesis by (simp add: unlinkPhony_def)
qed

text \<open>
  \<open>linked d\<close>: the edge vectors hold exactly the edges of the control flow graph,
  every one of them once. It holds after \<open>unlinkPhony\<close> and is kept by \<open>splitUpdate\<close>.
\<close>

definition linked :: "bl_dag \<Rightarrow> bool" where
  "linked d \<longleftrightarrow> distinct (d_edges d)
     \<and> (\<forall>e\<in>set (d_edges d). getSource d e \<in> set (d_nodes d) \<and> getTarget d e \<in> set (d_nodes d))
     \<and> (\<forall>v\<in>set (d_nodes d). distinct (succEdges d v) \<and> distinct (predEdges d v)
          \<and> set (succEdges d v) = {e \<in> set (d_edges d). \<not> is_phony d e \<and> getSource d e = v}
          \<and> set (predEdges d v) = {e \<in> set (d_edges d). \<not> is_phony d e \<and> getTarget d e = v})"

lemma linkedD:
  assumes "linked d"
  shows "distinct (d_edges d)" "e \<in> set (d_edges d) \<Longrightarrow> getSource d e \<in> set (d_nodes d)"
    "e \<in> set (d_edges d) \<Longrightarrow> getTarget d e \<in> set (d_nodes d)"
    "v \<in> set (d_nodes d) \<Longrightarrow> distinct (succEdges d v)" "v \<in> set (d_nodes d) \<Longrightarrow> distinct (predEdges d v)"
    "v \<in> set (d_nodes d) \<Longrightarrow> set (succEdges d v) = {e \<in> set (d_edges d). \<not> is_phony d e \<and> getSource d e = v}"
    "v \<in> set (d_nodes d) \<Longrightarrow> set (predEdges d v) = {e \<in> set (d_edges d). \<not> is_phony d e \<and> getTarget d e = v}"
  using assms unfolding linked_def by blast+

lemma topo_eq_linked:
  assumes "topo d' = topo d"
  shows "is_phony d' = is_phony d" "linked d' = linked d"
proof -
  note t = topo_eqD [OF assms]
  show "is_phony d' = is_phony d" by (simp add: is_phony_def fun_eq_iff t)
  then show "linked d' = linked d" by (simp add: linked_def t)
qed

lemma unlinked_phony [simp]: "is_phony (unlinked R d) = is_phony d"
  by (simp add: is_phony_def fun_eq_iff)

lemma unlinkPhony_linked:
  assumes "base_ok B" "bl_wf rk d"
  obtains d' where "unlinkPhony B d = Inr d'" "linked d'" "d_edges d' = d_edges d"
proof (rule that [OF unlinkPhony_unlinked [OF assms]])
  let ?R = "{e \<in> set (d_edges d). is_phony d e}"
  have "is_phony (unlinked ?R d) = is_phony d" by (simp add: is_phony_def fun_eq_iff)
  then show "linked (unlinked ?R d)"
    using assms(2) wf_edge_vectors [OF assms(2)] by (auto simp: linked_def bl_wf_def unlinked_vectors)
qed simp

section \<open>Splitting an edge\<close>

text \<open>
  The split of \<open>f\<close>: \<open>v\<close> is the new node, \<open>g\<close> the new edge from it to the old target.
  A loop edge hands its type and its phony partners on to the second half.
\<close>

definition is_split :: "bl_dag \<Rightarrow> edge_id \<Rightarrow> block_id \<Rightarrow> node_id \<Rightarrow> edge_id \<Rightarrow> bl_dag \<Rightarrow> bool" where
  "is_split d f BB v g d' \<longleftrightarrow>
     v \<notin> set (d_nodes d) \<and> g \<notin> set (d_edges d)
     \<and> d_nodes d' = d_nodes d @ [v] \<and> d_edges d' = d_edges d @ [g]
     \<and> d_root d' = d_root d \<and> d_exit d' = d_exit d \<and> d_numberOfPaths d' = d_numberOfPaths d
     \<and> getSource d' = (getSource d)(g := v) \<and> getTarget d' = (getTarget d)(f := v, g := getTarget d f)
     \<and> (if getType d f = BACKEDGE \<or> getType d f = SPLITEDGE
        then getType d' = (getType d)(f := NORMAL, g := getType d f)
          \<and> getPhonyRoot d' = (getPhonyRoot d)(f := None, g := getPhonyRoot d f)
          \<and> getPhonyExit d' = (getPhonyExit d)(f := None, g := getPhonyExit d f)
        else getType d' = (getType d)(g := NORMAL) \<and> getPhonyRoot d' = (getPhonyRoot d)(g := None)
          \<and> getPhonyExit d' = (getPhonyExit d)(g := None))
     \<and> getIncrement d' = (getIncrement d)(g := 0) \<and> isInitialization d' = (isInitialization d)(g := False)
     \<and> isCounterIncrement d' = (isCounterIncrement d)(g := False)
     \<and> hasInstrumentation d' = (hasInstrumentation d)(g := False)
     \<and> succEdges d' = (succEdges d)(v := [g])
     \<and> predEdges d' = (predEdges d)(v := [f], getTarget d f := remove1 f (predEdges d (getTarget d f)) @ [g])
     \<and> getBlock d' = (getBlock d)(v := Some BB)
     \<and> getStartingPathNumber d' = (getStartingPathNumber d)(v := None)
     \<and> getEndingPathNumber d' = (getEndingPathNumber d)(v := None) \<and> getPathPHI d' = (getPathPHI d)(v := None)"

lemma splitUpdate_is_split:
  assumes B: "base_ok B" and f: "f \<in> set (d_edges d)" "getTarget d f \<in> set (d_nodes d)"
  obtains v g where "is_split d f BB v g (splitUpdate B f BB d)"
proof -
  obtain v where v: "v \<notin> set (d_nodes d)" "b_addNode B BB d = (v, with_node v BB d)"
    using B unfolding base_ok_def by blast
  let ?d4 = "remove_pred (getTarget d f) f (add_pred v f (setTarget f v (with_node v BB d)))"
  obtain g where g: "g \<notin> set (d_edges ?d4)" "b_addEdge B v (getTarget d f) 0 ?d4 = (g, with_edge g v (getTarget d f) ?d4)"
    using B unfolding base_ok_def by blast
  have "g \<notin> set (d_edges d)"
    using g(1) by (simp add: remove_pred_def add_pred_def with_node_def setter_defs)
  moreover have "f \<noteq> g" "getTarget d f \<noteq> v" using f v calculation by auto
  moreover have "splitUpdate B f BB d =
    (let d5 = with_edge g v (getTarget d f) ?d4
     in if getType d f = BACKEDGE \<or> getType d f = SPLITEDGE
        then setPhonyExit f None (setPhonyRoot f None (setType f NORMAL
               (setPhonyExit g (getPhonyExit d f) (setPhonyRoot g (getPhonyRoot d f) (setType g (getType d f) d5)))))
        else d5)"
    using g v calculation
    by (simp add: splitUpdate_def base_okD [OF B] Let_def with_edge_def with_node_def add_succ_def add_pred_def
        remove_pred_def setter_defs getter_defs)
  ultimately show thesis
    using v(1) by (intro that [of v g])
      (simp add: is_split_def Let_def fun_eq_iff with_edge_def with_node_def add_succ_def add_pred_def
        remove_pred_def setter_defs getter_defs createNode_def createEdge_def)
qed

lemma is_splitD:
  assumes "is_split d f BB v g d'"
  shows "v \<notin> set (d_nodes d)" "g \<notin> set (d_edges d)" "d_nodes d' = d_nodes d @ [v]" "d_edges d' = d_edges d @ [g]"
    "d_root d' = d_root d" "d_exit d' = d_exit d" "d_numberOfPaths d' = d_numberOfPaths d"
    "getSource d' = (getSource d)(g := v)" "getTarget d' = (getTarget d)(f := v, g := getTarget d f)"
    "getIncrement d' = (getIncrement d)(g := 0)" "isInitialization d' = (isInitialization d)(g := False)"
    "isCounterIncrement d' = (isCounterIncrement d)(g := False)"
    "hasInstrumentation d' = (hasInstrumentation d)(g := False)"
    "succEdges d' = (succEdges d)(v := [g])"
    "predEdges d' = (predEdges d)(v := [f], getTarget d f := remove1 f (predEdges d (getTarget d f)) @ [g])"
    "getBlock d' = (getBlock d)(v := Some BB)"
    "getStartingPathNumber d' = (getStartingPathNumber d)(v := None)"
    "getEndingPathNumber d' = (getEndingPathNumber d)(v := None)" "getPathPHI d' = (getPathPHI d)(v := None)"
  using assms by (simp_all add: is_split_def)

lemma is_split_phony:
  assumes s: "is_split d f BB v g d'" and f: "f \<in> set (d_edges d)" "\<not> is_phony d f"
  shows "is_phony d' = (is_phony d)(g := False)"
proof -
  have "f \<noteq> g" using is_splitD(2) [OF s] f(1) by blast
  with s f(2) show ?thesis by (auto simp: is_split_def is_phony_def fun_eq_iff split: if_splits)
qed

lemma is_split_degrees:
  assumes l: "linked d" and s: "is_split d f BB v g d'" and f: "f \<in> set (d_edges d)" "\<not> is_phony d f"
  shows "u \<in> set (d_nodes d) \<Longrightarrow> getNumberSuccEdges d' u = getNumberSuccEdges d u"
    "u \<in> set (d_nodes d) \<Longrightarrow> getNumberPredEdges d' u = getNumberPredEdges d u"
    "getNumberSuccEdges d' v = 1" "getNumberPredEdges d' v = 1"
proof -
  note d = is_splitD [OF s]
  have t: "getTarget d f \<in> set (d_nodes d)" using l f(1) by (rule linkedD)
  then have tv: "getTarget d f \<noteq> v" using d(1) by blast
  have "f \<in> set (predEdges d (getTarget d f))" using linkedD(7) [OF l t] f by simp
  then have len: "length (remove1 f (predEdges d (getTarget d f)) @ [g]) = length (predEdges d (getTarget d f))"
    using length_pos_if_in_set [of f] by (simp add: length_remove1)
  show "u \<in> set (d_nodes d) \<Longrightarrow> getNumberSuccEdges d' u = getNumberSuccEdges d u"
    "u \<in> set (d_nodes d) \<Longrightarrow> getNumberPredEdges d' u = getNumberPredEdges d u"
    "getNumberSuccEdges d' v = 1" "getNumberPredEdges d' v = 1"
    using d(1) tv len by (auto simp: getNumberSuccEdges_def getNumberPredEdges_def d)
qed

lemma is_split_linked:
  assumes l: "linked d" and s: "is_split d f BB v g d'" and f: "f \<in> set (d_edges d)" "\<not> is_phony d f"
  shows "linked d'"
proof -
  note d = is_splitD [OF s] and ph = is_split_phony [OF s f]
  have t: "getTarget d f \<in> set (d_nodes d)" using l f(1) by (rule linkedD)
  have ne: "f \<noteq> g" "getTarget d f \<noteq> v" using d(1,2) f(1) t by auto
  have new: "e \<in> set (d_edges d) \<Longrightarrow> getSource d e \<noteq> v \<and> getTarget d e \<noteq> v \<and> e \<noteq> g" for e
    using linkedD(2,3) [OF l, of e] d(1,2) by auto
  show ?thesis
    unfolding linked_def
  proof (intro conjI ballI)
    show "distinct (d_edges d')" using linkedD(1) [OF l] d(2) by (simp add: d(4))
    fix e
    assume "e \<in> set (d_edges d')"
    then show "getSource d' e \<in> set (d_nodes d')" "getTarget d' e \<in> set (d_nodes d')"
      using linkedD(2,3) [OF l, of e] t by (auto simp: d(3,4,8,9))
  next
    fix u
    assume u: "u \<in> set (d_nodes d')"
    show "distinct (succEdges d' u)" using u linkedD(4) [OF l, of u] by (auto simp: d(3,14))
    show "distinct (predEdges d' u)"
      using u linkedD(5) [OF l, of u] linkedD(5,7) [OF l t] d(2) ne by (auto simp: d(3,15) distinct_remove1)
    show "set (succEdges d' u) = {e \<in> set (d_edges d'). \<not> is_phony d' e \<and> getSource d' e = u}"
      using u linkedD(6) [OF l, of u] new ne by (auto simp: d(3,4,8,14) ph)
    show "set (predEdges d' u) = {e \<in> set (d_edges d'). \<not> is_phony d' e \<and> getTarget d' e = u}"
      using u linkedD(7) [OF l, of u] linkedD(5) [OF l t] new ne f by (auto simp: d(3,4,9,15) ph)
  qed
qed

end
