(* ===== verification/BL_Push.thy ===== *)
theory BL_Push
  imports BL_Paths
begin

text \<open>
  \<open>pushInitialization\<close> and \<open>pushCounters\<close> of \<open>BLInstrumentationDag\<close> with their
  recursive workers. Both move the increment of an edge across one of its end
  nodes onto the edges on the other side and carry a mark along; they differ in
  direction and in where they stop. The interface \<open>push_walk\<close> states what the
  two recursions have in common, its lemmas say where the marks end up and that
  the increments change by node potentials only, and both passes interpret it.
\<close>

section \<open>The two passes\<close>

fun pushInitializationFromEdge :: "nat \<Rightarrow> edge_id \<Rightarrow> bl_dag \<Rightarrow> bl_dag res"
  and push_init_loop :: "nat \<Rightarrow> edge_id \<Rightarrow> edge_id list \<Rightarrow> bl_dag \<Rightarrow> bl_dag res"
where
  "pushInitializationFromEdge 0 e d = Inl Out_Of_Fuel"
| "pushInitializationFromEdge (Suc n) e d =
     (let target = getTarget d e
      in if getNumberPredEdges d target > 1 \<or> target = d_exit d then Inr d
         else bind_res (push_init_loop n e (succEdges d target) d)
                (\<lambda>d1. Inr (setIsInitialization e False (setIncrement e 0 d1))))"
| "push_init_loop n e [] d = Inr d"
| "push_init_loop n e (intoEdge # next) d =
     (if getType d intoEdge = SPLITEDGE then push_init_loop n e next d
      else bind_res
             (pushInitializationFromEdge n intoEdge
                (setIsInitialization intoEdge True
                   (setIncrement intoEdge (getIncrement d intoEdge + getIncrement d e) d)))
             (\<lambda>d1. push_init_loop n e next d1))"

definition pushInitialization :: "nat \<Rightarrow> bl_dag \<Rightarrow> bl_dag res" where
  "pushInitialization n d =
     bind_res (getExitRootEdge d)
       (\<lambda>exitRootEdge. pushInitializationFromEdge n exitRootEdge (setIsInitialization exitRootEdge True d))"

fun pushCountersFromEdge :: "nat \<Rightarrow> edge_id \<Rightarrow> bl_dag \<Rightarrow> bl_dag res"
  and push_counter_loop :: "nat \<Rightarrow> edge_id \<Rightarrow> edge_id list \<Rightarrow> bl_dag \<Rightarrow> bl_dag res"
where
  "pushCountersFromEdge 0 e d = Inl Out_Of_Fuel"
| "pushCountersFromEdge (Suc n) e d =
     (let source = getSource d e
      in if getNumberSuccEdges d source > 1 \<or> source = d_root d \<or> isInitialization d e then Inr d
         else bind_res (push_counter_loop n e (predEdges d source) d)
                (\<lambda>d1. Inr (setIsCounterIncrement e False (setIncrement e 0 d1))))"
| "push_counter_loop n e [] d = Inr d"
| "push_counter_loop n e (fromEdge # previous) d =
     (if getType d fromEdge = SPLITEDGE then push_counter_loop n e previous d
      else bind_res
             (pushCountersFromEdge n fromEdge
                (setIsCounterIncrement fromEdge True
                   (setIncrement fromEdge (getIncrement d fromEdge + getIncrement d e) d)))
             (\<lambda>d1. push_counter_loop n e previous d1))"

definition pushCounters :: "nat \<Rightarrow> bl_dag \<Rightarrow> bl_dag res" where
  "pushCounters n d =
     bind_res (getExitRootEdge d)
       (\<lambda>exitRootEdge. pushCountersFromEdge n exitRootEdge (setIsCounterIncrement exitRootEdge True d))"

section \<open>The edges a push reaches\<close>

text \<open>
  \<open>push_reach near far stop ok e x\<close>: a push that starts at \<open>e\<close> hands its mark to
  \<open>x\<close>. It crosses the far end of an edge unless it stops there.
\<close>

inductive push_reach :: "(edge_id \<Rightarrow> node_id) \<Rightarrow> (edge_id \<Rightarrow> node_id) \<Rightarrow> (edge_id \<Rightarrow> bool) \<Rightarrow>
    (edge_id \<Rightarrow> bool) \<Rightarrow> edge_id \<Rightarrow> edge_id \<Rightarrow> bool" for near far stop ok e where
  reach_start: "push_reach near far stop ok e e"
| reach_next: "push_reach near far stop ok e y \<Longrightarrow> \<not> stop y \<Longrightarrow> ok x \<Longrightarrow> near x = far y \<Longrightarrow>
     push_reach near far stop ok e x"

text \<open>
  What makes the pushed edges a tree: only one edge has the far end that a push
  crosses, and a measure grows along the crossed edges.
\<close>

definition push_graph :: "(edge_id \<Rightarrow> node_id) \<Rightarrow> (edge_id \<Rightarrow> node_id) \<Rightarrow> (edge_id \<Rightarrow> bool) \<Rightarrow>
    (edge_id \<Rightarrow> bool) \<Rightarrow> (edge_id \<Rightarrow> nat) \<Rightarrow> bool" where
  "push_graph near far stop ok meas \<longleftrightarrow>
     (\<forall>x y. ok x \<longrightarrow> ok y \<longrightarrow> \<not> stop x \<longrightarrow> far y = far x \<longrightarrow> y = x)
     \<and> (\<forall>x y. ok x \<longrightarrow> ok y \<longrightarrow> \<not> stop x \<longrightarrow> \<not> stop y \<longrightarrow> near y = far x \<longrightarrow> meas x < meas y)"

lemma push_reach_ok: "push_reach near far stop ok e x \<Longrightarrow> ok e \<Longrightarrow> ok x"
  by (induction rule: push_reach.induct) auto

lemma push_reach_stop: "push_reach near far stop ok e x \<Longrightarrow> stop e \<Longrightarrow> x = e"
  by (induction rule: push_reach.induct) auto

lemma push_reach_trans:
  assumes "push_reach near far stop ok f x" "push_reach near far stop ok e f"
  shows "push_reach near far stop ok e x"
  using assms by (induction rule: push_reach.induct) (auto intro: reach_next)

lemma push_reach_unfold:
  assumes "\<not> stop e"
  shows "push_reach near far stop ok e x \<longleftrightarrow>
    x = e \<or> (\<exists>f. ok f \<and> near f = far e \<and> push_reach near far stop ok f x)"
proof
  assume "push_reach near far stop ok e x"
  then show "x = e \<or> (\<exists>f. ok f \<and> near f = far e \<and> push_reach near far stop ok f x)"
    by (induction rule: push_reach.induct) (auto intro: reach_start reach_next)
next
  assume "x = e \<or> (\<exists>f. ok f \<and> near f = far e \<and> push_reach near far stop ok f x)"
  then show "push_reach near far stop ok e x"
    using assms push_reach_trans reach_next [OF reach_start] by (metis reach_start)
qed

lemma push_reach_meas:
  assumes g: "push_graph near far stop ok meas"
    and r: "push_reach near far stop ok f x" and f: "ok f" and x: "\<not> stop x"
  shows "x = f \<or> (\<not> stop f \<and> meas f < meas x)"
  using r x
proof (induction rule: push_reach.induct)
  case reach_start
  then show ?case by simp
next
  case (reach_next y x)
  have "meas y < meas x"
    using g reach_next push_reach_ok [OF reach_next.hyps(1) f] by (simp add: push_graph_def)
  with reach_next show ?case by auto
qed

lemma push_reach_no_return:
  assumes g: "push_graph near far stop ok meas" and e: "ok e" "\<not> stop e" and f: "ok f" "near f = far e"
  shows "\<not> push_reach near far stop ok f e"
proof
  assume r: "push_reach near far stop ok f e"
  have "\<not> stop f" using r e(2) push_reach_stop [of near far stop ok f e] by auto
  with g e f have "meas e < meas f" by (simp add: push_graph_def)
  with push_reach_meas [OF g r f(1) e(2)] show False by auto
qed

lemma push_reach_disjoint:
  assumes g: "push_graph near far stop ok meas" and e: "ok e" "\<not> stop e"
    and f: "ok f" "near f = far e" and f': "ok f'" "near f' = far e" and ne: "f \<noteq> f'"
    and r: "push_reach near far stop ok f x"
  shows "\<not> push_reach near far stop ok f' x"
proof -
  have no_hit: "\<not> push_reach near far stop ok a b"
    if a: "ok a" "near a = far e" and b: "near b = far e" "a \<noteq> b" for a b
  proof
    assume "push_reach near far stop ok a b"
    then obtain y where y: "push_reach near far stop ok a y" "\<not> stop y" "near b = far y"
      using b(2) by (cases rule: push_reach.cases) auto
    then have "y = e"
      using g e b(1) push_reach_ok [OF y(1) a(1)] by (metis push_graph_def)
    with y(1) push_reach_no_return [OF g e a] show False by simp
  qed
  from r show ?thesis
  proof (induction rule: push_reach.induct)
    case reach_start
    show ?case using no_hit [OF f' f(2)] ne by blast
  next
    case (reach_next y x)
    show ?case
    proof
      assume r': "push_reach near far stop ok f' x"
      show False
      proof (cases "x = f'")
        case True
        have "push_reach near far stop ok f x"
          using reach_next by (auto intro: push_reach.reach_next)
        with True show False using no_hit [OF f f'(2) ne] by simp
      next
        case False
        with r' obtain z where z: "push_reach near far stop ok f' z" "\<not> stop z" "near x = far z"
          by (cases rule: push_reach.cases) auto
        have "z = y"
          using g reach_next z push_reach_ok [OF z(1) f'(1)] push_reach_ok [OF reach_next.hyps(1) f(1)]
          by (metis push_graph_def)
        with z(1) reach_next.IH show False by simp
      qed
    qed
  qed
qed

section \<open>What a push leaves behind\<close>

text \<open>The edges that the passes handle: all but the split edges.\<close>

definition push_ok :: "bl_dag \<Rightarrow> edge_id \<Rightarrow> bool" where
  "push_ok d e \<longleftrightarrow> e \<in> set (d_edges d) \<and> getType d e \<noteq> SPLITEDGE"

text \<open>
  After a push from \<open>e\<close>, an edge that it reached is marked exactly when the push
  stopped there, an edge that it crossed carries no increment, all other edges
  are as before, and the increments have changed by a difference of potentials.
\<close>

definition push_done :: "(edge_id \<Rightarrow> node_id) \<Rightarrow> (edge_id \<Rightarrow> node_id) \<Rightarrow> (edge_id \<Rightarrow> bool) \<Rightarrow>
    (edge_id \<Rightarrow> bool) \<Rightarrow> edge_id \<Rightarrow> (edge_id \<Rightarrow> bool) \<Rightarrow> (edge_id \<Rightarrow> clong) \<Rightarrow>
    (edge_id \<Rightarrow> bool) \<Rightarrow> (edge_id \<Rightarrow> clong) \<Rightarrow> bool" where
  "push_done near far stop ok e flag inc flag' inc' \<longleftrightarrow>
     (\<forall>x. \<not> push_reach near far stop ok e x \<longrightarrow> inc' x = inc x \<and> flag' x = flag x)
     \<and> (\<forall>x. push_reach near far stop ok e x \<longrightarrow> flag' x = stop x \<and> (\<not> stop x \<longrightarrow> inc' x = 0))
     \<and> (\<exists>pot. \<forall>x. ok x \<longrightarrow> inc' x = inc x + pot (near x) - pot (far x))"

locale push_walk =
  fixes from_edge :: "nat \<Rightarrow> edge_id \<Rightarrow> bl_dag \<Rightarrow> bl_dag res"
    and loop :: "nat \<Rightarrow> edge_id \<Rightarrow> edge_id list \<Rightarrow> bl_dag \<Rightarrow> bl_dag res"
    and near :: "bl_dag \<Rightarrow> edge_id \<Rightarrow> node_id" and far :: "bl_dag \<Rightarrow> edge_id \<Rightarrow> node_id"
    and nexts :: "bl_dag \<Rightarrow> node_id \<Rightarrow> edge_id list" and stop :: "bl_dag \<Rightarrow> edge_id \<Rightarrow> bool"
    and flag :: "bl_dag \<Rightarrow> edge_id \<Rightarrow> bool" and set_flag :: "edge_id \<Rightarrow> bool \<Rightarrow> bl_dag \<Rightarrow> bl_dag"
    and keep :: "bl_dag \<Rightarrow> edge_id \<Rightarrow> bool" and good :: "bl_dag \<Rightarrow> bool"
    and meas :: "bl_dag \<Rightarrow> edge_id \<Rightarrow> nat" and bound :: "bl_dag \<Rightarrow> nat"
  assumes from_edge_0: "from_edge 0 e d = Inl Out_Of_Fuel"
    and from_edge_Suc: "from_edge (Suc n) e d = (if stop d e then Inr d
      else bind_res (loop n e (nexts d (far d e)) d) (\<lambda>d1. Inr (set_flag e False (setIncrement e 0 d1))))"
    and loop_Nil: "loop n e [] d = Inr d"
    and loop_Cons: "loop n e (f # fs) d = (if getType d f = SPLITEDGE then loop n e fs d
      else bind_res (from_edge n f (set_flag f True (setIncrement f (getIncrement d f + getIncrement d e) d)))
             (\<lambda>d1. loop n e fs d1))"
    and set_flag_laws: "flag (set_flag e b d) = (flag d)(e := b)"
      "getIncrement (set_flag e b d) = getIncrement d" "topo (set_flag e b d) = topo d"
      "keep (set_flag e b d) = keep d" "flag (setIncrement e i d) = flag d"
      "keep (setIncrement e i d) = keep d"
    and view: "topo d' = topo d \<Longrightarrow> keep d' = keep d \<Longrightarrow>
      near d' = near d \<and> far d' = far d \<and> nexts d' = nexts d \<and> stop d' = stop d
      \<and> good d' = good d \<and> meas d' = meas d \<and> bound d' = bound d"
    and graph: "good d \<Longrightarrow> push_graph (near d) (far d) (stop d) (push_ok d) (meas d)"
    and nexts_edges: "good d \<Longrightarrow> push_ok d e \<Longrightarrow> distinct (nexts d (far d e)) \<and>
      set (nexts d (far d e)) = {x \<in> set (d_edges d). near d x = far d e}"
    and meas_bound: "good d \<Longrightarrow> push_ok d e \<Longrightarrow> meas d e \<le> bound d"
begin

lemma push_ok_topo: "topo d' = topo d \<Longrightarrow> push_ok d' = push_ok d"
  by (simp add: push_ok_def fun_eq_iff topo_eqD [of d' d])

definition enough :: "nat \<Rightarrow> bl_dag \<Rightarrow> edge_id \<Rightarrow> bool" where
  "enough n d e \<longleftrightarrow> 0 < n \<and> (stop d e \<or> Suc (bound d) < n + meas d e)"

definition reach :: "bl_dag \<Rightarrow> edge_id \<Rightarrow> edge_id \<Rightarrow> bool" where
  "reach d = push_reach (near d) (far d) (stop d) (push_ok d)"

definition finished :: "bl_dag \<Rightarrow> edge_id \<Rightarrow> bl_dag \<Rightarrow> bool" where
  "finished d e d' \<longleftrightarrow> topo d' = topo d \<and> keep d' = keep d \<and>
     push_done (near d) (far d) (stop d) (push_ok d) e
       (flag d) (getIncrement d) (flag d') (getIncrement d')"

definition loop_finished :: "bl_dag \<Rightarrow> edge_id \<Rightarrow> edge_id list \<Rightarrow> bl_dag \<Rightarrow> bool" where
  "loop_finished d e fs d' \<longleftrightarrow> topo d' = topo d \<and> keep d' = keep d \<and>
     (\<forall>x. (\<forall>f\<in>set fs. push_ok d f \<longrightarrow> \<not> reach d f x) \<longrightarrow>
        getIncrement d' x = getIncrement d x \<and> flag d' x = flag d x) \<and>
     (\<forall>f\<in>set fs. push_ok d f \<longrightarrow> (\<forall>x. reach d f x \<longrightarrow>
        flag d' x = stop d x \<and> (\<not> stop d x \<longrightarrow> getIncrement d' x = 0))) \<and>
     (\<exists>pot. \<forall>x. push_ok d x \<longrightarrow> getIncrement d' x =
        getIncrement d x + (if x \<in> set fs then getIncrement d e else 0) + pot (near d x) - pot (far d x))"

lemma handed_on:
  assumes good: "good d" and e: "push_ok d e" "\<not> stop d e" and f: "push_ok d f" "near d f = far d e"
    and d1: "finished (set_flag f True (setIncrement f (getIncrement d f + getIncrement d e) d)) f d1"
  shows "topo d1 = topo d" "keep d1 = keep d" "getIncrement d1 e = getIncrement d e"
    "\<not> reach d f x \<Longrightarrow> getIncrement d1 x = getIncrement d x \<and> flag d1 x = flag d x"
    "reach d f x \<Longrightarrow> flag d1 x = stop d x \<and> (\<not> stop d x \<longrightarrow> getIncrement d1 x = 0)"
    "\<exists>pot. \<forall>x. push_ok d x \<longrightarrow> getIncrement d1 x =
       getIncrement d x + (if x = f then getIncrement d e else 0) + pot (near d x) - pot (far d x)"
proof -
  let ?d0 = "set_flag f True (setIncrement f (getIncrement d f + getIncrement d e) d)"
  have t0: "topo ?d0 = topo d" "keep ?d0 = keep d" by (simp_all add: set_flag_laws)
  note v0 = view [OF t0] push_ok_topo [OF t0(1)]
  have inc0: "getIncrement ?d0 = (getIncrement d)(f := getIncrement d f + getIncrement d e)"
    and flag0: "flag ?d0 = (flag d)(f := True)" by (simp_all add: set_flag_laws)
  have f_in: "reach d f f" by (simp add: reach_def reach_start)
  have e_out: "\<not> reach d f e"
    using push_reach_no_return [OF graph [OF good] e f] by (simp add: reach_def)
  have fin: "getIncrement d1 x = getIncrement ?d0 x \<and> flag d1 x = flag ?d0 x" if "\<not> reach d f x" for x
    using d1 that by (auto simp: finished_def push_done_def v0 reach_def)
  show "topo d1 = topo d" "keep d1 = keep d" using d1 t0 by (simp_all add: finished_def)
  show "getIncrement d1 e = getIncrement d e" using fin [OF e_out] inc0 e_out f_in by auto
  show "getIncrement d1 x = getIncrement d x \<and> flag d1 x = flag d x" if "\<not> reach d f x"
    using fin [OF that] inc0 flag0 f_in that by auto
  show "flag d1 x = stop d x \<and> (\<not> stop d x \<longrightarrow> getIncrement d1 x = 0)" if "reach d f x"
    using d1 that by (auto simp: finished_def push_done_def v0 reach_def)
  from d1 obtain pot where pot: "\<And>x. push_ok d x \<Longrightarrow>
      getIncrement d1 x = getIncrement ?d0 x + pot (near d x) - pot (far d x)"
    by (auto simp: finished_def push_done_def v0)
  show "\<exists>pot. \<forall>x. push_ok d x \<longrightarrow> getIncrement d1 x =
      getIncrement d x + (if x = f then getIncrement d e else 0) + pot (near d x) - pot (far d x)"
    by (rule exI [of _ pot]) (simp add: pot inc0)
qed

lemma loop_step:
  assumes good: "good d" and e: "push_ok d e" "\<not> stop d e"
    and fs: "distinct (f # fs)" "\<forall>g\<in>set (f # fs). near d g = far d e" and f: "push_ok d f"
    and d1: "finished (set_flag f True (setIncrement f (getIncrement d f + getIncrement d e) d)) f d1"
    and d2: "loop_finished d1 e fs d2"
  shows "loop_finished d e (f # fs) d2"
proof -
  have nf: "near d f = far d e" using fs by simp
  note h = handed_on [OF good e f nf d1]
  note v1 = view [OF h(1,2)] push_ok_topo [OF h(1)]
  have reach1: "reach d1 = reach d" by (simp add: reach_def v1)
  have fin2: "\<And>x. \<forall>g\<in>set fs. push_ok d g \<longrightarrow> \<not> reach d g x \<Longrightarrow>
      getIncrement d2 x = getIncrement d1 x \<and> flag d2 x = flag d1 x"
    and mark2: "\<And>g x. g \<in> set fs \<Longrightarrow> push_ok d g \<Longrightarrow> reach d g x \<Longrightarrow>
      flag d2 x = stop d x \<and> (\<not> stop d x \<longrightarrow> getIncrement d2 x = 0)"
    using d2 by (auto simp: loop_finished_def v1 reach1)
  have disj: "\<not> reach d g x" if "g \<in> set fs" "push_ok d g" "reach d f x" for g x
    using push_reach_disjoint [OF graph [OF good] e f nf, of g x] that fs by (auto simp: reach_def)
  have same: "getIncrement d2 x = getIncrement d x \<and> flag d2 x = flag d x"
    if "\<forall>g\<in>set (f # fs). push_ok d g \<longrightarrow> \<not> reach d g x" for x
    using that f h(4) [of x] fin2 [of x] by simp
  have marks: "flag d2 x = stop d x \<and> (\<not> stop d x \<longrightarrow> getIncrement d2 x = 0)"
    if g: "g \<in> set (f # fs)" "push_ok d g" "reach d g x" for g x
    using fin2 [of x] h(5) [of x] mark2 [of g x] disj g by (cases "g = f") auto
  obtain p q where
    p: "\<And>x. push_ok d x \<Longrightarrow> getIncrement d1 x =
      getIncrement d x + (if x = f then getIncrement d e else 0) + p (near d x) - p (far d x)" and
    q: "\<And>x. push_ok d x \<Longrightarrow> getIncrement d2 x = getIncrement d1 x +
      (if x \<in> set fs then getIncrement d1 e else 0) + q (near d x) - q (far d x)"
    using h(6) d2 by (auto simp: loop_finished_def v1)
  have "\<exists>pot. \<forall>x. push_ok d x \<longrightarrow> getIncrement d2 x = getIncrement d x +
      (if x \<in> set (f # fs) then getIncrement d e else 0) + pot (near d x) - pot (far d x)"
    by (rule exI [of _ "\<lambda>v. p v + q v"]) (use fs(1) in \<open>auto simp: p q h(3)\<close>)
  moreover have "topo d2 = topo d" "keep d2 = keep d" using d2 h(1,2) by (simp_all add: loop_finished_def)
  ultimately show ?thesis unfolding loop_finished_def using same marks by blast
qed

lemma loop_spec:
  assumes good: "good d" and e: "push_ok d e" "\<not> stop d e"
    and fs: "distinct fs" "set fs \<subseteq> set (d_edges d)" "\<forall>g\<in>set fs. near d g = far d e"
    and call: "\<And>f d'. f \<in> set fs \<Longrightarrow> push_ok d f \<Longrightarrow> topo d' = topo d \<Longrightarrow> keep d' = keep d \<Longrightarrow>
      flag d' f \<Longrightarrow> \<exists>d2. from_edge n f d' = Inr d2 \<and> finished d' f d2"
  shows "\<exists>d'. loop n e fs d = Inr d' \<and> loop_finished d e fs d'"
  using assms
proof (induction fs arbitrary: d)
  case Nil
  then show ?case by (auto simp: loop_Nil loop_finished_def intro: exI [of _ "\<lambda>_. 0"])
next
  case (Cons f fs)
  show ?case
  proof (cases "getType d f = SPLITEDGE")
    case True
    obtain d' where d': "loop n e fs d = Inr d'" "loop_finished d e fs d'"
      using Cons.IH [OF Cons.prems(1-3)] Cons.prems(4-7) by auto
    have "\<not> push_ok d f" using True by (simp add: push_ok_def)
    then have "loop_finished d e (f # fs) d'" using d'(2) by (auto simp: loop_finished_def)
    with d'(1) True show ?thesis by (simp add: loop_Cons)
  next
    case False
    let ?d0 = "set_flag f True (setIncrement f (getIncrement d f + getIncrement d e) d)"
    have f: "push_ok d f" using False Cons.prems(5) by (simp add: push_ok_def)
    have "\<exists>d2. from_edge n f ?d0 = Inr d2 \<and> finished ?d0 f d2"
      by (rule Cons.prems(7)) (simp_all add: f set_flag_laws)
    then obtain d1 where d1: "from_edge n f ?d0 = Inr d1" "finished ?d0 f d1" by blast
    have nf: "near d f = far d e" using Cons.prems(6) by simp
    note h = handed_on(1,2) [OF Cons.prems(1-3) f nf d1(2)]
    note v1 = view [OF h] push_ok_topo [OF h(1)] topo_eqD [OF h(1)]
    have "\<exists>d2. loop n e fs d1 = Inr d2 \<and> loop_finished d1 e fs d2"
      by (rule Cons.IH) (use Cons.prems h in \<open>auto simp: v1\<close>)
    then obtain d2 where d2: "loop n e fs d1 = Inr d2" "loop_finished d1 e fs d2" by blast
    have "loop n e (f # fs) d = Inr d2" using False d1(1) d2(1) by (simp add: loop_Cons)
    moreover have "loop_finished d e (f # fs) d2"
      by (rule loop_step [OF Cons.prems(1-4,6) f d1(2) d2(2)])
    ultimately show ?thesis by blast
  qed
qed

lemma finished_at_stop:
  assumes "stop d e" "flag d e"
  shows "finished d e d"
proof -
  have "push_reach (near d) (far d) (stop d) (push_ok d) e x \<longleftrightarrow> x = e" for x
    using push_reach_stop [of _ _ "stop d" _ e x] assms(1) reach_start by metis
  then show ?thesis
    using assms by (auto simp: finished_def push_done_def intro: exI [of _ "\<lambda>_. 0"])
qed

lemma finished_crossing:
  assumes good: "good d" and e: "push_ok d e" "\<not> stop d e"
    and d1: "loop_finished d e (nexts d (far d e)) d1"
  shows "finished d e (set_flag e False (setIncrement e 0 d1))"
proof -
  let ?d2 = "set_flag e False (setIncrement e 0 d1)"
  note nx = nexts_edges [OF good e(1)]
  have single: "far d x = far d e \<longleftrightarrow> x = e" if "push_ok d x" for x
    using graph [OF good] e that by (auto simp: push_graph_def)
  have next_iff: "f \<in> set (nexts d (far d e)) \<and> push_ok d f \<longleftrightarrow> push_ok d f \<and> near d f = far d e" for f
    using nx by (auto simp: push_ok_def)
  have reach_iff: "reach d e x \<longleftrightarrow> x = e \<or> (\<exists>f\<in>set (nexts d (far d e)). push_ok d f \<and> reach d f x)" for x
    using push_reach_unfold [of "stop d" e "near d" "far d" "push_ok d" x] e(2) next_iff
    by (auto simp: reach_def)
  have e_out: "\<not> reach d f e" if "f \<in> set (nexts d (far d e))" "push_ok d f" for f
    using push_reach_no_return [OF graph [OF good] e] next_iff that by (auto simp: reach_def)
  have inc2: "getIncrement ?d2 = (getIncrement d1)(e := 0)" and flag2: "flag ?d2 = (flag d1)(e := False)"
    by (simp_all add: set_flag_laws)
  have inc_e: "getIncrement d1 e = getIncrement d e" using d1 e_out by (auto simp: loop_finished_def)
  from d1 obtain p where p: "\<And>x. push_ok d x \<Longrightarrow> getIncrement d1 x = getIncrement d x +
      (if x \<in> set (nexts d (far d e)) then getIncrement d e else 0) + p (near d x) - p (far d x)"
    by (auto simp: loop_finished_def)
  let ?q = "\<lambda>v. p v + (if v = far d e then getIncrement d e else 0)"
  have "getIncrement ?d2 x = getIncrement d x + ?q (near d x) - ?q (far d x)" if x: "push_ok d x" for x
    using p [OF x] single [OF x] next_iff [of x] x inc_e by (cases "x = e") (auto simp: inc2)
  then have "\<exists>pot. \<forall>x. push_ok d x \<longrightarrow> getIncrement ?d2 x = getIncrement d x + pot (near d x) - pot (far d x)"
    by (intro exI [of _ ?q]) simp
  moreover have "getIncrement ?d2 x = getIncrement d x \<and> flag ?d2 x = flag d x" if "\<not> reach d e x" for x
    using d1 that reach_iff by (auto simp: loop_finished_def inc2 flag2)
  moreover have "flag ?d2 x = stop d x \<and> (\<not> stop d x \<longrightarrow> getIncrement ?d2 x = 0)" if "reach d e x" for x
    using d1 that reach_iff [of x] e(2) by (auto simp: loop_finished_def inc2 flag2)
  ultimately show ?thesis
    using d1 by (auto simp: finished_def push_done_def loop_finished_def set_flag_laws reach_def)
qed

lemma enough_next:
  assumes good: "good d" and e: "push_ok d e" "\<not> stop d e" "enough (Suc n) d e"
    and f: "push_ok d f" "near d f = far d e"
  shows "enough n d f"
proof -
  have "meas d e \<le> bound d" using good e(1) by (rule meas_bound)
  moreover have "stop d f \<or> meas d e < meas d f"
    using graph [OF good] e(1,2) f by (auto simp: push_graph_def)
  ultimately show ?thesis using e by (auto simp: enough_def)
qed

lemma from_edge_finished:
  assumes "good d" "push_ok d e" "enough n d e" "flag d e"
  shows "\<exists>d'. from_edge n e d = Inr d' \<and> finished d e d'"
  using assms
proof (induction n arbitrary: e d)
  case 0
  then show ?case by (simp add: enough_def)
next
  case (Suc n)
  show ?case
  proof (cases "stop d e")
    case True
    then show ?thesis using finished_at_stop Suc.prems by (simp add: from_edge_Suc)
  next
    case False
    note nx = nexts_edges [OF Suc.prems(1,2)]
    have "\<exists>d2. from_edge n f d' = Inr d2 \<and> finished d' f d2"
      if f: "f \<in> set (nexts d (far d e))" "push_ok d f" and d': "topo d' = topo d" "keep d' = keep d" "flag d' f"
      for f d'
    proof -
      note v = view [OF d'(1,2)] push_ok_topo [OF d'(1)]
      have "enough n d f" using enough_next Suc.prems False f nx by blast
      then have "enough n d' f" by (simp add: enough_def v)
      with Suc.IH [of d' f] Suc.prems(1) f(2) d'(3) show ?thesis by (simp add: v)
    qed
    then obtain d1 where d1: "loop n e (nexts d (far d e)) d = Inr d1"
        "loop_finished d e (nexts d (far d e)) d1"
      using loop_spec [OF Suc.prems(1,2) False, of "nexts d (far d e)" n] nx by blast
    then have "from_edge (Suc n) e d = Inr (set_flag e False (setIncrement e 0 d1))"
      using False by (simp add: from_edge_Suc)
    then show ?thesis using finished_crossing [OF Suc.prems(1,2) False d1(2)] by blast
  qed
qed

end

section \<open>Both passes are pushes\<close>

definition rank_bound :: "(node_id \<Rightarrow> nat) \<Rightarrow> bl_dag \<Rightarrow> nat" where
  "rank_bound rk d = foldr max (map rk (d_nodes d)) 0"

lemma rank_bound_ge: "v \<in> set (d_nodes d) \<Longrightarrow> rk v \<le> rank_bound rk d"
proof -
  have "v \<in> set vs \<Longrightarrow> rk v \<le> foldr max (map rk vs) 0" for vs
    by (induction vs) (auto simp: le_max_iff_disj)
  then show "v \<in> set (d_nodes d) \<Longrightarrow> rk v \<le> rank_bound rk d" by (simp add: rank_bound_def)
qed

definition init_stop :: "bl_dag \<Rightarrow> edge_id \<Rightarrow> bool" where
  "init_stop d = (\<lambda>e. getNumberPredEdges d (getTarget d e) > 1 \<or> getTarget d e = d_exit d)"

definition counter_stop :: "bl_dag \<Rightarrow> edge_id \<Rightarrow> bool" where
  "counter_stop d = (\<lambda>e. getNumberSuccEdges d (getSource d e) > 1 \<or> getSource d e = d_root d
     \<or> isInitialization d e)"

lemma init_graph:
  assumes wf: "bl_wf rk d"
  shows "push_graph (getSource d) (getTarget d) (init_stop d) (push_ok d) (\<lambda>e. rk (getTarget d e))"
  unfolding push_graph_def
proof (intro conjI allI impI)
  fix x y
  assume x: "push_ok d x" "\<not> init_stop d x" and y: "push_ok d y" and eq: "getTarget d y = getTarget d x"
  have "x \<in> set (predEdges d (getTarget d x))" "y \<in> set (predEdges d (getTarget d x))"
    using wf_pred_iff [OF wf wf_ends(2) [OF wf]] x y eq by (auto simp: push_ok_def)
  then show "y = x"
    using x(2) length_le_Suc_0_unique [of "predEdges d (getTarget d x)" y x]
    by (simp add: init_stop_def getNumberPredEdges_def)
next
  fix x y
  assume x: "push_ok d x" "\<not> init_stop d x" and y: "push_ok d y" "\<not> init_stop d y"
    and eq: "getSource d y = getTarget d x"
  have "getType d y \<noteq> BACKEDGE"
    using wf_loop_target_preds [OF wf, of y] y by (auto simp: init_stop_def push_ok_def)
  moreover have "getExitRootEdge d \<noteq> Inr y"
  proof
    assume "getExitRootEdge d = Inr y"
    with wf have "getSource d y = d_exit d" by (rule wf_exit_root_edge)
    with eq x(2) show False by (simp add: init_stop_def)
  qed
  ultimately have "dag_edge d y" using y(1) by (simp add: dag_edge_def push_ok_def)
  then show "rk (getTarget d x) < rk (getTarget d y)" using wf_rank [OF wf, of y] eq by simp
qed

lemma counter_graph:
  assumes wf: "bl_wf rk d"
  shows "push_graph (getTarget d) (getSource d) (counter_stop d) (push_ok d)
    (\<lambda>e. rank_bound rk d - rk (getSource d e))"
  unfolding push_graph_def
proof (intro conjI allI impI)
  fix x y
  assume x: "push_ok d x" "\<not> counter_stop d x" and y: "push_ok d y" and eq: "getSource d y = getSource d x"
  have "x \<in> set (succEdges d (getSource d x))" "y \<in> set (succEdges d (getSource d x))"
    using wf_succ_iff [OF wf wf_ends(1) [OF wf]] x y eq by (auto simp: push_ok_def)
  then show "y = x"
    using x(2) length_le_Suc_0_unique [of "succEdges d (getSource d x)" y x]
    by (simp add: counter_stop_def getNumberSuccEdges_def)
next
  fix x y
  assume x: "push_ok d x" "\<not> counter_stop d x" and y: "push_ok d y" "\<not> counter_stop d y"
    and eq: "getTarget d y = getSource d x"
  have "getType d y \<noteq> BACKEDGE"
    using wf_loop_source_succs [OF wf, of y] y by (auto simp: counter_stop_def push_ok_def)
  moreover have "getExitRootEdge d \<noteq> Inr y"
  proof
    assume "getExitRootEdge d = Inr y"
    with wf have "getTarget d y = d_root d" by (rule wf_exit_root_edge)
    with eq x(2) show False by (simp add: counter_stop_def)
  qed
  ultimately have "dag_edge d y" using y(1) by (simp add: dag_edge_def push_ok_def)
  then have "rk (getSource d y) < rk (getSource d x)" using wf_rank [OF wf, of y] eq by simp
  moreover have "rk (getSource d x) \<le> rank_bound rk d"
    using wf_ends(1) [OF wf, of x] x(1) by (simp add: rank_bound_ge push_ok_def)
  ultimately show "rank_bound rk d - rk (getSource d x) < rank_bound rk d - rk (getSource d y)" by simp
qed

lemma rank_bound_topo: "topo d' = topo d \<Longrightarrow> rank_bound rk d' = rank_bound rk d"
  by (simp add: rank_bound_def topo_eqD [of d' d])

interpretation pinit: push_walk pushInitializationFromEdge push_init_loop getSource getTarget succEdges
  init_stop isInitialization setIsInitialization isCounterIncrement "bl_wf rk"
  "\<lambda>d e. rk (getTarget d e)" "rank_bound rk" for rk
proof (unfold_locales, goal_cases)
  case (11 d' d)
  then show ?case by (simp add: init_stop_def topo_eqs [OF 11(1)] rank_bound_topo [OF 11(1)] 11(2))
next
  case (12 d)
  then show ?case by (rule init_graph)
next
  case (13 d e)
  then have "getTarget d e \<in> set (d_nodes d)" by (auto simp: push_ok_def intro: wf_ends)
  with 13(1) show ?case by (simp add: wf_edge_vectors)
next
  case (14 d e)
  then show ?case using wf_ends(2) [OF 14(1), of e] by (simp add: push_ok_def rank_bound_ge)
qed (simp_all add: init_stop_def Let_def)

interpretation pcount: push_walk pushCountersFromEdge push_counter_loop getTarget getSource predEdges
  counter_stop isCounterIncrement setIsCounterIncrement isInitialization "bl_wf rk"
  "\<lambda>d e. rank_bound rk d - rk (getSource d e)" "rank_bound rk" for rk
proof (unfold_locales, goal_cases)
  case (11 d' d)
  then show ?case by (simp add: counter_stop_def topo_eqs [OF 11(1)] rank_bound_topo [OF 11(1)] 11(2))
next
  case (12 d)
  then show ?case by (rule counter_graph)
next
  case (13 d e)
  then have "getSource d e \<in> set (d_nodes d)" by (auto simp: push_ok_def intro: wf_ends)
  with 13(1) show ?case by (simp add: wf_edge_vectors)
qed (simp_all add: counter_stop_def Let_def)

end
