(* ===== verification/BL_Placement.thy ===== *)
theory BL_Placement
  imports BL_Push
begin

text \<open>
  The placement passes in the order in which \<open>PathProfiler::runOnFunction\<close> calls
  them (spanning tree, chord increments, initializations, counters), and the
  marks and increments they leave on the edges: where an initialization and
  where a counter sits, that the edges of one acyclic path carry exactly one of
  each, the counter not before the initialization, and that the increments
  around it still add up to the path number.
\<close>

section \<open>The passes in sequence\<close>

definition place_instrumentation :: "nat \<Rightarrow> bl_dag \<Rightarrow> bl_dag res" where
  "place_instrumentation n d =
     bind_res (calculateSpanningTree d) (\<lambda>d1.
     bind_res (calculateChordIncrements n d1) (\<lambda>d2.
     bind_res (pushInitialization n d2) (\<lambda>d3.
     pushCounters n d3)))"

definition enough_fuel :: "(node_id \<Rightarrow> nat) \<Rightarrow> nat \<Rightarrow> bl_dag \<Rightarrow> bool" where
  "enough_fuel rk n d \<longleftrightarrow> Suc (rank_bound rk d) < n"

section \<open>The result of the two pushes\<close>

lemma pushInitialization_done:
  assumes wf: "bl_wf rk d" and n: "enough_fuel rk n d" and er: "getExitRootEdge d = Inr er"
  obtains d' where "pushInitialization n d = Inr d'" "topo d' = topo d"
    "isCounterIncrement d' = isCounterIncrement d"
    "push_done (getSource d) (getTarget d) (init_stop d) (push_ok d) er
       ((isInitialization d)(er := True)) (getIncrement d) (isInitialization d') (getIncrement d')"
proof -
  let ?d0 = "setIsInitialization er True d"
  have t: "topo ?d0 = topo d" by simp
  note e = wf_exit_root_edge [OF wf er]
  have "bl_wf rk ?d0" using wf by (simp add: topo_eqs [OF t])
  moreover have "push_ok ?d0 er" using e by (simp add: push_ok_def topo_eqs [OF t])
  moreover have "pinit.enough rk n ?d0 er"
    using n rank_bound_topo [OF t, of rk] by (simp add: pinit.enough_def enough_fuel_def)
  ultimately obtain d' where d': "pushInitializationFromEdge n er ?d0 = Inr d'"
      "pinit.finished ?d0 er d'"
    using pinit.from_edge_finished [of rk ?d0 er n] by auto
  have v: "init_stop ?d0 = init_stop d" "push_ok ?d0 = push_ok d"
    by (simp_all add: init_stop_def push_ok_def fun_eq_iff topo_eqs [OF t])
  show thesis
    by (rule that [of d'])
      (use d' in \<open>simp_all add: pushInitialization_def er pinit.finished_def v topo_eqs [OF t]\<close>)
qed

lemma pushCounters_done:
  assumes wf: "bl_wf rk d" and n: "enough_fuel rk n d" and er: "getExitRootEdge d = Inr er"
  obtains d' where "pushCounters n d = Inr d'" "topo d' = topo d"
    "isInitialization d' = isInitialization d"
    "push_done (getTarget d) (getSource d) (counter_stop d) (push_ok d) er
       ((isCounterIncrement d)(er := True)) (getIncrement d) (isCounterIncrement d') (getIncrement d')"
proof -
  let ?d0 = "setIsCounterIncrement er True d"
  have t: "topo ?d0 = topo d" by simp
  note e = wf_exit_root_edge [OF wf er]
  have "bl_wf rk ?d0" using wf by (simp add: topo_eqs [OF t])
  moreover have "push_ok ?d0 er" using e by (simp add: push_ok_def topo_eqs [OF t])
  moreover have "pcount.enough rk n ?d0 er"
    using n rank_bound_topo [OF t, of rk] by (simp add: pcount.enough_def enough_fuel_def)
  ultimately obtain d' where d': "pushCountersFromEdge n er ?d0 = Inr d'"
      "pcount.finished ?d0 er d'"
    using pcount.from_edge_finished [of rk ?d0 er n] by auto
  have v: "counter_stop ?d0 = counter_stop d" "push_ok ?d0 = push_ok d"
    by (simp_all add: counter_stop_def push_ok_def fun_eq_iff topo_eqs [OF t])
  show thesis
    by (rule that [of d'])
      (use d' in \<open>simp_all add: pushCounters_def er pcount.finished_def v topo_eqs [OF t]\<close>)
qed

lemma push_done_shifted:
  assumes wf: "bl_wf rk d"
    and pot: "\<exists>pot. \<forall>x. push_ok d x \<longrightarrow> inc' x = inc x + pot (getSource d x) - pot (getTarget d x)"
  shows "shifted d inc inc'"
proof -
  obtain pot where "\<And>x. push_ok d x \<Longrightarrow> inc' x = inc x + pot (getSource d x) - pot (getTarget d x)"
    using pot by blast
  moreover have "push_ok d x" if "placement_edge d x" for x
    using wf_placement_edge_ends [OF wf that] by (simp add: push_ok_def)
  ultimately show ?thesis unfolding shifted_def by blast
qed

lemma push_done_shifted_back:
  assumes wf: "bl_wf rk d"
    and pot: "\<exists>pot. \<forall>x. push_ok d x \<longrightarrow> inc' x = inc x + pot (getTarget d x) - pot (getSource d x)"
  shows "shifted d inc inc'"
proof (rule push_done_shifted [OF wf])
  obtain pot where "\<And>x. push_ok d x \<Longrightarrow> inc' x = inc x + pot (getTarget d x) - pot (getSource d x)"
    using pot by blast
  then show "\<exists>pot. \<forall>x. push_ok d x \<longrightarrow> inc' x = inc x + pot (getSource d x) - pot (getTarget d x)"
    by (intro exI [of _ "\<lambda>v. - pot v"]) simp
qed

interpretation pi: placement_pass "pushInitialization n"
  "\<lambda>d. bl_wf rk d \<and> enough_fuel rk n d" getIncrement for n rk
proof (unfold_locales)
  fix d d'
  assume pre: "bl_wf rk d \<and> enough_fuel rk n d"
  then obtain er where er: "getExitRootEdge d = Inr er" using wf_exit_root by blast
  obtain d1 where d1: "pushInitialization n d = Inr d1" "topo d1 = topo d"
    "push_done (getSource d) (getTarget d) (init_stop d) (push_ok d) er
       ((isInitialization d)(er := True)) (getIncrement d) (isInitialization d1) (getIncrement d1)"
    using pushInitialization_done [of rk d n er] pre er by blast
  show "\<exists>d'. pushInitialization n d = Inr d'" using d1 by blast
  assume "pushInitialization n d = Inr d'"
  with d1 have eq: "d' = d1" by simp
  show "topo d' = topo d" using d1 eq by simp
  show "shifted d (getIncrement d) (getIncrement d')"
    using push_done_shifted [of rk d] pre d1(3) by (simp add: eq push_done_def)
qed

interpretation pc: placement_pass "pushCounters n"
  "\<lambda>d. bl_wf rk d \<and> enough_fuel rk n d" getIncrement for n rk
proof (unfold_locales)
  fix d d'
  assume pre: "bl_wf rk d \<and> enough_fuel rk n d"
  then obtain er where er: "getExitRootEdge d = Inr er" using wf_exit_root by blast
  obtain d1 where d1: "pushCounters n d = Inr d1" "topo d1 = topo d"
    "push_done (getTarget d) (getSource d) (counter_stop d) (push_ok d) er
       ((isCounterIncrement d)(er := True)) (getIncrement d) (isCounterIncrement d1) (getIncrement d1)"
    using pushCounters_done [of rk d n er] pre er by blast
  show "\<exists>d'. pushCounters n d = Inr d'" using d1 by blast
  assume "pushCounters n d = Inr d'"
  with d1 have eq: "d' = d1" by simp
  show "topo d' = topo d" using d1 eq by simp
  show "shifted d (getIncrement d) (getIncrement d')"
    using push_done_shifted_back [of rk d] pre d1(3) by (simp add: eq push_done_def)
qed

section \<open>The placed dag\<close>

text \<open>
  \<open>init_reach\<close> and \<open>counter_reach\<close>: the edges that the two pushes touch, seen from
  the finished dag (the pushes do not change what they depend on).
\<close>

definition init_reach :: "bl_dag \<Rightarrow> edge_id \<Rightarrow> edge_id \<Rightarrow> bool" where
  "init_reach d = push_reach (getSource d) (getTarget d) (init_stop d) (push_ok d)"

definition counter_reach :: "bl_dag \<Rightarrow> edge_id \<Rightarrow> edge_id \<Rightarrow> bool" where
  "counter_reach d = push_reach (getTarget d) (getSource d) (counter_stop d) (push_ok d)"

definition placed :: "(node_id \<Rightarrow> nat) \<Rightarrow> edge_id \<Rightarrow> bl_dag \<Rightarrow> bool" where
  "placed rk er d \<longleftrightarrow> bl_wf rk d \<and> getExitRootEdge d = Inr er
     \<and> (\<forall>x. push_ok d x \<longrightarrow> isInitialization d x = (init_reach d er x \<and> init_stop d x))
     \<and> (\<forall>x. push_ok d x \<longrightarrow> isCounterIncrement d x = (counter_reach d er x \<and> counter_stop d x))
     \<and> (\<forall>x. push_ok d x \<longrightarrow> init_reach d er x \<longrightarrow> \<not> init_stop d x \<longrightarrow> getIncrement d x = 0)
     \<and> (\<forall>x. push_ok d x \<longrightarrow> counter_reach d er x \<longrightarrow> \<not> counter_stop d x \<longrightarrow> getIncrement d x = 0)"

lemma reach_topo:
  assumes "topo d' = topo d"
  shows "init_stop d' = init_stop d" "push_ok d' = push_ok d" "init_reach d' = init_reach d"
    "isInitialization d' = isInitialization d \<Longrightarrow> counter_stop d' = counter_stop d"
    "isInitialization d' = isInitialization d \<Longrightarrow> counter_reach d' = counter_reach d"
proof -
  note t = topo_eqs [OF assms]
  show i: "init_stop d' = init_stop d" by (simp add: init_stop_def fun_eq_iff t)
  show o: "push_ok d' = push_ok d" by (simp add: push_ok_def fun_eq_iff t)
  show "init_reach d' = init_reach d" by (simp add: init_reach_def t i o)
  show c: "counter_stop d' = counter_stop d" if "isInitialization d' = isInitialization d"
    using that by (simp add: counter_stop_def fun_eq_iff t)
  show "counter_reach d' = counter_reach d" if "isInitialization d' = isInitialization d"
    using c [OF that] by (simp add: counter_reach_def t o)
qed

text \<open>The exit edge is crossed by both pushes.\<close>

lemma exit_root_crossed:
  assumes wf: "bl_wf rk d" and er: "getExitRootEdge d = Inr er"
  shows "push_ok d er" "\<not> init_stop d er" "\<not> isInitialization d er \<Longrightarrow> \<not> counter_stop d er"
    "init_reach d er er" "counter_reach d er er"
proof -
  note e = wf_exit_root_edge [OF wf er]
  have ne: "d_root d \<noteq> d_exit d" using wf by (simp add: bl_wf_def)
  show "push_ok d er" using e by (simp add: push_ok_def)
  show "\<not> init_stop d er" using e ne by (simp add: init_stop_def getNumberPredEdges_def)
  show "\<not> counter_stop d er" if "\<not> isInitialization d er"
    using e ne that by (simp add: counter_stop_def getNumberSuccEdges_def)
  show "init_reach d er er" "counter_reach d er er"
    by (simp_all add: init_reach_def counter_reach_def reach_start)
qed

text \<open>
  No edge before the initialization of its path is touched by the counter push:
  such an edge would hand the counter on across an initialization.
\<close>

lemma counter_stays_behind:
  assumes wf: "bl_wf rk d" and er: "getExitRootEdge d = Inr er"
    and ini: "\<And>x. push_ok d x \<Longrightarrow> isInitialization d x = (init_reach d er x \<and> init_stop d x)"
    and c: "counter_reach d er x" and i: "init_reach d er x" "\<not> init_stop d x"
  shows "x = er"
proof (rule ccontr)
  assume "x \<noteq> er"
  note e = wf_exit_root_edge [OF wf er]
  from c [unfolded counter_reach_def] i \<open>x \<noteq> er\<close> show False
  proof (induction rule: push_reach.induct)
    case reach_start
    then show ?case by simp
  next
    case (reach_next y x)
    have okx: "push_ok d x" by (rule reach_next.hyps)
    have oky: "push_ok d y"
      using reach_next.hyps(1) exit_root_crossed(1) [OF wf er] by (rule push_reach_ok)
    have xy: "getTarget d x = getSource d y" by (rule reach_next.hyps)
    have iy: "init_reach d er y"
      using reach_next.prems(1,2) oky xy by (auto simp: init_reach_def intro: push_reach.reach_next)
    have "y \<noteq> er" using xy e(1) reach_next.prems(2) by (auto simp: init_stop_def)
    with reach_next.IH iy have "init_stop d y" by blast
    with ini [OF oky] iy have "isInitialization d y" by simp
    then show ?case using reach_next.hyps(2) by (simp add: counter_stop_def)
  qed
qed

lemma placed_after_pushes:
  assumes wf: "bl_wf rk d1" and er: "getExitRootEdge d1 = Inr er"
    and t2: "topo d2 = topo d1"
    and init: "push_done (getSource d1) (getTarget d1) (init_stop d1) (push_ok d1) er
      ((isInitialization d1)(er := True)) (getIncrement d1) (isInitialization d2) (getIncrement d2)"
    and t3: "topo d3 = topo d2" and i3: "isInitialization d3 = isInitialization d2"
    and count: "push_done (getTarget d2) (getSource d2) (counter_stop d2) (push_ok d2) er
      ((isCounterIncrement d2)(er := True)) (getIncrement d2) (isCounterIncrement d3) (getIncrement d3)"
    and fresh: "\<And>x. x \<in> set (d_edges d1) \<Longrightarrow> \<not> isInitialization d1 x \<and> \<not> isCounterIncrement d2 x"
  shows "placed rk er d3"
proof -
  note v2 = reach_topo [OF t2] and v3 = reach_topo [OF t3] and e2 = topo_eqs [OF t2] and e3 = topo_eqs [OF t3]
  have wf3: "bl_wf rk d3" and er3: "getExitRootEdge d3 = Inr er" using wf er by (simp_all add: e2 e3)
  have ini: "isInitialization d3 x = (init_reach d3 er x \<and> init_stop d3 x)" if "push_ok d3 x" for x
  proof (cases "init_reach d3 er x")
    case True
    then show ?thesis using init by (simp add: push_done_def init_reach_def i3 v2 v3 e2 e3)
  next
    case False
    then have "x \<noteq> er" using exit_root_crossed(4) [OF wf3 er3] by auto
    moreover have "x \<in> set (d_edges d1)" using that by (simp add: push_ok_def e2 e3)
    ultimately show ?thesis
      using init False fresh [of x] by (simp add: push_done_def init_reach_def i3 v2 v3 e2 e3)
  qed
  have cnt: "isCounterIncrement d3 x = (counter_reach d3 er x \<and> counter_stop d3 x)" if "push_ok d3 x" for x
  proof (cases "counter_reach d3 er x")
    case True
    then show ?thesis using count by (simp add: push_done_def counter_reach_def v3 i3 e3)
  next
    case False
    then have "x \<noteq> er" using exit_root_crossed(5) [OF wf3 er3] by auto
    moreover have "x \<in> set (d_edges d1)" using that by (simp add: push_ok_def e2 e3)
    ultimately show ?thesis
      using count False fresh [of x] by (simp add: push_done_def counter_reach_def v3 i3 e3)
  qed
  have cz: "getIncrement d3 x = 0" if "counter_reach d3 er x" "\<not> counter_stop d3 x" for x
    using count that by (simp add: push_done_def counter_reach_def v3 i3 e3)
  have "\<not> counter_stop d3 er"
    using exit_root_crossed [OF wf3 er3] ini by blast
  then have er0: "getIncrement d3 er = 0" using cz exit_root_crossed(5) [OF wf3 er3] by blast
  have iz: "getIncrement d3 x = 0" if x: "push_ok d3 x" "init_reach d3 er x" "\<not> init_stop d3 x" for x
  proof (cases "counter_reach d3 er x")
    case True
    then show ?thesis using counter_stays_behind [OF wf3 er3 ini True x(2,3)] er0 by simp
  next
    case False
    then have "getIncrement d3 x = getIncrement d2 x"
      using count by (simp add: push_done_def counter_reach_def v3 i3 e3)
    then show ?thesis using init x(2,3) by (simp add: push_done_def init_reach_def v2 v3 e2 e3)
  qed
  show ?thesis unfolding placed_def using wf3 er3 ini cnt cz iz by blast
qed

lemma place_instrumentation_placed:
  assumes wf: "bl_wf rk d" and fr: "fresh_dag d" and n: "enough_fuel rk n d"
    and er: "getExitRootEdge d = Inr er"
  obtains d' where "place_instrumentation n d = Inr d'" "topo d' = topo d" "placed rk er d'"
    "shifted d (getWeight d) (getIncrement d')"
    "\<And>x. x \<in> set (d_edges d) \<Longrightarrow> \<not> init_reach d' er x \<Longrightarrow> \<not> counter_reach d' er x \<Longrightarrow>
       \<not> isInitialization d' x \<and> \<not> isCounterIncrement d' x \<and> (getWeight d x = 0 \<longrightarrow> getIncrement d' x = 0)"
proof -
  obtain m where m: "n = Suc m" using n by (cases n) (auto simp: enough_fuel_def)
  obtain d1 where d1: "compute_increments n d = Inr d1" "topo d1 = topo d"
      "isInitialization d1 = isInitialization d" "isCounterIncrement d1 = isCounterIncrement d"
      "\<And>e. e \<in> set (d_edges d) \<Longrightarrow> getIncrement d1 e = (if getType d e = SPLITEDGE then 0 else getWeight d e)"
    using compute_increments_fresh [OF wf fr, of n] m by (metis zero_less_Suc)
  have sh1: "shifted d (getWeight d) (getIncrement d1)"
    using ci.pass_shifts [of rk d m d1] wf fr d1(1) m by simp
  note t1 = topo_eqs [OF d1(2)]
  have wf1: "bl_wf rk d1" and n1: "enough_fuel rk n d1" and er1: "getExitRootEdge d1 = Inr er"
    using wf n er rank_bound_topo [OF d1(2), of rk] by (simp_all add: t1 enough_fuel_def)
  obtain d2 where d2: "pushInitialization n d1 = Inr d2" "topo d2 = topo d1"
      "isCounterIncrement d2 = isCounterIncrement d1"
      "push_done (getSource d1) (getTarget d1) (init_stop d1) (push_ok d1) er
         ((isInitialization d1)(er := True)) (getIncrement d1) (isInitialization d2) (getIncrement d2)"
    using wf1 n1 er1 by (rule pushInitialization_done)
  have sh2: "shifted d1 (getIncrement d1) (getIncrement d2)"
    using pi.pass_shifts [of rk d1 n d2] wf1 n1 d2(1) by simp
  note t2 = topo_eqs [OF d2(2)]
  have wf2: "bl_wf rk d2" and n2: "enough_fuel rk n d2" and er2: "getExitRootEdge d2 = Inr er"
    using wf1 n1 er1 rank_bound_topo [OF d2(2), of rk] by (simp_all add: t2 enough_fuel_def)
  obtain d3 where d3: "pushCounters n d2 = Inr d3" "topo d3 = topo d2"
      "isInitialization d3 = isInitialization d2"
      "push_done (getTarget d2) (getSource d2) (counter_stop d2) (push_ok d2) er
         ((isCounterIncrement d2)(er := True)) (getIncrement d2) (isCounterIncrement d3) (getIncrement d3)"
    using wf2 n2 er2 by (rule pushCounters_done)
  have sh3: "shifted d2 (getIncrement d2) (getIncrement d3)"
    using pc.pass_shifts [of rk d2 n d3] wf2 n2 d3(1) by simp
  have "placed rk er d3"
    by (rule placed_after_pushes [OF wf1 er1 d2(2,4) d3(2-4)])
      (use fr t1 d1(3,4) d2(3) in \<open>auto simp: fresh_dag_def\<close>)
  moreover have "place_instrumentation n d = Inr d3"
    using d1(1) d2(1) d3(1)
    by (auto simp: place_instrumentation_def compute_increments_def bind_res_eq_Inr)
  moreover have "shifted d (getWeight d) (getIncrement d3)"
    using shifted_trans [OF sh1 shifted_trans [of d "getIncrement d1" "getIncrement d2" "getIncrement d3"]]
      sh2 sh3 by (simp add: shifted_def t1 t2 topo_eq_paths [OF d1(2)] topo_eq_paths [OF d2(2)])
  moreover have "\<not> isInitialization d3 x \<and> \<not> isCounterIncrement d3 x \<and> (getWeight d x = 0 \<longrightarrow> getIncrement d3 x = 0)"
    if x: "x \<in> set (d_edges d)" "\<not> init_reach d3 er x" "\<not> counter_reach d3 er x" for x
  proof -
    note v2 = reach_topo [OF d2(2)] and v3 = reach_topo [OF d3(2)]
    have "x \<noteq> er" using x(2) by (auto simp: init_reach_def reach_start)
    moreover have "\<not> init_reach d1 er x" "\<not> counter_reach d2 er x" using x(2,3) by (simp_all add: v2 v3 d3(3))
    ultimately show ?thesis
      using d1(3-5) d2(3,4) d3(3,4) x(1) fr unfolding push_done_def init_reach_def counter_reach_def
      by (simp add: fresh_dag_def)
  qed
  ultimately show thesis using that d1(2) d2(2) d3(2) by simp
qed

end
