(* ===== verification/BL_Log.thy ===== *)
theory BL_Log
  imports BL_Placement
begin

text \<open>
  What the placed instrumentation computes. \<open>edge_action\<close> is the code that
  \<open>insertInstrumentationStartingAt\<close> emits for a normal edge and \<open>loop_edge_action\<close>
  the code for a back or split edge, read as operations on the path number
  register (\<open>None\<close> while no value is held) and the sequence of logged numbers.
  The lemmas follow the register along an acyclic path and then along a whole
  execution of the function with its loops.
\<close>

section \<open>The emitted operations\<close>

type_synonym log_state = "clong option \<times> clong list"

text \<open>
  An initialization loads the increment, any other edge with a non-zero
  increment adds it to the held value (there is no value to add to when none is
  held), and a counter edge logs the value and drops it.
\<close>

definition edge_action :: "bl_dag \<Rightarrow> edge_id \<Rightarrow> log_state \<Rightarrow> log_state res" where
  "edge_action d e s =
     bind_res
       (if isInitialization d e then Inr (Some (getIncrement d e))
        else if getIncrement d e \<noteq> 0
             then (case fst s of None \<Rightarrow> Inl Bad_Deref | Some v \<Rightarrow> Inr (Some (v + getIncrement d e)))
             else Inr (fst s))
       (\<lambda>r. if isCounterIncrement d e
            then (case r of None \<Rightarrow> Inl Bad_Deref | Some v \<Rightarrow> Inr (None, snd s @ [v]))
            else Inr (r, snd s))"

text \<open>
  At a back or split edge the phony edge to the exit ends the current path and
  the phony edge from the root starts the next one. A register that holds
  nothing counts as zero here.
\<close>

definition loop_edge_action :: "bl_dag \<Rightarrow> edge_id \<Rightarrow> log_state \<Rightarrow> log_state res" where
  "loop_edge_action d b s =
     (case (getPhonyRoot d b, getPhonyExit d b) of
        (Some topE, Some bottomE) \<Rightarrow>
          if \<not> isInitialization d topE then Inl (Assert_Failed ''Top phony edge did not contain a path number initialization.'')
          else if \<not> isCounterIncrement d bottomE then Inl (Assert_Failed ''Bottom phony edge did not contain a path counter increment.'')
          else
            let r0 = (case fst s of None \<Rightarrow> 0 | Some v \<Rightarrow> v);
                r1 = (if getIncrement d bottomE \<noteq> 0 then r0 + getIncrement d bottomE else r0);
                out = snd s @ [r1]
            in if isCounterIncrement d topE then Inr (None, out @ [getIncrement d topE])
               else Inr (Some (getIncrement d topE), out)
      | _ \<Rightarrow> Inl Bad_Deref)"

definition is_loop_edge :: "bl_dag \<Rightarrow> edge_id \<Rightarrow> bool" where
  "is_loop_edge d e \<longleftrightarrow> getType d e = BACKEDGE \<or> getType d e = SPLITEDGE"

definition instrumented_step :: "bl_dag \<Rightarrow> edge_id \<Rightarrow> log_state \<Rightarrow> log_state res" where
  "instrumented_step d e s = (if is_loop_edge d e then loop_edge_action d e s else edge_action d e s)"

text \<open>A run of the function: the edge from exit to root stands for the function entry.\<close>

definition run_function :: "bl_dag \<Rightarrow> edge_id list \<Rightarrow> log_state res" where
  "run_function d es =
     bind_res (getExitRootEdge d) (\<lambda>er. fold_res (instrumented_step d) (er # es) (None, []))"

section \<open>One acyclic path\<close>

lemma edge_action_idle:
  assumes "\<not> isInitialization d e" "getIncrement d e = 0" "\<not> isCounterIncrement d e"
  shows "edge_action d e s = Inr s"
  using assms by (simp add: edge_action_def)

lemma edge_action_init:
  assumes "isInitialization d e"
  shows "edge_action d e (r, out) =
    Inr (if isCounterIncrement d e then (None, out @ [getIncrement d e]) else (Some (getIncrement d e), out))"
  using assms by (simp add: edge_action_def)

lemma edge_action_add:
  assumes "\<not> isInitialization d e"
  shows "edge_action d e (Some v, out) =
    Inr (if isCounterIncrement d e then (None, out @ [v + getIncrement d e]) else (Some (v + getIncrement d e), out))"
  using assms by (simp add: edge_action_def)

lemma placed_facts:
  assumes "placed rk er d"
  shows "bl_wf rk d" "getExitRootEdge d = Inr er"
    "push_ok d x \<Longrightarrow> isInitialization d x = (init_reach d er x \<and> init_stop d x)"
    "push_ok d x \<Longrightarrow> isCounterIncrement d x = (counter_reach d er x \<and> counter_stop d x)"
    "push_ok d x \<Longrightarrow> init_reach d er x \<Longrightarrow> \<not> init_stop d x \<Longrightarrow> getIncrement d x = 0"
    "push_ok d x \<Longrightarrow> counter_reach d er x \<Longrightarrow> \<not> counter_stop d x \<Longrightarrow> getIncrement d x = 0"
  using assms unfolding placed_def by blast+

lemma dag_edge_push_ok: "dag_edge d e \<Longrightarrow> push_ok d e"
  by (simp add: dag_edge_def push_ok_def)

text \<open>The two pushes seen from consecutive edges of a path.\<close>

lemma init_reach_step:
  assumes "init_reach d er y" "\<not> init_stop d y" "push_ok d x" "getSource d x = getTarget d y"
  shows "init_reach d er x"
  using assms unfolding init_reach_def by (rule push_reach.reach_next)

lemma init_reach_back:
  assumes p: "placed rk er d" and x: "init_reach d er x" "x \<noteq> er"
    and y: "push_ok d y" "getTarget d y = getSource d x"
  shows "init_reach d er y \<and> \<not> init_stop d y"
proof -
  note wf = placed_facts(1,2) [OF p]
  from x obtain z where z: "init_reach d er z" "\<not> init_stop d z" "getSource d x = getTarget d z"
    unfolding init_reach_def by (cases rule: push_reach.cases) auto
  have "push_ok d z"
    using z(1) exit_root_crossed(1) [OF wf] unfolding init_reach_def by (rule push_reach_ok)
  with init_graph [OF wf(1)] z y have "y = z" by (simp add: push_graph_def)
  with z show ?thesis by simp
qed

lemma counter_reach_step:
  assumes "counter_reach d er y" "\<not> counter_stop d y" "push_ok d x" "getTarget d x = getSource d y"
  shows "counter_reach d er x"
  using assms unfolding counter_reach_def by (rule push_reach.reach_next)

lemma counter_reach_forward:
  assumes p: "placed rk er d" and y: "counter_reach d er y" "y \<noteq> er"
    and x: "push_ok d x" "getSource d x = getTarget d y"
  shows "counter_reach d er x \<and> \<not> counter_stop d x"
proof -
  note wf = placed_facts(1,2) [OF p]
  from y obtain z where z: "counter_reach d er z" "\<not> counter_stop d z" "getTarget d y = getSource d z"
    unfolding counter_reach_def by (cases rule: push_reach.cases) auto
  have "push_ok d z"
    using z(1) exit_root_crossed(1) [OF wf] unfolding counter_reach_def by (rule push_reach_ok)
  with counter_graph [OF wf(1)] z x have "x = z" by (simp add: push_graph_def)
  with z show ?thesis by simp
qed

lemma placed_exit_root:
  assumes p: "placed rk er d"
  shows "\<not> isInitialization d er" "\<not> isCounterIncrement d er" "getIncrement d er = 0"
    "\<not> counter_stop d er" "\<not> init_stop d er"
proof -
  note wf = placed_facts(1,2) [OF p] and c = exit_root_crossed [OF placed_facts(1,2) [OF p]]
  show i: "\<not> isInitialization d er" using placed_facts(3) [OF p c(1)] c(2) by simp
  show s: "\<not> counter_stop d er" by (rule c(3) [OF i])
  show "\<not> isCounterIncrement d er" using placed_facts(4) [OF p c(1)] s by simp
  show "getIncrement d er = 0" by (rule placed_facts(6) [OF p c(1,5) s])
  show "\<not> init_stop d er" by (rule c(2))
qed

lemma dag_edge_not_er: "placed rk er d \<Longrightarrow> dag_edge d e \<Longrightarrow> e \<noteq> er"
  by (auto simp: placed_def dag_edge_def)

text \<open>After the counter nothing happens any more.\<close>

lemma run_after_counter:
  assumes p: "placed rk er d"
  shows "walk d (getTarget d y) q v \<Longrightarrow> \<forall>e\<in>set q. dag_edge d e \<Longrightarrow> counter_reach d er y \<Longrightarrow> y \<noteq> er \<Longrightarrow>
    fold_res (edge_action d) q s = Inr s \<and> (\<Sum>e\<leftarrow>q. getIncrement d e) = 0"
proof (induction q arbitrary: y)
  case Nil
  then show ?case by simp
next
  case (Cons x q)
  have ok: "push_ok d x" using Cons.prems by (simp add: dag_edge_push_ok)
  have src: "getSource d x = getTarget d y" using Cons.prems(1) by simp
  have x: "counter_reach d er x" "\<not> counter_stop d x"
    using counter_reach_forward [OF p Cons.prems(3,4) ok src] by simp_all
  have z: "getIncrement d x = 0" "\<not> isCounterIncrement d x"
    using placed_facts(4,6) [OF p ok] x by simp_all
  have "\<not> isInitialization d x" using x(2) by (simp add: counter_stop_def)
  with z have "edge_action d x s = Inr s" by (simp add: edge_action_idle)
  moreover have "x \<noteq> er" using Cons.prems dag_edge_not_er [OF p] by simp
  ultimately show ?case using Cons.IH [of x] Cons.prems x z by simp
qed

text \<open>Between initialization and counter the register adds up the increments.\<close>

lemma run_between:
  assumes p: "placed rk er d"
  shows "walk d (getTarget d y) q (d_exit d) \<Longrightarrow> \<forall>e\<in>set q. dag_edge d e \<Longrightarrow> push_ok d y \<Longrightarrow>
    init_stop d y \<or> \<not> init_reach d er y \<Longrightarrow> \<not> counter_reach d er y \<Longrightarrow>
    fold_res (edge_action d) q (Some v, out) = Inr (None, out @ [v + (\<Sum>e\<leftarrow>q. getIncrement d e)])"
proof (induction q arbitrary: y v)
  case Nil
  note wf = placed_facts(1,2) [OF p]
  have "getTarget d y = getSource d er" using Nil.prems(1) wf_exit_root_edge(1) [OF wf] by simp
  with exit_root_crossed(5) [OF wf] placed_exit_root(4) [OF p] Nil.prems(3)
  have "counter_reach d er y" by (rule counter_reach_step)
  with Nil show ?case by simp
next
  case (Cons x q)
  have ok: "push_ok d x" and xer: "x \<noteq> er"
    using Cons.prems dag_edge_not_er [OF p] by (simp_all add: dag_edge_push_ok)
  have src: "getTarget d y = getSource d x" using Cons.prems(1) by simp
  have ni: "\<not> init_reach d er x"
    using init_reach_back [OF p _ xer Cons.prems(3) src] Cons.prems(4) by blast
  then have "\<not> isInitialization d x" using placed_facts(3) [OF p ok] by simp
  note act = edge_action_add [OF this, of v out]
  show ?case
  proof (cases "counter_reach d er x")
    case True
    have "counter_stop d x"
      using counter_reach_step [OF True _ Cons.prems(3)] src Cons.prems(5) by auto
    then have "isCounterIncrement d x" using placed_facts(4) [OF p ok] True by simp
    then show ?thesis
      using act run_after_counter [OF p, of x q "d_exit d"] Cons.prems True xer by simp
  next
    case False
    then have "\<not> isCounterIncrement d x" using placed_facts(4) [OF p ok] by simp
    then show ?thesis
      using act Cons.IH [of x "v + getIncrement d x"] Cons.prems ok ni False by (simp add: add.assoc)
  qed
qed

text \<open>Up to the initialization the register is empty and the increments are zero.\<close>

lemma run_before_init:
  assumes p: "placed rk er d"
  shows "walk d (getTarget d y) q (d_exit d) \<Longrightarrow> \<forall>e\<in>set q. dag_edge d e \<Longrightarrow>
    init_reach d er y \<Longrightarrow> \<not> init_stop d y \<Longrightarrow>
    fold_res (edge_action d) q (None, out) = Inr (None, out @ [\<Sum>e\<leftarrow>q. getIncrement d e])"
proof (induction q arbitrary: y)
  case Nil
  then show ?case by (simp add: init_stop_def)
next
  case (Cons x q)
  note wf = placed_facts(1,2) [OF p]
  have ok: "push_ok d x" and xer: "x \<noteq> er"
    using Cons.prems dag_edge_not_er [OF p] by (simp_all add: dag_edge_push_ok)
  have ix: "init_reach d er x"
    using init_reach_step [OF Cons.prems(3,4) ok] Cons.prems(1) by simp
  show ?case
  proof (cases "init_stop d x")
    case True
    then have I: "isInitialization d x" using placed_facts(3) [OF p ok] ix by simp
    then have cs: "counter_stop d x" by (simp add: counter_stop_def)
    show ?thesis
    proof (cases "counter_reach d er x")
      case c: True
      then have "isCounterIncrement d x" using placed_facts(4) [OF p ok] cs by simp
      then show ?thesis
        using edge_action_init [OF I] run_after_counter [OF p, of x q "d_exit d"] Cons.prems c xer by simp
    next
      case c: False
      then have "\<not> isCounterIncrement d x" using placed_facts(4) [OF p ok] by simp
      then show ?thesis
        using edge_action_init [OF I] run_between [OF p, of x q] Cons.prems c ok True by simp
    qed
  next
    case False
    then have z: "getIncrement d x = 0" "\<not> isInitialization d x"
      using placed_facts(3,5) [OF p ok] ix by simp_all
    have "\<not> counter_reach d er x"
      using counter_stays_behind [OF wf placed_facts(3) [OF p] _ ix False] xer by blast
    then have "\<not> isCounterIncrement d x" using placed_facts(4) [OF p ok] by simp
    then show ?thesis
      using z Cons.IH [of x] Cons.prems ix False by (simp add: edge_action_idle)
  qed
qed

lemma run_path:
  assumes p: "placed rk er d" and path: "dag_path d q"
  shows "fold_res (edge_action d) q (None, out) = Inr (None, out @ [\<Sum>e\<leftarrow>q. getIncrement d e])"
proof -
  note wf = placed_facts(1,2) [OF p]
  show ?thesis
    using run_before_init [OF p, of er q out] path wf_exit_root_edge(2) [OF wf]
      exit_root_crossed(4) [OF wf] placed_exit_root(5) [OF p]
    by (simp add: dag_path_def)
qed

section \<open>A whole execution\<close>

text \<open>
  An execution of the function follows edges of the control flow graph from the
  root to the exit, back edges included. \<open>acyclic_parts\<close> cuts it at the loop
  edges into the acyclic paths that the profile counts: a loop edge ends one
  path with its phony edge to the exit and starts the next with its phony edge
  from the root.
\<close>

definition real_edge :: "bl_dag \<Rightarrow> edge_id \<Rightarrow> bool" where
  "real_edge d e \<longleftrightarrow> e \<in> set (d_edges d) \<and>
     (getType d e = NORMAL \<and> getExitRootEdge d \<noteq> Inr e \<or> is_loop_edge d e)"

definition execution :: "bl_dag \<Rightarrow> edge_id list \<Rightarrow> bool" where
  "execution d es \<longleftrightarrow> walk d (d_root d) es (d_exit d) \<and> (\<forall>e\<in>set es. real_edge d e)"

fun acyclic_parts :: "bl_dag \<Rightarrow> edge_id list \<Rightarrow> edge_id list \<Rightarrow> edge_id list list" where
  "acyclic_parts d acc [] = [acc]"
| "acyclic_parts d acc (e # es) =
     (if is_loop_edge d e
      then (case (getPhonyRoot d e, getPhonyExit d e) of
              (Some p, Some q) \<Rightarrow> (acc @ [q]) # acyclic_parts d [p] es
            | _ \<Rightarrow> [])
      else acyclic_parts d (acc @ [e]) es)"

definition path_number :: "bl_dag \<Rightarrow> edge_id list \<Rightarrow> clong" where
  "path_number d p = (\<Sum>e\<leftarrow>p. getWeight d e)"

text \<open>The asserts on the phony edges hold.\<close>

lemma placed_loop_edge:
  assumes p: "placed rk er d" and b: "b \<in> set (d_edges d)" "is_loop_edge d b"
  obtains t q where "getPhonyRoot d b = Some t" "getPhonyExit d b = Some q"
    "dag_edge d t" "dag_edge d q" "getSource d t = d_root d" "getTarget d t = getTarget d b"
    "getSource d q = getSource d b" "getTarget d q = d_exit d"
    "isInitialization d t" "isCounterIncrement d q"
proof -
  note wf = placed_facts(1,2) [OF p]
  have ty: "getType d b \<in> {BACKEDGE, SPLITEDGE}" using b(2) by (simp add: is_loop_edge_def)
  obtain t q where *: "getPhonyRoot d b = Some t" "getPhonyExit d b = Some q"
      "dag_edge d t" "dag_edge d q" "getSource d t = d_root d" "getTarget d t = getTarget d b"
      "getSource d q = getSource d b" "getTarget d q = d_exit d"
    using wf(1) b(1) ty by (rule wf_loop_partners)
  note c = exit_root_crossed [OF wf] and e = wf_exit_root_edge [OF wf]
  have "init_reach d er t"
    using c(4,2) dag_edge_push_ok [OF *(3)] by (rule init_reach_step) (simp add: e * )
  moreover have "init_stop d t"
    using wf_loop_target_preds [OF wf(1) b(1) ty] * by (simp add: init_stop_def)
  ultimately have I: "isInitialization d t"
    using placed_facts(3) [OF p dag_edge_push_ok [OF *(3)]] by simp
  have "counter_reach d er q"
    using c(5) placed_exit_root(4) [OF p] dag_edge_push_ok [OF *(4)]
    by (rule counter_reach_step) (simp add: e * )
  moreover have "counter_stop d q"
    using wf_loop_source_succs [OF wf(1) b(1) ty] * by (simp add: counter_stop_def)
  ultimately have "isCounterIncrement d q"
    using placed_facts(4) [OF p dag_edge_push_ok [OF *(4)]] by simp
  with * I that show thesis by blast
qed

text \<open>Before an initialization the register holds nothing.\<close>

lemma empty_before_init:
  assumes p: "placed rk er d"
  shows "walk d (d_root d) acc (getSource d e) \<Longrightarrow> \<forall>x\<in>set acc. dag_edge d x \<Longrightarrow>
    init_reach d er e \<Longrightarrow> e \<noteq> er \<Longrightarrow> fold_res (edge_action d) acc (None, out) = Inr (None, out)"
proof (induction acc arbitrary: e rule: rev_induct)
  case Nil
  show ?case by simp
next
  case (snoc y acc)
  note wf = placed_facts(1,2) [OF p]
  have w: "walk d (d_root d) acc (getSource d y)" "getTarget d y = getSource d e"
    using snoc.prems(1) by (auto simp: walk_append)
  have y: "dag_edge d y" "push_ok d y" "y \<noteq> er"
    using snoc.prems(2) dag_edge_not_er [OF p] by (auto simp: dag_edge_push_ok)
  have iy: "init_reach d er y" "\<not> init_stop d y"
    using init_reach_back [OF p snoc.prems(3,4) y(2) w(2)] by simp_all
  have "\<not> counter_reach d er y"
    using counter_stays_behind [OF wf placed_facts(3) [OF p] _ iy] y(3) by blast
  then have "edge_action d y (None, out) = Inr (None, out)"
    using placed_facts(3-5) [OF p y(2)] iy by (simp add: edge_action_idle)
  moreover have "fold_res (edge_action d) acc (None, out) = Inr (None, out)"
    using snoc.IH [OF w(1) _ iy(1) y(3)] snoc.prems(2) by simp
  ultimately show ?case by (simp add: fold_res_append)
qed

text \<open>The code of a loop edge does what its two phony edges would do one after the other.\<close>

lemma loop_edge_action_split:
  assumes p: "placed rk er d" and b: "b \<in> set (d_edges d)" "is_loop_edge d b"
    and t: "getPhonyRoot d b = Some t" and q: "getPhonyExit d b = Some q"
    and acc: "walk d (d_root d) acc (getSource d b)" "\<forall>x\<in>set acc. dag_edge d x"
    and s: "fold_res (edge_action d) acc (None, out) = Inr s"
  shows "loop_edge_action d b s = edge_action d t (None, out @ [\<Sum>e\<leftarrow>acc @ [q]. getIncrement d e])"
proof -
  from p b obtain t' q' where *: "getPhonyRoot d b = Some t'" "getPhonyExit d b = Some q'"
      "dag_edge d q'" "getSource d q' = getSource d b" "getTarget d q' = d_exit d"
      "isInitialization d t'" "isCounterIncrement d q'"
    by (rule placed_loop_edge)
  have eq: "t' = t" "q' = q" using * t q by simp_all
  obtain r out1 where rs: "s = (r, out1)" by (cases s)
  have "dag_path d (acc @ [q])" using acc * eq by (auto simp: dag_path_def walk_append)
  from run_path [OF p this, of out] s
  have log: "edge_action d q (r, out1) = Inr (None, out @ [\<Sum>e\<leftarrow>acc @ [q]. getIncrement d e])"
    by (simp add: fold_res_append rs bind_res_def split: sum.splits)
  have init_none: "r = None" if "isInitialization d q"
  proof -
    have "init_reach d er q" using placed_facts(3) [OF p dag_edge_push_ok [OF *(3)]] that eq by simp
    moreover have "q \<noteq> er" using dag_edge_not_er [OF p *(3)] eq by simp
    ultimately have "fold_res (edge_action d) acc (None, out) = Inr (None, out)"
      using empty_before_init [OF p, of acc q out] acc * eq by simp
    with s rs show ?thesis by simp
  qed
  from log init_none show ?thesis
    using *(6,7) t q eq
    by (auto simp: loop_edge_action_def edge_action_def rs Let_def split: if_splits option.splits)
qed

text \<open>
  The register operations do not fail on any prefix of an acyclic path: a prefix
  that an execution reaches can be continued to the exit.
\<close>

lemma real_walk_completes:
  assumes p: "placed rk er d"
  shows "walk d u es (d_exit d) \<Longrightarrow> \<forall>e\<in>set es. real_edge d e \<Longrightarrow>
    \<exists>q. walk d u q (d_exit d) \<and> (\<forall>e\<in>set q. dag_edge d e)"
proof (induction es arbitrary: u)
  case Nil
  then show ?case by (intro exI [of _ "[]"]) simp
next
  case (Cons b es)
  have b: "real_edge d b" "getSource d b = u" using Cons.prems by simp_all
  show ?case
  proof (cases "is_loop_edge d b")
    case True
    have "b \<in> set (d_edges d)" using b by (simp add: real_edge_def)
    from p this True obtain q where "dag_edge d q" "getSource d q = getSource d b" "getTarget d q = d_exit d"
      by (rule placed_loop_edge)
    then show ?thesis using b by (intro exI [of _ "[q]"]) simp
  next
    case False
    then have "dag_edge d b" using b by (auto simp: real_edge_def dag_edge_def is_loop_edge_def)
    moreover obtain q where "walk d (getTarget d b) q (d_exit d)" "\<forall>e\<in>set q. dag_edge d e"
      using Cons.IH [of "getTarget d b"] Cons.prems by auto
    ultimately show ?thesis using b by (intro exI [of _ "b # q"]) simp
  qed
qed

lemma run_prefix_ok:
  assumes p: "placed rk er d" and acc: "walk d (d_root d) acc u" "\<forall>e\<in>set acc. dag_edge d e"
    and es: "walk d u es (d_exit d)" "\<forall>e\<in>set es. real_edge d e"
  obtains s where "fold_res (edge_action d) acc (None, out) = Inr s"
proof -
  obtain q where q: "walk d u q (d_exit d)" "\<forall>e\<in>set q. dag_edge d e"
    using real_walk_completes [OF p es] by blast
  then have "dag_path d (acc @ q)" using acc by (auto simp: dag_path_def walk_append)
  from run_path [OF p this, of out] that show thesis
    by (auto simp: fold_res_append bind_res_eq_Inr)
qed

lemma run_execution_from:
  assumes p: "placed rk er d"
  shows "walk d u es (d_exit d) \<Longrightarrow> \<forall>e\<in>set es. real_edge d e \<Longrightarrow>
    walk d (d_root d) acc u \<Longrightarrow> \<forall>x\<in>set acc. dag_edge d x \<Longrightarrow>
    fold_res (edge_action d) acc (None, out) = Inr s \<Longrightarrow>
    fold_res (instrumented_step d) es s =
      Inr (None, out @ map (\<lambda>q. \<Sum>e\<leftarrow>q. getIncrement d e) (acyclic_parts d acc es))
    \<and> (\<forall>q\<in>set (acyclic_parts d acc es). dag_path d q)"
proof (induction es arbitrary: u acc out s)
  case Nil
  then have "dag_path d acc" by (simp add: dag_path_def)
  with run_path [OF p this, of out] Nil show ?case by simp
next
  case (Cons b es)
  have w: "getSource d b = u" "walk d (getTarget d b) es (d_exit d)" using Cons.prems(1) by simp_all
  have re: "real_edge d b" "\<forall>e\<in>set es. real_edge d e" using Cons.prems(2) by simp_all
  show ?case
  proof (cases "is_loop_edge d b")
    case False
    then have step: "instrumented_step d b s = edge_action d b s" by (simp add: instrumented_step_def)
    have b: "dag_edge d b" using re(1) False by (auto simp: real_edge_def dag_edge_def is_loop_edge_def)
    have acc: "walk d (d_root d) (acc @ [b]) (getTarget d b)" using Cons.prems(3) w by (auto simp: walk_append)
    have run: "fold_res (edge_action d) (acc @ [b]) (None, out) = edge_action d b s"
      using Cons.prems(5) by (simp add: fold_res_append bind_res_def split: sum.splits)
    have acc_dag: "\<forall>x\<in>set (acc @ [b]). dag_edge d x" using b Cons.prems(4) by simp
    obtain s' where s': "edge_action d b s = Inr s'"
      using run_prefix_ok [OF p acc acc_dag w(2) re(2), of out] run by metis
    then show ?thesis
      using Cons.IH [of "getTarget d b" "acc @ [b]" out s'] w re acc b Cons.prems(4) run False step by simp
  next
    case True
    have bE: "b \<in> set (d_edges d)" using re(1) by (simp add: real_edge_def)
    obtain t q where tq: "getPhonyRoot d b = Some t" "getPhonyExit d b = Some q"
        "dag_edge d t" "dag_edge d q" "getSource d t = d_root d" "getTarget d t = getTarget d b"
        "getSource d q = getSource d b" "getTarget d q = d_exit d" "isInitialization d t"
      using p bE True by (rule placed_loop_edge)
    let ?out = "out @ [\<Sum>e\<leftarrow>acc @ [q]. getIncrement d e]"
    obtain s' where s': "edge_action d t (None, ?out) = Inr s'"
      using edge_action_init [OF tq(9)] by blast
    have "loop_edge_action d b s = edge_action d t (None, ?out)"
      using loop_edge_action_split [OF p bE True tq(1,2) _ Cons.prems(4,5)] Cons.prems(3) w by simp
    then have "instrumented_step d b s = Inr s'" using s' True by (simp add: instrumented_step_def)
    moreover have "dag_path d (acc @ [q])"
      using Cons.prems(3,4) tq w by (auto simp: dag_path_def walk_append)
    ultimately show ?thesis
      using Cons.IH [of "getTarget d b" "[t]" ?out s'] w re tq s' True by simp
  qed
qed

end
