(* ===== verification/BL_Plan.thy ===== *)
theory BL_Plan
  imports BL_Surgery BL_Log
begin

text \<open>
  What the placement passes leave for the emission: a node is reached either
  always with a path number in the register or never, so the emitted code can
  keep the register in plain values and PHIs. \<open>plan\<close> collects this with the
  other facts about single edges that the emission relies on; it holds for a
  placed dag whose phony edges are unlinked and is kept when an edge is split.
\<close>

lemma distinct_other_member: "distinct xs \<Longrightarrow> 1 < length xs \<Longrightarrow> \<exists>y\<in>set xs. y \<noteq> x"
  by (cases xs; cases "tl xs") auto

section \<open>The graph that the pass starts from\<close>

text \<open>
  \<open>built_dag d\<close>: what \<open>BallLarusDag::init\<close> guarantees beyond \<open>bl_wf\<close>. It searches the
  function from the root, so every node has an incoming edge and the target of a
  back edge is an ancestor of its source; a phony edge to a block belongs to a
  back or split edge; only a block without successors has an edge to the exit;
  back and split edges weigh nothing.
\<close>

definition built_dag :: "bl_dag \<Rightarrow> bool" where
  "built_dag d \<longleftrightarrow>
     (\<forall>v\<in>set (d_nodes d). predEdges d v \<noteq> [])
     \<and> (\<forall>b\<in>set (d_edges d). getType d b = BACKEDGE \<longrightarrow>
          (\<exists>p. walk d (getTarget d b) p (getSource d b) \<and> (\<forall>e\<in>set p. dag_edge d e)))
     \<and> (\<forall>y\<in>set (d_edges d). is_phony d y \<longrightarrow> getTarget d y = d_exit d
          \<or> (\<exists>b\<in>set (d_edges d). is_loop_edge d b \<and> getPhonyRoot d b = Some y))
     \<and> (\<forall>e\<in>set (d_edges d). \<not> is_phony d e \<longrightarrow> getTarget d e = d_exit d \<longrightarrow>
          (\<forall>f\<in>set (d_edges d). \<not> is_phony d f \<longrightarrow> getSource d f = getSource d e \<longrightarrow> f = e))
     \<and> (\<forall>b\<in>set (d_edges d). is_loop_edge d b \<longrightarrow> getWeight d b = 0)"

lemma built_dagD:
  assumes "built_dag d"
  shows "v \<in> set (d_nodes d) \<Longrightarrow> predEdges d v \<noteq> []"
    "b \<in> set (d_edges d) \<Longrightarrow> getType d b = BACKEDGE \<Longrightarrow>
       \<exists>p. walk d (getTarget d b) p (getSource d b) \<and> (\<forall>e\<in>set p. dag_edge d e)"
    "y \<in> set (d_edges d) \<Longrightarrow> is_phony d y \<Longrightarrow> getTarget d y \<noteq> d_exit d \<Longrightarrow>
       \<exists>b\<in>set (d_edges d). is_loop_edge d b \<and> getPhonyRoot d b = Some y"
    "e \<in> set (d_edges d) \<Longrightarrow> \<not> is_phony d e \<Longrightarrow> getTarget d e = d_exit d \<Longrightarrow> f \<in> set (d_edges d) \<Longrightarrow>
       \<not> is_phony d f \<Longrightarrow> getSource d f = getSource d e \<Longrightarrow> f = e"
    "b \<in> set (d_edges d) \<Longrightarrow> is_loop_edge d b \<Longrightarrow> getWeight d b = 0"
  using assms unfolding built_dag_def by blast+

lemma built_dag_topo:
  assumes "topo d' = topo d"
  shows "built_dag d' = built_dag d"
proof -
  note t = topo_eqs [OF assms] topo_eq_linked(1) [OF assms] topo_eq_paths [OF assms]
  have "is_loop_edge d' = is_loop_edge d" by (simp add: is_loop_edge_def fun_eq_iff t)
  then show ?thesis by (simp add: built_dag_def t)
qed

section \<open>Where the register holds a path number\<close>

definition before_init :: "bl_dag \<Rightarrow> edge_id \<Rightarrow> node_id \<Rightarrow> bool" where
  "before_init d er v \<longleftrightarrow> (\<exists>y. push_ok d y \<and> getTarget d y = v \<and> init_reach d er y \<and> \<not> init_stop d y)"

definition after_counter :: "bl_dag \<Rightarrow> edge_id \<Rightarrow> node_id \<Rightarrow> bool" where
  "after_counter d er v \<longleftrightarrow> (\<exists>y. push_ok d y \<and> getTarget d y = v \<and> counter_reach d er y \<and> y \<noteq> er)"

definition holds_number :: "bl_dag \<Rightarrow> edge_id \<Rightarrow> node_id \<Rightarrow> bool" where
  "holds_number d er v \<longleftrightarrow> \<not> before_init d er v \<and> \<not> after_counter d er v"

lemma init_reach_from:
  assumes p: "placed rk er d" and x: "init_reach d er x" "x \<noteq> er"
  obtains z where "push_ok d z" "init_reach d er z" "\<not> init_stop d z" "getTarget d z = getSource d x"
proof -
  obtain z where z: "init_reach d er z" "\<not> init_stop d z" "getSource d x = getTarget d z"
    using x unfolding init_reach_def by (cases rule: push_reach.cases) auto
  have "push_ok d z" using z(1) exit_root_crossed(1) [OF placed_facts(1,2) [OF p]]
    unfolding init_reach_def by (rule push_reach_ok)
  with z that show thesis by simp
qed

lemma counter_reach_from:
  assumes p: "placed rk er d" and x: "counter_reach d er x" "x \<noteq> er"
  obtains z where "push_ok d z" "counter_reach d er z" "\<not> counter_stop d z" "getSource d z = getTarget d x"
proof -
  obtain z where z: "counter_reach d er z" "\<not> counter_stop d z" "getTarget d x = getSource d z"
    using x unfolding counter_reach_def by (cases rule: push_reach.cases) auto
  have "push_ok d z" using z(1) exit_root_crossed(1) [OF placed_facts(1,2) [OF p]]
    unfolding counter_reach_def by (rule push_reach_ok)
  with z that show thesis by simp
qed

lemma before_unique:
  assumes p: "placed rk er d" and y: "push_ok d y" "\<not> init_stop d y" and x: "push_ok d x" "getTarget d x = getTarget d y"
  shows "x = y"
  using init_graph [OF placed_facts(1) [OF p]] x y unfolding push_graph_def by metis

lemma before_initD:
  assumes p: "placed rk er d" and b: "before_init d er v" and x: "push_ok d x" "getTarget d x = v"
  shows "init_reach d er x" "\<not> init_stop d x"
proof -
  obtain y where y: "push_ok d y" "getTarget d y = v" "init_reach d er y" "\<not> init_stop d y"
    using b by (auto simp: before_init_def)
  have "x = y" by (rule before_unique [OF p y(1,4) x(1)]) (simp add: x y)
  with y show "init_reach d er x" "\<not> init_stop d x" by simp_all
qed

lemma after_counterD:
  assumes p: "placed rk er d" and a: "after_counter d er v" and x: "push_ok d x" "getTarget d x = v"
  shows "counter_reach d er x"
proof -
  note wf = placed_facts(1,2) [OF p]
  obtain y where y: "push_ok d y" "getTarget d y = v" "counter_reach d er y" "y \<noteq> er"
    using a by (auto simp: after_counter_def)
  obtain z where z: "counter_reach d er z" "\<not> counter_stop d z" "getSource d z = getTarget d y"
    using p y(3,4) by (rule counter_reach_from)
  show ?thesis using z(1,2) x(1) by (rule counter_reach_step) (simp add: x y(2) z(3))
qed

lemma leaves_before:
  assumes p: "placed rk er d" and x: "push_ok d x" and b: "before_init d er (getSource d x)"
  shows "init_reach d er x"
  using b x init_reach_step [of d er _ x] by (auto simp: before_init_def)

lemma leaves_after:
  assumes p: "placed rk er d" and x: "push_ok d x" and a: "after_counter d er (getSource d x)"
  shows "counter_reach d er x" "\<not> counter_stop d x"
proof -
  obtain y where "counter_reach d er y" "y \<noteq> er" "getTarget d y = getSource d x"
    using a by (auto simp: after_counter_def)
  with counter_reach_forward [OF p, of y x] x show "counter_reach d er x" "\<not> counter_stop d x" by simp_all
qed

lemma into_before:
  assumes p: "placed rk er d" and x: "push_ok d x" "x \<noteq> er" "init_reach d er x"
    and y: "push_ok d y" "getTarget d y = getSource d x"
  shows "before_init d er (getSource d x)"
  using init_reach_back [OF p x(3,2) y] y by (auto simp: before_init_def)

lemma into_after:
  assumes p: "placed rk er d" and x: "push_ok d x" "counter_reach d er x" "\<not> counter_stop d x" "x \<noteq> er"
    and y: "push_ok d y" "getTarget d y = getSource d x"
  shows "after_counter d er (getSource d x)"
proof -
  note wf = placed_facts(1,2) [OF p]
  have "counter_reach d er y" using x(2,3) y by (rule counter_reach_step)
  moreover have "y \<noteq> er" using x(3) y(2) wf_exit_root_edge(2) [OF wf] by (auto simp: counter_stop_def)
  ultimately show ?thesis using y by (auto simp: after_counter_def)
qed

lemma before_not_after:
  assumes p: "placed rk er d" and b: "before_init d er v"
  shows "\<not> after_counter d er v"
proof
  note wf = placed_facts(1,2) [OF p]
  assume "after_counter d er v"
  then obtain y where y: "push_ok d y" "getTarget d y = v" "counter_reach d er y" "y \<noteq> er"
    by (auto simp: after_counter_def)
  show False
    using counter_stays_behind [OF wf placed_facts(3) [OF p] y(3) before_initD [OF p b y(1,2)]] y(4) by blast
qed

text \<open>Behind an initialization, or an edge after it, the register holds a number until the counter.\<close>

lemma holds_behind:
  assumes p: "placed rk er d" and x: "push_ok d x" "x \<noteq> er" "init_stop d x \<or> \<not> init_reach d er x"
  shows "holds_number d er (getTarget d x) \<longleftrightarrow> \<not> counter_reach d er x"
  using before_initD [OF p _ x(1) refl] after_counterD [OF p _ x(1) refl] x
  by (auto simp: holds_number_def after_counter_def)

section \<open>The effect of one edge\<close>

definition step_typed :: "bl_dag \<Rightarrow> edge_id \<Rightarrow> bool \<Rightarrow> bool \<Rightarrow> bool" where
  "step_typed d e x y \<longleftrightarrow> (\<forall>r out. (r \<noteq> None) = x \<longrightarrow>
     (\<exists>r' out'. instrumented_step d e (r, out) = Inr (r', out') \<and> (r' \<noteq> None) = y))"

definition idle_edge :: "bl_dag \<Rightarrow> edge_id \<Rightarrow> bool" where
  "idle_edge d e \<longleftrightarrow> \<not> is_loop_edge d e \<and> \<not> isInitialization d e \<and> \<not> isCounterIncrement d e \<and> getIncrement d e = 0"

lemma idle_edge_step: "idle_edge d e \<Longrightarrow> instrumented_step d e s = Inr s"
  by (simp add: idle_edge_def instrumented_step_def edge_action_idle)

lemma idle_edge_typed: "idle_edge d e \<Longrightarrow> step_typed d e x x"
  by (simp add: step_typed_def idle_edge_step)

lemma placed_edge_typed:
  assumes p: "placed rk er d" and x: "dag_edge d x" and y: "push_ok d y" "getTarget d y = getSource d x"
  shows "step_typed d x (holds_number d er (getSource d x)) (holds_number d er (getTarget d x))"
proof -
  have ok: "push_ok d x" and er: "x \<noteq> er" and nl: "\<not> is_loop_edge d x"
    using x dag_edge_not_er [OF p] by (auto simp: dag_edge_push_ok is_loop_edge_def dag_edge_def)
  note f = placed_facts(3-6) [OF p ok]
  consider (before) "before_init d er (getSource d x)" | (after) "after_counter d er (getSource d x)"
    | (holds) "holds_number d er (getSource d x)" by (auto simp: holds_number_def)
  then show ?thesis
  proof cases
    case before
    note ix = leaves_before [OF p ok before]
    show ?thesis
    proof (cases "init_stop d x")
      case True
      with f ix have I: "isInitialization d x" by simp
      then have "counter_stop d x" by (simp add: counter_stop_def)
      with f have "isCounterIncrement d x = counter_reach d er x" by simp
      with I nl holds_behind [OF p ok er] True show ?thesis
        by (auto simp: step_typed_def instrumented_step_def edge_action_def)
    next
      case False
      have b: "before_init d er (getTarget d x)" using ok ix False by (auto simp: before_init_def)
      have "\<not> counter_reach d er x" using before_not_after [OF p b] ok er by (auto simp: after_counter_def)
      with f ix False nl have "idle_edge d x" by (simp add: idle_edge_def)
      then show ?thesis using before b idle_edge_typed [of d x False] by (simp add: holds_number_def)
    qed
  next
    case after
    note cx = leaves_after [OF p ok after]
    with f nl have "idle_edge d x" by (auto simp: idle_edge_def counter_stop_def)
    moreover have "after_counter d er (getTarget d x)" using cx ok er by (auto simp: after_counter_def)
    ultimately show ?thesis using after idle_edge_typed [of d x False] by (simp add: holds_number_def)
  next
    case holds
    then have ni: "\<not> init_reach d er x" using into_before [OF p ok er _ y] by (auto simp: holds_number_def)
    have "isCounterIncrement d x = counter_reach d er x"
      using f into_after [OF p ok _ _ er y] holds by (auto simp: holds_number_def)
    then show ?thesis
      using f ni nl holds holds_behind [OF p ok er] by (auto simp: step_typed_def instrumented_step_def edge_action_def)
  qed
qed

lemma placed_loop_typed:
  assumes p: "placed rk er d" and b: "b \<in> set (d_edges d)" "is_loop_edge d b"
  shows "step_typed d b x (holds_number d er (getTarget d b))"
proof -
  obtain t q where t: "getPhonyRoot d b = Some t" "getPhonyExit d b = Some q"
      "dag_edge d t" "getTarget d t = getTarget d b" "isInitialization d t" "isCounterIncrement d q"
    using p b by (rule placed_loop_edge)
  have ok: "push_ok d t" and er: "t \<noteq> er" using t(3) dag_edge_not_er [OF p] by (auto simp: dag_edge_push_ok)
  have "init_stop d t" "isCounterIncrement d t = counter_reach d er t"
    using placed_facts(3,4) [OF p ok] t(5) by (auto simp: counter_stop_def)
  with holds_behind [OF p ok er] t b show ?thesis
    by (auto simp: step_typed_def instrumented_step_def loop_edge_action_def Let_def)
qed

section \<open>Loop edges\<close>

text \<open>
  Neither push marks a back edge: the push down would have crossed the target of
  the loop, which has several predecessors, and the push up its source, which has
  several successors.
\<close>

lemma back_edge_not_init:
  assumes p: "placed rk er d"
  shows "walk d u q v \<Longrightarrow> \<forall>e\<in>set q. dag_edge d e \<Longrightarrow> before_init d er v \<Longrightarrow> before_init d er u"
proof (induction q arbitrary: v rule: rev_induct)
  case (snoc x q)
  have x: "dag_edge d x" "push_ok d x" "getTarget d x = v" "walk d u q (getSource d x)"
    using snoc.prems by (auto simp: walk_append dag_edge_push_ok)
  note i = before_initD [OF p snoc.prems(3) x(2,3)]
  have "x \<noteq> er" using x(1) dag_edge_not_er [OF p] by auto
  with p i(1) obtain z where "push_ok d z" "init_reach d er z" "\<not> init_stop d z" "getTarget d z = getSource d x"
    by (rule init_reach_from)
  then have "before_init d er (getSource d x)" by (auto simp: before_init_def)
  with snoc x show ?case by simp
qed simp

lemma back_edge_not_counted:
  assumes p: "placed rk er d"
  shows "walk d u q v \<Longrightarrow> \<forall>e\<in>set q. dag_edge d e \<Longrightarrow>
    push_ok d z \<Longrightarrow> counter_reach d er z \<Longrightarrow> \<not> counter_stop d z \<Longrightarrow> getSource d z = u \<Longrightarrow>
    \<exists>z. push_ok d z \<and> \<not> counter_stop d z \<and> getSource d z = v"
proof (induction q arbitrary: u z)
  case Nil
  then show ?case by auto
next
  case (Cons x q)
  note wf = placed_facts(1,2) [OF p]
  have x: "dag_edge d x" "push_ok d x" "getSource d x = getSource d z" "walk d (getTarget d x) q v"
    using Cons.prems by (auto simp: dag_edge_push_ok)
  have "x = z" using counter_graph [OF wf(1)] Cons.prems(3,5) x(2,3) unfolding push_graph_def by metis
  moreover have "x \<noteq> er" using x(1) dag_edge_not_er [OF p] by auto
  ultimately obtain y where y: "push_ok d y" "counter_reach d er y" "\<not> counter_stop d y" "getSource d y = getTarget d x"
    using counter_reach_from [OF p Cons.prems(4)] by auto
  with Cons.IH [of "getTarget d x" y] x y Cons.prems(2) show ?case by simp
qed

lemma loop_edge_unreached:
  assumes p: "placed rk er d" and bd: "built_dag d" and b: "b \<in> set (d_edges d)" "is_loop_edge d b"
  shows "\<not> init_reach d er b" "\<not> counter_reach d er b"
proof -
  note wf = placed_facts(1,2) [OF p]
  have ty: "getType d b \<in> {BACKEDGE, SPLITEDGE}" using b(2) by (simp add: is_loop_edge_def)
  have ner: "b \<noteq> er" using wf_exit_root_edge(4) [OF wf] ty by auto
  have q: "\<exists>q. walk d (getTarget d b) q (getSource d b) \<and> (\<forall>e\<in>set q. dag_edge d e)" if "push_ok d b"
    using built_dagD(2) [OF bd b(1)] ty that by (auto simp: push_ok_def)
  show "\<not> init_reach d er b"
  proof
    assume i: "init_reach d er b"
    then have ok: "push_ok d b"
      using exit_root_crossed(1) [OF wf] unfolding init_reach_def by (rule push_reach_ok)
    have "before_init d er (getSource d b)"
      using init_reach_from [OF p i ner] by (metis before_init_def)
    then have "before_init d er (getTarget d b)" using back_edge_not_init [OF p] q [OF ok] by blast
    from before_initD(2) [OF p this ok refl] wf_loop_target_preds [OF wf(1) b(1) ty] show False
      by (simp add: init_stop_def)
  qed
  show "\<not> counter_reach d er b"
  proof
    assume c: "counter_reach d er b"
    then have ok: "push_ok d b"
      using exit_root_crossed(1) [OF wf] unfolding counter_reach_def by (rule push_reach_ok)
    obtain q where q: "walk d (getTarget d b) q (getSource d b)" "\<forall>e\<in>set q. dag_edge d e" using q [OF ok] by blast
    obtain z where "push_ok d z" "counter_reach d er z" "\<not> counter_stop d z" "getSource d z = getTarget d b"
      using p c ner by (rule counter_reach_from)
    then obtain y where "\<not> counter_stop d y" "getSource d y = getSource d b"
      using back_edge_not_counted [OF p q] by blast
    with wf_loop_source_succs [OF wf(1) b(1) ty] show False by (simp add: counter_stop_def)
  qed
qed

section \<open>The plan\<close>

text \<open>After these edges a node's starting number is not the number that holds at its end.\<close>

definition drops_number :: "bl_dag \<Rightarrow> edge_id \<Rightarrow> bool" where
  "drops_number d e \<longleftrightarrow> (if is_loop_edge d e
     then (\<exists>t. getPhonyRoot d e = Some t \<and> isCounterIncrement d t)
     else isInitialization d e \<or> isCounterIncrement d e)"

definition cfg_edge :: "bl_dag \<Rightarrow> edge_id \<Rightarrow> bool" where
  "cfg_edge d e \<longleftrightarrow> e \<in> set (d_edges d) \<and> \<not> is_phony d e"

definition plan :: "bl_dag \<Rightarrow> (node_id \<Rightarrow> bool) \<Rightarrow> bool" where
  "plan d D \<longleftrightarrow>
     (\<forall>e. cfg_edge d e \<longrightarrow> step_typed d e (D (getSource d e)) (D (getTarget d e)))
     \<and> (\<forall>e. cfg_edge d e \<longrightarrow> is_loop_edge d e \<longrightarrow>
          \<not> isInitialization d e \<and> \<not> isCounterIncrement d e \<and> getIncrement d e = 0
          \<and> (\<exists>t q. getPhonyRoot d e = Some t \<and> getPhonyExit d e = Some q \<and> t \<in> set (d_edges d) \<and> q \<in> set (d_edges d)
               \<and> is_phony d t \<and> is_phony d q))
     \<and> (\<forall>e f. cfg_edge d e \<longrightarrow> cfg_edge d f \<longrightarrow> drops_number d e \<longrightarrow> getNumberPredEdges d (getTarget d e) = 1 \<longrightarrow>
          getSource d f = getTarget d e \<longrightarrow> idle_edge d f)
     \<and> (\<forall>e. cfg_edge d e \<longrightarrow> getTarget d e = d_exit d \<longrightarrow> getNumberSuccEdges d (getSource d e) \<le> 1)
     \<and> (\<forall>e. cfg_edge d e \<longrightarrow> getSource d e = d_exit d \<longrightarrow>
          getTarget d e \<noteq> d_exit d \<and> getNumberPredEdges d (getTarget d e) = 1)
     \<and> d_exit d \<in> set (d_nodes d) \<and> \<not> D (d_exit d)"

lemma planD:
  assumes "plan d D"
  shows "cfg_edge d e \<Longrightarrow> step_typed d e (D (getSource d e)) (D (getTarget d e))"
    "cfg_edge d e \<Longrightarrow> is_loop_edge d e \<Longrightarrow> \<not> isInitialization d e \<and> \<not> isCounterIncrement d e \<and> getIncrement d e = 0"
    "cfg_edge d e \<Longrightarrow> is_loop_edge d e \<Longrightarrow> \<exists>t q. getPhonyRoot d e = Some t \<and> getPhonyExit d e = Some q
       \<and> t \<in> set (d_edges d) \<and> q \<in> set (d_edges d) \<and> is_phony d t \<and> is_phony d q"
    "cfg_edge d e \<Longrightarrow> cfg_edge d f \<Longrightarrow> drops_number d e \<Longrightarrow> getNumberPredEdges d (getTarget d e) = 1 \<Longrightarrow>
       getSource d f = getTarget d e \<Longrightarrow> idle_edge d f"
    "cfg_edge d e \<Longrightarrow> getTarget d e = d_exit d \<Longrightarrow> getNumberSuccEdges d (getSource d e) \<le> 1"
    "cfg_edge d e \<Longrightarrow> getSource d e = d_exit d \<Longrightarrow> getTarget d e \<noteq> d_exit d \<and> getNumberPredEdges d (getTarget d e) = 1"
    "d_exit d \<in> set (d_nodes d)" "\<not> D (d_exit d)"
  using assms unfolding plan_def by blast+

text \<open>What the effect of an edge depends on.\<close>

definition acts where
  "acts d = (getType d, getPhonyRoot d, getPhonyExit d, isInitialization d, isCounterIncrement d, getIncrement d)"

lemma acts_eq:
  assumes "acts d' = acts d"
  shows "is_loop_edge d' = is_loop_edge d" "is_phony d' = is_phony d" "instrumented_step d' = instrumented_step d"
    "step_typed d' = step_typed d" "idle_edge d' = idle_edge d" "drops_number d' = drops_number d"
proof -
  have e: "getType d' = getType d" "getPhonyRoot d' = getPhonyRoot d" "getPhonyExit d' = getPhonyExit d"
    "isInitialization d' = isInitialization d" "isCounterIncrement d' = isCounterIncrement d"
    "getIncrement d' = getIncrement d"
    using assms by (simp_all add: acts_def)
  show l: "is_loop_edge d' = is_loop_edge d" unfolding is_loop_edge_def [abs_def] e ..
  show "is_phony d' = is_phony d" unfolding is_phony_def [abs_def] e ..
  show s: "instrumented_step d' = instrumented_step d"
    unfolding instrumented_step_def [abs_def] loop_edge_action_def [abs_def] edge_action_def [abs_def] e l ..
  show "step_typed d' = step_typed d" unfolding step_typed_def [abs_def] s ..
  show "idle_edge d' = idle_edge d" unfolding idle_edge_def [abs_def] e l ..
  show "drops_number d' = drops_number d" unfolding drops_number_def [abs_def] e l ..
qed

lemma acts_unlinked: "acts (unlinked R d) = acts d"
  by (simp add: acts_def)

lemma unlinked_cfg_edge [simp]: "cfg_edge (unlinked R d) = cfg_edge d"
  by (simp add: cfg_edge_def fun_eq_iff)

lemmas unlinked_steps = acts_eq [OF acts_unlinked]

lemma built_in_edge:
  assumes wf: "bl_wf rk d" and bd: "built_dag d" and v: "v \<in> set (d_nodes d)"
  obtains y where "push_ok d y" "getTarget d y = v"
proof -
  obtain y where "y \<in> set (predEdges d v)" using built_dagD(1) [OF bd v] by (cases "predEdges d v") auto
  then have y: "y \<in> set (d_edges d)" "getTarget d y = v" using wf_pred_iff [OF wf v] by auto
  show thesis
  proof (cases "getType d y = SPLITEDGE")
    case True
    then have "getType d y \<in> {BACKEDGE, SPLITEDGE}" by simp
    then obtain t q where "dag_edge d t" "getTarget d t = getTarget d y" using wf_loop_partners [OF wf y(1)] by metis
    then show ?thesis using that [of t] y(2) by (simp add: dag_edge_push_ok)
  next
    case False
    with y that show ?thesis by (simp add: push_ok_def)
  qed
qed

lemma cfg_edge_cases:
  assumes "cfg_edge d e" and er: "getExitRootEdge d = Inr er"
  obtains "e = er" | "dag_edge d e" | "is_loop_edge d e"
  using assms by (cases "getType d e") (auto simp: cfg_edge_def dag_edge_def is_loop_edge_def is_phony_def)

lemma holds_ends:
  assumes p: "placed rk er d" and bd: "built_dag d"
  shows "\<not> holds_number d er (d_root d)" "\<not> holds_number d er (d_exit d)"
proof -
  note wf = placed_facts(1,2) [OF p] and e = wf_exit_root_edge [OF placed_facts(1,2) [OF p]]
  note c = exit_root_crossed [OF wf]
  show "\<not> holds_number d er (d_root d)" using c e by (auto simp: holds_number_def before_init_def)
  have ex: "d_exit d \<in> set (d_nodes d)" "d_root d \<noteq> d_exit d" using wf(1) by (simp_all add: bl_wf_def)
  obtain y where y: "push_ok d y" "getTarget d y = d_exit d" using wf(1) bd ex(1) by (rule built_in_edge)
  have "counter_reach d er y"
    using c(5) placed_exit_root(4) [OF p] y(1) by (rule counter_reach_step) (simp add: y e)
  moreover have "y \<noteq> er" using y e ex(2) by auto
  ultimately show "\<not> holds_number d er (d_exit d)" using y by (auto simp: holds_number_def after_counter_def)
qed

lemma exit_root_idle:
  assumes p: "placed rk er d"
  shows "idle_edge d er"
  using placed_exit_root [OF p] wf_exit_root_edge(4) [OF placed_facts(1,2) [OF p]]
  by (simp add: idle_edge_def is_loop_edge_def)

lemma plan_typed:
  assumes p: "placed rk er d" and bd: "built_dag d" and e: "cfg_edge d e"
  shows "step_typed d e (holds_number d er (getSource d e)) (holds_number d er (getTarget d e))"
  using e placed_facts(2) [OF p]
proof (cases rule: cfg_edge_cases)
  case 1
  then show ?thesis
    using idle_edge_typed [OF exit_root_idle [OF p], of False] holds_ends [OF p bd]
      wf_exit_root_edge(1,2) [OF placed_facts(1,2) [OF p]] by simp
next
  case 2
  then have "getSource d e \<in> set (d_nodes d)"
    using wf_ends(1) [OF placed_facts(1) [OF p]] by (simp add: dag_edge_def)
  then obtain y where "push_ok d y" "getTarget d y = getSource d e"
    using placed_facts(1) [OF p] bd by (metis built_in_edge)
  with p 2 show ?thesis by (rule placed_edge_typed)
next
  case 3
  with p e show ?thesis by (intro placed_loop_typed) (simp_all add: cfg_edge_def)
qed

text \<open>Behind the counter nothing happens any more.\<close>

lemma after_counter_idle:
  assumes p: "placed rk er d" and a: "after_counter d er v" and f: "cfg_edge d f" "getSource d f = v" "f \<noteq> er"
  shows "idle_edge d f"
proof -
  note wf = placed_facts(1) [OF p]
  have fE: "f \<in> set (d_edges d)" using f(1) by (simp add: cfg_edge_def)
  have "\<not> is_loop_edge d f"
  proof
    assume "is_loop_edge d f"
    then have ty: "getType d f \<in> {BACKEDGE, SPLITEDGE}" by (simp add: is_loop_edge_def)
    obtain q where q: "dag_edge d q" "getSource d q = getSource d f" using wf_loop_partners [OF wf fE ty] by metis
    with leaves_after(2) [OF p dag_edge_push_ok [OF q(1)]] a f(2) have "\<not> counter_stop d q" by simp
    with q(2) wf_loop_source_succs [OF wf fE ty] show False by (simp add: counter_stop_def)
  qed
  moreover from this have ok: "push_ok d f" using fE by (auto simp: push_ok_def is_loop_edge_def)
  ultimately show ?thesis
    using leaves_after [OF p ok] a f(2) placed_facts(4,6) [OF p ok] by (auto simp: idle_edge_def counter_stop_def)
qed

text \<open>An edge that the walk emits at its target is no initialization: the push would have gone on.\<close>

lemma single_pred_not_init:
  assumes p: "placed rk er d" and bd: "built_dag d" and e: "dag_edge d e" "\<not> is_phony d e" "getTarget d e \<noteq> d_exit d"
    and n: "length (filter (\<lambda>f. \<not> is_phony d f) (predEdges d (getTarget d e))) = 1"
  shows "\<not> isInitialization d e"
proof
  note wf = placed_facts(1) [OF p]
  let ?v = "getTarget d e"
  assume "isInitialization d e"
  then have "init_stop d e" using placed_facts(3) [OF p dag_edge_push_ok [OF e(1)]] by simp
  then have len: "1 < length (predEdges d ?v)" using e(3) by (simp add: init_stop_def getNumberPredEdges_def)
  have eE: "e \<in> set (d_edges d)" using e(1) by (simp add: dag_edge_def)
  note vn = wf_ends(2) [OF wf eE] and vec = wf_edge_vectors [OF wf wf_ends(2) [OF wf eE]]
  obtain y where y: "y \<in> set (predEdges d ?v)" "y \<noteq> e"
    using distinct_other_member [OF vec(3) len] by blast
  have yE: "y \<in> set (d_edges d)" "getTarget d y = ?v" using y(1) vec(4) by simp_all
  obtain f where f: "f \<in> set (predEdges d ?v)" "\<not> is_phony d f" "f \<noteq> e"
  proof (cases "is_phony d y")
    case True
    with built_dagD(3) [OF bd yE(1)] yE(2) e(3) obtain b where
      b: "b \<in> set (d_edges d)" "is_loop_edge d b" "getPhonyRoot d b = Some y" by auto
    have ty: "getType d b \<in> {BACKEDGE, SPLITEDGE}" using b(2) by (simp add: is_loop_edge_def)
    have "getTarget d y = getTarget d b" using wf_loop_partners [OF wf b(1) ty] b(3) by (metis option.inject)
    then have "b \<in> set (predEdges d ?v)" using b(1) yE vec(4) by simp
    moreover have "\<not> is_phony d b" "b \<noteq> e" using ty e(1) by (auto simp: is_phony_def dag_edge_def)
    ultimately show ?thesis using that by blast
  next
    case False
    with y that show ?thesis by blast
  qed
  have "e \<in> set (filter (\<lambda>f. \<not> is_phony d f) (predEdges d ?v))" using e(2) eE vec(4) by simp
  moreover have "f \<in> set (filter (\<lambda>f. \<not> is_phony d f) (predEdges d ?v))" using f by simp
  ultimately show False using n f(3) length_le_Suc_0_unique [of "filter (\<lambda>f. \<not> is_phony d f) (predEdges d ?v)" e f]
    by (simp del: set_filter)
qed

text \<open>The dag that the walk starts on.\<close>

lemma unlinked_degrees:
  assumes wf: "bl_wf rk d" and v: "v \<in> set (d_nodes d)" and R: "R = {e \<in> set (d_edges d). is_phony d e}"
  shows "predEdges (unlinked R d) v = filter (\<lambda>e. \<not> is_phony d e) (predEdges d v)"
    "succEdges (unlinked R d) v = filter (\<lambda>e. \<not> is_phony d e) (succEdges d v)"
  using wf_edge_vectors(2,4) [OF wf v] by (auto simp: unlinked_vectors [OF v] R intro!: filter_cong)

lemma placed_rest:
  assumes p: "placed rk er d" and bd: "built_dag d" and R: "R = {e \<in> set (d_edges d). is_phony d e}"
    and e: "cfg_edge d e" and f: "cfg_edge d f" "getSource d f = getTarget d e"
    and dn: "drops_number d e" and n: "getNumberPredEdges (unlinked R d) (getTarget d e) = 1"
  shows "idle_edge d f"
proof (cases "f = er")
  case True
  with exit_root_idle [OF p] show ?thesis by simp
next
  case False
  note wf = placed_facts(1,2) [OF p]
  have eE: "e \<in> set (d_edges d)" "\<not> is_phony d e" and ff: "f \<in> set (d_edges d)" using e f by (simp_all add: cfg_edge_def)
  have "getSource d f \<noteq> d_exit d" using wf_out_of_exit [OF wf(1) ff] False wf(2) by auto
  with f(2) have ne: "getTarget d e \<noteq> d_exit d" by simp
  have "after_counter d er (getTarget d e)"
    using e wf(2)
  proof (cases rule: cfg_edge_cases)
    case 1
    with exit_root_idle [OF p] dn show ?thesis by (auto simp: drops_number_def idle_edge_def)
  next
    case 2
    have nl: "\<not> is_loop_edge d e" using 2 by (auto simp: dag_edge_def is_loop_edge_def)
    have "\<not> isInitialization d e"
      using single_pred_not_init [OF p bd 2 eE(2) ne] n unlinked_degrees(1) [OF wf(1) wf_ends(2) [OF wf(1) eE(1)] R]
      by (simp add: getNumberPredEdges_def)
    with dn nl have "isCounterIncrement d e" by (simp add: drops_number_def)
    then have "counter_reach d er e" using placed_facts(4) [OF p dag_edge_push_ok [OF 2]] by simp
    then show ?thesis using dag_edge_push_ok [OF 2] dag_edge_not_er [OF p 2] by (auto simp: after_counter_def)
  next
    case 3
    obtain t q where t: "getPhonyRoot d e = Some t" "dag_edge d t" "getTarget d t = getTarget d e"
      using p eE(1) 3 by (rule placed_loop_edge)
    with dn 3 have "isCounterIncrement d t" by (simp add: drops_number_def)
    then have "counter_reach d er t" using placed_facts(4) [OF p dag_edge_push_ok [OF t(2)]] by simp
    then show ?thesis using dag_edge_push_ok [OF t(2)] dag_edge_not_er [OF p t(2)] t(3) by (auto simp: after_counter_def)
  qed
  then show ?thesis by (rule after_counter_idle [OF p _ f False])
qed

lemma placed_plan:
  assumes p: "placed rk er d" and bd: "built_dag d" and R: "R = {e \<in> set (d_edges d). is_phony d e}"
    and idle: "\<And>b. b \<in> set (d_edges d) \<Longrightarrow> is_loop_edge d b \<Longrightarrow>
      \<not> isInitialization d b \<and> \<not> isCounterIncrement d b \<and> getIncrement d b = 0"
  shows "plan (unlinked R d) (holds_number d er)"
  unfolding plan_def unlinked_simps unlinked_steps unlinked_cfg_edge
proof (intro conjI allI impI)
  note wf = placed_facts(1,2) [OF p]
  note deg = unlinked_degrees [OF wf(1) _ R]
  fix e
  assume e: "cfg_edge d e"
  then have eE: "e \<in> set (d_edges d)" "\<not> is_phony d e" by (simp_all add: cfg_edge_def)
  show "step_typed d e (holds_number d er (getSource d e)) (holds_number d er (getTarget d e))"
    using p bd e by (rule plan_typed)
  show "idle_edge d f"
    if "cfg_edge d f" "drops_number d e" "getNumberPredEdges (unlinked R d) (getTarget d e) = 1" "getSource d f = getTarget d e" for f
    using placed_rest [OF p bd R e] that by blast
  show "getNumberSuccEdges (unlinked R d) (getSource d e) \<le> 1" if "getTarget d e = d_exit d"
  proof (rule ccontr)
    let ?fs = "filter (\<lambda>e. \<not> is_phony d e) (succEdges d (getSource d e))"
    note vec = wf_edge_vectors [OF wf(1) wf_ends(1) [OF wf(1) eE(1)]]
    assume "\<not> ?thesis"
    then have "1 < length ?fs" using deg(2) [OF wf_ends(1) [OF wf(1) eE(1)]] by (simp add: getNumberSuccEdges_def)
    then obtain f where "f \<in> set ?fs" "f \<noteq> e" using distinct_other_member [of ?fs e] vec(1) by auto
    then show False using built_dagD(4) [OF bd eE that, of f] vec(2) by auto
  qed
  assume "getSource d e = d_exit d"
  then have "e = er" using wf_out_of_exit [OF wf(1) eE(1)] wf(2) by simp
  then have "getTarget d e = d_root d" "predEdges d (d_root d) = [e]" using wf_exit_root_edge [OF wf] by simp_all
  moreover have "d_root d \<noteq> d_exit d" "d_root d \<in> set (d_nodes d)" using wf(1) by (simp_all add: bl_wf_def)
  ultimately show "getTarget d e \<noteq> d_exit d" "getNumberPredEdges (unlinked R d) (getTarget d e) = 1"
    using deg(1) [of "d_root d"] eE(2) by (simp_all add: getNumberPredEdges_def)
next
  fix e
  assume e: "cfg_edge d e" "is_loop_edge d e"
  then have eE: "e \<in> set (d_edges d)" by (simp add: cfg_edge_def)
  show "\<not> isInitialization d e" "\<not> isCounterIncrement d e" "getIncrement d e = 0" using idle [OF eE e(2)] by blast+
  have "phony_partners d e" using placed_facts(1) [OF p] eE e(2) by (auto simp: bl_wf_def is_loop_edge_def)
  then show "\<exists>t q. getPhonyRoot d e = Some t \<and> getPhonyExit d e = Some q \<and> t \<in> set (d_edges d) \<and> q \<in> set (d_edges d)
      \<and> is_phony d t \<and> is_phony d q"
    by (auto simp: phony_partners_def is_phony_def split: option.splits)
next
  show "\<not> holds_number d er (d_exit d)" by (rule holds_ends [OF p bd])
  show "d_exit d \<in> set (d_nodes d)" using placed_facts(1) [OF p] by (simp add: bl_wf_def)
qed

section \<open>Splitting an edge\<close>

lemma split_loop_edge:
  assumes s: "is_split d f BB v g d'" and f: "f \<in> set (d_edges d)"
  shows "is_loop_edge d' = (is_loop_edge d)(f := False, g := is_loop_edge d f)"
proof -
  have "f \<noteq> g" using is_splitD(2) [OF s] f by blast
  with s show ?thesis by (auto simp: is_split_def is_loop_edge_def fun_eq_iff split: if_splits)
qed

lemma split_cfg_edge:
  assumes s: "is_split d f BB v g d'" and f: "cfg_edge d f"
  shows "cfg_edge d' e \<longleftrightarrow> cfg_edge d e \<or> e = g"
  using is_splitD(2,4) [OF s] is_split_phony [OF s] f by (auto simp: cfg_edge_def)

lemma split_partners:
  assumes s: "is_split d f BB v g d'" and f: "f \<in> set (d_edges d)"
  shows "e \<noteq> f \<Longrightarrow> e \<noteq> g \<Longrightarrow> getPhonyRoot d' e = getPhonyRoot d e \<and> getPhonyExit d' e = getPhonyExit d e"
    "is_loop_edge d f \<Longrightarrow> getPhonyRoot d' g = getPhonyRoot d f \<and> getPhonyExit d' g = getPhonyExit d f"
proof -
  have "f \<noteq> g" using is_splitD(2) [OF s] f by blast
  with s show "e \<noteq> f \<Longrightarrow> e \<noteq> g \<Longrightarrow> getPhonyRoot d' e = getPhonyRoot d e \<and> getPhonyExit d' e = getPhonyExit d e"
    "is_loop_edge d f \<Longrightarrow> getPhonyRoot d' g = getPhonyRoot d f \<and> getPhonyExit d' g = getPhonyExit d f"
    by (auto simp: is_split_def is_loop_edge_def split: if_splits)
qed

lemma loop_edge_action_cong:
  assumes "getPhonyRoot d' e' = getPhonyRoot d e" "getPhonyExit d' e' = getPhonyExit d e"
    and "getPhonyRoot d e = Some t" "getPhonyExit d e = Some q"
    and "isInitialization d' t = isInitialization d t" "isCounterIncrement d' t = isCounterIncrement d t"
    "getIncrement d' t = getIncrement d t" "isCounterIncrement d' q = isCounterIncrement d q"
    "getIncrement d' q = getIncrement d q"
  shows "loop_edge_action d' e' s = loop_edge_action d e s"
  using assms by (simp add: loop_edge_action_def Let_def)

lemma edge_action_cong:
  assumes "isInitialization d' e' = isInitialization d e" "isCounterIncrement d' e' = isCounterIncrement d e"
    "getIncrement d' e' = getIncrement d e"
  shows "edge_action d' e' = edge_action d e"
  unfolding edge_action_def [abs_def] assms ..

lemma split_steps:
  assumes pl: "plan d D" and s: "is_split d f BB v g d'" and f: "cfg_edge d f"
  shows "cfg_edge d e \<Longrightarrow> e \<noteq> f \<Longrightarrow> instrumented_step d' e = instrumented_step d e"
    "is_loop_edge d f \<Longrightarrow> idle_edge d' f \<and> instrumented_step d' g = instrumented_step d f"
    "\<not> is_loop_edge d f \<Longrightarrow> idle_edge d' g \<and> instrumented_step d' f = instrumented_step d f"
proof -
  note d = is_splitD [OF s]
  have fE: "f \<in> set (d_edges d)" using f by (simp add: cfg_edge_def)
  have fg: "f \<noteq> g" using d(2) fE by blast
  note l = split_loop_edge [OF s fE] and pp = split_partners [OF s fE]
  have loop: "loop_edge_action d' e' = loop_edge_action d e"
    if e: "cfg_edge d e" "is_loop_edge d e" "getPhonyRoot d' e' = getPhonyRoot d e \<and> getPhonyExit d' e' = getPhonyExit d e" for e e'
  proof -
    obtain t q where t: "getPhonyRoot d e = Some t" "getPhonyExit d e = Some q" "t \<in> set (d_edges d)" "q \<in> set (d_edges d)"
      using planD(3) [OF pl e(1,2)] by blast
    then have "t \<noteq> g" "q \<noteq> g" using d(2) by auto
    with e(3) t show ?thesis by (intro ext loop_edge_action_cong) (auto simp: d(10-12))
  qed
  show "instrumented_step d' e = instrumented_step d e" if e: "cfg_edge d e" "e \<noteq> f"
  proof -
    have eg: "e \<noteq> g" using e(1) d(2) by (auto simp: cfg_edge_def)
    show ?thesis
      using loop [OF e(1) _ pp(1) [OF e(2) eg]] edge_action_cong [of d' e d e] e(2) eg
      by (cases "is_loop_edge d e") (simp_all add: instrumented_step_def [abs_def] l d(10-12))
  qed
  show "idle_edge d' f \<and> instrumented_step d' g = instrumented_step d f" if lf: "is_loop_edge d f"
    using loop [OF f lf pp(2) [OF lf]] planD(2) [OF pl f lf] fg lf
    by (simp add: instrumented_step_def [abs_def] idle_edge_def l d(10-12))
  show "idle_edge d' g \<and> instrumented_step d' f = instrumented_step d f" if "\<not> is_loop_edge d f"
    using fg that edge_action_cong [of d' f d f]
    by (simp add: instrumented_step_def [abs_def] idle_edge_def l d(10-12))
qed

definition split_holds :: "bl_dag \<Rightarrow> edge_id \<Rightarrow> node_id \<Rightarrow> (node_id \<Rightarrow> bool) \<Rightarrow> node_id \<Rightarrow> bool" where
  "split_holds d f v D = D(v := if is_loop_edge d f then D (getSource d f) else D (getTarget d f))"

lemma split_idle:
  assumes pl: "plan d D" and s: "is_split d f BB v g d'" and f: "cfg_edge d f" and e: "cfg_edge d e" "idle_edge d e"
  shows "idle_edge d' e"
proof -
  note d = is_splitD [OF s]
  have "e \<noteq> g" using e(1) d(2) by (auto simp: cfg_edge_def)
  then show ?thesis using e split_loop_edge [OF s] f by (auto simp: cfg_edge_def idle_edge_def d(10-12))
qed

lemma split_drops:
  assumes pl: "plan d D" and s: "is_split d f BB v g d'" and f: "cfg_edge d f"
  shows "cfg_edge d e \<Longrightarrow> e \<noteq> f \<Longrightarrow> drops_number d' e = drops_number d e"
    "drops_number d' g \<longleftrightarrow> is_loop_edge d f \<and> drops_number d f"
proof -
  note d = is_splitD [OF s]
  have fE: "f \<in> set (d_edges d)" using f by (simp add: cfg_edge_def)
  note l = split_loop_edge [OF s fE] and pp = split_partners [OF s fE]
  have t: "(\<exists>t. getPhonyRoot d x = Some t \<and> isCounterIncrement d' t) = (\<exists>t. getPhonyRoot d x = Some t \<and> isCounterIncrement d t)"
    if "cfg_edge d x" "is_loop_edge d x" for x
    using planD(3) [OF pl that] d(2) by (auto simp: d(12))
  show "drops_number d' e = drops_number d e" if "cfg_edge d e" "e \<noteq> f"
  proof -
    have "e \<noteq> g" using that d(2) by (auto simp: cfg_edge_def)
    then show ?thesis using that pp(1) [of e] t [OF that(1)] by (simp add: drops_number_def l) (simp add: d(11,12))
  qed
  show "drops_number d' g \<longleftrightarrow> is_loop_edge d f \<and> drops_number d f"
    using pp(2) t [OF f] by (cases "is_loop_edge d f") (simp_all add: drops_number_def l, simp_all add: d(11,12))
qed

lemma split_typed:
  assumes l: "linked d" and pl: "plan d D" and s: "is_split d f BB v g d'" and f: "cfg_edge d f" and e: "cfg_edge d' e"
  shows "step_typed d' e (split_holds d f v D (getSource d' e)) (split_holds d f v D (getTarget d' e))"
proof -
  note d = is_splitD [OF s] and st = split_steps [OF pl s f] and cfg = split_cfg_edge [OF s f]
  have typed: "step_typed d' e x y = step_typed d e' x y" if "instrumented_step d' e = instrumented_step d e'" for e e' x y
    using that by (simp add: step_typed_def)
  have new: "getSource d x \<noteq> v" "getTarget d x \<noteq> v" "x \<noteq> g" if "cfg_edge d x" for x
    using that linkedD(2,3) [OF l, of x] d(1,2) by (auto simp: cfg_edge_def)
  note T = planD(1) [OF pl]
  consider "cfg_edge d e" "e \<noteq> f" | "e = f" | "e = g" using e cfg by blast
  then show ?thesis
  proof cases
    case 1
    then show ?thesis using T [of e] new [of e] typed [OF st(1)] by (simp add: split_holds_def d(8,9))
  next
    case 2
    then show ?thesis
      using T [OF f] new [OF f] st(2,3) typed [of f f] idle_edge_typed [of d' f]
      by (cases "is_loop_edge d f") (simp_all add: split_holds_def d(8,9))
  next
    case 3
    then show ?thesis
      using T [OF f] new [OF f] st(2,3) typed [of g f] idle_edge_typed [of d' g]
      by (cases "is_loop_edge d f") (simp_all add: split_holds_def d(8,9))
  qed
qed

lemma split_rest:
  assumes l: "linked d" and pl: "plan d D" and s: "is_split d f BB v g d'" and f: "cfg_edge d f"
    and e: "cfg_edge d' e" "drops_number d' e" "getNumberPredEdges d' (getTarget d' e) = 1"
    and h: "cfg_edge d' h" "getSource d' h = getTarget d' e"
  shows "idle_edge d' h"
proof -
  note d = is_splitD [OF s] and st = split_steps [OF pl s f] and cfg = split_cfg_edge [OF s f]
  have fE: "f \<in> set (d_edges d)" "\<not> is_phony d f" using f by (simp_all add: cfg_edge_def)
  note deg = is_split_degrees [OF l s fE] and dr = split_drops [OF pl s f]
  have new: "getSource d x \<noteq> v" "getTarget d x \<noteq> v" "x \<noteq> g" "getTarget d x \<in> set (d_nodes d)" if "cfg_edge d x" for x
    using that linkedD(2,3) [OF l, of x] d(1,2) by (auto simp: cfg_edge_def)
  have rest: "idle_edge d' h"
    if x: "cfg_edge d x" "drops_number d x" "getTarget d' e = getTarget d x" for x
  proof -
    have "h \<noteq> g" using h(2) x(3) new(2) [OF x(1)] by (auto simp: d(8))
    then have "cfg_edge d h" "getSource d h = getTarget d x" using h cfg x(3) by (auto simp: d(8))
    then show ?thesis
      using split_idle [OF pl s f] planD(4) [OF pl x(1) _ x(2)] e(3) x(3) deg(2) [OF new(4) [OF x(1)]] by simp
  qed
  consider "cfg_edge d e" "e \<noteq> f" | "e = f" | "e = g" using e(1) cfg by blast
  then show ?thesis
  proof cases
    case 1
    then show ?thesis using rest [of e] e(2) dr(1) new(3) by (simp add: d(9))
  next
    case 2
    have "\<not> is_loop_edge d f"
      using st(2) e(2) 2 by (auto simp: idle_edge_def drops_number_def split: if_splits)
    moreover have "h = g" using h cfg new(1) [of h] 2 new(3) [OF f] by (auto simp: d(8,9) split: if_splits)
    ultimately show ?thesis using st(3) by simp
  next
    case 3
    then show ?thesis using rest [OF f] e(2) dr(2) by (simp add: d(9))
  qed
qed

lemma split_plan:
  assumes l: "linked d" and pl: "plan d D" and s: "is_split d f BB v g d'" and f: "cfg_edge d f"
  shows "plan d' (split_holds d f v D)"
  unfolding plan_def
proof (intro conjI allI impI)
  note d = is_splitD [OF s] and cfg = split_cfg_edge [OF s f]
  have fE: "f \<in> set (d_edges d)" "\<not> is_phony d f" using f by (simp_all add: cfg_edge_def)
  note deg = is_split_degrees [OF l s fE] and lp = split_loop_edge [OF s fE(1)] and ph = is_split_phony [OF s fE]
  have new: "x \<noteq> g" "getSource d x \<noteq> v" "getTarget d x \<noteq> v" "getSource d x \<in> set (d_nodes d)" "getTarget d x \<in> set (d_nodes d)"
    if "cfg_edge d x" for x
    using that linkedD(2,3) [OF l, of x] d(1,2) by (auto simp: cfg_edge_def)
  have ex: "d_exit d \<noteq> v" using planD(7) [OF pl] d(1) by auto
  fix e
  assume e: "cfg_edge d' e"
  show "step_typed d' e (split_holds d f v D (getSource d' e)) (split_holds d f v D (getTarget d' e))"
    using l pl s f e by (rule split_typed)
  show "idle_edge d' h" if "cfg_edge d' h" "drops_number d' e" "getNumberPredEdges d' (getTarget d' e) = 1" "getSource d' h = getTarget d' e" for h
    using split_rest [OF l pl s f e] that by blast
  show "getNumberSuccEdges d' (getSource d' e) \<le> 1" if "getTarget d' e = d_exit d'"
    using that e cfg new deg(1,3) planD(5) [OF pl] ex by (auto simp: d(6,8,9) split: if_splits)
  assume se: "getSource d' e = d_exit d'"
  then have "e \<noteq> g" using ex by (auto simp: d(6,8))
  then have ed: "cfg_edge d e" "getSource d e = d_exit d" using e cfg se by (auto simp: d(6,8))
  then show "getTarget d' e \<noteq> d_exit d'" "getNumberPredEdges d' (getTarget d' e) = 1"
    using planD(6) [OF pl ed] new [OF ed(1)] deg(2,4) ex by (auto simp: d(6,9))
next
  note d = is_splitD [OF s] and cfg = split_cfg_edge [OF s f]
  have fE: "f \<in> set (d_edges d)" "\<not> is_phony d f" using f by (simp_all add: cfg_edge_def)
  note lp = split_loop_edge [OF s fE(1)] and ph = is_split_phony [OF s fE] and pp = split_partners [OF s fE(1)]
  fix e
  assume e: "cfg_edge d' e" "is_loop_edge d' e"
  obtain x where x: "cfg_edge d x" "is_loop_edge d x" "x = e \<and> e \<noteq> g \<or> e = g \<and> x = f"
    "getPhonyRoot d' e = getPhonyRoot d x" "getPhonyExit d' e = getPhonyExit d x"
    using e cfg f pp d(2) fE(1) by (auto simp: lp split: if_splits)
  then show "\<not> isInitialization d' e" "\<not> isCounterIncrement d' e" "getIncrement d' e = 0"
    using planD(2) [OF pl x(1,2)] by (auto simp: d(10-12))
  show "\<exists>t q. getPhonyRoot d' e = Some t \<and> getPhonyExit d' e = Some q \<and> t \<in> set (d_edges d') \<and> q \<in> set (d_edges d')
      \<and> is_phony d' t \<and> is_phony d' q"
    using planD(3) [OF pl x(1,2)] x(4,5) d(2) by (auto simp: ph d(4))
next
  note d = is_splitD [OF s]
  show "d_exit d' \<in> set (d_nodes d')" using planD(7) [OF pl] by (simp add: d(3,6))
  show "\<not> split_holds d f v D (d_exit d')" using planD(7,8) [OF pl] d(1) by (auto simp: split_holds_def d(6))
qed

section \<open>Runs of the split graph\<close>

text \<open>
  \<open>lifts d d'\<close>: every run of the function along \<open>d\<close> is a run along \<open>d'\<close> with
  the second halves of the split edges put in.
\<close>

definition inner_edge :: "bl_dag \<Rightarrow> edge_id \<Rightarrow> bool" where
  "inner_edge d e \<longleftrightarrow> cfg_edge d e \<and> getSource d e \<noteq> d_exit d"

definition lifts :: "bl_dag \<Rightarrow> bl_dag \<Rightarrow> bool" where
  "lifts d d' \<longleftrightarrow> set (d_edges d) \<subseteq> set (d_edges d')
     \<and> (\<forall>u es v. walk d u es v \<longrightarrow> (\<forall>e\<in>set es. inner_edge d e) \<longrightarrow>
          (\<exists>es'. walk d' u es' v \<and> (\<forall>e\<in>set es'. inner_edge d' e) \<and> filter (\<lambda>e. e \<in> set (d_edges d)) es' = es))"

lemma lifts_same:
  assumes t: "topo d' = topo d" and a: "acts d' = acts d"
  shows "lifts d d'"
proof -
  note t = topo_eqs [OF t] topo_eq_paths [OF t] and a = acts_eq [OF a]
  have i: "inner_edge d' = inner_edge d" by (simp add: inner_edge_def cfg_edge_def fun_eq_iff t a)
  have "filter (\<lambda>e. e \<in> set (d_edges d)) es = es" if "\<forall>e\<in>set es. inner_edge d e" for es
    using that by (simp add: inner_edge_def cfg_edge_def)
  then show ?thesis by (auto simp: lifts_def t i)
qed

lemma filter_mono: "A \<subseteq> B \<Longrightarrow> filter (\<lambda>e. e \<in> A) (filter (\<lambda>e. e \<in> B) es) = filter (\<lambda>e. e \<in> A) es"
  by (auto intro!: filter_cong)

lemma lifts_trans:
  assumes r: "lifts d d1" "lifts d1 d2"
  shows "lifts d d2"
proof -
  have sub: "set (d_edges d) \<subseteq> set (d_edges d1)" "set (d_edges d1) \<subseteq> set (d_edges d2)" using r by (simp_all add: lifts_def)
  have "\<exists>es2. walk d2 u es2 v \<and> (\<forall>e\<in>set es2. inner_edge d2 e) \<and> filter (\<lambda>e. e \<in> set (d_edges d)) es2 = es"
    if w: "walk d u es v" "\<forall>e\<in>set es. inner_edge d e" for u es v
  proof -
    obtain es1 where 1: "walk d1 u es1 v" "\<forall>e\<in>set es1. inner_edge d1 e" "filter (\<lambda>e. e \<in> set (d_edges d)) es1 = es"
      using r(1) w unfolding lifts_def by blast
    then obtain es2 where "walk d2 u es2 v" "\<forall>e\<in>set es2. inner_edge d2 e" "filter (\<lambda>e. e \<in> set (d_edges d1)) es2 = es1"
      using r(2) unfolding lifts_def by blast
    then show ?thesis using 1(3) filter_mono [OF sub(1), of es2] by auto
  qed
  then show ?thesis using sub by (auto simp: lifts_def)
qed

lemma split_lifts:
  assumes l: "linked d" and s: "is_split d f BB v g d'" and f: "cfg_edge d f" and ex: "d_exit d \<in> set (d_nodes d)"
  shows "lifts d d'"
proof -
  note d = is_splitD [OF s] and cfg = split_cfg_edge [OF s f]
  have new: "e \<noteq> g" "getTarget d e \<noteq> v" "e \<in> set (d_edges d)" if "cfg_edge d e" for e
    using that linkedD(3) [OF l, of e] d(1,2) by (auto simp: cfg_edge_def)
  have v: "v \<noteq> d_exit d" using ex d(1) by blast
  have "\<exists>es'. walk d' u es' w \<and> (\<forall>e\<in>set es'. inner_edge d' e) \<and> filter (\<lambda>e. e \<in> set (d_edges d)) es' = es"
    if "walk d u es w" "\<forall>e\<in>set es. inner_edge d e" for u es w
    using that
  proof (induction es arbitrary: u)
    case (Cons e es)
    obtain es' where es': "walk d' (getTarget d e) es' w" "\<forall>e\<in>set es'. inner_edge d' e" "filter (\<lambda>e. e \<in> set (d_edges d)) es' = es"
      using Cons by auto
    have e: "cfg_edge d e" "getSource d e \<noteq> d_exit d" using Cons.prems(2) by (simp_all add: inner_edge_def)
    have ie: "inner_edge d' e" using e new [OF e(1)] cfg by (simp add: inner_edge_def d(6,8))
    show ?case
    proof (cases "e = f")
      case True
      have "inner_edge d' g" using cfg v by (simp add: inner_edge_def d(6,8))
      then show ?thesis
        using es' ie True new [OF f] Cons.prems(1) d(2) by (intro exI [of _ "f # g # es'"]) (simp add: d(8,9))
    next
      case False
      then show ?thesis using es' ie new [OF e(1)] Cons.prems(1) by (intro exI [of _ "e # es'"]) (simp add: d(8,9))
    qed
  qed (rule exI [of _ "[]"], simp)
  then show ?thesis by (auto simp: lifts_def d(4))
qed

text \<open>
  \<open>refines d d'\<close>: a run along \<open>d'\<close> is a run along \<open>d\<close> when the second halves of
  split edges are left out, and does the same to the register and the log; and no run is lost.
\<close>

definition refines :: "bl_dag \<Rightarrow> bl_dag \<Rightarrow> bool" where
  "refines d d' \<longleftrightarrow> lifts d d' \<and> set (d_nodes d) \<subseteq> set (d_nodes d') \<and> set (d_edges d) \<subseteq> set (d_edges d')
     \<and> d_root d' = d_root d \<and> d_exit d' = d_exit d
     \<and> (\<forall>u es v. u \<in> set (d_nodes d) \<longrightarrow> v \<in> set (d_nodes d) \<longrightarrow> walk d' u es v \<longrightarrow> (\<forall>e\<in>set es. cfg_edge d' e) \<longrightarrow>
          walk d u (filter (\<lambda>e. e \<in> set (d_edges d)) es) v
          \<and> (\<forall>e\<in>set es. e \<in> set (d_edges d) \<longrightarrow> cfg_edge d e)
          \<and> fold_res (instrumented_step d') es
            = fold_res (instrumented_step d) (filter (\<lambda>e. e \<in> set (d_edges d)) es))"

lemma refinesD:
  assumes "refines d d'"
  shows "lifts d d'" "set (d_nodes d) \<subseteq> set (d_nodes d')" "set (d_edges d) \<subseteq> set (d_edges d')" "d_root d' = d_root d" "d_exit d' = d_exit d"
    "u \<in> set (d_nodes d) \<Longrightarrow> v \<in> set (d_nodes d) \<Longrightarrow> walk d' u es v \<Longrightarrow> \<forall>e\<in>set es. cfg_edge d' e \<Longrightarrow>
       walk d u (filter (\<lambda>e. e \<in> set (d_edges d)) es) v"
    "u \<in> set (d_nodes d) \<Longrightarrow> v \<in> set (d_nodes d) \<Longrightarrow> walk d' u es v \<Longrightarrow> \<forall>e\<in>set es. cfg_edge d' e \<Longrightarrow>
       \<forall>e\<in>set es. e \<in> set (d_edges d) \<longrightarrow> cfg_edge d e"
    "u \<in> set (d_nodes d) \<Longrightarrow> v \<in> set (d_nodes d) \<Longrightarrow> walk d' u es v \<Longrightarrow> \<forall>e\<in>set es. cfg_edge d' e \<Longrightarrow>
       fold_res (instrumented_step d') es = fold_res (instrumented_step d) (filter (\<lambda>e. e \<in> set (d_edges d)) es)"
  using assms unfolding refines_def by blast+

lemma refines_same:
  assumes t: "topo d' = topo d" and a: "acts d' = acts d"
  shows "refines d d'"
proof -
  note t = topo_eqs [OF t] topo_eq_paths [OF t] and a = acts_eq [OF a]
  have "filter (\<lambda>e. e \<in> set (d_edges d)) es = es" if "\<forall>e\<in>set es. e \<in> set (d_edges d)" for es
    using that by simp
  then show ?thesis using lifts_same [OF assms] by (simp add: refines_def t a cfg_edge_def)
qed

lemma refines_trans:
  assumes r: "refines d d1" "refines d1 d2"
  shows "refines d d2"
proof -
  have f: "filter (\<lambda>e. e \<in> set (d_edges d)) (filter (\<lambda>e. e \<in> set (d_edges d1)) es) = filter (\<lambda>e. e \<in> set (d_edges d)) es" for es
    using r(1) by (intro filter_mono) (simp add: refines_def)
  have "lifts d d2" using r lifts_trans [of d d1 d2] by (simp add: refines_def)
  then show ?thesis
    unfolding refines_def
  proof (intro conjI allI impI)
    fix u es v
    assume w: "u \<in> set (d_nodes d)" "v \<in> set (d_nodes d)" "walk d2 u es v" "\<forall>e\<in>set es. cfg_edge d2 e"
    let ?es = "filter (\<lambda>e. e \<in> set (d_edges d1)) es"
    have n: "u \<in> set (d_nodes d1)" "v \<in> set (d_nodes d1)" using w(1,2) r(1) by (auto simp: refines_def)
    have 1: "walk d1 u ?es v" "\<forall>e\<in>set ?es. cfg_edge d1 e"
      "fold_res (instrumented_step d2) es = fold_res (instrumented_step d1) ?es"
      using r(2) n w(3,4) unfolding refines_def by auto
    show "walk d u (filter (\<lambda>e. e \<in> set (d_edges d)) es) v"
      "fold_res (instrumented_step d2) es = fold_res (instrumented_step d) (filter (\<lambda>e. e \<in> set (d_edges d)) es)"
      using r(1) w(1,2) 1 f [of es] unfolding refines_def by metis+
    have "\<forall>e\<in>set ?es. e \<in> set (d_edges d) \<longrightarrow> cfg_edge d e" using r(1) w(1,2) 1 unfolding refines_def by blast
    then show "\<forall>e\<in>set es. e \<in> set (d_edges d) \<longrightarrow> cfg_edge d e" using r(1) by (auto simp: refines_def)
  qed (use r in \<open>auto simp: refines_def\<close>)
qed

lemma split_run:
  assumes l: "linked d" and pl: "plan d D" and s: "is_split d f BB v g d'" and f: "cfg_edge d f"
  shows "walk d' u es w \<Longrightarrow> u \<in> set (d_nodes d) \<Longrightarrow> w \<in> set (d_nodes d) \<Longrightarrow> \<forall>e\<in>set es. cfg_edge d' e \<Longrightarrow>
    walk d u (filter (\<lambda>e. e \<in> set (d_edges d)) es) w
    \<and> fold_res (instrumented_step d') es = fold_res (instrumented_step d) (filter (\<lambda>e. e \<in> set (d_edges d)) es)"
proof (induction es arbitrary: u rule: length_induct)
  case (1 es)
  note d = is_splitD [OF s] and st = split_steps [OF pl s f] and cfg = split_cfg_edge [OF s f]
  have new: "e \<noteq> g" "getSource d e \<noteq> v" "getTarget d e \<noteq> v" "getTarget d e \<in> set (d_nodes d)" "e \<in> set (d_edges d)"
    if "cfg_edge d e" for e
    using that linkedD(2,3) [OF l, of e] d(1,2) by (auto simp: cfg_edge_def)
  show ?case
  proof (cases es)
    case Nil
    with 1(2) show ?thesis by simp
  next
    case (Cons e ds)
    have "e \<noteq> g" using 1(2,3) Cons d(1) by (auto simp: d(8))
    then have e: "cfg_edge d e" using 1(5) Cons cfg by auto
    have src: "getSource d e = u" using 1(2) Cons \<open>e \<noteq> g\<close> by (simp add: d(8))
    show ?thesis
    proof (cases "e = f")
      case False
      then have "walk d' (getTarget d e) ds w" using 1(2) Cons new [OF e] by (simp add: d(9))
      with 1(1,4,5) new [OF e] Cons have "walk d (getTarget d e) (filter (\<lambda>e. e \<in> set (d_edges d)) ds) w"
        "fold_res (instrumented_step d') ds = fold_res (instrumented_step d) (filter (\<lambda>e. e \<in> set (d_edges d)) ds)"
        by simp_all
      then show ?thesis using Cons new [OF e] st(1) [OF e False] src by (auto intro!: ext)
    next
      case True
      have w: "walk d' v ds w" using 1(2) Cons True new [OF f] by (simp add: d(9))
      have "w \<noteq> v" using 1(4) d(1) by blast
      with w obtain h cs where ds: "ds = h # cs" by (cases ds) auto
      have "h = g" using w ds 1(5) Cons cfg new(2) [of h] by (auto simp: d(8) split: if_splits)
      with w ds have "walk d' (getTarget d f) cs w" by (simp add: d(9))
      with 1(1,4,5) new [OF f] Cons ds have "walk d (getTarget d f) (filter (\<lambda>e. e \<in> set (d_edges d)) cs) w"
        "fold_res (instrumented_step d') cs = fold_res (instrumented_step d) (filter (\<lambda>e. e \<in> set (d_edges d)) cs)"
        by simp_all
      moreover have "fold_res (instrumented_step d') (f # g # cs) x = bind_res (instrumented_step d f x) (fold_res (instrumented_step d') cs)" for x
        using st(2,3) idle_edge_step [of d' f] idle_edge_step [of d' g]
        by (cases "is_loop_edge d f"; cases "instrumented_step d f x") auto
      ultimately show ?thesis using Cons ds True \<open>h = g\<close> new [OF f] d(2) src by (auto simp del: fold_res.simps(2) intro!: ext) simp
    qed
  qed
qed

lemma split_refines:
  assumes l: "linked d" and pl: "plan d D" and s: "is_split d f BB v g d'" and f: "cfg_edge d f"
  shows "refines d d'"
  unfolding refines_def
proof (intro conjI allI impI)
  note d = is_splitD [OF s]
  fix u es w
  assume a: "u \<in> set (d_nodes d)" "w \<in> set (d_nodes d)" "walk d' u es w" "\<forall>e\<in>set es. cfg_edge d' e"
  show "walk d u (filter (\<lambda>e. e \<in> set (d_edges d)) es) w"
    "fold_res (instrumented_step d') es = fold_res (instrumented_step d) (filter (\<lambda>e. e \<in> set (d_edges d)) es)"
    using split_run [OF l pl s f a(3,1,2,4)] by simp_all
  show "\<forall>e\<in>set es. e \<in> set (d_edges d) \<longrightarrow> cfg_edge d e" using a(4) split_cfg_edge [OF s f] d(2) by auto
qed (simp_all add: is_splitD [OF s] subset_insertI split_lifts [OF l s f planD(7) [OF pl]])

end
