(* ===== verification/BL_Emit.thy ===== *)
theory BL_Emit
  imports BL_Surgery BL_Log
begin

text \<open>
  The emission of the instrumentation (\<open>PathProfiler\<close> in \<open>src/PathLogging.cpp\<close>):
  the walk over the edges of the graph that splits critical edges, chooses the
  block for the code of an edge, creates the instructions and hands the path
  number on to the next node, the treatment of call edges, and \<open>runOnFunction\<close>
  and \<open>runOnModule\<close>. LLVM's function is an argument: \<open>llvm\<close> holds the queries
  and \<open>SplitCriticalEdge\<close>. The instructions that the pass creates are
  recorded in the order of their creation with their insertion point.
\<close>

section \<open>Created instructions\<close>

datatype ir_point = FirstInsertionPt block_id | TerminatorOf block_id | FirstCall block_id

datatype rt_function = llvmIncrementHashFunction | llvmDecrementHashFunction

datatype ir_call =
    Create_Add inst_id ir_value ir_value ir_point
  | Create_Call rt_function ir_value ir_point
  | Create_PHI inst_id block_id nat
  | Add_Incoming inst_id ir_value block_id
  | Remove_Incoming inst_id block_id

record 'c llvm =
  l_successors :: "'c \<Rightarrow> block_id \<Rightarrow> block_id list"
  l_predecessors :: "'c \<Rightarrow> block_id \<Rightarrow> block_id list"
  l_isIndirectBr :: "'c \<Rightarrow> block_id \<Rightarrow> bool"
  l_SplitCriticalEdge :: "'c \<Rightarrow> block_id \<Rightarrow> nat \<Rightarrow> 'c option"

record 'c emitter =
  em_dag :: bl_dag
  em_fn :: 'c
  em_next :: inst_id
  em_calls :: "ir_call list"

definition on_dag :: "(bl_dag \<Rightarrow> bl_dag) \<Rightarrow> 'c emitter \<Rightarrow> 'c emitter" where
  "on_dag f s = s\<lparr>em_dag := f (em_dag s)\<rparr>"

definition record_call :: "ir_call \<Rightarrow> 'c emitter \<Rightarrow> 'c emitter" where
  "record_call c s = s\<lparr>em_calls := em_calls s @ [c]\<rparr>"

text \<open>\<open>BinaryOperator::Create\<close> of an addition; a null operand is dereferenced.\<close>

definition create_add :: "ir_value option \<Rightarrow> ir_value \<Rightarrow> ir_point \<Rightarrow> 'c emitter \<Rightarrow> (ir_value \<times> 'c emitter) res" where
  "create_add a b p s = (case a of
     None \<Rightarrow> Inl Bad_Deref
   | Some v \<Rightarrow> Inr (InstVal (em_next s), record_call (Create_Add (em_next s) v b p) (s\<lparr>em_next := Suc (em_next s)\<rparr>)))"

definition block_of :: "node_id \<Rightarrow> 'c emitter \<Rightarrow> block_id res" where
  "block_of v s = (case getBlock (em_dag s) v of None \<Rightarrow> Inl Bad_Deref | Some b \<Rightarrow> Inr b)"

section \<open>The helpers of the profiler\<close>

definition HASH_THRESHHOLD :: u32 where
  "HASH_THRESHHOLD = 0"

text \<open>The constant has 32 bits whatever the \<open>bitsize\<close>.\<close>

definition createIncrementConstant :: "clong \<Rightarrow> nat \<Rightarrow> ir_value" where
  "createIncrementConstant incr bitsize = ConstInt incr"

definition createIncrementConstant_edge :: "bl_dag \<Rightarrow> edge_id \<Rightarrow> ir_value" where
  "createIncrementConstant_edge d e = createIncrementConstant (getIncrement d e) 32"

definition preparePHI :: "'c llvm \<Rightarrow> node_id \<Rightarrow> 'c emitter \<Rightarrow> 'c emitter res" where
  "preparePHI L node s =
     bind_res (block_of node s) (\<lambda>block.
       let preds = l_predecessors L (em_fn s) block;
           phi = em_next s;
           s1 = record_call (Create_PHI phi block (length preds)) (s\<lparr>em_next := Suc phi\<rparr>);
           s2 = on_dag (setPathPHI node (Some phi)) s1;
           s3 = on_dag (setStartingPathNumber node (Some (InstVal phi))) s2;
           s4 = on_dag (setEndingPathNumber node (Some (InstVal phi))) s3
       in Inr (fold (\<lambda>pred. record_call (Add_Incoming phi (createIncrementConstant (- 1) 32) pred)) preds s4))"

definition pushValueIntoPHI :: "node_id \<Rightarrow> node_id \<Rightarrow> 'c emitter \<Rightarrow> 'c emitter res" where
  "pushValueIntoPHI target source s =
     (case getPathPHI (em_dag s) target of
        None \<Rightarrow> Inl (Assert_Failed ''Tried to push value into node with PHI, but node actually had no PHI.'')
      | Some phi \<Rightarrow> bind_res (block_of source s) (\<lambda>block.
          let s1 = record_call (Remove_Incoming phi block) s
          in (case getEndingPathNumber (em_dag s1) source of
                None \<Rightarrow> Inl Bad_Deref
              | Some v \<Rightarrow> Inr (record_call (Add_Incoming phi v block) s1))))"

definition pushValueIntoNode :: "'c llvm \<Rightarrow> node_id \<Rightarrow> node_id \<Rightarrow> 'c emitter \<Rightarrow> 'c emitter res" where
  "pushValueIntoNode L source target s =
     (if getBlock (em_dag s) target = None then Inr s
      else if getNumberPredEdges (em_dag s) target \<le> 1
      then if getStartingPathNumber (em_dag s) target \<noteq> None
           then Inl (Assert_Failed ''Target already has path number'')
           else let s1 = on_dag (\<lambda>d. setStartingPathNumber target (getEndingPathNumber d source) d) s
                in Inr (on_dag (\<lambda>d. setEndingPathNumber target (getEndingPathNumber d source) d) s1)
      else bind_res (if getPathPHI (em_dag s) target = None then preparePHI L target s else Inr s)
             (pushValueIntoPHI target source))"

definition insertNumberIncrement :: "node_id \<Rightarrow> ir_value \<Rightarrow> bool \<Rightarrow> 'c emitter \<Rightarrow> 'c emitter res" where
  "insertNumberIncrement node addition atBeginning s =
     (if getStartingPathNumber (em_dag s) node = None
      then Inl (Assert_Failed ''node->getStartingPathNumber() != NULL'')
      else if getEndingPathNumber (em_dag s) node = None
      then Inl (Assert_Failed ''node->getEndingPathNumber() != NULL'')
      else bind_res (block_of node s) (\<lambda>block.
           bind_res (create_add (getStartingPathNumber (em_dag s) node) addition
                       (if atBeginning then FirstInsertionPt block else TerminatorOf block) s)
             (\<lambda>(newpn, s1).
                let s2 = on_dag (setEndingPathNumber node (Some newpn)) s1
                in Inr (if atBeginning then on_dag (setStartingPathNumber node (Some newpn)) s2 else s2))))"

text \<open>
  With the threshold at zero a function with paths always takes the call of the
  runtime; the array branch begins with an assert that never holds.
\<close>

definition insertCounterIncrement :: "ir_value option \<Rightarrow> ir_point \<Rightarrow> bool \<Rightarrow> 'c emitter \<Rightarrow> 'c emitter res" where
  "insertCounterIncrement incValue insertPoint increment s =
     (if d_numberOfPaths (em_dag s) \<le> HASH_THRESHHOLD
      then Inl (Assert_Failed ''inline counters not supported'')
      else case incValue of
             None \<Rightarrow> Inl Bad_Deref
           | Some v \<Rightarrow> Inr (record_call
               (Create_Call (if increment then llvmIncrementHashFunction else llvmDecrementHashFunction) v insertPoint) s))"

section \<open>Splitting critical edges\<close>

fun successor_index :: "block_id \<Rightarrow> block_id list \<Rightarrow> nat" where
  "successor_index target [] = 0"
| "successor_index target (b # bs) = (if b = target then 0 else Suc (successor_index target bs))"

definition getSuccessorNumber :: "'c llvm \<Rightarrow> 'c \<Rightarrow> bl_dag \<Rightarrow> edge_id \<Rightarrow> nat" where
  "getSuccessorNumber L F d e =
     (case (getBlock d (getSource d e), getBlock d (getTarget d e)) of
        (Some source, Some target) \<Rightarrow> successor_index target (l_successors L F source)
      | _ \<Rightarrow> 0)"

definition splitCritical :: "bl_base \<Rightarrow> 'c llvm \<Rightarrow> edge_id \<Rightarrow> 'c emitter \<Rightarrow> (bool \<times> 'c emitter) res" where
  "splitCritical B L edge s =
     (let d = em_dag s;
          succNum = getSuccessorNumber L (em_fn s) d edge;
          sourceNode = getSource d edge;
          targetNode = getTarget d edge
      in case (getBlock d sourceNode, getBlock d targetNode) of
           (Some sourceBlock, Some targetBlock) \<Rightarrow>
             if getNumberSuccEdges d sourceNode \<le> 1 \<or> getNumberPredEdges d targetNode = 1 then Inr (True, s)
             else if l_isIndirectBr L (em_fn s) sourceBlock then Inr (False, s)
             else (case l_SplitCriticalEdge L (em_fn s) sourceBlock succNum of
                     None \<Rightarrow> Inr (True, s)
                   | Some F' \<Rightarrow>
                       if succNum < length (l_successors L F' sourceBlock)
                       then Inr (True, s\<lparr>em_fn := F',
                              em_dag := splitUpdate B edge (l_successors L F' sourceBlock ! succNum) d\<rparr>)
                       else Inl Bad_Deref)
         | _ \<Rightarrow> Inr (True, s))"

section \<open>The code of one edge\<close>

text \<open>A back or split edge: the phony edges say what ends the old path and starts the new one.\<close>

definition emit_loop_edge :: "edge_id \<Rightarrow> node_id \<Rightarrow> bool \<Rightarrow> 'c emitter \<Rightarrow> 'c emitter res" where
  "emit_loop_edge edge node atBeginning s =
     (case (getPhonyRoot (em_dag s) edge, getPhonyExit (em_dag s) edge) of
        (Some topE, Some bottomE) \<Rightarrow>
          if \<not> isInitialization (em_dag s) topE
          then Inl (Assert_Failed ''Top phony edge did not contain a path number initialization.'')
          else if \<not> isCounterIncrement (em_dag s) bottomE
          then Inl (Assert_Failed ''Bottom phony edge did not contain a path counter increment.'')
          else
          bind_res (block_of node s) (\<lambda>block.
          let zero = Some (createIncrementConstant 0 32);
              s1 = (if getEndingPathNumber (em_dag s) node = None
                    then on_dag (setEndingPathNumber node zero) (on_dag (setStartingPathNumber node zero) s)
                    else s);
              insertPoint = (if atBeginning then FirstInsertionPt block else TerminatorOf block);
              topC = Some (createIncrementConstant_edge (em_dag s) topE)
          in bind_res
               (if getIncrement (em_dag s1) bottomE \<noteq> 0
                then bind_res (create_add (getStartingPathNumber (em_dag s1) node)
                                 (createIncrementConstant_edge (em_dag s1) bottomE) insertPoint s1)
                       (\<lambda>(newpn, s2). Inr (on_dag (setEndingPathNumber node (Some newpn)) s2))
                else Inr s1) (\<lambda>s3.
             bind_res (insertCounterIncrement (getEndingPathNumber (em_dag s3) node) insertPoint True s3) (\<lambda>s4.
             let s5 = (if atBeginning then on_dag (setStartingPathNumber node topC) s4 else s4);
                 s6 = on_dag (setEndingPathNumber node topC) s5
             in if isCounterIncrement (em_dag s6) topE
                then bind_res (insertCounterIncrement (getEndingPathNumber (em_dag s6) node)
                                 (TerminatorOf block) True s6)
                       (\<lambda>s7. Inr (on_dag (setEndingPathNumber node None) s7))
                else Inr s6)))
      | _ \<Rightarrow> Inl Bad_Deref)"

definition emit_normal_edge :: "edge_id \<Rightarrow> node_id \<Rightarrow> bool \<Rightarrow> 'c emitter \<Rightarrow> 'c emitter res" where
  "emit_normal_edge edge node atBeginning s =
     bind_res (block_of node s) (\<lambda>block.
     let insertPoint = (if atBeginning then FirstInsertionPt block else TerminatorOf block)
     in bind_res
          (if isInitialization (em_dag s) edge
           then Inr (on_dag (setEndingPathNumber node (Some (createIncrementConstant_edge (em_dag s) edge))) s)
           else if getIncrement (em_dag s) edge \<noteq> 0
           then bind_res (create_add (getStartingPathNumber (em_dag s) node)
                            (createIncrementConstant_edge (em_dag s) edge) insertPoint s)
                  (\<lambda>(newpn, s1).
                     let s2 = on_dag (setEndingPathNumber node (Some newpn)) s1
                     in Inr (if atBeginning then on_dag (setStartingPathNumber node (Some newpn)) s2 else s2))
           else Inr s) (\<lambda>s3.
        if isCounterIncrement (em_dag s3) edge
        then bind_res (insertCounterIncrement (getEndingPathNumber (em_dag s3) node) insertPoint True s3)
               (\<lambda>s4. Inr (on_dag (setEndingPathNumber node None) s4))
        else Inr s3))"

definition emit_edge :: "edge_id \<Rightarrow> node_id \<Rightarrow> bool \<Rightarrow> 'c emitter \<Rightarrow> 'c emitter res" where
  "emit_edge edge node atBeginning s =
     (if is_loop_edge (em_dag s) edge then emit_loop_edge edge node atBeginning s
      else emit_normal_edge edge node atBeginning s)"

text \<open>
  The instrumentation of one edge up to the recursion. The result says at which
  node the walk goes on, \<open>None\<close> when the edge could not be split. The block of a
  node with one successor takes the code at its end, otherwise the target takes
  it at its beginning.
\<close>

definition instrument_at :: "'c llvm \<Rightarrow> edge_id \<Rightarrow> 'c emitter \<Rightarrow> (node_id option \<times> 'c emitter) res" where
  "instrument_at L edge s =
     (let sourceNode = getSource (em_dag s) edge; targetNode = getTarget (em_dag s) edge
      in if getBlock (em_dag s) sourceNode \<noteq> None \<and> getNumberSuccEdges (em_dag s) sourceNode \<le> 1
         then bind_res (emit_edge edge sourceNode False s) (\<lambda>s1.
              bind_res (if getEndingPathNumber (em_dag s1) sourceNode \<noteq> None
                        then pushValueIntoNode L sourceNode targetNode s1 else Inr s1) (\<lambda>s2.
              Inr (Some targetNode, s2)))
         else if getNumberPredEdges (em_dag s) targetNode = 1
         then bind_res (pushValueIntoNode L sourceNode targetNode s) (\<lambda>s1.
              bind_res (emit_edge edge targetNode True s1) (\<lambda>s2.
              Inr (Some targetNode, s2)))
         else Inr (None, s))"

definition instrument_edge :: "bl_base \<Rightarrow> 'c llvm \<Rightarrow> edge_id \<Rightarrow> 'c emitter \<Rightarrow> (node_id option \<times> 'c emitter) res" where
  "instrument_edge B L edge s =
     bind_res (splitCritical B L edge (on_dag (setHasInstrumentation edge True) s)) (\<lambda>(splitOk, s1).
       if \<not> splitOk then Inr (None, s1) else instrument_at L edge s1)"

section \<open>The walk over the graph\<close>

text \<open>
  The recursion visits the successor edges of the target that are not yet
  instrumented. Splitting an edge leaves the successor vector of its source as it
  is, so the iterators of the loop stay valid.
\<close>

fun insertInstrumentationStartingAt :: "nat \<Rightarrow> bl_base \<Rightarrow> 'c llvm \<Rightarrow> edge_id \<Rightarrow> 'c emitter \<Rightarrow> 'c emitter res"
  and instrument_successors :: "nat \<Rightarrow> bl_base \<Rightarrow> 'c llvm \<Rightarrow> edge_id list \<Rightarrow> 'c emitter \<Rightarrow> 'c emitter res"
where
  "insertInstrumentationStartingAt 0 B L edge s = Inl Out_Of_Fuel"
| "insertInstrumentationStartingAt (Suc n) B L edge s =
     bind_res (instrument_edge B L edge s) (\<lambda>(target, s1).
       case target of
         None \<Rightarrow> Inr s1
       | Some targetNode \<Rightarrow> instrument_successors n B L (succEdges (em_dag s1) targetNode) s1)"
| "instrument_successors n B L [] s = Inr s"
| "instrument_successors n B L (next # nexts) s =
     bind_res (if \<not> hasInstrumentation (em_dag s) next then insertInstrumentationStartingAt n B L next s else Inr s)
       (\<lambda>s1. instrument_successors n B L nexts s1)"

definition instrument_call_edge :: "edge_id \<Rightarrow> 'c emitter \<Rightarrow> 'c emitter res" where
  "instrument_call_edge edge s =
     (let node = getSource (em_dag s) edge
      in bind_res (block_of node s) (\<lambda>block.
         let insertPoint = FirstCall block; inc = getIncrement (em_dag s) edge
         in bind_res
              (case getStartingPathNumber (em_dag s) node of
                 Some v \<Rightarrow> if inc \<noteq> 0 then create_add (Some v) (createIncrementConstant inc 32) insertPoint s
                           else Inr (v, s)
               | None \<Rightarrow> Inr (createIncrementConstant inc 32, s)) (\<lambda>(newpn, s1).
            bind_res (insertCounterIncrement (Some newpn) insertPoint True s1) (\<lambda>s2.
            insertCounterIncrement (Some newpn) (TerminatorOf block) False s2))))"

definition insertInstrumentation :: "nat \<Rightarrow> bl_base \<Rightarrow> 'c llvm \<Rightarrow> 'c emitter \<Rightarrow> 'c emitter res" where
  "insertInstrumentation n B L s =
     bind_res (getExitRootEdge (em_dag s)) (\<lambda>exitRootEdge.
     bind_res (insertInstrumentationStartingAt n B L exitRootEdge s) (\<lambda>s1.
     fold_res instrument_call_edge (getCallPhonyEdges (em_dag s1)) s1))"

section \<open>Functions and modules\<close>

text \<open>
  \<open>runOnFunction\<close> starts from the numbered dag that LLVM's \<open>init\<close> and
  \<open>calculatePathNumbers\<close> build for the function. The entry of the function table
  holds the kind of the counters, their number and the counter array.
\<close>

datatype profiling_kind = ProfilingArray | ProfilingHash

record profiler =
  pf_ftInit :: "(profiling_kind \<times> u32 \<times> nat option) list"
  pf_currentFunctionNumber :: u32
  pf_totalPaths :: u64
  pf_maxPaths :: u64

definition smax :: "u64 \<Rightarrow> u64 \<Rightarrow> u64" where
  "smax a b = (if sint a < sint b then b else a)"

definition runOnFunction :: "nat \<Rightarrow> bl_base \<Rightarrow> 'c llvm \<Rightarrow> bl_dag \<times> 'c \<Rightarrow> profiler \<Rightarrow> ('c emitter \<times> profiler) res" where
  "runOnFunction n B L f pf =
     bind_res (place_instrumentation n (fst f)) (\<lambda>d1.
     bind_res (unlinkPhony B d1) (\<lambda>d2.
     let d3 = (if d_numberOfPaths d2 \<le> HASH_THRESHHOLD
               then d2\<lparr>d_counterArray := Some (length (pf_ftInit pf))\<rparr> else d2)
     in bind_res (insertInstrumentation n B L \<lparr>em_dag = d3, em_fn = snd f, em_next = 0, em_calls = []\<rparr>) (\<lambda>s.
     let paths = d_numberOfPaths (em_dag s);
         kind = (if paths \<le> HASH_THRESHHOLD then ProfilingArray else ProfilingHash)
     in Inr (s, pf\<lparr>pf_ftInit := pf_ftInit pf @ [(kind, paths, d_counterArray (em_dag s))],
                   pf_totalPaths := pf_totalPaths pf + ucast paths,
                   pf_maxPaths := smax (pf_maxPaths pf) (ucast paths)\<rparr>))))"

text \<open>A declaration has no dag and is skipped.\<close>

fun run_functions :: "nat \<Rightarrow> bl_base \<Rightarrow> 'c llvm \<Rightarrow> (bl_dag \<times> 'c) option list \<Rightarrow> u32 \<Rightarrow> profiler \<Rightarrow>
    ('c emitter list \<times> u32 \<times> profiler) res" where
  "run_functions n B L [] functionNumber pf = Inr ([], functionNumber, pf)"
| "run_functions n B L (None # fs) functionNumber pf = run_functions n B L fs functionNumber pf"
| "run_functions n B L (Some f # fs) functionNumber pf =
     (let functionNumber' = functionNumber + 1
      in bind_res (runOnFunction n B L f (pf\<lparr>pf_currentFunctionNumber := functionNumber'\<rparr>)) (\<lambda>(s, pf1).
         bind_res (run_functions n B L fs functionNumber' pf1) (\<lambda>(ss, k, pf2). Inr (s # ss, k, pf2))))"

definition runOnModule :: "nat \<Rightarrow> bl_base \<Rightarrow> 'c llvm \<Rightarrow> (bl_dag \<times> 'c) option list \<Rightarrow> profiler \<Rightarrow>
    ('c emitter list \<times> (u32 \<times> u64 \<times> u64) \<times> profiler) res" where
  "runOnModule n B L M pf =
     bind_res (run_functions n B L M 0 (pf\<lparr>pf_ftInit := []\<rparr>)) (\<lambda>(ss, k, pf1).
       Inr (ss, (k, pf_totalPaths pf1, pf_maxPaths pf1), pf1))"

section \<open>Running the created instructions\<close>

text \<open>
  The instructions created for one edge stand one after the other, or at the
  beginning and at the end of the same block. \<open>exec_call\<close> runs one of them on the
  values of the instructions and the log; the runtime ignores decrements.
\<close>

fun ir_val :: "(inst_id \<Rightarrow> u32) \<Rightarrow> ir_value \<Rightarrow> u32" where
  "ir_val env (ConstInt c) = c"
| "ir_val env (InstVal i) = env i"

fun exec_call :: "ir_call \<Rightarrow> (inst_id \<Rightarrow> u32) \<times> clong list \<Rightarrow> (inst_id \<Rightarrow> u32) \<times> clong list" where
  "exec_call (Create_Add i a b p) (env, out) = (env(i := ir_val env a + ir_val env b), out)"
| "exec_call (Create_Call llvmIncrementHashFunction v p) (env, out) = (env, out @ [ir_val env v])"
| "exec_call (Create_Call llvmDecrementHashFunction v p) (env, out) = (env, out)"
| "exec_call (Create_PHI i b k) s = s"
| "exec_call (Add_Incoming i v b) s = s"
| "exec_call (Remove_Incoming i b) s = s"

lemma on_dag_simps [simp]:
  "em_dag (on_dag f s) = f (em_dag s)" "em_fn (on_dag f s) = em_fn s"
  "em_next (on_dag f s) = em_next s" "em_calls (on_dag f s) = em_calls s"
  by (simp_all add: on_dag_def)

lemma record_call_simps [simp]:
  "em_dag (record_call c s) = em_dag s" "em_fn (record_call c s) = em_fn s"
  "em_next (record_call c s) = em_next s" "em_calls (record_call c s) = em_calls s @ [c]"
  by (simp_all add: record_call_def)

text \<open>
  \<open>realizes s node step s'\<close>: from a register that the node's path number denotes,
  the instructions created on the way from \<open>s\<close> to \<open>s'\<close> do what \<open>step\<close> does to the
  register and the log, and the node's new path number denotes the new register.
\<close>

definition realizes :: "'c emitter \<Rightarrow> node_id \<Rightarrow> (log_state \<Rightarrow> log_state res) \<Rightarrow> 'c emitter res \<Rightarrow> bool" where
  "realizes s node step r \<longleftrightarrow> (\<forall>env out.
     case step (map_option (ir_val env) (getEndingPathNumber (em_dag s) node), out) of
       Inl err \<Rightarrow> r = Inl err
     | Inr (reg, out') \<Rightarrow> (\<exists>s' cs env'. r = Inr s' \<and> em_calls s' = em_calls s @ cs
         \<and> fold exec_call cs (env, out) = (env', out')
         \<and> map_option (ir_val env') (getEndingPathNumber (em_dag s') node) = reg))"

lemma emit_normal_edge_realizes:
  assumes b: "getBlock (em_dag s) node = Some b" and p: "HASH_THRESHHOLD < d_numberOfPaths (em_dag s)"
    and se: "getStartingPathNumber (em_dag s) node = getEndingPathNumber (em_dag s) node"
  shows "realizes s node (edge_action (em_dag s) edge) (emit_normal_edge edge node atBeginning s)"
  unfolding realizes_def
proof (intro allI)
  fix env out
  have np: "\<not> d_numberOfPaths (em_dag s) \<le> HASH_THRESHHOLD" using p by simp
  note defs = edge_action_def emit_normal_edge_def block_of_def b create_add_def insertCounterIncrement_def np se
    createIncrementConstant_edge_def createIncrementConstant_def Let_def
  show "case edge_action (em_dag s) edge (map_option (ir_val env) (getEndingPathNumber (em_dag s) node), out) of
       Inl err \<Rightarrow> emit_normal_edge edge node atBeginning s = Inl err
     | Inr (reg, out') \<Rightarrow> (\<exists>s' cs env'. emit_normal_edge edge node atBeginning s = Inr s' \<and> em_calls s' = em_calls s @ cs
         \<and> fold exec_call cs (env, out) = (env', out')
         \<and> map_option (ir_val env') (getEndingPathNumber (em_dag s') node) = reg)"
    by (cases "isInitialization (em_dag s) edge"; cases "isCounterIncrement (em_dag s) edge";
        cases "getIncrement (em_dag s) edge = 0"; cases "getEndingPathNumber (em_dag s) node")
      (simp_all add: defs)
qed

lemma emit_loop_edge_realizes:
  assumes b: "getBlock (em_dag s) node = Some b" and p: "HASH_THRESHHOLD < d_numberOfPaths (em_dag s)"
    and se: "getStartingPathNumber (em_dag s) node = getEndingPathNumber (em_dag s) node"
  shows "realizes s node (loop_edge_action (em_dag s) edge) (emit_loop_edge edge node atBeginning s)"
proof (cases "getPhonyRoot (em_dag s) edge"; cases "getPhonyExit (em_dag s) edge")
  fix topE bottomE
  assume ph: "getPhonyRoot (em_dag s) edge = Some topE" "getPhonyExit (em_dag s) edge = Some bottomE"
  have np: "\<not> d_numberOfPaths (em_dag s) \<le> HASH_THRESHHOLD" using p by simp
  note defs = ph loop_edge_action_def emit_loop_edge_def block_of_def b create_add_def insertCounterIncrement_def np se
    createIncrementConstant_edge_def createIncrementConstant_def Let_def
  show ?thesis
    unfolding realizes_def
    by (intro allI, cases "isInitialization (em_dag s) topE"; cases "isCounterIncrement (em_dag s) bottomE";
        cases "isCounterIncrement (em_dag s) topE"; cases "getIncrement (em_dag s) bottomE = 0";
        cases "getEndingPathNumber (em_dag s) node")
      (simp_all add: defs)
qed (simp_all add: realizes_def loop_edge_action_def emit_loop_edge_def split: option.splits)

end
