(* ===== verification/BL_Walk.thy ===== *)
theory BL_Walk
  imports BL_Emit
begin

text \<open>
  The walk of \<open>insertInstrumentationStartingAt\<close> over the graph: what one edge's
  instrumentation changes, that the recursion ends although it splits edges on the
  way. The measure counts the edges that are not
  yet instrumented, twice when they may still be split; a fuel of that size
  is enough.
\<close>

section \<open>Operations that leave the graph alone\<close>

definition same_graph :: "'c emitter \<Rightarrow> 'c emitter \<Rightarrow> bool" where
  "same_graph s s' \<longleftrightarrow> topo (em_dag s') = topo (em_dag s)
     \<and> hasInstrumentation (em_dag s') = hasInstrumentation (em_dag s)
     \<and> d_numberOfPaths (em_dag s') = d_numberOfPaths (em_dag s) \<and> em_fn s' = em_fn s"

definition leaves_graph :: "'c emitter \<Rightarrow> 'c emitter res \<Rightarrow> bool" where
  "leaves_graph s r \<longleftrightarrow> r \<noteq> Inl Out_Of_Fuel \<and> (\<forall>s'. r = Inr s' \<longrightarrow> same_graph s s')"

lemma same_graph_refl: "same_graph s s"
  by (simp add: same_graph_def)

lemma same_graph_trans: "same_graph s s' \<Longrightarrow> same_graph s' s'' \<Longrightarrow> same_graph s s''"
  by (simp add: same_graph_def)

lemma same_graph_steps [simp]:
  "same_graph s (record_call c s')  \<longleftrightarrow> same_graph s s'"
  "same_graph s (on_dag (setStartingPathNumber v p) s') \<longleftrightarrow> same_graph s s'"
  "same_graph s (on_dag (setEndingPathNumber v p) s') \<longleftrightarrow> same_graph s s'"
  "same_graph s (on_dag (setPathPHI v q) s') \<longleftrightarrow> same_graph s s'"
  "same_graph s (s'\<lparr>em_next := k\<rparr>) \<longleftrightarrow> same_graph s s'"
  by (simp_all add: same_graph_def)

lemma leaves_graph_Inr: "same_graph s s' \<Longrightarrow> leaves_graph s (Inr s')"
  by (simp add: leaves_graph_def)

lemma leaves_graph_Inl: "err \<noteq> Out_Of_Fuel \<Longrightarrow> leaves_graph s (Inl err)"
  by (simp add: leaves_graph_def)

lemma leaves_graph_bind:
  assumes "leaves_graph s m" and "\<And>s1. same_graph s s1 \<Longrightarrow> leaves_graph s (f s1)"
  shows "leaves_graph s (bind_res m f)"
  using assms by (cases m) (auto simp: leaves_graph_def)

lemma leaves_graph_shift: "same_graph s s1 \<Longrightarrow> leaves_graph s1 r \<Longrightarrow> leaves_graph s r"
  by (auto simp: leaves_graph_def intro: same_graph_trans)

lemma bind_block_of:
  "(\<And>b. getBlock (em_dag s1) v = Some b \<Longrightarrow> leaves_graph s (f b)) \<Longrightarrow> leaves_graph s (bind_res (block_of v s1) f)"
  by (auto simp: block_of_def leaves_graph_Inl split: option.splits)

lemma bind_create_add:
  assumes "same_graph s s1" "\<And>v s2. same_graph s s2 \<Longrightarrow> leaves_graph s (f (v, s2))"
  shows "leaves_graph s (bind_res (create_add a b p s1) f)"
  using assms by (auto simp: create_add_def leaves_graph_Inl split: option.splits)

lemma insertCounterIncrement_leaves: "same_graph s s1 \<Longrightarrow> leaves_graph s (insertCounterIncrement v p k s1)"
  by (auto simp: insertCounterIncrement_def leaves_graph_Inl leaves_graph_Inr split: option.splits)

lemma same_graph_fold_calls [simp]:
  "same_graph s (fold (\<lambda>x. record_call (c x)) xs s1) \<longleftrightarrow> same_graph s s1"
  by (induction xs arbitrary: s1) auto

lemma preparePHI_leaves: "same_graph s s1 \<Longrightarrow> leaves_graph s (preparePHI L v s1)"
  unfolding preparePHI_def by (intro bind_block_of) (simp add: Let_def leaves_graph_Inr)

lemma pushValueIntoPHI_leaves: "same_graph s s1 \<Longrightarrow> leaves_graph s (pushValueIntoPHI t v s1)"
  unfolding pushValueIntoPHI_def
  by (auto simp: leaves_graph_Inl leaves_graph_Inr Let_def intro!: bind_block_of split: option.splits)

lemma on_dag_setters:
  "same_graph s s1 \<Longrightarrow> same_graph s (on_dag (\<lambda>d. setStartingPathNumber v (h d) d) s1)"
  "same_graph s s1 \<Longrightarrow> same_graph s (on_dag (\<lambda>d. setEndingPathNumber v (h d) d) s1)"
  by (simp_all add: same_graph_def)

lemma pushValueIntoNode_leaves:
  assumes "same_graph s s1"
  shows "leaves_graph s (pushValueIntoNode L u v s1)"
  unfolding pushValueIntoNode_def using assms
  by (auto simp: leaves_graph_Inl Let_def
      intro!: leaves_graph_Inr leaves_graph_bind preparePHI_leaves pushValueIntoPHI_leaves on_dag_setters)

lemma emit_normal_edge_leaves:
  assumes "same_graph s s1"
  shows "leaves_graph s (emit_normal_edge e v a s1)"
  unfolding emit_normal_edge_def using assms
  by (auto simp: Let_def intro!: bind_block_of leaves_graph_bind leaves_graph_Inr bind_create_add
      insertCounterIncrement_leaves)

lemma emit_loop_edge_leaves:
  assumes "same_graph s s1"
  shows "leaves_graph s (emit_loop_edge e v a s1)"
  unfolding emit_loop_edge_def using assms
  by (auto simp: Let_def leaves_graph_Inl split: option.splits
      intro!: bind_block_of leaves_graph_bind leaves_graph_Inr bind_create_add insertCounterIncrement_leaves)

lemma emit_edge_leaves: "same_graph s s1 \<Longrightarrow> leaves_graph s (emit_edge e v a s1)"
  by (simp add: emit_edge_def emit_normal_edge_leaves emit_loop_edge_leaves)

section \<open>One edge\<close>

text \<open>The edges still to be instrumented, counted twice when the source has several successors.\<close>

definition todo :: "bl_dag \<Rightarrow> edge_id \<Rightarrow> nat" where
  "todo d e = (if hasInstrumentation d e \<or> is_phony d e then 0
     else if getNumberSuccEdges d (getSource d e) \<le> 1 then 1 else 2)"

definition work :: "bl_dag \<Rightarrow> nat" where
  "work d = (\<Sum>e\<leftarrow>d_edges d. todo d e)"

text \<open>
  \<open>goes_on d d'\<close>: the graph of \<open>d'\<close> is that of \<open>d\<close> with more edges split and more
  edges instrumented.
\<close>

definition goes_on :: "bl_dag \<Rightarrow> bl_dag \<Rightarrow> bool" where
  "goes_on d d' \<longleftrightarrow> linked d' \<and> set (d_edges d) \<subseteq> set (d_edges d') \<and> set (d_nodes d) \<subseteq> set (d_nodes d')
     \<and> (\<forall>e\<in>set (d_edges d). hasInstrumentation d e \<longrightarrow> hasInstrumentation d' e)
     \<and> (\<forall>e\<in>set (d_edges d). is_phony d' e = is_phony d e)
     \<and> (\<forall>v\<in>set (d_nodes d). succEdges d' v = succEdges d v)"

lemma goes_on_refl: "linked d \<Longrightarrow> goes_on d d"
  by (simp add: goes_on_def)

lemma goes_on_trans: "goes_on d d' \<Longrightarrow> goes_on d' d'' \<Longrightarrow> goes_on d d''"
  by (auto simp: goes_on_def)

lemma goes_on_topo:
  assumes "topo d' = topo d" "hasInstrumentation d' = hasInstrumentation d" "linked d"
  shows "goes_on d d'" "work d' = work d"
proof -
  note t = topo_eqs [OF assms(1)]
  have ph: "is_phony d' = is_phony d" by (simp add: is_phony_def fun_eq_iff t)
  have "linked d'" using assms(3) by (simp add: linked_def t ph)
  then show "goes_on d d'" by (simp add: goes_on_def t ph assms(2))
  have "todo d' = todo d" by (simp add: todo_def fun_eq_iff t ph assms(2))
  then show "work d' = work d" by (simp add: work_def t)
qed

lemma sum_list_map_update:
  fixes f g :: "'a \<Rightarrow> nat"
  assumes "distinct xs" "x \<in> set xs" "\<And>y. y \<in> set xs \<Longrightarrow> y \<noteq> x \<Longrightarrow> g y = f y"
  shows "(\<Sum>y\<leftarrow>xs. g y) + f x = (\<Sum>y\<leftarrow>xs. f y) + g x"
  using assms
proof (induction xs)
  case (Cons a xs)
  show ?case
  proof (cases "a = x")
    case True
    with Cons.prems have "map g xs = map f xs" by (intro map_cong) auto
    with True show ?thesis by (simp del: map_eq_conv)
  next
    case False
    with Cons show ?thesis by simp
  qed
qed simp

lemma mark_instrumented:
  assumes l: "linked d" and e: "e \<in> set (d_edges d)" "\<not> is_phony d e" "\<not> hasInstrumentation d e"
  shows "goes_on d (setHasInstrumentation e True d)"
    "work (setHasInstrumentation e True d) + todo d e = work d"
proof -
  let ?d = "setHasInstrumentation e True d"
  have t: "topo ?d = topo d" by simp
  note t = topo_eqs [OF t]
  have ph: "is_phony ?d = is_phony d" by (simp add: is_phony_def fun_eq_iff)
  have "linked ?d" using l by (simp add: linked_def t ph)
  then show "goes_on d ?d" by (simp add: goes_on_def t ph)
  have "todo ?d f = todo d f" if "f \<noteq> e" for f using that by (simp add: todo_def ph)
  moreover have "todo ?d e = 0" by (simp add: todo_def)
  ultimately show "work ?d + todo d e = work d"
    using sum_list_map_update [OF linkedD(1) [OF l] e(1), of "todo ?d" "todo d"] by (simp add: work_def)
qed

lemma split_work:
  assumes l: "linked d" and s: "is_split d f BB v g d'"
    and f: "f \<in> set (d_edges d)" "\<not> is_phony d f" "hasInstrumentation d f"
  shows "goes_on d d'" "work d' = Suc (work d)"
proof -
  note d = is_splitD [OF s] and ph = is_split_phony [OF s f(1,2)] and deg = is_split_degrees [OF l s f(1,2)]
  have l': "linked d'" using l s f(1,2) by (rule is_split_linked)
  have g: "e \<noteq> g" if "e \<in> set (d_edges d)" for e using that d(2) by blast
  have nv: "u \<noteq> v" if "u \<in> set (d_nodes d)" for u using that d(1) by blast
  show "goes_on d d'"
    unfolding goes_on_def using l' g nv by (auto simp: d(3,4,13,14) ph)
  have old: "todo d' e = todo d e" if e: "e \<in> set (d_edges d)" for e
    using g [OF e] deg(1) [OF linkedD(2) [OF l e]] by (simp add: todo_def ph d(8,13))
  have "todo d' g = 1" using deg(3) by (simp add: todo_def ph d(8,13))
  moreover have "(\<Sum>e\<leftarrow>d_edges d. todo d' e) = (\<Sum>e\<leftarrow>d_edges d. todo d e)"
    using old by (intro arg_cong [of _ _ sum_list] map_cong) auto
  ultimately show "work d' = Suc (work d)" by (simp add: work_def d(4))
qed

lemma splitCritical_cases:
  assumes B: "base_ok B" and e: "e \<in> set (d_edges (em_dag s))" "getTarget (em_dag s) e \<in> set (d_nodes (em_dag s))"
  shows "splitCritical B L e s \<noteq> Inl Out_Of_Fuel"
    "splitCritical B L e s = Inr (ok, s') \<Longrightarrow> s' = s \<or>
       1 < getNumberSuccEdges (em_dag s) (getSource (em_dag s) e) \<and>
       (\<exists>BB v g. is_split (em_dag s) e BB v g (em_dag s'))"
proof -
  show "splitCritical B L e s \<noteq> Inl Out_Of_Fuel"
    by (auto simp: splitCritical_def Let_def split: option.splits if_splits)
  assume "splitCritical B L e s = Inr (ok, s')"
  then have "s' = s \<or> 1 < getNumberSuccEdges (em_dag s) (getSource (em_dag s) e) \<and>
      (\<exists>BB. em_dag s' = splitUpdate B e BB (em_dag s))"
    by (auto simp: splitCritical_def Let_def split: option.splits if_splits)
  then show "s' = s \<or> 1 < getNumberSuccEdges (em_dag s) (getSource (em_dag s) e) \<and>
      (\<exists>BB v g. is_split (em_dag s) e BB v g (em_dag s'))"
    using splitUpdate_is_split [OF B e] by metis
qed

lemma split_step:
  assumes B: "base_ok B" and l: "linked (em_dag s)"
    and e: "e \<in> set (d_edges (em_dag s))" "\<not> is_phony (em_dag s) e" "\<not> hasInstrumentation (em_dag s) e"
    and s1: "splitCritical B L e (on_dag (setHasInstrumentation e True) s) = Inr (ok, s1)"
  shows "goes_on (em_dag s) (em_dag s1)" "work (em_dag s1) < work (em_dag s)" "hasInstrumentation (em_dag s1) e"
proof -
  let ?d = "em_dag s" and ?dm = "setHasInstrumentation e True (em_dag s)"
  note m = mark_instrumented [OF l e]
  have l0: "linked ?dm" and ph: "\<not> is_phony ?dm e" using m(1) e by (auto simp: goes_on_def)
  have t: "getTarget ?d e \<in> set (d_nodes ?d)" using l e(1) by (rule linkedD)
  have pos: "1 \<le> todo ?d e" using e by (simp add: todo_def)
  from splitCritical_cases(2) [OF B, of e "on_dag (setHasInstrumentation e True) s" L ok s1] s1 e(1) t
  consider "em_dag s1 = ?dm"
    | BB v g where "1 < getNumberSuccEdges ?d (getSource ?d e)" "is_split ?dm e BB v g (em_dag s1)"
    by auto
  then have "goes_on ?d (em_dag s1) \<and> work (em_dag s1) < work ?d \<and> hasInstrumentation (em_dag s1) e"
  proof cases
    case 1
    with m pos show ?thesis by simp
  next
    case 2
    have h: "hasInstrumentation ?dm e" "e \<in> set (d_edges ?dm)" using e(1) by simp_all
    note sw = split_work [OF l0 2(2) h(2) ph h(1)]
    have "todo ?d e = 2" using 2(1) e by (simp add: todo_def)
    with m(2) sw(2) have "work (em_dag s1) < work ?d" by simp
    moreover have "goes_on ?d (em_dag s1)" using m(1) sw(1) by (rule goes_on_trans)
    moreover have "hasInstrumentation (em_dag s1) e" using sw(1) h by (auto simp: goes_on_def)
    ultimately show ?thesis by blast
  qed
  then show "goes_on ?d (em_dag s1)" "work (em_dag s1) < work ?d" "hasInstrumentation (em_dag s1) e" by blast+
qed

lemma instrument_at_leaves:
  "instrument_at L e s \<noteq> Inl Out_Of_Fuel"
  "instrument_at L e s = Inr (t, s') \<Longrightarrow> same_graph s s' \<and> (t = None \<or> t = Some (getTarget (em_dag s) e))"
proof -
  have "leaves_graph s (bind_res (instrument_at L e s) (\<lambda>(t, s'). Inr s'))"
    unfolding instrument_at_def
    by (auto simp: Let_def bind_res_assoc same_graph_refl
        intro!: leaves_graph_bind leaves_graph_Inr emit_edge_leaves pushValueIntoNode_leaves)
  then show "instrument_at L e s \<noteq> Inl Out_Of_Fuel"
    "instrument_at L e s = Inr (t, s') \<Longrightarrow> same_graph s s' \<and> (t = None \<or> t = Some (getTarget (em_dag s) e))"
    by (auto simp: leaves_graph_def) (auto simp: instrument_at_def Let_def bind_res_eq_Inr split: if_splits)
qed

lemma instrument_edge_progress:
  assumes B: "base_ok B" and l: "linked (em_dag s)"
    and e: "e \<in> set (d_edges (em_dag s))" "\<not> is_phony (em_dag s) e" "\<not> hasInstrumentation (em_dag s) e"
  shows "instrument_edge B L e s \<noteq> Inl Out_Of_Fuel"
    "instrument_edge B L e s = Inr (t, s') \<Longrightarrow> goes_on (em_dag s) (em_dag s') \<and> work (em_dag s') < work (em_dag s)
       \<and> hasInstrumentation (em_dag s') e \<and> (\<forall>v. t = Some v \<longrightarrow> v \<in> set (d_nodes (em_dag s')))"
proof -
  let ?m = "on_dag (setHasInstrumentation e True) s"
  have t: "getTarget (em_dag s) e \<in> set (d_nodes (em_dag s))" using l e(1) by (rule linkedD)
  have "splitCritical B L e ?m \<noteq> Inl Out_Of_Fuel"
    using splitCritical_cases(1) [OF B, of e ?m L] e(1) t by simp
  then show "instrument_edge B L e s \<noteq> Inl Out_Of_Fuel"
    by (cases "splitCritical B L e ?m") (auto simp: instrument_edge_def instrument_at_leaves split: if_splits)
  assume r: "instrument_edge B L e s = Inr (t, s')"
  then obtain ok s1 where s1: "splitCritical B L e ?m = Inr (ok, s1)"
    "(if \<not> ok then Inr (None, s1) else instrument_at L e s1) = Inr (t, s')"
    by (auto simp: instrument_edge_def bind_res_eq_Inr)
  note st = split_step [OF B l e s1(1)]
  have l1: "linked (em_dag s1)" and e1: "e \<in> set (d_edges (em_dag s1))" using st(1) e(1) by (auto simp: goes_on_def)
  have sg: "same_graph s1 s'" and tv: "t = None \<or> t = Some (getTarget (em_dag s1) e)"
    using s1(2) instrument_at_leaves(2) [of L e s1 t s'] by (auto simp: same_graph_refl split: if_splits)
  have g: "goes_on (em_dag s1) (em_dag s')" "work (em_dag s') = work (em_dag s1)"
    using goes_on_topo [of "em_dag s'" "em_dag s1"] sg l1 by (auto simp: same_graph_def)
  have "getTarget (em_dag s1) e \<in> set (d_nodes (em_dag s1))" using l1 e1 by (rule linkedD)
  then show "goes_on (em_dag s) (em_dag s') \<and> work (em_dag s') < work (em_dag s)
       \<and> hasInstrumentation (em_dag s') e \<and> (\<forall>v. t = Some v \<longrightarrow> v \<in> set (d_nodes (em_dag s')))"
    using goes_on_trans [OF st(1) g(1)] st(2,3) g tv sg by (auto simp: goes_on_def same_graph_def)
qed

section \<open>The recursion ends\<close>

text \<open>\<open>finishes s r\<close>: no lack of fuel, and a result goes on from \<open>s\<close> without new work.\<close>

definition finishes :: "'c emitter \<Rightarrow> 'c emitter res \<Rightarrow> bool" where
  "finishes s r \<longleftrightarrow> r \<noteq> Inl Out_Of_Fuel
     \<and> (\<forall>s'. r = Inr s' \<longrightarrow> goes_on (em_dag s) (em_dag s') \<and> work (em_dag s') \<le> work (em_dag s))"

lemma finishes_Inl: "err \<noteq> Out_Of_Fuel \<Longrightarrow> finishes s (Inl err)"
  by (simp add: finishes_def)

lemma finishes_after:
  assumes "goes_on (em_dag s) (em_dag s1)" "work (em_dag s1) \<le> work (em_dag s)" "finishes s1 r"
  shows "finishes s r"
  using assms by (auto simp: finishes_def intro: goes_on_trans)

lemma walk_finishes:
  shows "base_ok B \<Longrightarrow> linked (em_dag s) \<Longrightarrow> e \<in> set (d_edges (em_dag s)) \<Longrightarrow> \<not> is_phony (em_dag s) e \<Longrightarrow>
      \<not> hasInstrumentation (em_dag s) e \<Longrightarrow> work (em_dag s) \<le> n \<Longrightarrow>
      finishes s (insertInstrumentationStartingAt n B L e s)"
    and "base_ok B \<Longrightarrow> linked (em_dag s) \<Longrightarrow> set es \<subseteq> set (d_edges (em_dag s)) \<Longrightarrow> \<forall>e\<in>set es. \<not> is_phony (em_dag s) e \<Longrightarrow>
      work (em_dag s) \<le> n \<Longrightarrow> finishes s (instrument_successors n B L es s)"
proof (induction n B L e s and n B L es s rule: insertInstrumentationStartingAt_instrument_successors.induct)
  case (1 B L e s)
  then have "0 < work (em_dag s)"
    using mark_instrumented(2) [of "em_dag s" e] by (simp add: todo_def split: if_splits)
  with 1 show ?case by simp
next
  case (2 n B L e s)
  note p = instrument_edge_progress [OF 2(2-6), of L]
  show ?case
  proof (cases "instrument_edge B L e s")
    case (Inl err)
    with p(1) show ?thesis by (auto intro: finishes_Inl)
  next
    case (Inr r)
    obtain t s1 where r: "instrument_edge B L e s = Inr (t, s1)" using Inr by (cases r) auto
    note p = p(2) [OF r]
    have l1: "linked (em_dag s1)" using p by (simp add: goes_on_def)
    show ?thesis
    proof (cases t)
      case None
      with r p show ?thesis by (simp add: finishes_def)
    next
      case (Some v)
      have "set (succEdges (em_dag s1) v) = {f \<in> set (d_edges (em_dag s1)). \<not> is_phony (em_dag s1) f \<and> getSource (em_dag s1) f = v}"
        using l1 p Some by (intro linkedD(6)) simp_all
      then have "set (succEdges (em_dag s1) v) \<subseteq> set (d_edges (em_dag s1))"
        "\<forall>f\<in>set (succEdges (em_dag s1) v). \<not> is_phony (em_dag s1) f" by auto
      moreover have "work (em_dag s1) \<le> n" using p 2(7) by simp
      ultimately have "finishes s1 (instrument_successors n B L (succEdges (em_dag s1) v) s1)"
        by (rule 2(1) [OF r refl Some 2(2) l1])
      from finishes_after [OF _ _ this, of s] p r Some show ?thesis by simp
    qed
  qed
next
  case (3 n B L s)
  then show ?case by (simp add: finishes_def goes_on_refl)
next
  case (4 n B L e es s)
  let ?r = "if \<not> hasInstrumentation (em_dag s) e then insertInstrumentationStartingAt n B L e s else Inr s"
  have f: "finishes s ?r"
    using 4(1) [OF _ 4(3,4)] 4(4-7) goes_on_refl by (auto simp: finishes_def)
  show ?case
  proof (cases ?r)
    case (Inl err)
    with f show ?thesis by (auto simp: finishes_def)
  next
    case (Inr s1)
    with f have g: "goes_on (em_dag s) (em_dag s1)" "work (em_dag s1) \<le> work (em_dag s)"
      unfolding finishes_def by blast+
    have "linked (em_dag s1)" "set es \<subseteq> set (d_edges (em_dag s1))"
      "\<forall>f\<in>set es. \<not> is_phony (em_dag s1) f" "work (em_dag s1) \<le> n"
      using 4(5-7) g by (auto simp: goes_on_def)
    then have "finishes s1 (instrument_successors n B L es s1)" by (rule 4(2) [OF Inr 4(3)])
    from finishes_after [OF g this] Inr show ?thesis by simp
  qed
qed

lemma work_bound: "work d \<le> 2 * length (d_edges d)"
proof -
  have b: "todo d e \<le> 2" for e by (simp add: todo_def)
  have "(\<Sum>e\<leftarrow>es. todo d e) \<le> 2 * length es" for es
  proof (induction es)
    case (Cons e es)
    with b [of e] show ?case by simp
  qed simp
  then show ?thesis by (simp add: work_def)
qed

lemma instrument_call_edge_leaves: "same_graph s s1 \<Longrightarrow> leaves_graph s (instrument_call_edge e s1)"
  unfolding instrument_call_edge_def
  by (auto simp: Let_def split: option.splits
      intro!: bind_block_of leaves_graph_bind bind_create_add insertCounterIncrement_leaves)

lemma fold_call_edges_leaves: "same_graph s s1 \<Longrightarrow> leaves_graph s (fold_res instrument_call_edge es s1)"
proof (induction es arbitrary: s1)
  case (Cons e es)
  then show ?case by (auto intro!: leaves_graph_bind instrument_call_edge_leaves)
qed (simp add: leaves_graph_Inr)

lemma insertInstrumentation_ends:
  assumes B: "base_ok B" and l: "linked (em_dag s)" and er: "getExitRootEdge (em_dag s) = Inr e"
    and e: "e \<in> set (d_edges (em_dag s))" "\<not> is_phony (em_dag s) e" "\<not> hasInstrumentation (em_dag s) e"
    and n: "2 * length (d_edges (em_dag s)) \<le> n"
  shows "insertInstrumentation n B L s \<noteq> Inl Out_Of_Fuel"
    "insertInstrumentation n B L s = Inr s' \<Longrightarrow> linked (em_dag s')
       \<and> set (d_edges (em_dag s)) \<subseteq> set (d_edges (em_dag s'))"
proof -
  have "work (em_dag s) \<le> n" using n work_bound [of "em_dag s"] by linarith
  with B l e have f: "finishes s (insertInstrumentationStartingAt n B L e s)" by (rule walk_finishes(1))
  have call: "leaves_graph s1 (fold_res instrument_call_edge es s1)" for es and s1 :: "'a emitter"
    using same_graph_refl by (rule fold_call_edges_leaves)
  show "insertInstrumentation n B L s \<noteq> Inl Out_Of_Fuel"
    using f call er by (cases "insertInstrumentationStartingAt n B L e s")
      (auto simp: insertInstrumentation_def finishes_def leaves_graph_def)
  assume "insertInstrumentation n B L s = Inr s'"
  then obtain s1 where s1: "insertInstrumentationStartingAt n B L e s = Inr s1"
    "fold_res instrument_call_edge (getCallPhonyEdges (em_dag s1)) s1 = Inr s'"
    using er by (auto simp: insertInstrumentation_def bind_res_eq_Inr)
  then have g: "goes_on (em_dag s) (em_dag s1)" using f by (simp add: finishes_def)
  have "same_graph s1 s'" using call [of s1] s1(2) by (auto simp: leaves_graph_def)
  then have "goes_on (em_dag s1) (em_dag s')"
    using goes_on_topo(1) [of "em_dag s'" "em_dag s1"] g by (auto simp: same_graph_def goes_on_def)
  with g show "linked (em_dag s') \<and> set (d_edges (em_dag s)) \<subseteq> set (d_edges (em_dag s'))"
    by (auto simp: goes_on_def)
qed

end
