(* ===== verification/BL_Cover.thy ===== *)
theory BL_Cover
  imports BL_Walk
begin

text \<open>
  The walk of \<open>insertInstrumentationStartingAt\<close> leaves no edge behind: every edge
  that the walk can reach is instrumented when it returns. The recursion is a
  depth first search, and the invariant is that of a depth first search: behind
  an instrumented edge everything is instrumented, unless the recursion is still
  busy at its target or the walk could not go on across it.
\<close>

section \<open>What later steps leave alone\<close>

text \<open>
  The walk does not go on across an edge that is still critical: its code would
  have no place of its own.
\<close>

definition stuck :: "bl_dag \<Rightarrow> edge_id \<Rightarrow> bool" where
  "stuck d e \<longleftrightarrow> \<not> (getBlock d (getSource d e) \<noteq> None \<and> getNumberSuccEdges d (getSource d e) \<le> 1)
     \<and> getNumberPredEdges d (getTarget d e) \<noteq> 1"

definition settles :: "bl_dag \<Rightarrow> bl_dag \<Rightarrow> bool" where
  "settles d d' \<longleftrightarrow> goes_on d d'
     \<and> (\<forall>e\<in>set (d_edges d). getSource d' e = getSource d e \<and> (hasInstrumentation d e \<longrightarrow> getTarget d' e = getTarget d e))
     \<and> (\<forall>v\<in>set (d_nodes d). getBlock d' v = getBlock d v \<and> getNumberPredEdges d' v = getNumberPredEdges d v)"

lemma settlesD:
  assumes "settles d d'"
  shows "goes_on d d'" "linked d'" "e \<in> set (d_edges d) \<Longrightarrow> e \<in> set (d_edges d')"
    "v \<in> set (d_nodes d) \<Longrightarrow> v \<in> set (d_nodes d')"
    "e \<in> set (d_edges d) \<Longrightarrow> hasInstrumentation d e \<Longrightarrow> hasInstrumentation d' e"
    "e \<in> set (d_edges d) \<Longrightarrow> is_phony d' e = is_phony d e"
    "e \<in> set (d_edges d) \<Longrightarrow> getSource d' e = getSource d e"
    "e \<in> set (d_edges d) \<Longrightarrow> hasInstrumentation d e \<Longrightarrow> getTarget d' e = getTarget d e"
    "v \<in> set (d_nodes d) \<Longrightarrow> succEdges d' v = succEdges d v"
    "v \<in> set (d_nodes d) \<Longrightarrow> getBlock d' v = getBlock d v"
    "v \<in> set (d_nodes d) \<Longrightarrow> getNumberPredEdges d' v = getNumberPredEdges d v"
  using assms unfolding settles_def goes_on_def by blast+

lemma settles_refl: "linked d \<Longrightarrow> settles d d"
  by (simp add: settles_def goes_on_refl)

lemma settles_trans:
  assumes s: "settles d d'" "settles d' d''"
  shows "settles d d''"
  using goes_on_trans [OF settlesD(1) [OF s(1)] settlesD(1) [OF s(2)]] settlesD [OF s(1)] settlesD [OF s(2)]
  by (simp add: settles_def)

lemma settles_topo:
  assumes t: "topo d' = topo d" and l: "linked d"
    and h: "\<And>e. e \<in> set (d_edges d) \<Longrightarrow> hasInstrumentation d e \<Longrightarrow> hasInstrumentation d' e"
  shows "settles d d'"
proof -
  note t = topo_eqs [OF t] topo_eq_linked [OF t]
  show ?thesis using l h by (simp add: settles_def goes_on_def t)
qed

lemma settles_split:
  assumes l: "linked d" and e: "e \<in> set (d_edges d)" "\<not> is_phony d e" "\<not> hasInstrumentation d e"
    and s: "is_split (setHasInstrumentation e True d) e BB v g d'"
  shows "settles d d'"
proof -
  let ?dm = "setHasInstrumentation e True d"
  note m = mark_instrumented(1) [OF l e]
  have l0: "linked ?dm" and ph: "\<not> is_phony ?dm e" using m e by (auto simp: goes_on_def)
  have h: "e \<in> set (d_edges ?dm)" "hasInstrumentation ?dm e" using e(1) by simp_all
  note d = is_splitD [OF s] and deg = is_split_degrees [OF l0 s h(1) ph]
  have "goes_on d d'" using m split_work(1) [OF l0 s h(1) ph h(2)] by (rule goes_on_trans)
  moreover have "x \<noteq> g" if "x \<in> set (d_edges d)" for x using that d(2) by auto
  moreover have "u \<noteq> v" if "u \<in> set (d_nodes d)" for u using that d(1) by auto
  moreover have "getNumberPredEdges d' u = getNumberPredEdges d u" if "u \<in> set (d_nodes d)" for u
    using deg(2) [of u] that by (simp add: getNumberPredEdges_def)
  ultimately show ?thesis using e(3) by (auto simp: settles_def d(8,9,16))
qed

lemma stuck_settles:
  assumes l: "linked d" and s: "settles d d'" and e: "e \<in> set (d_edges d)" "hasInstrumentation d e"
  shows "stuck d' e = stuck d e"
  using linkedD(2,3) [OF l e(1)] settlesD [OF s] e by (simp add: stuck_def getNumberSuccEdges_def)

section \<open>One edge\<close>

lemma splitCritical_refused:
  assumes "splitCritical B L e s = Inr (False, s')"
  shows "s' = s" "stuck (em_dag s) e"
  using assms by (auto simp: splitCritical_def stuck_def Let_def split: option.splits if_splits)

lemma instrument_at_stuck: "instrument_at L e s = Inr (None, s') \<Longrightarrow> stuck (em_dag s) e"
  by (auto simp: instrument_at_def stuck_def Let_def bind_res_eq_Inr split: if_splits)

text \<open>The split of a newly marked edge, and the emission, as one step of the graph.\<close>

lemma split_settles:
  assumes B: "base_ok B" and l: "linked (em_dag s)"
    and e: "e \<in> set (d_edges (em_dag s))" "\<not> is_phony (em_dag s) e" "\<not> hasInstrumentation (em_dag s) e"
    and s1: "splitCritical B L e (on_dag (setHasInstrumentation e True) s) = Inr (ok, s1)"
  shows "settles (em_dag s) (em_dag s1)"
    "f \<in> set (d_edges (em_dag s1)) \<Longrightarrow> hasInstrumentation (em_dag s1) f \<Longrightarrow>
       f = e \<or> f \<in> set (d_edges (em_dag s)) \<and> hasInstrumentation (em_dag s) f"
proof -
  let ?d = "em_dag s" and ?dm = "setHasInstrumentation e True (em_dag s)"
  have t: "getTarget ?d e \<in> set (d_nodes ?d)" using l e(1) by (rule linkedD)
  from splitCritical_cases(2) [OF B, of e "on_dag (setHasInstrumentation e True) s" L ok s1] s1 e(1) t
  consider "em_dag s1 = ?dm" | BB v g where "is_split ?dm e BB v g (em_dag s1)"
    by auto
  then have "settles ?d (em_dag s1) \<and> (\<forall>f\<in>set (d_edges (em_dag s1)). hasInstrumentation (em_dag s1) f \<longrightarrow>
      f = e \<or> f \<in> set (d_edges ?d) \<and> hasInstrumentation ?d f)"
  proof cases
    case 1
    have "settles ?d ?dm" by (rule settles_topo [OF _ l]) simp_all
    with 1 show ?thesis by auto
  next
    case 2
    then show ?thesis using settles_split [OF l e 2] is_splitD(4,13) [OF 2] by (auto split: if_splits)
  qed
  then show "settles ?d (em_dag s1)" "f \<in> set (d_edges (em_dag s1)) \<Longrightarrow> hasInstrumentation (em_dag s1) f \<Longrightarrow>
       f = e \<or> f \<in> set (d_edges ?d) \<and> hasInstrumentation ?d f" by blast+
qed

lemma same_graph_settles:
  assumes "same_graph s s'" "linked (em_dag s)"
  shows "settles (em_dag s) (em_dag s')"
  using assms by (intro settles_topo) (auto simp: same_graph_def)

lemma instrument_edge_settles:
  assumes B: "base_ok B" and l: "linked (em_dag s)"
    and e: "e \<in> set (d_edges (em_dag s))" "\<not> is_phony (em_dag s) e" "\<not> hasInstrumentation (em_dag s) e"
    and r: "instrument_edge B L e s = Inr (t, s')"
  shows "settles (em_dag s) (em_dag s')" "hasInstrumentation (em_dag s') e"
    "t = None \<Longrightarrow> stuck (em_dag s') e" "t = Some v \<Longrightarrow> v = getTarget (em_dag s') e"
    "f \<in> set (d_edges (em_dag s')) \<Longrightarrow> hasInstrumentation (em_dag s') f \<Longrightarrow>
       f = e \<or> f \<in> set (d_edges (em_dag s)) \<and> hasInstrumentation (em_dag s) f"
proof -
  from r obtain ok s1 where s1: "splitCritical B L e (on_dag (setHasInstrumentation e True) s) = Inr (ok, s1)"
    "(if \<not> ok then Inr (None, s1) else instrument_at L e s1) = Inr (t, s')"
    by (auto simp: instrument_edge_def bind_res_eq_Inr)
  note st = split_settles [OF B l e s1(1)]
  have l1: "linked (em_dag s1)" and e1: "e \<in> set (d_edges (em_dag s1))"
    using settlesD(2,3) [OF st(1)] e(1) by blast+
  have sg: "same_graph s1 s'" and tv: "t = None \<or> t = Some (getTarget (em_dag s1) e)"
    using s1(2) instrument_at_leaves(2) [of L e s1 t s'] by (auto simp: same_graph_refl split: if_splits)
  note g = same_graph_settles [OF sg l1]
  note eq = topo_eqs [OF sg [unfolded same_graph_def, THEN conjunct1]]
  have hi: "hasInstrumentation (em_dag s') = hasInstrumentation (em_dag s1)" using sg by (simp add: same_graph_def)
  have h1: "hasInstrumentation (em_dag s1) e" by (rule split_step(3) [OF B l e s1(1)])
  show "settles (em_dag s) (em_dag s')" using st(1) g by (rule settles_trans)
  show "hasInstrumentation (em_dag s') e" using h1 by (simp add: hi)
  show "stuck (em_dag s') e" if "t = None"
  proof -
    have "stuck (em_dag s1) e"
      using s1 that splitCritical_refused [of B L e _ s1] instrument_at_stuck [of L e s1 s'] by (cases ok) auto
    then show ?thesis using stuck_settles [OF l1 g e1 h1] by simp
  qed
  show "v = getTarget (em_dag s') e" if "t = Some v" using tv that by (simp add: eq)
  show "f = e \<or> f \<in> set (d_edges (em_dag s)) \<and> hasInstrumentation (em_dag s) f"
    if "f \<in> set (d_edges (em_dag s'))" "hasInstrumentation (em_dag s') f"
    using st(2) [of f] that by (simp add: hi eq)
qed

section \<open>The search invariant\<close>

text \<open>
  \<open>searched d G\<close>: behind every instrumented edge that could be crossed, all edges
  are instrumented, except at the nodes of \<open>G\<close>, where the recursion is busy.
\<close>

definition searched :: "bl_dag \<Rightarrow> node_id set \<Rightarrow> bool" where
  "searched d G \<longleftrightarrow> (\<forall>e\<in>set (d_edges d). hasInstrumentation d e \<longrightarrow> stuck d e \<or> getTarget d e \<in> G
     \<or> (\<forall>f\<in>set (succEdges d (getTarget d e)). hasInstrumentation d f))"

lemma searched_edge:
  assumes l: "linked d" and s: "settles d d'" and g: "searched d G"
    and e: "stuck d' e \<or> getTarget d' e \<in> G'" and sub: "G \<subseteq> G'"
    and new: "\<And>f. f \<in> set (d_edges d') \<Longrightarrow> hasInstrumentation d' f \<Longrightarrow>
      f = e \<or> f \<in> set (d_edges d) \<and> hasInstrumentation d f"
  shows "searched d' G'"
  unfolding searched_def
proof (intro ballI impI)
  fix f
  assume f: "f \<in> set (d_edges d')" "hasInstrumentation d' f"
  show "stuck d' f \<or> getTarget d' f \<in> G' \<or> (\<forall>h\<in>set (succEdges d' (getTarget d' f)). hasInstrumentation d' h)"
  proof (cases "f = e")
    case False
    then have fd: "f \<in> set (d_edges d)" "hasInstrumentation d f" using new [OF f] by blast+
    have t: "getTarget d f \<in> set (d_nodes d)" using l fd(1) by (rule linkedD)
    have "h \<in> set (d_edges d)" if "h \<in> set (succEdges d (getTarget d f))" for h
      using that linkedD(6) [OF l t] by simp
    then show ?thesis
      using g fd sub stuck_settles [OF l s fd] settlesD(5,8,9) [OF s] t unfolding searched_def by fastforce
  qed (use e in auto)
qed

lemma searched_shrink:
  assumes "searched d (insert v G)" and "\<forall>f\<in>set (succEdges d v). hasInstrumentation d f"
  shows "searched d G"
  using assms unfolding searched_def by blast

definition covers :: "node_id set \<Rightarrow> edge_id set \<Rightarrow> 'c emitter \<Rightarrow> 'c emitter \<Rightarrow> bool" where
  "covers G E s s' \<longleftrightarrow> settles (em_dag s) (em_dag s') \<and> searched (em_dag s') G
     \<and> (\<forall>e\<in>E. hasInstrumentation (em_dag s') e)"

lemma linked_succ:
  assumes "linked d" "v \<in> set (d_nodes d)"
  shows "set (succEdges d v) \<subseteq> set (d_edges d)" "\<forall>f\<in>set (succEdges d v). \<not> is_phony d f"
  using linkedD(6) [OF assms] by auto

lemma walk_covers:
  shows "base_ok B \<Longrightarrow> linked (em_dag s) \<Longrightarrow> e \<in> set (d_edges (em_dag s)) \<Longrightarrow> \<not> is_phony (em_dag s) e \<Longrightarrow>
      \<not> hasInstrumentation (em_dag s) e \<Longrightarrow> searched (em_dag s) G \<Longrightarrow>
      insertInstrumentationStartingAt n B L e s = Inr s' \<Longrightarrow> covers G {e} s s'"
    and "base_ok B \<Longrightarrow> linked (em_dag s) \<Longrightarrow> set es \<subseteq> set (d_edges (em_dag s)) \<Longrightarrow> \<forall>e\<in>set es. \<not> is_phony (em_dag s) e \<Longrightarrow>
      searched (em_dag s) G \<Longrightarrow> instrument_successors n B L es s = Inr s' \<Longrightarrow> covers G (set es) s s'"
proof (induction n B L e s and n B L es s arbitrary: G s' and G s'
    rule: insertInstrumentationStartingAt_instrument_successors.induct)
  case (1 B L e s)
  then show ?case by simp
next
  case (2 n B L e s)
  from 2(8) obtain t s1 where r: "instrument_edge B L e s = Inr (t, s1)"
    "(case t of None \<Rightarrow> Inr s1 | Some v \<Rightarrow> instrument_successors n B L (succEdges (em_dag s1) v) s1) = Inr s'"
    by (auto simp: bind_res_eq_Inr)
  note p = instrument_edge_settles [OF 2(2-6) r(1)]
  have l1: "linked (em_dag s1)" and e1: "e \<in> set (d_edges (em_dag s1))"
    using settlesD(2,3) [OF p(1)] 2(4) by blast+
  show ?case
  proof (cases t)
    case None
    have "searched (em_dag s1) G"
      by (rule searched_edge [OF 2(3) p(1) 2(7) _ subset_refl p(5)]) (use p(3) [OF None] in simp)
    with None r(2) p(1,2) show ?thesis by (simp add: covers_def)
  next
    case (Some v)
    note v = p(4) [OF Some]
    have vn: "v \<in> set (d_nodes (em_dag s1))" using linkedD(3) [OF l1 e1] v by simp
    have g1: "searched (em_dag s1) (insert v G)"
      by (rule searched_edge [OF 2(3) p(1) 2(7) _ subset_insertI p(5)]) (simp add: v)
    have "covers (insert v G) (set (succEdges (em_dag s1) v)) s1 s'"
      using 2(1) [OF r(1) refl Some 2(2) l1 linked_succ [OF l1 vn] g1] r(2) Some by simp
    then have c: "settles (em_dag s1) (em_dag s')" "searched (em_dag s') (insert v G)"
      "\<forall>f\<in>set (succEdges (em_dag s1) v). hasInstrumentation (em_dag s') f" by (simp_all add: covers_def)
    have "searched (em_dag s') G"
      using searched_shrink [OF c(2)] c(3) settlesD(9) [OF c(1) vn] by simp
    then show ?thesis
      using settles_trans [OF p(1) c(1)] settlesD(5) [OF c(1) e1 p(2)] by (simp add: covers_def)
  qed
next
  case (3 n B L s)
  then show ?case by (simp add: covers_def settles_refl)
next
  case (4 n B L e es s)
  let ?r = "if \<not> hasInstrumentation (em_dag s) e then insertInstrumentationStartingAt n B L e s else Inr s"
  from 4(8) obtain s1 where s1: "?r = Inr s1" "instrument_successors n B L es s1 = Inr s'"
    by (auto simp: bind_res_eq_Inr)
  have c: "covers G {e} s s1"
  proof (cases "hasInstrumentation (em_dag s) e")
    case True
    with s1(1) 4(4,7) show ?thesis by (simp add: covers_def settles_refl)
  next
    case False
    with 4(1) [OF False 4(3,4), of G s1] 4(5-7) s1(1) show ?thesis by simp
  qed
  then have c1: "settles (em_dag s) (em_dag s1)" "searched (em_dag s1) G" "hasInstrumentation (em_dag s1) e"
    by (simp_all add: covers_def)
  have "covers G (set es) s1 s'"
    by (rule 4(2) [OF s1(1) 4(3)]) (use c1 s1(2) 4(5,6) settlesD [OF c1(1)] in auto)
  then show ?case
    using settles_trans [OF c1(1)] settlesD(3,5) c1 4(5) by (auto simp: covers_def)
qed

end
