(* ===== verification/BL_Blocks.thy ===== *)
theory BL_Blocks
  imports BL_Plan BL_Cover "HOL-Library.Multiset"
begin

text \<open>
  How the created instructions run: the code of a block, the values of its PHIs
  and the run along a sequence of blocks; and how LLVM's function and the dag
  correspond to each other, before and after a critical edge is split.
\<close>

section \<open>Running the blocks\<close>

fun point_of :: "ir_call \<Rightarrow> ir_point option" where
  "point_of (Create_Add i a b p) = Some p"
| "point_of (Create_Call f v p) = Some p"
| "point_of _ = None"

definition code_at :: "ir_call list \<Rightarrow> ir_point \<Rightarrow> ir_call list" where
  "code_at cs p = filter (\<lambda>c. point_of c = Some p) cs"

text \<open>
  The instructions of a block that the pass has put there: at most one edge puts
  code at the beginning of a block, so the order of creation is the order in the
  block.
\<close>

definition block_code :: "ir_call list \<Rightarrow> block_id \<Rightarrow> ir_call list" where
  "block_code cs b = code_at cs (FirstInsertionPt b) @ code_at cs (FirstCall b) @ code_at cs (TerminatorOf b)"

fun phi_in :: "block_id \<Rightarrow> ir_call \<Rightarrow> inst_id option" where
  "phi_in b (Create_PHI i b' k) = (if b' = b then Some i else None)"
| "phi_in b _ = None"

definition phis :: "ir_call list \<Rightarrow> block_id \<Rightarrow> inst_id list" where
  "phis cs b = List.map_filter (phi_in b) cs"

text \<open>
  The incoming values of a PHI. \<open>removeIncomingValue\<close> takes out the first entry of
  a block. When LLVM splits an edge it renames the entry of the edge's block in
  the PHIs of the target; the renamed entry is the one that the pass then
  replaces, so what a block passes on is the value added for it.
\<close>

fun drop_first :: "'a \<Rightarrow> ('a \<times> 'b) list \<Rightarrow> ('a \<times> 'b) list" where
  "drop_first k [] = []"
| "drop_first k (x # xs) = (if fst x = k then xs else x # drop_first k xs)"

fun incoming_step :: "inst_id \<Rightarrow> ir_call \<Rightarrow> (block_id \<times> ir_value) list \<Rightarrow> (block_id \<times> ir_value) list" where
  "incoming_step i (Add_Incoming j v b) xs = (if j = i then xs @ [(b, v)] else xs)"
| "incoming_step i (Remove_Incoming j b) xs = (if j = i then drop_first b xs else xs)"
| "incoming_step i _ xs = xs"

definition incoming :: "ir_call list \<Rightarrow> inst_id \<Rightarrow> (block_id \<times> ir_value) list" where
  "incoming cs i = fold (incoming_step i) cs []"

text \<open>All PHIs of a block read the values at the end of the block that was left.\<close>

definition enter_phis :: "ir_call list \<Rightarrow> block_id \<Rightarrow> block_id \<Rightarrow> (inst_id \<Rightarrow> u32) \<Rightarrow> inst_id \<Rightarrow> u32" where
  "enter_phis cs p b env = (\<lambda>i. if i \<in> set (phis cs b)
     then (case map_of (incoming cs i) p of Some v \<Rightarrow> ir_val env v | None \<Rightarrow> env i) else env i)"

definition run_block :: "ir_call list \<Rightarrow> block_id option \<Rightarrow> block_id \<Rightarrow>
    (inst_id \<Rightarrow> u32) \<times> clong list \<Rightarrow> (inst_id \<Rightarrow> u32) \<times> clong list" where
  "run_block cs from b st = fold exec_call (block_code cs b)
     (case from of None \<Rightarrow> fst st | Some p \<Rightarrow> enter_phis cs p b (fst st), snd st)"

fun run_blocks :: "ir_call list \<Rightarrow> block_id option \<Rightarrow> block_id list \<Rightarrow>
    (inst_id \<Rightarrow> u32) \<times> clong list \<Rightarrow> (inst_id \<Rightarrow> u32) \<times> clong list" where
  "run_blocks cs from [] st = st"
| "run_blocks cs from (b # bs) st = run_blocks cs (Some b) bs (run_block cs from b st)"

text \<open>The blocks that an execution of the dag goes through; the exit has none.\<close>

definition block_path :: "bl_dag \<Rightarrow> edge_id list \<Rightarrow> block_id list" where
  "block_path d es = List.map_filter (getBlock d) (d_root d # map (getTarget d) es)"

section \<open>LLVM's function\<close>

text \<open>
  What LLVM documents: predecessors and successors are two views of the same
  edges, and \<open>SplitCriticalEdge\<close> puts a new block into the successor it is asked
  to split. \<open>blocks\<close> is the set of the blocks of a function.
\<close>

definition llvm_ok :: "('c \<Rightarrow> block_id set) \<Rightarrow> 'c llvm \<Rightarrow> bool" where
  "llvm_ok blocks L \<longleftrightarrow>
     (\<forall>F b. set (l_predecessors L F b) \<subseteq> blocks F
        \<and> (\<forall>p. count_list (l_predecessors L F b) p = count_list (l_successors L F p) b))
     \<and> (\<forall>F b k F'. b \<in> blocks F \<longrightarrow> k < length (l_successors L F b) \<longrightarrow> l_SplitCriticalEdge L F b k = Some F' \<longrightarrow>
          (\<exists>nb. nb \<notin> blocks F \<and> blocks F' = insert nb (blocks F)
             \<and> l_successors L F' = (l_successors L F)(b := (l_successors L F b)[k := nb], nb := [l_successors L F b ! k])))"

text \<open>
  \<open>SplitCriticalEdge\<close> gives up only at an edge that is not critical, and at the branches
  of an \<open>indirectbr\<close>: here the functions have none.
\<close>

definition splits_critical :: "('c \<Rightarrow> block_id set) \<Rightarrow> 'c llvm \<Rightarrow> bool" where
  "splits_critical blocks L \<longleftrightarrow> (\<forall>F b. \<not> l_isIndirectBr L F b)
     \<and> (\<forall>F b k. b \<in> blocks F \<longrightarrow> k < length (l_successors L F b) \<longrightarrow> 1 < length (l_successors L F b) \<longrightarrow>
          1 < length (l_predecessors L F (l_successors L F b ! k)) \<longrightarrow> l_SplitCriticalEdge L F b k \<noteq> None)"

lemma llvm_ok_split:
  assumes "llvm_ok blocks L" "b \<in> blocks F" "k < length (l_successors L F b)" "l_SplitCriticalEdge L F b k = Some F'"
  obtains nb where "nb \<notin> blocks F" "blocks F' = insert nb (blocks F)"
    "l_successors L F' = (l_successors L F)(b := (l_successors L F b)[k := nb], nb := [l_successors L F b ! k])"
  using assms unfolding llvm_ok_def by blast

definition target_block :: "bl_dag \<Rightarrow> edge_id \<Rightarrow> block_id option" where
  "target_block d e = getBlock d (getTarget d e)"

text \<open>\<open>mirrors blocks L F d\<close>: the dag has the blocks of the function and their successors.\<close>

definition mirrors :: "('c \<Rightarrow> block_id set) \<Rightarrow> 'c llvm \<Rightarrow> 'c \<Rightarrow> bl_dag \<Rightarrow> bool" where
  "mirrors blocks L F d \<longleftrightarrow> inj_on (getBlock d) (set (d_nodes d))
     \<and> (\<forall>v\<in>set (d_nodes d). getBlock d v = None \<longleftrightarrow> v = d_exit d)
     \<and> (\<forall>v\<in>set (d_nodes d). \<forall>b. getBlock d v = Some b \<longrightarrow> b \<in> blocks F
          \<and> mset (l_successors L F b) = mset (List.map_filter (target_block d) (succEdges d v)))"

lemma mirrorsD:
  assumes "mirrors blocks L F d"
  shows "u \<in> set (d_nodes d) \<Longrightarrow> v \<in> set (d_nodes d) \<Longrightarrow> getBlock d u = getBlock d v \<Longrightarrow> u = v"
    "v \<in> set (d_nodes d) \<Longrightarrow> getBlock d v = None \<longleftrightarrow> v = d_exit d"
    "v \<in> set (d_nodes d) \<Longrightarrow> getBlock d v = Some b \<Longrightarrow> b \<in> blocks F"
    "v \<in> set (d_nodes d) \<Longrightarrow> getBlock d v = Some b \<Longrightarrow>
       mset (l_successors L F b) = mset (List.map_filter (target_block d) (succEdges d v))"
  using assms unfolding mirrors_def by (auto dest: inj_onD)

lemma successor_index_member:
  "x \<in> set xs \<Longrightarrow> successor_index x xs < length xs \<and> xs ! successor_index x xs = x"
  by (induction xs) auto

lemma length_map_filter: "length (List.map_filter f xs) \<le> length xs"
  by (induction xs) (auto simp: List.map_filter_simps split: option.split)

lemma map_filter_cong: "(\<And>x. x \<in> set xs \<Longrightarrow> f x = g x) \<Longrightarrow> List.map_filter f xs = List.map_filter g xs"
  by (induction xs) (auto simp: List.map_filter_simps split: option.split)

lemma map_filter_append [simp]: "List.map_filter f (xs @ ys) = List.map_filter f xs @ List.map_filter f ys"
  by (simp add: List.map_filter_def)

lemma set_map_filter: "set (List.map_filter f xs) = {y. \<exists>x\<in>set xs. f x = Some y}"
  by (induction xs) (auto simp: List.map_filter_simps split: option.split)

lemma mset_map_filter_update:
  assumes "distinct xs" "x \<in> set xs" "f x = Some a"
  shows "mset (List.map_filter (f(x := Some b)) xs) = add_mset b (mset (List.map_filter f xs) - {#a#})"
proof -
  obtain ys zs where xs: "xs = ys @ x # zs" using assms(2) by (auto dest: split_list)
  have "List.map_filter (f(x := Some b)) ys = List.map_filter f ys" "List.map_filter (f(x := Some b)) zs = List.map_filter f zs"
    using assms(1) xs by (auto intro!: map_filter_cong)
  then show ?thesis by (simp add: xs List.map_filter_simps assms(3))
qed

lemma count_list_le_length: "count_list xs x \<le> length xs"
  by (induction xs) auto

text \<open>A block with one successor is listed at most once among the predecessors of any block.\<close>

lemma mirrors_single_succ:
  assumes L: "llvm_ok blocks L" and m: "mirrors blocks L F d" and u: "u \<in> set (d_nodes d)" "getBlock d u = Some p"
    and n: "getNumberSuccEdges d u \<le> 1"
  shows "count_list (l_predecessors L F b) p \<le> 1"
proof -
  have "count_list (l_predecessors L F b) p = count_list (l_successors L F p) b" using L by (simp add: llvm_ok_def)
  also have "\<dots> \<le> size (mset (l_successors L F p))" by (simp add: count_list_le_length)
  also have "\<dots> = length (List.map_filter (target_block d) (succEdges d u))"
    using mirrorsD(4) [OF m u] by (metis size_mset)
  also have "\<dots> \<le> 1" using n length_map_filter [of "target_block d" "succEdges d u"] by (simp add: getNumberSuccEdges_def)
  finally show ?thesis .
qed

text \<open>The split of an edge in the function and in the dag.\<close>

lemma mirrors_split:
  assumes m: "mirrors blocks L F d" and l: "linked d" and f: "cfg_edge d f"
    and b: "getBlock d (getSource d f) = Some sb" "getBlock d (getTarget d f) = Some tb"
    and k: "k < length (l_successors L F sb)" "l_successors L F sb ! k = tb"
    and F': "nb \<notin> blocks F" "blocks F' = insert nb (blocks F)"
      "l_successors L F' = (l_successors L F)(sb := (l_successors L F sb)[k := nb], nb := [l_successors L F sb ! k])"
    and s: "is_split d f nb v g d'" and ex: "d_exit d \<in> set (d_nodes d)"
  shows "mirrors blocks L F' d'"
proof -
  note d = is_splitD [OF s]
  have fE: "f \<in> set (d_edges d)" "\<not> is_phony d f" using f by (simp_all add: cfg_edge_def)
  note fn = linkedD(2,3) [OF l fE(1)]
  have nv: "u \<noteq> v" if "u \<in> set (d_nodes d)" for u using that d(1) by blast
  have blk: "getBlock d' u = getBlock d u" if "u \<in> set (d_nodes d)" for u using nv [OF that] by (simp add: d(16))
  have gv: "getBlock d' v = Some nb" by (simp add: d(16))
  have old: "getBlock d u \<noteq> Some nb" if "u \<in> set (d_nodes d)" for u using mirrorsD(3) [OF m that] F'(1) by auto
  have tb: "target_block d' e = (if e = f then Some nb else target_block d e)" if "e \<in> set (d_edges d)" for e
    using that linkedD(3) [OF l that] d(2) nv blk by (auto simp: target_block_def d(9,16))
  have succ: "mset (l_successors L F' c) = mset (List.map_filter (target_block d') (succEdges d' u))"
    if u: "u \<in> set (d_nodes d)" "getBlock d u = Some c" for u c
  proof -
    have sub: "set (succEdges d u) \<subseteq> set (d_edges d)" using linkedD(6) [OF l u(1)] by auto
    have cn: "c \<noteq> nb" using old [OF u(1)] u(2) by auto
    show ?thesis
    proof (cases "u = getSource d f")
      case True
      then have c: "c = sb" using u(2) b(1) by simp
      have "List.map_filter (target_block d') (succEdges d u) = List.map_filter ((target_block d)(f := Some nb)) (succEdges d u)"
        by (rule map_filter_cong) (use sub tb in auto)
      moreover have "f \<in> set (succEdges d u)" using linkedD(6) [OF l u(1)] fE True by simp
      moreover have "target_block d f = Some tb" using b(2) by (simp add: target_block_def)
      ultimately have "mset (List.map_filter (target_block d') (succEdges d u)) = add_mset nb (mset (l_successors L F sb) - {#tb#})"
        using mset_map_filter_update [OF linkedD(4) [OF l u(1)]] mirrorsD(4) [OF m u] c by simp
      then show ?thesis using k cn c nv [OF u(1)] by (simp add: F'(3) d(14) mset_update)
    next
      case False
      have "f \<notin> set (succEdges d u)" using linkedD(6) [OF l u(1)] False by auto
      then have "List.map_filter (target_block d') (succEdges d u) = List.map_filter (target_block d) (succEdges d u)"
        by (intro map_filter_cong) (use sub tb in auto)
      moreover have "c \<noteq> sb" using mirrorsD(1) [OF m u(1) fn(1)] u(2) b(1) False by auto
      ultimately show ?thesis using mirrorsD(4) [OF m u] cn nv [OF u(1)] by (simp add: F'(3) d(14))
    qed
  qed
  have "getBlock d' (getTarget d f) = Some tb" using blk [OF fn(2)] b(2) by simp
  then have new: "List.map_filter (target_block d') (succEdges d' v) = [tb]"
    by (simp add: d(14) List.map_filter_simps target_block_def d(9))
  show ?thesis
    unfolding mirrors_def
  proof (intro conjI ballI allI impI)
    show "inj_on (getBlock d') (set (d_nodes d'))"
      using mirrorsD(1) [OF m] old old [THEN not_sym] gv by (auto simp: inj_on_def d(3) blk)
    show "getBlock d' u = None \<longleftrightarrow> u = d_exit d'" if "u \<in> set (d_nodes d')" for u
      using that mirrorsD(2) [OF m] nv [OF ex] by (auto simp: d(3,6,16))
    fix u c
    assume u: "u \<in> set (d_nodes d')" "getBlock d' u = Some c"
    show "c \<in> blocks F'" using u mirrorsD(3) [OF m, of u c] blk [of u] by (auto simp: d(3) d(16) F'(2) split: if_splits)
    show "mset (l_successors L F' c) = mset (List.map_filter (target_block d') (succEdges d' u))"
      using u succ [of u c] blk [of u] new k by (auto simp: d(3) d(16) F'(3) split: if_splits)
  qed
qed

lemma splitCritical_mirrors:
  assumes B: "base_ok B" and L: "llvm_ok blocks L" and m: "mirrors blocks L (em_fn s) (em_dag s)" and l: "linked (em_dag s)"
    and e: "cfg_edge (em_dag s) e" and ex: "d_exit (em_dag s) \<in> set (d_nodes (em_dag s))"
  obtains ok s' where "splitCritical B L e s = Inr (ok, s')" "mirrors blocks L (em_fn s') (em_dag s')"
    "em_calls s' = em_calls s" "em_next s' = em_next s" "blocks (em_fn s) \<subseteq> blocks (em_fn s')"
    "s' = s \<or> (\<exists>nb v g. is_split (em_dag s) e nb v g (em_dag s') \<and> nb \<notin> blocks (em_fn s)
       \<and> 1 < getNumberSuccEdges (em_dag s) (getSource (em_dag s) e)
       \<and> getTarget (em_dag s) e \<noteq> d_exit (em_dag s) \<and> getSource (em_dag s) e \<noteq> d_exit (em_dag s))"
proof (cases "splitCritical B L e s = Inr (True, s) \<or> splitCritical B L e s = Inr (False, s)")
  case True
  with m that show ?thesis by auto
next
  case False
  let ?d = "em_dag s"
  let ?k = "getSuccessorNumber L (em_fn s) ?d e"
  from False obtain sb tb F' where b: "getBlock ?d (getSource ?d e) = Some sb" "getBlock ?d (getTarget ?d e) = Some tb"
    and n: "1 < getNumberSuccEdges ?d (getSource ?d e)"
    and F': "l_SplitCriticalEdge L (em_fn s) sb ?k = Some F'"
    and r: "splitCritical B L e s = (if ?k < length (l_successors L F' sb)
      then Inr (True, s\<lparr>em_fn := F', em_dag := splitUpdate B e (l_successors L F' sb ! ?k) ?d\<rparr>) else Inl Bad_Deref)"
    by (auto simp: splitCritical_def Let_def split: option.splits if_splits)
  have eE: "e \<in> set (d_edges ?d)" "\<not> is_phony ?d e" using e by (simp_all add: cfg_edge_def)
  note n12 = linkedD(2,3) [OF l eE(1)]
  have "tb \<in> set (List.map_filter (target_block ?d) (succEdges ?d (getSource ?d e)))"
    using linkedD(6) [OF l n12(1)] eE b(2) by (auto simp: set_map_filter target_block_def)
  then have "tb \<in> set (l_successors L (em_fn s) sb)"
    using mirrorsD(4) [OF m n12(1) b(1)] by (metis set_mset_mset)
  from successor_index_member [OF this]
  have k: "?k < length (l_successors L (em_fn s) sb)" "l_successors L (em_fn s) sb ! ?k = tb"
    by (simp_all add: getSuccessorNumber_def b)
  obtain nb where nb: "nb \<notin> blocks (em_fn s)" "blocks F' = insert nb (blocks (em_fn s))"
    "l_successors L F' = (l_successors L (em_fn s))(sb := (l_successors L (em_fn s) sb)[?k := nb],
       nb := [l_successors L (em_fn s) sb ! ?k])"
    using L mirrorsD(3) [OF m n12(1) b(1)] k(1) F' by (rule llvm_ok_split)
  have "sb \<noteq> nb" using nb(1) mirrorsD(3) [OF m n12(1) b(1)] by auto
  then have s': "splitCritical B L e s = Inr (True, s\<lparr>em_fn := F', em_dag := splitUpdate B e nb ?d\<rparr>)"
    using r k by (simp add: nb(3))
  obtain v g where sp: "is_split ?d e nb v g (splitUpdate B e nb ?d)" using B eE(1) n12(2) by (rule splitUpdate_is_split)
  have ne: "getTarget ?d e \<noteq> d_exit ?d" "getSource ?d e \<noteq> d_exit ?d"
    using mirrorsD(2) [OF m n12(1)] mirrorsD(2) [OF m n12(2)] b by auto
  have "\<exists>nb' v g. is_split ?d e nb' v g (splitUpdate B e nb ?d) \<and> nb' \<notin> blocks (em_fn s)
       \<and> 1 < getNumberSuccEdges ?d (getSource ?d e) \<and> getTarget ?d e \<noteq> d_exit ?d \<and> getSource ?d e \<noteq> d_exit ?d"
    using sp nb(1) n ne by blast
  then show ?thesis
    using nb(2) mirrors_split [OF m l e b k nb sp ex] by (intro that [OF s']) auto
qed

text \<open>An edge that is critical in the dag is critical in the function.\<close>

lemma length_map_filter_all: "\<forall>x\<in>set xs. f x \<noteq> None \<Longrightarrow> length (List.map_filter f xs) = length xs"
  by (induction xs) (auto simp: List.map_filter_simps)

lemma map_filter_two:
  assumes "x \<in> set xs" "y \<in> set xs" "x \<noteq> y" "f x = Some b" "f y = Some b"
  shows "1 < count_list (List.map_filter f xs) b"
proof -
  have one: "0 < count_list (List.map_filter f zs) b" if "z \<in> set zs" "f z = Some b" for z zs
    using that by (induction zs) (auto simp: List.map_filter_simps split: option.split)
  show ?thesis
    using assms(1-3)
  proof (induction xs)
    case (Cons z zs)
    consider "z = x" "y \<in> set zs" | "z = y" "x \<in> set zs" | "z \<noteq> x" "z \<noteq> y" "x \<in> set zs" "y \<in> set zs" using Cons.prems by auto
    then show ?case
      using one [of x zs] one [of y zs] Cons.IH assms(3-5) by cases (auto simp: List.map_filter_simps split: option.split)
  qed simp
qed

lemma two_members_long: "x \<in> set xs \<Longrightarrow> y \<in> set xs \<Longrightarrow> x \<noteq> y \<Longrightarrow> 1 < length xs"
  by (cases xs; cases "tl xs") auto

lemma critical_preds:
  assumes L: "llvm_ok blocks L" and m: "mirrors blocks L F d" and l: "linked d" and e: "cfg_edge d e" "cfg_edge d f" "e \<noteq> f"
    and t: "getTarget d f = getTarget d e" "getBlock d (getTarget d e) = Some tb"
    and b: "getBlock d (getSource d e) = Some p" "getBlock d (getSource d f) = Some q"
  shows "1 < length (l_predecessors L F tb)"
proof -
  have E: "e \<in> set (d_edges d)" "f \<in> set (d_edges d)" using e by (simp_all add: cfg_edge_def)
  have n: "getSource d e \<in> set (d_nodes d)" "getSource d f \<in> set (d_nodes d)" using linkedD(2) [OF l] E by blast+
  have s: "e \<in> set (succEdges d (getSource d e))" "f \<in> set (succEdges d (getSource d f))"
    using linkedD(6) [OF l] n E e by (auto simp: cfg_edge_def)
  have c: "count_list (l_predecessors L F tb) r = count_list (List.map_filter (target_block d) (succEdges d u)) tb"
    if "u \<in> set (d_nodes d)" "getBlock d u = Some r" for u r
    using L mirrorsD(4) [OF m that] by (metis count_mset llvm_ok_def)
  have tb: "target_block d e = Some tb" "target_block d f = Some tb" using t by (simp_all add: target_block_def)
  show ?thesis
  proof (cases "p = q")
    case True
    then have "getSource d e = getSource d f" using mirrorsD(1) [OF m n] b by simp
    then have "1 < count_list (l_predecessors L F tb) p"
      using map_filter_two [of e _ f, OF s(1) _ e(3) tb] s(2) c [OF n(1) b(1)] by simp
    then show ?thesis using count_list_le_length [of "l_predecessors L F tb" p] by linarith
  next
    case False
    have "tb \<in> set (List.map_filter (target_block d) (succEdges d (getSource d e)))"
      "tb \<in> set (List.map_filter (target_block d) (succEdges d (getSource d f)))"
      using s tb by (auto simp: set_map_filter)
    then have "p \<in> set (l_predecessors L F tb)" "q \<in> set (l_predecessors L F tb)"
      using c [OF n(1) b(1)] c [OF n(2) b(2)] by (metis count_list_0_iff)+
    then show ?thesis using two_members_long False by metis
  qed
qed

lemma distinct_other: "distinct xs \<Longrightarrow> x \<in> set xs \<Longrightarrow> length xs \<noteq> 1 \<Longrightarrow> \<exists>y\<in>set xs. y \<noteq> x"
  by (cases xs; cases "tl xs") auto

lemma critical_succs:
  assumes m: "mirrors blocks L F d" and l: "linked d" and pl: "plan d D" and u: "u \<in> set (d_nodes d)" "getBlock d u = Some sb"
    and ns: "1 < getNumberSuccEdges d u"
  shows "1 < length (l_successors L F sb)"
proof -
  have out: "target_block d f \<noteq> None" if "f \<in> set (succEdges d u)" for f
  proof -
    have f: "cfg_edge d f" "getSource d f = u" using that linkedD(6) [OF l u(1)] by (auto simp: cfg_edge_def)
    then have "getTarget d f \<noteq> d_exit d" using planD(5) [OF pl f(1)] ns by auto
    then show ?thesis using mirrorsD(2) [OF m linkedD(3) [OF l]] f(1) by (simp add: target_block_def cfg_edge_def)
  qed
  then show ?thesis
    using length_map_filter_all [of "succEdges d u" "target_block d"] ns mirrorsD(4) [OF m u]
    by (metis getNumberSuccEdges_def size_mset)
qed

lemma stuck_critical:
  assumes L: "llvm_ok blocks L" and m: "mirrors blocks L F d" and l: "linked d" and pl: "plan d D" and e: "cfg_edge d e"
    and st: "stuck d e"
  obtains sb tb where "getBlock d (getSource d e) = Some sb" "getBlock d (getTarget d e) = Some tb"
    "1 < getNumberSuccEdges d (getSource d e)" "1 < length (l_predecessors L F tb)"
proof -
  have eE: "e \<in> set (d_edges d)" "\<not> is_phony d e" using e by (simp_all add: cfg_edge_def)
  note n = linkedD(2,3) [OF l eE(1)]
  have np: "getNumberPredEdges d (getTarget d e) \<noteq> 1" using st by (simp add: stuck_def)
  have inn: "getSource d f \<noteq> d_exit d" if "cfg_edge d f" "getTarget d f = getTarget d e" for f
    using planD(6) [OF pl that(1)] np that(2) by auto
  obtain sb where sb: "getBlock d (getSource d e) = Some sb" using mirrorsD(2) [OF m n(1)] inn [OF e] by auto
  then have ns: "1 < getNumberSuccEdges d (getSource d e)" using st by (simp add: stuck_def)
  obtain tb where tb: "getBlock d (getTarget d e) = Some tb"
    using mirrorsD(2) [OF m n(2)] planD(5) [OF pl e] ns by fastforce
  have "e \<in> set (predEdges d (getTarget d e))" using linkedD(7) [OF l n(2)] eE by simp
  then obtain f where f: "f \<in> set (predEdges d (getTarget d e))" "f \<noteq> e"
    using distinct_other [OF linkedD(5) [OF l n(2)]] np by (auto simp: getNumberPredEdges_def)
  have cf: "cfg_edge d f" "getTarget d f = getTarget d e" using linkedD(7) [OF l n(2)] f(1) by (auto simp: cfg_edge_def)
  obtain q where q: "getBlock d (getSource d f) = Some q"
    using mirrorsD(2) [OF m linkedD(2) [OF l]] inn [OF cf] cf(1) by (auto simp: cfg_edge_def)
  show thesis using that [OF sb tb ns] critical_preds [OF L m l e cf(1) f(2) [symmetric] cf(2) tb sb q] by blast
qed

lemma critical_split:
  assumes B: "base_ok B" and L: "llvm_ok blocks L" "splits_critical blocks L" and m: "mirrors blocks L (em_fn s) (em_dag s)"
    and l: "linked (em_dag s)" and pl: "plan (em_dag s) D" and e: "cfg_edge (em_dag s) e" and st: "stuck (em_dag s) e"
  shows "splitCritical B L e s \<noteq> Inr (ok, s)"
proof
  let ?d = "em_dag s" let ?k = "getSuccessorNumber L (em_fn s) ?d e"
  assume r: "splitCritical B L e s = Inr (ok, s)"
  have eE: "e \<in> set (d_edges ?d)" "\<not> is_phony ?d e" using e by (simp_all add: cfg_edge_def)
  note n = linkedD(2,3) [OF l eE(1)]
  obtain sb tb where b: "getBlock ?d (getSource ?d e) = Some sb" "getBlock ?d (getTarget ?d e) = Some tb"
    "1 < getNumberSuccEdges ?d (getSource ?d e)" "1 < length (l_predecessors L (em_fn s) tb)"
    using L(1) m l pl e st by (rule stuck_critical)
  have "tb \<in> set (List.map_filter (target_block ?d) (succEdges ?d (getSource ?d e)))"
    using linkedD(6) [OF l n(1)] eE b(2) by (auto simp: set_map_filter target_block_def)
  then have "tb \<in> set (l_successors L (em_fn s) sb)" using mirrorsD(4) [OF m n(1) b(1)] by (metis set_mset_mset)
  from successor_index_member [OF this]
  have k: "?k < length (l_successors L (em_fn s) sb)" "l_successors L (em_fn s) sb ! ?k = tb"
    by (simp_all add: getSuccessorNumber_def b)
  obtain F' where F': "l_SplitCriticalEdge L (em_fn s) sb ?k = Some F'" "\<not> l_isIndirectBr L (em_fn s) sb"
    using L(2) mirrorsD(3) [OF m n(1) b(1)] k critical_succs [OF m l pl n(1) b(1,3)] b(4) unfolding splits_critical_def by blast
  have "em_dag s = splitUpdate B e (l_successors L F' sb ! ?k) ?d"
    using r b st F' by (auto simp: splitCritical_def stuck_def Let_def split: if_splits dest!: arg_cong [of _ s em_dag])
  moreover obtain v g where "is_split ?d e (l_successors L F' sb ! ?k) v g (splitUpdate B e (l_successors L F' sb ! ?k) ?d)"
    using B eE(1) n(2) by (rule splitUpdate_is_split)
  ultimately show False using is_splitD(1,3) by (metis in_set_conv_decomp)
qed

end
