(* ===== verification/BL_Frame.thy ===== *)
theory BL_Frame
  imports BL_Blocks
begin

text \<open>
  The emission of one edge as one step: which instructions it adds where, what it
  changes in the dag, and that the instructions do what the edge is meant to do.
\<close>

section \<open>What the emission of one edge changes\<close>

definition keeps_graph :: "'c emitter \<Rightarrow> 'c emitter \<Rightarrow> bool" where
  "keeps_graph s s' \<longleftrightarrow> same_graph s s' \<and> acts (em_dag s') = acts (em_dag s) \<and> em_next s \<le> em_next s'"

definition emit_frame :: "'c emitter \<Rightarrow> node_id \<Rightarrow> block_id \<Rightarrow> bool \<Rightarrow> 'c emitter \<Rightarrow> bool" where
  "emit_frame s node b a s' \<longleftrightarrow> keeps_graph s s' \<and> getPathPHI (em_dag s') = getPathPHI (em_dag s)
     \<and> (\<forall>w. w \<noteq> node \<longrightarrow> getStartingPathNumber (em_dag s') w = getStartingPathNumber (em_dag s) w
          \<and> getEndingPathNumber (em_dag s') w = getEndingPathNumber (em_dag s) w)
     \<and> (\<exists>cs. em_calls s' = em_calls s @ cs
          \<and> (\<forall>c\<in>set cs. point_of c = Some (FirstInsertionPt b) \<or> point_of c = Some (TerminatorOf b))
          \<and> cs = code_at cs (FirstInsertionPt b) @ code_at cs (TerminatorOf b)
          \<and> (\<not> a \<longrightarrow> code_at cs (FirstInsertionPt b) = []))"

lemma acts_setters [simp]:
  "acts (setStartingPathNumber v x d) = acts d" "acts (setEndingPathNumber v x d) = acts d"
  "acts (setPathPHI v i d) = acts d" "acts (setHasInstrumentation e h d) = acts d"
  by (simp_all add: acts_def)

lemma emit_normal_frame:
  assumes b: "getBlock (em_dag s) node = Some b" and r: "emit_normal_edge edge node a s = Inr s'"
  shows "emit_frame s node b a s'"
  using r
  by (auto simp: emit_normal_edge_def block_of_def b create_add_def insertCounterIncrement_def Let_def bind_res_eq_Inr
      emit_frame_def keeps_graph_def same_graph_def code_at_def split: option.splits if_splits)

lemma emit_loop_frame:
  assumes b: "getBlock (em_dag s) node = Some b" and r: "emit_loop_edge edge node a s = Inr s'"
  shows "emit_frame s node b a s'"
  using r
  by (auto simp: emit_loop_edge_def block_of_def b create_add_def insertCounterIncrement_def Let_def bind_res_eq_Inr
      emit_frame_def keeps_graph_def same_graph_def code_at_def split: option.splits if_splits)

lemma emit_edge_frame:
  assumes "getBlock (em_dag s) node = Some b" and "emit_edge edge node a s = Inr s'"
  shows "emit_frame s node b a s'"
  using assms by (auto simp: emit_edge_def intro: emit_normal_frame emit_loop_frame split: if_splits)

text \<open>Emitted at the beginning, the code leaves one number for the whole block, unless the number is dropped.\<close>

lemma emit_edge_sync:
  assumes b: "getBlock (em_dag s) node = Some b" and r: "emit_edge edge node True s = Inr s'"
    and se: "getStartingPathNumber (em_dag s) node = getEndingPathNumber (em_dag s) node"
  shows "getStartingPathNumber (em_dag s') node = getEndingPathNumber (em_dag s') node \<or> drops_number (em_dag s) edge"
  using r se
  by (auto simp: emit_edge_def emit_normal_edge_def emit_loop_edge_def drops_number_def block_of_def b create_add_def
      insertCounterIncrement_def Let_def bind_res_eq_Inr split: option.splits if_splits)

lemma emit_edge_idle:
  assumes "getBlock (em_dag s) node = Some b" "idle_edge (em_dag s) edge"
  shows "emit_edge edge node a s = Inr s"
  using assms by (simp add: emit_edge_def emit_normal_edge_def idle_edge_def block_of_def Let_def)

text \<open>
  \<open>sem d x ls cs y\<close>: the code \<open>cs\<close> takes a register held in \<open>x\<close> to the register held in
  \<open>y\<close>, as the edges \<open>ls\<close> are meant to do, and logs the same.
\<close>

definition sem :: "bl_dag \<Rightarrow> ir_value option \<Rightarrow> edge_id list \<Rightarrow> ir_call list \<Rightarrow> ir_value option \<Rightarrow> bool" where
  "sem d x ls cs y \<longleftrightarrow> (\<forall>env out. \<exists>r out' env'.
     fold_res (instrumented_step d) ls (map_option (ir_val env) x, out) = Inr (r, out')
     \<and> fold exec_call cs (env, out) = (env', out') \<and> map_option (ir_val env') y = r)"

lemma fold_res_single: "fold_res f [x] s = f x s"
  by (cases "f x s") simp_all

lemma sem_nothing: "sem d x [] [] x"
  by (simp add: sem_def)

lemma sem_append:
  assumes 1: "sem d x ls cs y" and 2: "sem d y ls' cs' z"
  shows "sem d x (ls @ ls') (cs @ cs') z"
  unfolding sem_def
proof (intro allI)
  fix env out
  obtain r out1 env1 where a: "fold_res (instrumented_step d) ls (map_option (ir_val env) x, out) = Inr (r, out1)"
    "fold exec_call cs (env, out) = (env1, out1)" "map_option (ir_val env1) y = r"
    using 1 unfolding sem_def by blast
  obtain r2 out2 env2 where b: "fold_res (instrumented_step d) ls' (map_option (ir_val env1) y, out1) = Inr (r2, out2)"
    "fold exec_call cs' (env1, out1) = (env2, out2)" "map_option (ir_val env2) z = r2"
    using 2 unfolding sem_def by blast
  show "\<exists>r out' env'. fold_res (instrumented_step d) (ls @ ls') (map_option (ir_val env) x, out) = Inr (r, out')
     \<and> fold exec_call (cs @ cs') (env, out) = (env', out') \<and> map_option (ir_val env') z = r"
    using a b by (simp add: fold_res_append)
qed

lemma sem_acts: "acts d' = acts d \<Longrightarrow> sem d' = sem d"
  using acts_eq(3) [of d' d] by (simp add: sem_def [abs_def])

lemma emit_edge_effect:
  assumes b: "getBlock (em_dag s) node = Some b" and p: "HASH_THRESHHOLD < d_numberOfPaths (em_dag s)"
    and t: "step_typed (em_dag s) edge (getEndingPathNumber (em_dag s) node \<noteq> None) y"
    and se: "getStartingPathNumber (em_dag s) node = getEndingPathNumber (em_dag s) node \<or> idle_edge (em_dag s) edge"
  obtains s' cs where "emit_edge edge node a s = Inr s'" "emit_frame s node b a s'" "em_calls s' = em_calls s @ cs"
    "sem (em_dag s) (getEndingPathNumber (em_dag s) node) [edge] cs (getEndingPathNumber (em_dag s') node)"
    "(getEndingPathNumber (em_dag s') node \<noteq> None) = y"
proof (cases "idle_edge (em_dag s) edge")
  case True
  note s = emit_edge_idle [OF b True, of a]
  have "sem (em_dag s) (getEndingPathNumber (em_dag s) node) [edge] [] (getEndingPathNumber (em_dag s) node)"
    by (simp add: sem_def idle_edge_step [OF True])
  moreover have "(getEndingPathNumber (em_dag s) node \<noteq> None) = y"
    using t by (auto simp: step_typed_def idle_edge_step [OF True])
  ultimately show ?thesis using that [OF s emit_edge_frame [OF b s], of "[]"] by simp
next
  case False
  with se have se: "getStartingPathNumber (em_dag s) node = getEndingPathNumber (em_dag s) node" by blast
  let ?E = "getEndingPathNumber (em_dag s) node"
  have R: "realizes s node (instrumented_step (em_dag s) edge) (emit_edge edge node a s)"
    using emit_loop_edge_realizes [OF b p se, of edge a] emit_normal_edge_realizes [OF b p se, of edge a]
    by (cases "is_loop_edge (em_dag s) edge") (simp_all add: realizes_def emit_edge_def instrumented_step_def)
  have step: "\<exists>r out'. instrumented_step (em_dag s) edge (map_option (ir_val env) ?E, out) = Inr (r, out') \<and> (r \<noteq> None) = y"
    for env out using t [unfolded step_typed_def, rule_format, of "map_option (ir_val env) ?E" out] by simp
  have run: "\<exists>r out' s' cs env'. instrumented_step (em_dag s) edge (map_option (ir_val env) ?E, out) = Inr (r, out') \<and> (r \<noteq> None) = y
      \<and> emit_edge edge node a s = Inr s' \<and> em_calls s' = em_calls s @ cs \<and> fold exec_call cs (env, out) = (env', out')
      \<and> map_option (ir_val env') (getEndingPathNumber (em_dag s') node) = r" for env out
    using step [of env out] R [unfolded realizes_def, rule_format, of env out] by auto
  obtain s' cs where s': "emit_edge edge node a s = Inr s'" "em_calls s' = em_calls s @ cs"
    using run [of "\<lambda>_. 0" "[]"] by blast
  have run': "\<exists>r out' env'. instrumented_step (em_dag s) edge (map_option (ir_val env) ?E, out) = Inr (r, out') \<and> (r \<noteq> None) = y
      \<and> fold exec_call cs (env, out) = (env', out') \<and> map_option (ir_val env') (getEndingPathNumber (em_dag s') node) = r" for env out
    using run [of env out] s' by auto
  then have "sem (em_dag s) ?E [edge] cs (getEndingPathNumber (em_dag s') node)"
    unfolding sem_def fold_res_single by blast
  moreover have "(getEndingPathNumber (em_dag s') node \<noteq> None) = y" using run' [of "\<lambda>_. 0" "[]"] by auto
  ultimately show ?thesis using that [OF s'(1) emit_edge_frame [OF b s'(1)] s'(2)] by blast
qed

end
