(* ===== verification/BL_Inv.thy ===== *)
theory BL_Inv
  imports BL_Frame
begin

text \<open>
  The invariant of the walk that emits the instrumentation, and that splitting an
  edge keeps it. Every edge that has been crossed has its code in a block, the
  values that the nodes remember hold the register at the ends of the blocks, and
  the PHIs have the values that come in from the blocks left so far.
\<close>

section \<open>The invariant of the walk\<close>

text \<open>
  \<open>C\<close> holds the edges that the walk has crossed. The code of an edge stands at the
  end of its source when that is the source's only outgoing edge, and otherwise at the
  beginning of its target; \<open>Q\<close> holds the edges whose code stands at the end of their
  source already.
\<close>

definition entered :: "edge_id set \<Rightarrow> bl_dag \<Rightarrow> node_id \<Rightarrow> bool" where
  "entered C d v \<longleftrightarrow> (\<exists>e\<in>C. getTarget d e = v)"

definition single_out :: "bl_dag \<Rightarrow> node_id \<Rightarrow> bool" where
  "single_out d u \<longleftrightarrow> getBlock d u \<noteq> None \<and> getNumberSuccEdges d u \<le> 1"

definition out_steps :: "edge_id set \<Rightarrow> bl_dag \<Rightarrow> node_id \<Rightarrow> edge_id list" where
  "out_steps Q d u = filter (\<lambda>e. e \<in> Q) (if single_out d u then succEdges d u else [])"

definition in_steps :: "bl_dag \<Rightarrow> edge_id \<Rightarrow> edge_id list" where
  "in_steps d e = (if single_out d (getSource d e) then [] else [e])"

text \<open>The value that holds the register when the edge has been taken and the PHIs of its target are read.\<close>

definition carried :: "bl_dag \<Rightarrow> edge_id \<Rightarrow> ir_value option" where
  "carried d e = (if getNumberPredEdges d (getTarget d e) = 1 then getEndingPathNumber d (getSource d e)
     else map_option InstVal (getPathPHI d (getTarget d e)))"

definition node_code :: "'c emitter \<Rightarrow> node_id \<Rightarrow> ir_call list" where
  "node_code s v = (case getBlock (em_dag s) v of None \<Rightarrow> [] | Some b \<Rightarrow> block_code (em_calls s) b)"

definition blank :: "'c emitter \<Rightarrow> node_id \<Rightarrow> bool" where
  "blank s v \<longleftrightarrow> getStartingPathNumber (em_dag s) v = None \<and> getEndingPathNumber (em_dag s) v = None
     \<and> node_code s v = []"

definition holds_at_end :: "edge_id set \<Rightarrow> (node_id \<Rightarrow> bool) \<Rightarrow> bl_dag \<Rightarrow> node_id \<Rightarrow> bool" where
  "holds_at_end Q D d v = (case out_steps Q d v of [] \<Rightarrow> D v | e # _ \<Rightarrow> D (getTarget d e))"

definition ready :: "edge_id set \<Rightarrow> bl_dag \<Rightarrow> node_id \<Rightarrow> bool" where
  "ready Q d v \<longleftrightarrow> single_out d v \<longrightarrow> out_steps Q d v = [] \<longrightarrow>
     getStartingPathNumber d v = getEndingPathNumber d v \<or> (\<forall>f. cfg_edge d f \<longrightarrow> getSource d f = v \<longrightarrow> idle_edge d f)"

definition graph_inv :: "('c \<Rightarrow> block_id set) \<Rightarrow> 'c llvm \<Rightarrow> edge_id set \<Rightarrow> edge_id set \<Rightarrow> (node_id \<Rightarrow> bool) \<Rightarrow> 'c emitter \<Rightarrow> bool" where
  "graph_inv blocks L Q C D s \<longleftrightarrow> linked (em_dag s) \<and> plan (em_dag s) D \<and> HASH_THRESHHOLD < d_numberOfPaths (em_dag s)
     \<and> mirrors blocks L (em_fn s) (em_dag s)
     \<and> (\<forall>e\<in>Q \<union> C. cfg_edge (em_dag s) e \<and> \<not> stuck (em_dag s) e
          \<and> (getSource (em_dag s) e = d_exit (em_dag s) \<or> entered C (em_dag s) (getSource (em_dag s) e)))
     \<and> (\<forall>e\<in>C. single_out (em_dag s) (getSource (em_dag s) e) \<longrightarrow> e \<in> Q)"

definition nodes_inv :: "edge_id set \<Rightarrow> edge_id set \<Rightarrow> (node_id \<Rightarrow> bool) \<Rightarrow> 'c emitter \<Rightarrow> bool" where
  "nodes_inv Q C D s \<longleftrightarrow> (\<forall>v\<in>set (d_nodes (em_dag s)).
     if entered C (em_dag s) v \<and> v \<noteq> d_exit (em_dag s)
     then (getEndingPathNumber (em_dag s) v \<noteq> None) = holds_at_end Q D (em_dag s) v \<and> ready Q (em_dag s) v
     else blank s v)"

definition edges_inv :: "edge_id set \<Rightarrow> edge_id set \<Rightarrow> 'c emitter \<Rightarrow> bool" where
  "edges_inv Q C s \<longleftrightarrow> (\<forall>e\<in>C. getTarget (em_dag s) e \<noteq> d_exit (em_dag s) \<longrightarrow>
     sem (em_dag s) (carried (em_dag s) e) (in_steps (em_dag s) e @ out_steps Q (em_dag s) (getTarget (em_dag s) e))
       (node_code s (getTarget (em_dag s) e)) (getEndingPathNumber (em_dag s) (getTarget (em_dag s) e)))"

definition phis_inv :: "edge_id set \<Rightarrow> (node_id \<Rightarrow> bool) \<Rightarrow> 'c emitter \<Rightarrow> bool" where
  "phis_inv C D s \<longleftrightarrow>
     (\<forall>v\<in>set (d_nodes (em_dag s)). (getPathPHI (em_dag s) v \<noteq> None) \<longleftrightarrow>
        v \<noteq> d_exit (em_dag s) \<and> entered C (em_dag s) v \<and> getNumberPredEdges (em_dag s) v \<noteq> 1 \<and> D v)
     \<and> (\<forall>v\<in>set (d_nodes (em_dag s)). \<forall>b. getBlock (em_dag s) v = Some b \<longrightarrow>
          phis (em_calls s) b = (case getPathPHI (em_dag s) v of None \<Rightarrow> [] | Some i \<Rightarrow> [i]))
     \<and> (\<forall>u\<in>set (d_nodes (em_dag s)). \<forall>v\<in>set (d_nodes (em_dag s)). \<forall>i.
          getPathPHI (em_dag s) u = Some i \<longrightarrow> getPathPHI (em_dag s) v = Some i \<longrightarrow> u = v)"

definition incoming_inv :: "('c \<Rightarrow> block_id set) \<Rightarrow> edge_id set \<Rightarrow> 'c emitter \<Rightarrow> bool" where
  "incoming_inv blocks C s \<longleftrightarrow> (\<forall>v\<in>set (d_nodes (em_dag s)). \<forall>i. getPathPHI (em_dag s) v = Some i \<longrightarrow>
     i < em_next s \<and> fst ` set (incoming (em_calls s) i) \<subseteq> blocks (em_fn s)
     \<and> (\<forall>u\<in>set (d_nodes (em_dag s)). \<forall>p. getBlock (em_dag s) u = Some p \<longrightarrow> getNumberSuccEdges (em_dag s) u \<le> 1 \<longrightarrow>
          count_list (map fst (incoming (em_calls s) i)) p \<le> 1)
     \<and> (\<forall>e\<in>C. getTarget (em_dag s) e = v \<longrightarrow> (\<exists>p. getBlock (em_dag s) (getSource (em_dag s) e) = Some p
          \<and> map_of (incoming (em_calls s) i) p = getEndingPathNumber (em_dag s) (getSource (em_dag s) e))))"

fun point_block :: "ir_point \<Rightarrow> block_id" where
  "point_block (FirstInsertionPt b) = b"
| "point_block (TerminatorOf b) = b"
| "point_block (FirstCall b) = b"

fun call_fits :: "block_id set \<Rightarrow> inst_id \<Rightarrow> ir_call \<Rightarrow> bool" where
  "call_fits bs n (Create_Add i a b p) = (point_block p \<in> bs)"
| "call_fits bs n (Create_Call f v p) = (point_block p \<in> bs)"
| "call_fits bs n (Create_PHI i b k) = (b \<in> bs \<and> i < n)"
| "call_fits bs n (Add_Incoming i v b) = (i < n)"
| "call_fits bs n (Remove_Incoming i b) = (i < n)"

definition calls_inv :: "('c \<Rightarrow> block_id set) \<Rightarrow> 'c emitter \<Rightarrow> bool" where
  "calls_inv blocks s \<longleftrightarrow> (\<forall>c\<in>set (em_calls s). call_fits (blocks (em_fn s)) (em_next s) c)"

definition walk_inv :: "('c \<Rightarrow> block_id set) \<Rightarrow> 'c llvm \<Rightarrow> edge_id set \<Rightarrow> edge_id set \<Rightarrow> (node_id \<Rightarrow> bool) \<Rightarrow> 'c emitter \<Rightarrow> bool" where
  "walk_inv blocks L Q C D s \<longleftrightarrow> graph_inv blocks L Q C D s \<and> nodes_inv Q C D s \<and> edges_inv Q C s \<and> phis_inv C D s
     \<and> incoming_inv blocks C s \<and> calls_inv blocks s"

lemma graph_invD:
  assumes "graph_inv blocks L Q C D s"
  shows "linked (em_dag s)" "plan (em_dag s) D" "HASH_THRESHHOLD < d_numberOfPaths (em_dag s)"
    "mirrors blocks L (em_fn s) (em_dag s)" "e \<in> Q \<union> C \<Longrightarrow> cfg_edge (em_dag s) e" "e \<in> Q \<union> C \<Longrightarrow> \<not> stuck (em_dag s) e"
    "e \<in> Q \<union> C \<Longrightarrow> getSource (em_dag s) e = d_exit (em_dag s) \<or> entered C (em_dag s) (getSource (em_dag s) e)"
    "e \<in> Q \<union> C \<Longrightarrow> e \<in> set (d_edges (em_dag s))" "e \<in> Q \<union> C \<Longrightarrow> getSource (em_dag s) e \<in> set (d_nodes (em_dag s))"
    "e \<in> Q \<union> C \<Longrightarrow> getTarget (em_dag s) e \<in> set (d_nodes (em_dag s))"
    "e \<in> C \<Longrightarrow> single_out (em_dag s) (getSource (em_dag s) e) \<Longrightarrow> e \<in> Q"
  using assms linkedD(2,3) unfolding graph_inv_def cfg_edge_def by blast+

lemma nodes_invD:
  assumes "nodes_inv Q C D s" "v \<in> set (d_nodes (em_dag s))"
  shows "entered C (em_dag s) v \<Longrightarrow> v \<noteq> d_exit (em_dag s) \<Longrightarrow> (getEndingPathNumber (em_dag s) v \<noteq> None) = holds_at_end Q D (em_dag s) v"
    "entered C (em_dag s) v \<Longrightarrow> v \<noteq> d_exit (em_dag s) \<Longrightarrow> ready Q (em_dag s) v"
    "\<not> entered C (em_dag s) v \<or> v = d_exit (em_dag s) \<Longrightarrow> blank s v"
  using assms unfolding nodes_inv_def by (auto split: if_splits)

lemma walk_invD:
  assumes "walk_inv blocks L Q C D s"
  shows "graph_inv blocks L Q C D s" "nodes_inv Q C D s" "edges_inv Q C s" "phis_inv C D s" "incoming_inv blocks C s" "calls_inv blocks s"
  using assms by (simp_all add: walk_inv_def)

section \<open>The invariant and the split of an edge\<close>

lemma point_of_block:
  "call_fits bs n c \<Longrightarrow> point_of c = Some p \<Longrightarrow> point_block p \<in> bs"
  "call_fits bs n c \<Longrightarrow> phi_in b c = Some i \<Longrightarrow> b \<in> bs \<and> i < n"
  by (cases c; auto split: if_splits)+

lemma calls_inv_fresh:
  assumes "calls_inv blocks s" "b \<notin> blocks (em_fn s)"
  shows "block_code (em_calls s) b = []" "phis (em_calls s) b = []"
proof -
  have "point_of c \<noteq> Some p" if "c \<in> set (em_calls s)" "point_block p = b" for c p
    using assms that point_of_block(1) unfolding calls_inv_def by blast
  then show "block_code (em_calls s) b = []" by (auto simp: block_code_def code_at_def filter_empty_conv)
  have "phi_in b c = None" if "c \<in> set (em_calls s)" for c
    using assms that point_of_block(2) unfolding calls_inv_def by (cases "phi_in b c") blast+
  then show "phis (em_calls s) b = []" using set_map_filter [of "phi_in b" "em_calls s"] by (auto simp: phis_def)
qed

lemma call_fits_mono: "call_fits bs n c \<Longrightarrow> bs \<subseteq> bs' \<Longrightarrow> n \<le> n' \<Longrightarrow> call_fits bs' n' c"
  by (cases c) auto

definition splits_edge :: "('c \<Rightarrow> block_id set) \<Rightarrow> edge_id set \<Rightarrow> 'c emitter \<Rightarrow> edge_id \<Rightarrow> block_id \<Rightarrow> node_id \<Rightarrow> edge_id \<Rightarrow> 'c emitter \<Rightarrow> bool" where
  "splits_edge blocks X s f nb v g s' \<longleftrightarrow> is_split (em_dag s) f nb v g (em_dag s') \<and> cfg_edge (em_dag s) f \<and> f \<notin> X
     \<and> nb \<notin> blocks (em_fn s) \<and> blocks (em_fn s) \<subseteq> blocks (em_fn s') \<and> em_calls s' = em_calls s \<and> em_next s' = em_next s"

lemma splits_view:
  assumes sp: "splits_edge blocks (Q \<union> C) s f nb v g s'" and G: "graph_inv blocks L Q C D s"
  shows "u \<in> set (d_nodes (em_dag s)) \<Longrightarrow> u \<noteq> v"
    "e \<in> Q \<union> C \<Longrightarrow> e \<noteq> f \<and> e \<noteq> g" "e \<in> Q \<union> C \<Longrightarrow> getSource (em_dag s') e = getSource (em_dag s) e"
    "e \<in> Q \<union> C \<Longrightarrow> getTarget (em_dag s') e = getTarget (em_dag s) e"
    "entered C (em_dag s') = entered C (em_dag s)" "\<not> entered C (em_dag s) v"
    "u \<in> set (d_nodes (em_dag s)) \<Longrightarrow> single_out (em_dag s') u = single_out (em_dag s) u"
    "u \<in> set (d_nodes (em_dag s)) \<Longrightarrow> out_steps Q (em_dag s') u = out_steps Q (em_dag s) u"
    "u \<in> set (d_nodes (em_dag s)) \<Longrightarrow> getNumberPredEdges (em_dag s') u = getNumberPredEdges (em_dag s) u"
    "u \<in> set (d_nodes (em_dag s)) \<Longrightarrow> getBlock (em_dag s') u = getBlock (em_dag s) u"
    "u \<in> set (d_nodes (em_dag s)) \<Longrightarrow> getNumberSuccEdges (em_dag s') u = getNumberSuccEdges (em_dag s) u"
proof -
  let ?d = "em_dag s" and ?d' = "em_dag s'"
  have S: "is_split ?d f nb v g ?d'" and f: "cfg_edge ?d f" "f \<notin> Q \<union> C" using sp by (simp_all add: splits_edge_def)
  note d = is_splitD [OF S] and l = graph_invD(1) [OF G]
  have fE: "f \<in> set (d_edges ?d)" "\<not> is_phony ?d f" using f by (simp_all add: cfg_edge_def)
  note deg = is_split_degrees [OF l S fE]
  show nv: "u \<noteq> v" if "u \<in> set (d_nodes ?d)" for u using that d(1) by blast
  show ne: "e \<noteq> f \<and> e \<noteq> g" if "e \<in> Q \<union> C" for e using that f(2) graph_invD(8) [OF G that] d(2) by auto
  show "getSource ?d' e = getSource ?d e" if "e \<in> Q \<union> C" for e using ne [OF that] by (simp add: d(8))
  show tgt: "getTarget ?d' e = getTarget ?d e" if "e \<in> Q \<union> C" for e using ne [OF that] by (simp add: d(9))
  show "entered C ?d' = entered C ?d" using tgt by (auto simp: entered_def fun_eq_iff)
  show "\<not> entered C ?d v" using graph_invD(10) [OF G] nv by (auto simp: entered_def)
  assume u: "u \<in> set (d_nodes ?d)"
  show b: "getBlock ?d' u = getBlock ?d u" using nv [OF u] by (simp add: d(16))
  show n: "getNumberSuccEdges ?d' u = getNumberSuccEdges ?d u" by (rule deg(1) [OF u])
  show so: "single_out ?d' u = single_out ?d u" by (simp add: single_out_def b n)
  show "out_steps Q ?d' u = out_steps Q ?d u" using nv [OF u] by (simp add: out_steps_def so d(14))
  show "getNumberPredEdges ?d' u = getNumberPredEdges ?d u" by (rule deg(2) [OF u])
qed

lemma splits_numbers:
  assumes sp: "splits_edge blocks (Q \<union> C) s f nb v g s'" and u: "u \<in> set (d_nodes (em_dag s))"
  shows "getStartingPathNumber (em_dag s') u = getStartingPathNumber (em_dag s) u"
    "getEndingPathNumber (em_dag s') u = getEndingPathNumber (em_dag s) u" "getPathPHI (em_dag s') u = getPathPHI (em_dag s) u"
    "node_code s' u = node_code s u"
proof -
  have S: "is_split (em_dag s) f nb v g (em_dag s')" and c: "em_calls s' = em_calls s" using sp by (simp_all add: splits_edge_def)
  note d = is_splitD [OF S]
  have nv: "u \<noteq> v" using u d(1) by blast
  show "getStartingPathNumber (em_dag s') u = getStartingPathNumber (em_dag s) u"
    "getEndingPathNumber (em_dag s') u = getEndingPathNumber (em_dag s) u" "getPathPHI (em_dag s') u = getPathPHI (em_dag s) u"
    "node_code s' u = node_code s u"
    using nv by (simp_all add: d(16-19) node_code_def c split: option.split)
qed

lemma splits_fresh:
  assumes sp: "splits_edge blocks (Q \<union> C) s f nb v g s'" and K: "calls_inv blocks s"
  shows "blank s' v" "getPathPHI (em_dag s') v = None" "getBlock (em_dag s') v = Some nb" "phis (em_calls s') nb = []"
    "set (d_nodes (em_dag s')) = insert v (set (d_nodes (em_dag s)))" "d_exit (em_dag s') = d_exit (em_dag s)"
proof -
  have S: "is_split (em_dag s) f nb v g (em_dag s')" and c: "em_calls s' = em_calls s" "nb \<notin> blocks (em_fn s)"
    using sp by (simp_all add: splits_edge_def)
  note d = is_splitD [OF S]
  show "blank s' v" "getPathPHI (em_dag s') v = None" "getBlock (em_dag s') v = Some nb" "phis (em_calls s') nb = []"
    "set (d_nodes (em_dag s')) = insert v (set (d_nodes (em_dag s)))" "d_exit (em_dag s') = d_exit (em_dag s)"
    using calls_inv_fresh [OF K c(2)] by (simp_all add: d(3,6,16-19) blank_def node_code_def c(1))
qed

lemma splits_sem:
  assumes sp: "splits_edge blocks (Q \<union> C) s f nb v g s'" and G: "graph_inv blocks L Q C D s" and ls: "set ls \<subseteq> Q \<union> C"
  shows "sem (em_dag s') x ls cs y = sem (em_dag s) x ls cs y"
proof -
  have S: "is_split (em_dag s) f nb v g (em_dag s')" and f: "cfg_edge (em_dag s) f" "f \<notin> Q \<union> C" using sp by (simp_all add: splits_edge_def)
  have eq: "instrumented_step (em_dag s') e = instrumented_step (em_dag s) e" if "e \<in> Q \<union> C" for e
    using split_steps(1) [OF graph_invD(2) [OF G] S f(1) graph_invD(5) [OF G that]] that f(2) by blast
  have "fold_res (instrumented_step (em_dag s')) ls = fold_res (instrumented_step (em_dag s)) ls"
    using ls by (induction ls) (auto intro!: ext simp: eq)
  then show ?thesis by (simp add: sem_def)
qed

lemma graph_inv_split:
  assumes sp: "splits_edge blocks (Q \<union> C) s f nb v g s'" and G: "graph_inv blocks L Q C D s"
    and p: "mirrors blocks L (em_fn s') (em_dag s')"
  shows "graph_inv blocks L Q C (split_holds (em_dag s) f v D) s'"
proof -
  have S: "is_split (em_dag s) f nb v g (em_dag s')" and f: "cfg_edge (em_dag s) f" using sp by (simp_all add: splits_edge_def)
  note d = is_splitD [OF S] and V = splits_view [OF sp G] and l = graph_invD(1) [OF G]
  have fE: "f \<in> set (d_edges (em_dag s))" "\<not> is_phony (em_dag s) f" using f by (simp_all add: cfg_edge_def)
  have "cfg_edge (em_dag s') e \<and> \<not> stuck (em_dag s') e
      \<and> (getSource (em_dag s') e = d_exit (em_dag s') \<or> entered C (em_dag s') (getSource (em_dag s') e))" if e: "e \<in> Q \<union> C" for e
    using graph_invD(5-10) [OF G e] split_cfg_edge [OF S f] V(3,4) [OF e] V(5,9-11)
    by (simp add: stuck_def d(6))
  moreover have "d_numberOfPaths (em_dag s') = d_numberOfPaths (em_dag s)" by (rule d(7))
  moreover have "e \<in> Q" if "e \<in> C" "single_out (em_dag s') (getSource (em_dag s') e)" for e
  proof -
    have "e \<in> Q \<union> C" using that(1) by simp
    then show ?thesis using graph_invD(11) [OF G that(1)] that(2) V(3) V(7) [OF graph_invD(9) [OF G]] by metis
  qed
  ultimately show ?thesis
    unfolding graph_inv_def
    using is_split_linked [OF l S fE] split_plan [OF l graph_invD(2) [OF G] S f] graph_invD(3) [OF G] p by simp
qed

lemma nodes_inv_split:
  assumes sp: "splits_edge blocks (Q \<union> C) s f nb v g s'" and G: "graph_inv blocks L Q C D s" and K: "calls_inv blocks s"
    and N: "nodes_inv Q C D s"
  shows "nodes_inv Q C (split_holds (em_dag s) f v D) s'"
  unfolding nodes_inv_def
proof
  have S: "is_split (em_dag s) f nb v g (em_dag s')" and f: "cfg_edge (em_dag s) f" using sp by (simp_all add: splits_edge_def)
  note V = splits_view [OF sp G] and F = splits_fresh [OF sp K] and d = is_splitD [OF S]
  fix u
  assume u: "u \<in> set (d_nodes (em_dag s'))"
  show "if entered C (em_dag s') u \<and> u \<noteq> d_exit (em_dag s')
     then (getEndingPathNumber (em_dag s') u \<noteq> None) = holds_at_end Q (split_holds (em_dag s) f v D) (em_dag s') u \<and> ready Q (em_dag s') u
     else blank s' u"
  proof (cases "u = v")
    case True
    with F(1) V(5,6) show ?thesis by simp
  next
    case False
    with u F(5) have un: "u \<in> set (d_nodes (em_dag s))" by simp
    note Nu = splits_numbers [OF sp un]
    have "blank s' u = blank s u" by (simp add: blank_def Nu)
    moreover have "holds_at_end Q (split_holds (em_dag s) f v D) (em_dag s') u = holds_at_end Q D (em_dag s) u"
    proof -
      have "split_holds (em_dag s) f v D (getTarget (em_dag s') e) = D (getTarget (em_dag s) e)" if "e \<in> Q \<union> C" for e
        using V(4) [OF that] V(1) [OF graph_invD(10) [OF G that]] by (simp add: split_holds_def)
      moreover have "set (out_steps Q (em_dag s) u) \<subseteq> Q" by (auto simp: out_steps_def)
      moreover have Du: "split_holds (em_dag s) f v D u = D u" using V(1) [OF un] by (simp add: split_holds_def)
      ultimately show ?thesis
        using Du V(8) [OF un] by (auto simp: holds_at_end_def split: list.split)
    qed
    moreover have "ready Q (em_dag s') u" if "ready Q (em_dag s) u"
      unfolding ready_def
    proof (intro impI)
      assume "single_out (em_dag s') u" "out_steps Q (em_dag s') u = []"
      then have a: "single_out (em_dag s) u" "out_steps Q (em_dag s) u = []" using V(7,8) [OF un] by simp_all
      have "idle_edge (em_dag s') h" if "\<forall>h. cfg_edge (em_dag s) h \<longrightarrow> getSource (em_dag s) h = u \<longrightarrow> idle_edge (em_dag s) h"
        "cfg_edge (em_dag s') h" "getSource (em_dag s') h = u" for h
      proof -
        have "h \<noteq> g" using that(3) False by (auto simp: d(8))
        then have "cfg_edge (em_dag s) h" "getSource (em_dag s) h = u" using that(2,3) split_cfg_edge [OF S f] by (auto simp: d(8))
        then show ?thesis using split_idle [OF graph_invD(2) [OF G] S f] that(1) by blast
      qed
      then show "getStartingPathNumber (em_dag s') u = getEndingPathNumber (em_dag s') u
          \<or> (\<forall>h. cfg_edge (em_dag s') h \<longrightarrow> getSource (em_dag s') h = u \<longrightarrow> idle_edge (em_dag s') h)"
        using \<open>ready Q (em_dag s) u\<close> a unfolding ready_def Nu by blast
    qed
    ultimately show ?thesis using nodes_invD [OF N un] V(5) F(6) Nu by auto
  qed
qed

lemma edges_inv_split:
  assumes sp: "splits_edge blocks (Q \<union> C) s f nb v g s'" and G: "graph_inv blocks L Q C D s" and K: "calls_inv blocks s"
    and E: "edges_inv Q C s"
  shows "edges_inv Q C s'"
  unfolding edges_inv_def
proof (intro ballI impI)
  note V = splits_view [OF sp G] and F = splits_fresh [OF sp K]
  fix e
  assume "e \<in> C" and ne: "getTarget (em_dag s') e \<noteq> d_exit (em_dag s')"
  then have e: "e \<in> Q \<union> C" and eC: "e \<in> C" by simp_all
  note src = graph_invD(9) [OF G e] and tgt = graph_invD(10) [OF G e]
  have "carried (em_dag s') e = carried (em_dag s) e"
    using V(3,4) [OF e] V(9) [OF tgt] splits_numbers [OF sp src] splits_numbers [OF sp tgt] by (simp add: carried_def)
  moreover have "in_steps (em_dag s') e = in_steps (em_dag s) e" using V(3) [OF e] V(7) [OF src] by (simp add: in_steps_def)
  moreover have "set (in_steps (em_dag s) e @ out_steps Q (em_dag s) (getTarget (em_dag s) e)) \<subseteq> Q \<union> C"
    using eC by (auto simp: in_steps_def out_steps_def)
  ultimately show "sem (em_dag s') (carried (em_dag s') e) (in_steps (em_dag s') e @ out_steps Q (em_dag s') (getTarget (em_dag s') e))
       (node_code s' (getTarget (em_dag s') e)) (getEndingPathNumber (em_dag s') (getTarget (em_dag s') e))"
    using E eC ne V(4) [OF e] V(8) [OF tgt] splits_numbers [OF sp tgt] F(6) splits_sem [OF sp G]
    by (simp add: edges_inv_def)
qed

lemma phis_inv_split:
  assumes sp: "splits_edge blocks (Q \<union> C) s f nb v g s'" and G: "graph_inv blocks L Q C D s" and K: "calls_inv blocks s"
    and P: "phis_inv C D s"
  shows "phis_inv C (split_holds (em_dag s) f v D) s'"
proof -
  note V = splits_view [OF sp G] and F = splits_fresh [OF sp K] and Nu = splits_numbers [OF sp]
  have c: "em_calls s' = em_calls s" using sp by (simp add: splits_edge_def)
  have "\<not> entered C (em_dag s') v" using V(5,6) by simp
  then show ?thesis
    using P V(1,5,9,10) Nu(3) F(2-4,6) unfolding phis_inv_def F(5) c
    by (auto simp: split_holds_def)
qed

lemma incoming_inv_split:
  assumes sp: "splits_edge blocks (Q \<union> C) s f nb v g s'" and G: "graph_inv blocks L Q C D s" and K: "calls_inv blocks s"
    and I: "incoming_inv blocks C s"
  shows "incoming_inv blocks C s'"
  unfolding incoming_inv_def
proof (intro ballI allI impI)
  note V = splits_view [OF sp G] and F = splits_fresh [OF sp K]
  have c: "em_calls s' = em_calls s" "em_next s' = em_next s" "blocks (em_fn s) \<subseteq> blocks (em_fn s')" "nb \<notin> blocks (em_fn s)"
    using sp by (simp_all add: splits_edge_def)
  fix u i
  assume u: "u \<in> set (d_nodes (em_dag s'))" "getPathPHI (em_dag s') u = Some i"
  then have un: "u \<in> set (d_nodes (em_dag s))" using F(2,5) by auto
  have ui: "getPathPHI (em_dag s) u = Some i" using u(2) splits_numbers [OF sp un] by simp
  have old: "i < em_next s" "fst ` set (incoming (em_calls s) i) \<subseteq> blocks (em_fn s)"
    "\<forall>w\<in>set (d_nodes (em_dag s)). \<forall>p. getBlock (em_dag s) w = Some p \<longrightarrow> getNumberSuccEdges (em_dag s) w \<le> 1 \<longrightarrow>
       count_list (map fst (incoming (em_calls s) i)) p \<le> 1"
    "\<forall>e\<in>C. getTarget (em_dag s) e = u \<longrightarrow> (\<exists>p. getBlock (em_dag s) (getSource (em_dag s) e) = Some p
       \<and> map_of (incoming (em_calls s) i) p = getEndingPathNumber (em_dag s) (getSource (em_dag s) e))"
    using I un ui unfolding incoming_inv_def by blast+
  have "count_list (map fst (incoming (em_calls s) i)) p \<le> 1"
    if w: "w \<in> set (d_nodes (em_dag s'))" "getBlock (em_dag s') w = Some p" "getNumberSuccEdges (em_dag s') w \<le> 1" for w p
  proof (cases "w = v")
    case True
    then have "p = nb" using w(2) F(3) by simp
    then have "p \<notin> set (map fst (incoming (em_calls s) i))" using old(2) c(4) by auto
    then have "count_list (map fst (incoming (em_calls s) i)) p = 0" by (rule count_notin)
    then show ?thesis by simp
  next
    case False
    with w(1) F(5) have wn: "w \<in> set (d_nodes (em_dag s))" by simp
    show ?thesis using old(3) wn w(2,3) V(10,11) [OF wn] by simp
  qed
  moreover have "\<exists>p. getBlock (em_dag s') (getSource (em_dag s') e) = Some p
       \<and> map_of (incoming (em_calls s) i) p = getEndingPathNumber (em_dag s') (getSource (em_dag s') e)"
    if "e \<in> C" "getTarget (em_dag s') e = u" for e
  proof -
    have e: "e \<in> Q \<union> C" using that(1) by simp
    show ?thesis
      using old(4) that V(3,4) [OF e] V(10) [OF graph_invD(9) [OF G e]] splits_numbers [OF sp graph_invD(9) [OF G e]] by simp
  qed
  ultimately show "i < em_next s' \<and> fst ` set (incoming (em_calls s') i) \<subseteq> blocks (em_fn s')
     \<and> (\<forall>w\<in>set (d_nodes (em_dag s')). \<forall>p. getBlock (em_dag s') w = Some p \<longrightarrow> getNumberSuccEdges (em_dag s') w \<le> 1 \<longrightarrow>
          count_list (map fst (incoming (em_calls s') i)) p \<le> 1)
     \<and> (\<forall>e\<in>C. getTarget (em_dag s') e = u \<longrightarrow> (\<exists>p. getBlock (em_dag s') (getSource (em_dag s') e) = Some p
          \<and> map_of (incoming (em_calls s') i) p = getEndingPathNumber (em_dag s') (getSource (em_dag s') e)))"
    using old(1,2) c by auto
qed

lemma walk_inv_split:
  assumes sp: "splits_edge blocks (Q \<union> C) s f nb v g s'" and W: "walk_inv blocks L Q C D s"
    and m: "mirrors blocks L (em_fn s') (em_dag s')"
  shows "walk_inv blocks L Q C (split_holds (em_dag s) f v D) s'"
proof -
  note W = walk_invD [OF W]
  have "calls_inv blocks s'"
    using W(6) sp call_fits_mono unfolding calls_inv_def splits_edge_def by (metis order_refl)
  then show ?thesis
    using graph_inv_split [OF sp W(1) m] nodes_inv_split [OF sp W(1,6,2)] edges_inv_split [OF sp W(1,6,3)]
      phis_inv_split [OF sp W(1,6,4)] incoming_inv_split [OF sp W(1,6,5)]
    by (simp add: walk_inv_def)
qed

section \<open>Marking an edge\<close>

lemma plan_same:
  assumes t: "topo d' = topo d" and a: "acts d' = acts d"
  shows "plan d' = plan d" "cfg_edge d' = cfg_edge d" "stuck d' = stuck d"
proof -
  note t = topo_eqs [OF t] and a = acts_eq [OF a] and g = a [unfolded acts_def]
  have i: "isInitialization d' = isInitialization d" "isCounterIncrement d' = isCounterIncrement d"
    "getIncrement d' = getIncrement d" using g by simp_all
  show c: "cfg_edge d' = cfg_edge d" by (simp add: cfg_edge_def fun_eq_iff t a)
  show "plan d' = plan d" unfolding plan_def [abs_def] t a c i ..
  show "stuck d' = stuck d" by (simp add: stuck_def fun_eq_iff t)
qed

lemma walk_inv_mark:
  "walk_inv blocks L Q C D (on_dag (setHasInstrumentation e h) s) = walk_inv blocks L Q C D s"
proof -
  let ?d = "em_dag s" and ?d' = "setHasInstrumentation e h (em_dag s)"
  have t: "topo ?d' = topo ?d" and a: "acts ?d' = acts ?d" by simp_all
  note t' = topo_eqs [OF t] topo_eq_linked(2) [OF t] and a' = acts_eq [OF a] sem_acts [OF a] and p = plan_same [OF t a]
  have m: "mirrors blocks L F ?d' = mirrors blocks L F ?d" for F by (simp add: mirrors_def target_block_def [abs_def] t')
  have v: "entered C ?d' = entered C ?d" "single_out ?d' = single_out ?d" by (simp_all add: entered_def single_out_def fun_eq_iff t')
  have w: "out_steps Q ?d' = out_steps Q ?d" "in_steps ?d' = in_steps ?d" "carried ?d' = carried ?d"
    by (simp_all add: out_steps_def in_steps_def carried_def fun_eq_iff t' v)
  have x: "holds_at_end Q D ?d' = holds_at_end Q D ?d" "ready Q ?d' = ready Q ?d"
    by (simp_all add: holds_at_end_def ready_def fun_eq_iff t' v w a' p split: list.split)
  have y: "node_code (on_dag (setHasInstrumentation e h) s) = node_code s"
    by (simp add: node_code_def fun_eq_iff t' split: option.split)
  have z: "blank (on_dag (setHasInstrumentation e h) s) = blank s" by (simp add: blank_def fun_eq_iff y)
  show ?thesis
    unfolding walk_inv_def graph_inv_def nodes_inv_def edges_inv_def phis_inv_def incoming_inv_def calls_inv_def
    by (simp add: t' a' p m v w x y z)
qed

end
