(* ===== verification/BL_Cross.thy ===== *)
theory BL_Cross
  imports BL_Inv
begin

text \<open>
  Crossing an edge keeps the invariant of the walk: the code is put at the end of
  the source or the beginning of the target, and the value is handed on to the
  target, directly or through its PHI.
\<close>

section \<open>What stays the same\<close>

lemma keeps_view:
  assumes k: "keeps_graph s s'"
  shows "topo (em_dag s') = topo (em_dag s)" "em_fn s' = em_fn s" "d_numberOfPaths (em_dag s') = d_numberOfPaths (em_dag s)"
    "em_next s \<le> em_next s'" "linked (em_dag s') = linked (em_dag s)" "plan (em_dag s') = plan (em_dag s)"
    "cfg_edge (em_dag s') = cfg_edge (em_dag s)" "stuck (em_dag s') = stuck (em_dag s)" "sem (em_dag s') = sem (em_dag s)"
    "idle_edge (em_dag s') = idle_edge (em_dag s)" "mirrors blocks L F (em_dag s') = mirrors blocks L F (em_dag s)"
    "entered C (em_dag s') = entered C (em_dag s)" "single_out (em_dag s') = single_out (em_dag s)"
    "out_steps Q (em_dag s') = out_steps Q (em_dag s)" "in_steps (em_dag s') = in_steps (em_dag s)"
    "holds_at_end Q D (em_dag s') = holds_at_end Q D (em_dag s)"
proof -
  show t: "topo (em_dag s') = topo (em_dag s)" using k by (simp add: keeps_graph_def same_graph_def)
  have a: "acts (em_dag s') = acts (em_dag s)" using k by (simp add: keeps_graph_def)
  note t' = topo_eqs [OF t] and p = plan_same [OF t a]
  show "em_fn s' = em_fn s" "d_numberOfPaths (em_dag s') = d_numberOfPaths (em_dag s)" "em_next s \<le> em_next s'"
    using k by (simp_all add: keeps_graph_def same_graph_def)
  show "linked (em_dag s') = linked (em_dag s)" using topo_eq_linked(2) [OF t] .
  show "plan (em_dag s') = plan (em_dag s)" "cfg_edge (em_dag s') = cfg_edge (em_dag s)" "stuck (em_dag s') = stuck (em_dag s)" by (rule p)+
  show "sem (em_dag s') = sem (em_dag s)" by (rule sem_acts [OF a])
  show "idle_edge (em_dag s') = idle_edge (em_dag s)" by (rule acts_eq [OF a])
  show "mirrors blocks L F (em_dag s') = mirrors blocks L F (em_dag s)" by (simp add: mirrors_def target_block_def [abs_def] t')
  show "entered C (em_dag s') = entered C (em_dag s)" by (simp add: entered_def fun_eq_iff t')
  show so: "single_out (em_dag s') = single_out (em_dag s)" by (simp add: single_out_def fun_eq_iff t')
  show o: "out_steps Q (em_dag s') = out_steps Q (em_dag s)" by (simp add: out_steps_def fun_eq_iff t' so)
  show "in_steps (em_dag s') = in_steps (em_dag s)" by (simp add: in_steps_def fun_eq_iff t' so)
  show "holds_at_end Q D (em_dag s') = holds_at_end Q D (em_dag s)" by (simp add: holds_at_end_def fun_eq_iff t' o split: list.split)
qed

lemma out_steps_insert:
  assumes l: "linked d" and e: "cfg_edge d e"
  shows "v \<in> set (d_nodes d) \<Longrightarrow> v \<noteq> getSource d e \<or> \<not> single_out d v \<Longrightarrow> out_steps (insert e Q) d v = out_steps Q d v"
    "single_out d (getSource d e) \<Longrightarrow> out_steps Q d (getSource d e) = filter (\<lambda>e. e \<in> Q) [e]"
    "single_out d (getSource d e) \<Longrightarrow> cfg_edge d f \<Longrightarrow> getSource d f = getSource d e \<Longrightarrow> f = e"
proof -
  have eE: "e \<in> set (d_edges d)" "\<not> is_phony d e" using e by (simp_all add: cfg_edge_def)
  note u = linkedD(2) [OF l eE(1)]
  show "out_steps (insert e Q) d v = out_steps Q d v" if "v \<in> set (d_nodes d)" "v \<noteq> getSource d e \<or> \<not> single_out d v"
    using that linkedD(6) [OF l that(1)] by (auto simp: out_steps_def intro!: filter_cong)
  have one: "succEdges d (getSource d e) = [e]" if "single_out d (getSource d e)"
  proof -
    have "e \<in> set (succEdges d (getSource d e))" using linkedD(6) [OF l u] eE by simp
    moreover have "length (succEdges d (getSource d e)) \<le> 1" using that by (simp add: single_out_def getNumberSuccEdges_def)
    ultimately show ?thesis by (cases "succEdges d (getSource d e)") auto
  qed
  show "out_steps Q d (getSource d e) = filter (\<lambda>e. e \<in> Q) [e]" if "single_out d (getSource d e)"
    using that one by (simp add: out_steps_def)
  show "f = e" if "single_out d (getSource d e)" "cfg_edge d f" "getSource d f = getSource d e"
    using one [OF that(1)] linkedD(6) [OF l u] that(2,3) by (auto simp: cfg_edge_def)
qed

section \<open>Code that is appended\<close>

lemma code_at_append [simp]: "code_at (cs @ cs') p = code_at cs p @ code_at cs' p"
  by (simp add: code_at_def)

lemma block_code_end:
  assumes "\<forall>c\<in>set cs'. point_of c = Some (TerminatorOf b')"
  shows "block_code (cs @ cs') b = block_code cs b @ (if b = b' then cs' else [])"
proof -
  have "code_at cs' p = (if p = TerminatorOf b' then cs' else [])" for p
    using assms by (auto simp: code_at_def filter_empty_conv filter_id_conv)
  then show ?thesis by (simp add: block_code_def)
qed

lemma block_code_pointless:
  assumes "\<forall>c\<in>set cs'. point_of c = None"
  shows "block_code (cs @ cs') b = block_code cs b"
proof -
  have "code_at cs' p = []" for p using assms by (auto simp: code_at_def filter_empty_conv)
  then show ?thesis by (simp add: block_code_def)
qed

lemma block_code_begin:
  assumes "\<forall>c\<in>set cs'. point_of c = Some (FirstInsertionPt b') \<or> point_of c = Some (TerminatorOf b')"
    and "cs' = code_at cs' (FirstInsertionPt b') @ code_at cs' (TerminatorOf b')" and "block_code cs b' = []"
  shows "block_code (cs @ cs') b = (if b = b' then cs' else block_code cs b)"
proof -
  have n: "code_at cs' p = []" if "p \<noteq> FirstInsertionPt b'" "p \<noteq> TerminatorOf b'" for p
    using assms(1) that by (auto simp: code_at_def filter_empty_conv)
  show ?thesis using assms(2,3) by (cases "b = b'") (simp_all add: block_code_def n)
qed

lemma no_phi_calls:
  assumes "\<forall>c\<in>set cs'. point_of c \<noteq> None"
  shows "phis (cs @ cs') b = phis cs b" "incoming (cs @ cs') i = incoming cs i"
proof -
  have "phi_in b c = None" "incoming_step i c xs = xs" if "c \<in> set cs'" for c xs using assms that by (cases c; auto)+
  then have "List.map_filter (phi_in b) cs' = []" "fold (incoming_step i) cs' xs = xs" for xs
    by (induction cs' arbitrary: xs) (auto simp: List.map_filter_simps)
  then show "phis (cs @ cs') b = phis cs b" "incoming (cs @ cs') i = incoming cs i" by (simp_all add: phis_def incoming_def)
qed

lemma point_call_fits: "point_of c = Some p \<Longrightarrow> point_block p \<in> bs \<Longrightarrow> call_fits bs n c"
  by (cases c) auto

lemma calls_inv_append:
  assumes "calls_inv blocks s" "em_calls s' = em_calls s @ cs" "em_fn s' = em_fn s" "em_next s \<le> em_next s'"
    and "\<forall>c\<in>set cs. call_fits (blocks (em_fn s)) (em_next s') c"
  shows "calls_inv blocks s'"
proof -
  have "call_fits (blocks (em_fn s)) (em_next s') c" if "c \<in> set (em_calls s)" for c
    using assms(1,4) that call_fits_mono [OF _ order_refl] unfolding calls_inv_def by blast
  with assms(2,3,5) show ?thesis by (auto simp: calls_inv_def)
qed

section \<open>Code at the end of the source\<close>

definition ends_edge :: "('c \<Rightarrow> block_id set) \<Rightarrow> 'c llvm \<Rightarrow> edge_id set \<Rightarrow> edge_id set \<Rightarrow> (node_id \<Rightarrow> bool) \<Rightarrow>
    'c emitter \<Rightarrow> edge_id \<Rightarrow> block_id \<Rightarrow> ir_call list \<Rightarrow> 'c emitter \<Rightarrow> bool" where
  "ends_edge blocks L Q C D s e b cs s' \<longleftrightarrow> walk_inv blocks L Q C D s \<and> cfg_edge (em_dag s) e \<and> e \<notin> Q \<and> e \<notin> C
     \<and> single_out (em_dag s) (getSource (em_dag s) e) \<and> entered C (em_dag s) (getSource (em_dag s) e)
     \<and> getBlock (em_dag s) (getSource (em_dag s) e) = Some b
     \<and> keeps_graph s s' \<and> getPathPHI (em_dag s') = getPathPHI (em_dag s)
     \<and> (\<forall>w. w \<noteq> getSource (em_dag s) e \<longrightarrow> getStartingPathNumber (em_dag s') w = getStartingPathNumber (em_dag s) w
          \<and> getEndingPathNumber (em_dag s') w = getEndingPathNumber (em_dag s) w)
     \<and> em_calls s' = em_calls s @ cs \<and> (\<forall>c\<in>set cs. point_of c = Some (TerminatorOf b))
     \<and> sem (em_dag s) (getEndingPathNumber (em_dag s) (getSource (em_dag s) e)) [e] cs
         (getEndingPathNumber (em_dag s') (getSource (em_dag s) e))
     \<and> (getEndingPathNumber (em_dag s') (getSource (em_dag s) e) \<noteq> None) = D (getTarget (em_dag s) e)"

lemma ends_edge_view:
  assumes "ends_edge blocks L Q C D s e b cs s'"
  shows "walk_inv blocks L Q C D s" "cfg_edge (em_dag s) e" "e \<notin> Q" "e \<notin> C"
    "single_out (em_dag s) (getSource (em_dag s) e)" "entered C (em_dag s) (getSource (em_dag s) e)"
    "getBlock (em_dag s) (getSource (em_dag s) e) = Some b"
    "keeps_graph s s'" "getPathPHI (em_dag s') = getPathPHI (em_dag s)"
    "w \<noteq> getSource (em_dag s) e \<Longrightarrow> getStartingPathNumber (em_dag s') w = getStartingPathNumber (em_dag s) w"
    "w \<noteq> getSource (em_dag s) e \<Longrightarrow> getEndingPathNumber (em_dag s') w = getEndingPathNumber (em_dag s) w"
    "em_calls s' = em_calls s @ cs" "\<forall>c\<in>set cs. point_of c = Some (TerminatorOf b)"
    "sem (em_dag s) (getEndingPathNumber (em_dag s) (getSource (em_dag s) e)) [e] cs
         (getEndingPathNumber (em_dag s') (getSource (em_dag s) e))"
    "(getEndingPathNumber (em_dag s') (getSource (em_dag s) e) \<noteq> None) = D (getTarget (em_dag s) e)"
    "e \<in> set (d_edges (em_dag s))" "getSource (em_dag s) e \<in> set (d_nodes (em_dag s))" "getTarget (em_dag s) e \<in> set (d_nodes (em_dag s))"
    "f \<in> C \<Longrightarrow> getSource (em_dag s) f \<noteq> getSource (em_dag s) e"
proof -
  show W: "walk_inv blocks L Q C D s" and e: "cfg_edge (em_dag s) e" "e \<notin> Q" "e \<notin> C"
    "single_out (em_dag s) (getSource (em_dag s) e)" "entered C (em_dag s) (getSource (em_dag s) e)"
    "getBlock (em_dag s) (getSource (em_dag s) e) = Some b"
    "keeps_graph s s'" "getPathPHI (em_dag s') = getPathPHI (em_dag s)"
    "w \<noteq> getSource (em_dag s) e \<Longrightarrow> getStartingPathNumber (em_dag s') w = getStartingPathNumber (em_dag s) w"
    "w \<noteq> getSource (em_dag s) e \<Longrightarrow> getEndingPathNumber (em_dag s') w = getEndingPathNumber (em_dag s) w"
    "em_calls s' = em_calls s @ cs" "\<forall>c\<in>set cs. point_of c = Some (TerminatorOf b)"
    "sem (em_dag s) (getEndingPathNumber (em_dag s) (getSource (em_dag s) e)) [e] cs
         (getEndingPathNumber (em_dag s') (getSource (em_dag s) e))"
    "(getEndingPathNumber (em_dag s') (getSource (em_dag s) e) \<noteq> None) = D (getTarget (em_dag s) e)"
    using assms unfolding ends_edge_def by blast+
  note G = walk_invD(1) [OF W] note l = graph_invD(1) [OF G]
  show eE: "e \<in> set (d_edges (em_dag s))" using e(1) by (simp add: cfg_edge_def)
  show "getSource (em_dag s) e \<in> set (d_nodes (em_dag s))" "getTarget (em_dag s) e \<in> set (d_nodes (em_dag s))"
    using linkedD(2,3) [OF l eE] .
  show "getSource (em_dag s) f \<noteq> getSource (em_dag s) e" if "f \<in> C"
    using out_steps_insert(3) [OF l e(1,4), of f] graph_invD(5) [OF G, of f] that e(3) by auto
qed

lemma ends_edge_code:
  assumes H: "ends_edge blocks L Q C D s e b cs s'" and v: "v \<in> set (d_nodes (em_dag s))"
  shows "node_code s' v = node_code s v @ (if v = getSource (em_dag s) e then cs else [])"
proof -
  note h = ends_edge_view [OF H]
  have m: "mirrors blocks L (em_fn s) (em_dag s)" using walk_invD(1) [OF h(1)] by (rule graph_invD)
  note t = topo_eqs [OF keeps_view(1) [OF h(8)]]
  show ?thesis
  proof (cases "getBlock (em_dag s) v")
    case None
    with h(7) show ?thesis by (auto simp: node_code_def t)
  next
    case (Some c)
    have "v = getSource (em_dag s) e \<longleftrightarrow> c = b" using mirrorsD(1) [OF m v h(17)] Some h(7) by auto
    then show ?thesis using Some block_code_end [OF h(13)] by (simp add: node_code_def t h(12))
  qed
qed

lemma ends_edge_nodes:
  assumes H: "ends_edge blocks L Q C D s e b cs s'"
  shows "nodes_inv (insert e Q) C D s'"
  unfolding nodes_inv_def
proof
  note h = ends_edge_view [OF H] note W = walk_invD [OF h(1)] note k = keeps_view [OF h(8)]
  note t = topo_eqs [OF k(1)] note l = graph_invD(1) [OF W(1)]
  fix v
  assume "v \<in> set (d_nodes (em_dag s'))"
  then have v: "v \<in> set (d_nodes (em_dag s))" by (simp add: t)
  note N = nodes_invD [OF W(2) v]
  show "if entered C (em_dag s') v \<and> v \<noteq> d_exit (em_dag s')
     then (getEndingPathNumber (em_dag s') v \<noteq> None) = holds_at_end (insert e Q) D (em_dag s') v \<and> ready (insert e Q) (em_dag s') v
     else blank s' v"
  proof (cases "v = getSource (em_dag s) e")
    case True
    have "v \<noteq> d_exit (em_dag s)" using mirrorsD(2) [OF graph_invD(4) [OF W(1)] v] h(7) True by auto
    moreover have "out_steps (insert e Q) (em_dag s) v = [e]" using out_steps_insert(2) [OF l h(2,5)] True by simp
    ultimately show ?thesis using h(6,15) True by (simp add: k t holds_at_end_def ready_def)
  next
    case False
    note o = out_steps_insert(1) [OF l h(2) v, of Q] False
    have "holds_at_end (insert e Q) D (em_dag s') v = holds_at_end Q D (em_dag s) v" using o by (simp add: k holds_at_end_def)
    moreover have "ready (insert e Q) (em_dag s') v = ready Q (em_dag s) v"
      using o h(10,11) by (simp add: k t ready_def)
    moreover have "blank s' v = blank s v" using ends_edge_code [OF H v] False h(10,11) by (simp add: blank_def)
    ultimately show ?thesis using N h(11) False by (auto simp: k t)
  qed
qed

lemma ends_edge_edges:
  assumes H: "ends_edge blocks L Q C D s e b cs s'"
  shows "edges_inv (insert e Q) C s'"
  unfolding edges_inv_def
proof (intro ballI impI)
  note h = ends_edge_view [OF H] note W = walk_invD [OF h(1)] note k = keeps_view [OF h(8)]
  note t = topo_eqs [OF k(1)] note l = graph_invD(1) [OF W(1)]
  fix x
  assume x: "x \<in> C" and ne: "getTarget (em_dag s') x \<noteq> d_exit (em_dag s')"
  let ?v = "getTarget (em_dag s) x"
  have v: "?v \<in> set (d_nodes (em_dag s))" using graph_invD(10) [OF W(1), of x] x by simp
  have old: "sem (em_dag s) (carried (em_dag s) x) (in_steps (em_dag s) x @ out_steps Q (em_dag s) ?v) (node_code s ?v)
      (getEndingPathNumber (em_dag s) ?v)"
    using W(3) x ne by (simp add: edges_inv_def t)
  have car: "carried (em_dag s') x = carried (em_dag s) x" using h(11) [OF h(19) [OF x]] by (simp add: carried_def t h(9))
  show "sem (em_dag s') (carried (em_dag s') x) (in_steps (em_dag s') x @ out_steps (insert e Q) (em_dag s') (getTarget (em_dag s') x))
       (node_code s' (getTarget (em_dag s') x)) (getEndingPathNumber (em_dag s') (getTarget (em_dag s') x))"
  proof (cases "?v = getSource (em_dag s) e")
    case True
    have "out_steps Q (em_dag s) ?v = []" "out_steps (insert e Q) (em_dag s) ?v = [e]"
      using out_steps_insert(2) [OF l h(2,5)] True h(3) by simp_all
    moreover have "node_code s' ?v = node_code s ?v @ cs" using ends_edge_code [OF H v] True by simp
    ultimately show ?thesis using sem_append [OF old, of "[e]" cs] h(14) True by (simp add: k(9,14,15) t car)
  next
    case False
    with old h(11) [OF False] out_steps_insert(1) [OF l h(2) v, of Q] show ?thesis
      by (simp add: k(9,14,15) t car ends_edge_code [OF H v])
  qed
qed

lemma ends_edge_inv:
  assumes H: "ends_edge blocks L Q C D s e b cs s'"
  shows "walk_inv blocks L (insert e Q) C D s'"
proof -
  note h = ends_edge_view [OF H] note W = walk_invD [OF h(1)] note k = keeps_view [OF h(8)]
  note t = topo_eqs [OF k(1)] note G = graph_invD [OF W(1)]
  have np: "\<forall>c\<in>set cs. point_of c \<noteq> None" using h(13) by auto
  have "\<not> stuck (em_dag s) e" using h(5) by (auto simp: stuck_def single_out_def)
  then have "graph_inv blocks L (insert e Q) C D s'"
    using W(1) h(2,6) unfolding graph_inv_def by (simp add: k t)
  moreover have "phis_inv C D s'" using W(4) unfolding phis_inv_def by (simp add: k t h(9,12) no_phi_calls [OF np])
  moreover have "incoming_inv blocks C s'"
  proof -
    have "getEndingPathNumber (em_dag s') (getSource (em_dag s) x) = getEndingPathNumber (em_dag s) (getSource (em_dag s) x)" if "x \<in> C" for x
      using h(11) [OF h(19) [OF that]] .
    then show ?thesis
      using W(5) order_less_le_trans [OF _ k(4)] unfolding incoming_inv_def k(2) t(1) t(12,13) h(9,12) no_phi_calls [OF np]
      by (simp add: t)
  qed
  moreover have "calls_inv blocks s'"
  proof -
    have "b \<in> blocks (em_fn s)" using mirrorsD(3) [OF G(4) h(17,7)] .
    then have "call_fits (blocks (em_fn s)) n c" if "c \<in> set cs" for c n using h(13) that point_call_fits by fastforce
    then show ?thesis by (intro calls_inv_append [OF W(6) h(12) k(2,4)]) blast
  qed
  ultimately show ?thesis using ends_edge_nodes [OF H] ends_edge_edges [OF H] by (simp add: walk_inv_def)
qed

lemma emit_at_source:
  assumes W: "walk_inv blocks L Q C D s" and e: "cfg_edge (em_dag s) e" "e \<notin> Q" "e \<notin> C"
    and u: "single_out (em_dag s) (getSource (em_dag s) e)" "entered C (em_dag s) (getSource (em_dag s) e)"
  obtains b cs s' where "emit_edge e (getSource (em_dag s) e) False s = Inr s'" "ends_edge blocks L Q C D s e b cs s'"
proof -
  let ?d = "em_dag s" and ?u = "getSource (em_dag s) e"
  note G = graph_invD [OF walk_invD(1) [OF W]]
  have un: "?u \<in> set (d_nodes ?d)" using linkedD(2) [OF G(1)] e(1) by (simp add: cfg_edge_def)
  obtain b where b: "getBlock ?d ?u = Some b" using u(1) by (auto simp: single_out_def)
  then have ne: "?u \<noteq> d_exit ?d" using mirrorsD(2) [OF G(4) un] by auto
  note N = nodes_invD [OF walk_invD(2) [OF W] un]
  have out: "out_steps Q ?d ?u = []" using out_steps_insert(2) [OF G(1) e(1) u(1)] e(2) by simp
  have "(getEndingPathNumber ?d ?u \<noteq> None) = D ?u" using N(1) [OF u(2) ne] out by (simp add: holds_at_end_def)
  then have t: "step_typed ?d e (getEndingPathNumber ?d ?u \<noteq> None) (D (getTarget ?d e))" using planD(1) [OF G(2) e(1)] by simp
  have se: "getStartingPathNumber ?d ?u = getEndingPathNumber ?d ?u \<or> idle_edge ?d e"
    using N(2) [OF u(2) ne] out u(1) e(1) by (auto simp: ready_def)
  obtain s' cs where s': "emit_edge e ?u False s = Inr s'" "emit_frame s ?u b False s'" "em_calls s' = em_calls s @ cs"
    "sem ?d (getEndingPathNumber ?d ?u) [e] cs (getEndingPathNumber (em_dag s') ?u)"
    "(getEndingPathNumber (em_dag s') ?u \<noteq> None) = D (getTarget ?d e)"
    using b G(3) t se by (rule emit_edge_effect)
  have "\<forall>c\<in>set cs. point_of c = Some (TerminatorOf b)"
  proof -
    have "(\<forall>c\<in>set cs. point_of c = Some (FirstInsertionPt b) \<or> point_of c = Some (TerminatorOf b)) \<and> code_at cs (FirstInsertionPt b) = []"
      using s'(2,3) by (auto simp: emit_frame_def)
    then show ?thesis by (auto simp: code_at_def filter_empty_conv)
  qed
  then have "ends_edge blocks L Q C D s e b cs s'"
    using W e u b s' unfolding ends_edge_def emit_frame_def by blast
  with s'(1) that show thesis by blast
qed

section \<open>Entering the target\<close>

lemma edges_invD:
  assumes "edges_inv Q C s" "e \<in> C" "getTarget (em_dag s) e \<noteq> d_exit (em_dag s)"
  shows "sem (em_dag s) (carried (em_dag s) e) (in_steps (em_dag s) e @ out_steps Q (em_dag s) (getTarget (em_dag s) e))
     (node_code s (getTarget (em_dag s) e)) (getEndingPathNumber (em_dag s) (getTarget (em_dag s) e))"
  using assms by (simp add: edges_inv_def)

lemma entered_insert: "entered (insert e C) d v \<longleftrightarrow> entered C d v \<or> v = getTarget d e"
  by (auto simp: entered_def)

text \<open>A node that is not entered has no code and no crossed edges.\<close>

lemma not_entered:
  assumes W: "walk_inv blocks L Q C D s" and v: "v \<in> set (d_nodes (em_dag s))" "\<not> entered C (em_dag s) v" "v \<noteq> d_exit (em_dag s)"
  shows "out_steps Q (em_dag s) v = []" "x \<in> C \<Longrightarrow> getSource (em_dag s) x \<noteq> v" "x \<in> C \<Longrightarrow> getTarget (em_dag s) x \<noteq> v"
    "getStartingPathNumber (em_dag s) v = None" "getEndingPathNumber (em_dag s) v = None" "node_code s v = []"
    "getPathPHI (em_dag s) v = None"
proof -
  note W = walk_invD [OF W] note G = graph_invD [OF W(1)]
  have q: "getSource (em_dag s) x \<noteq> v" if "x \<in> Q \<union> C" for x using G(7) [OF that] v(2,3) by auto
  then show "x \<in> C \<Longrightarrow> getSource (em_dag s) x \<noteq> v" by blast
  have "x \<notin> Q" if "x \<in> set (succEdges (em_dag s) v)" for x using that linkedD(6) [OF G(1) v(1)] q by auto
  then show "out_steps Q (em_dag s) v = []" by (auto simp: out_steps_def filter_empty_conv)
  show "x \<in> C \<Longrightarrow> getTarget (em_dag s) x \<noteq> v" using v(2) by (auto simp: entered_def)
  show "getStartingPathNumber (em_dag s) v = None" "getEndingPathNumber (em_dag s) v = None" "node_code s v = []"
    using nodes_invD(3) [OF W(2) v(1)] v(2) by (simp_all add: blank_def)
  show "getPathPHI (em_dag s) v = None" using W(4) v unfolding phis_inv_def by blast
qed

text \<open>Two crossed edges into a node are both followed through its PHI.\<close>

lemma two_preds:
  assumes l: "linked d" and e: "cfg_edge d e" "cfg_edge d f" "getTarget d e = getTarget d f" "e \<noteq> f"
  shows "getNumberPredEdges d (getTarget d f) \<noteq> 1"
proof -
  have "f \<in> set (d_edges d)" using e(2) by (simp add: cfg_edge_def)
  note v = linkedD(3) [OF l this]
  have "e \<in> set (predEdges d (getTarget d f))" "f \<in> set (predEdges d (getTarget d f))"
    using linkedD(7) [OF l v] e by (auto simp: cfg_edge_def)
  then show ?thesis using two_members_length [OF _ _ e(4), of "predEdges d (getTarget d f)"] by (simp add: getNumberPredEdges_def)
qed

lemma same_carried:
  assumes G: "graph_inv blocks L Q C D s" and e: "e \<in> Q \<union> C" "f \<in> Q \<union> C" "getTarget (em_dag s) e = getTarget (em_dag s) f" "e \<noteq> f"
  shows "carried (em_dag s) e = carried (em_dag s) f"
    "in_steps (em_dag s) e = []" "in_steps (em_dag s) f = []"
    "getNumberPredEdges (em_dag s) (getTarget (em_dag s) f) \<noteq> 1"
proof -
  note G = graph_invD [OF G]
  show n: "getNumberPredEdges (em_dag s) (getTarget (em_dag s) f) \<noteq> 1" using two_preds [OF G(1) G(5) G(5)] e by blast
  then show "carried (em_dag s) e = carried (em_dag s) f" by (simp add: carried_def e(3))
  show "in_steps (em_dag s) e = []" "in_steps (em_dag s) f = []"
    using G(6) [OF e(1)] G(6) [OF e(2)] n e(3) by (auto simp: in_steps_def stuck_def single_out_def)
qed

lemma enter_graph:
  assumes G: "graph_inv blocks L Q C D s" and e: "e \<in> Q"
  shows "graph_inv blocks L Q (insert e C) D s"
  using G e unfolding graph_inv_def entered_insert by auto

definition enters_edge :: "('c \<Rightarrow> block_id set) \<Rightarrow> 'c llvm \<Rightarrow> edge_id set \<Rightarrow> edge_id set \<Rightarrow> (node_id \<Rightarrow> bool) \<Rightarrow>
    'c emitter \<Rightarrow> edge_id \<Rightarrow> bool" where
  "enters_edge blocks L Q C D s e \<longleftrightarrow> walk_inv blocks L Q C D s \<and> e \<in> Q \<and> e \<notin> C
     \<and> single_out (em_dag s) (getSource (em_dag s) e)"

lemma enters_edge_view:
  assumes "enters_edge blocks L Q C D s e"
  shows "walk_inv blocks L Q C D s" "e \<in> Q" "e \<notin> C" "single_out (em_dag s) (getSource (em_dag s) e)" "cfg_edge (em_dag s) e"
    "getSource (em_dag s) e \<in> set (d_nodes (em_dag s))" "getTarget (em_dag s) e \<in> set (d_nodes (em_dag s))"
    "getSource (em_dag s) e \<noteq> d_exit (em_dag s)" "entered C (em_dag s) (getSource (em_dag s) e)"
    "(getEndingPathNumber (em_dag s) (getSource (em_dag s) e) \<noteq> None) = D (getTarget (em_dag s) e)"
    "f \<in> C \<Longrightarrow> getSource (em_dag s) f \<noteq> getSource (em_dag s) e" "in_steps (em_dag s) e = []"
    "D (getTarget (em_dag s) e) \<Longrightarrow> getTarget (em_dag s) e \<noteq> d_exit (em_dag s)"
proof -
  show W: "walk_inv blocks L Q C D s" and e: "e \<in> Q" "e \<notin> C" and so: "single_out (em_dag s) (getSource (em_dag s) e)"
    using assms by (simp_all add: enters_edge_def)
  note G = graph_invD [OF walk_invD(1) [OF W]]
  have eX: "e \<in> Q \<union> C" using e by simp
  show c: "cfg_edge (em_dag s) e" and un: "getSource (em_dag s) e \<in> set (d_nodes (em_dag s))"
    "getTarget (em_dag s) e \<in> set (d_nodes (em_dag s))" using G(5,9,10) [OF eX] .
  show ne: "getSource (em_dag s) e \<noteq> d_exit (em_dag s)" using mirrorsD(2) [OF G(4) un(1)] so by (auto simp: single_out_def)
  then show en: "entered C (em_dag s) (getSource (em_dag s) e)" using G(7) [OF eX] by blast
  show "(getEndingPathNumber (em_dag s) (getSource (em_dag s) e) \<noteq> None) = D (getTarget (em_dag s) e)"
    using nodes_invD(1) [OF walk_invD(2) [OF W] un(1) en ne] out_steps_insert(2) [OF G(1) c so] e(1) by (simp add: holds_at_end_def)
  show "getSource (em_dag s) f \<noteq> getSource (em_dag s) e" if "f \<in> C"
    using out_steps_insert(3) [OF G(1) c so, of f] G(5) [of f] that e(2) by auto
  show "in_steps (em_dag s) e = []" using so by (simp add: in_steps_def)
  show "D (getTarget (em_dag s) e) \<Longrightarrow> getTarget (em_dag s) e \<noteq> d_exit (em_dag s)" using planD(8) [OF G(2)] by auto
qed

text \<open>Nothing is handed on when the register is empty.\<close>

lemma enter_empty:
  assumes H: "enters_edge blocks L Q C D s e" and nD: "\<not> D (getTarget (em_dag s) e)"
  shows "walk_inv blocks L Q (insert e C) D s"
proof -
  note h = enters_edge_view [OF H] note W = walk_invD [OF h(1)] note G = graph_invD [OF W(1)]
  let ?v = "getTarget (em_dag s) e"
  have new: "\<not> entered C (em_dag s) ?v \<Longrightarrow> ?v \<noteq> d_exit (em_dag s) \<Longrightarrow> out_steps Q (em_dag s) ?v = [] \<and>
      getStartingPathNumber (em_dag s) ?v = None \<and> getEndingPathNumber (em_dag s) ?v = None \<and> node_code s ?v = []"
    using not_entered [OF h(1,7)] by blast
  have "nodes_inv Q (insert e C) D s"
    unfolding nodes_inv_def
  proof
    fix w
    assume w: "w \<in> set (d_nodes (em_dag s))"
    show "if entered (insert e C) (em_dag s) w \<and> w \<noteq> d_exit (em_dag s)
       then (getEndingPathNumber (em_dag s) w \<noteq> None) = holds_at_end Q D (em_dag s) w \<and> ready Q (em_dag s) w else blank s w"
    proof (cases "w = ?v \<and> \<not> entered C (em_dag s) ?v \<and> ?v \<noteq> d_exit (em_dag s)")
      case True
      then show ?thesis using new nD by (simp add: entered_insert holds_at_end_def ready_def)
    next
      case False
      then show ?thesis using nodes_invD [OF W(2) w] by (auto simp: entered_insert)
    qed
  qed
  moreover have "edges_inv Q (insert e C) s"
  proof -
    have "sem (em_dag s) (carried (em_dag s) e) (in_steps (em_dag s) e @ out_steps Q (em_dag s) ?v) (node_code s ?v)
        (getEndingPathNumber (em_dag s) ?v)" if ne: "?v \<noteq> d_exit (em_dag s)"
    proof (cases "entered C (em_dag s) ?v")
      case True
      then obtain f where f: "f \<in> C" "getTarget (em_dag s) f = ?v" by (auto simp: entered_def)
      then have "e \<noteq> f" using h(3) by auto
      then show ?thesis using same_carried [OF W(1), of e f] f h(2) edges_invD [OF W(3) f(1)] ne by simp
    next
      case False
      have "getPathPHI (em_dag s) ?v = None" using not_entered(7) [OF h(1,7) False ne] .
      then have "carried (em_dag s) e = None" using h(10) nD by (simp add: carried_def)
      then show ?thesis using new [OF False ne] h(12) sem_nothing [of "em_dag s" None] by simp
    qed
    then show ?thesis using W(3) by (auto simp: edges_inv_def)
  qed
  moreover have "phis_inv (insert e C) D s" using W(4) nD unfolding phis_inv_def entered_insert by auto
  moreover have "incoming_inv blocks (insert e C) s"
  proof -
    have "getPathPHI (em_dag s) ?v = None" using W(4) h(7) nD unfolding phis_inv_def by blast
    then show ?thesis using W(5) unfolding incoming_inv_def by auto
  qed
  ultimately show ?thesis using enter_graph [OF W(1) h(2)] W(6) by (simp add: walk_inv_def)
qed

lemma push_single:
  assumes "getBlock (em_dag s) v \<noteq> None" "getNumberPredEdges (em_dag s) v \<le> 1" "getStartingPathNumber (em_dag s) v = None"
  obtains s' where "pushValueIntoNode L u v s = Inr s'" "keeps_graph s s'" "em_calls s' = em_calls s" "em_next s' = em_next s"
    "getPathPHI (em_dag s') = getPathPHI (em_dag s)"
    "getStartingPathNumber (em_dag s') = (getStartingPathNumber (em_dag s))(v := getEndingPathNumber (em_dag s) u)"
    "getEndingPathNumber (em_dag s') = (getEndingPathNumber (em_dag s))(v := getEndingPathNumber (em_dag s) u)"
proof (rule that)
  let ?s1 = "on_dag (\<lambda>d. setStartingPathNumber v (getEndingPathNumber d u) d) s"
  let ?s' = "on_dag (\<lambda>d. setEndingPathNumber v (getEndingPathNumber d u) d) ?s1"
  show "pushValueIntoNode L u v s = Inr ?s'" using assms by (auto simp: pushValueIntoNode_def Let_def)
qed (simp_all add: keeps_graph_def same_graph_def fun_eq_iff)

text \<open>The only edge into a node hands its value on directly.\<close>

lemma enter_single:
  assumes H: "enters_edge blocks L Q C D s e" and D: "D (getTarget (em_dag s) e)"
    and n: "getNumberPredEdges (em_dag s) (getTarget (em_dag s) e) = 1"
  obtains s' where "pushValueIntoNode L (getSource (em_dag s) e) (getTarget (em_dag s) e) s = Inr s'"
    "keeps_graph s s'" "walk_inv blocks L Q (insert e C) D s'"
proof -
  note h = enters_edge_view [OF H] note W = walk_invD [OF h(1)] note G = graph_invD [OF W(1)]
  let ?u = "getSource (em_dag s) e" and ?v = "getTarget (em_dag s) e"
  note ne = h(13) [OF D]
  have nen: "\<not> entered C (em_dag s) ?v"
  proof
    assume "entered C (em_dag s) ?v"
    then obtain f where f: "f \<in> C" "getTarget (em_dag s) f = ?v" by (auto simp: entered_def)
    then show False using two_preds [OF G(1) G(5) h(5), of f] n h(3) by auto
  qed
  note new = not_entered [OF h(1,7) nen ne]
  have uv: "?u \<noteq> ?v" using h(9) nen by auto
  have "getBlock (em_dag s) ?v \<noteq> None" using mirrorsD(2) [OF G(4) h(7)] ne by blast
  moreover have "getNumberPredEdges (em_dag s) ?v \<le> 1" using n by simp
  ultimately obtain s' where s': "pushValueIntoNode L ?u ?v s = Inr s'" "keeps_graph s s'" "em_calls s' = em_calls s" "em_next s' = em_next s"
    "getPathPHI (em_dag s') = getPathPHI (em_dag s)"
    "getStartingPathNumber (em_dag s') = (getStartingPathNumber (em_dag s))(?v := getEndingPathNumber (em_dag s) ?u)"
    "getEndingPathNumber (em_dag s') = (getEndingPathNumber (em_dag s))(?v := getEndingPathNumber (em_dag s) ?u)"
    using new(4) by (rule push_single)
  note k = keeps_view [OF s'(2)] note t = topo_eqs [OF k(1)]
  have code: "node_code s' w = node_code s w" for w by (simp add: node_code_def t s'(3) split: option.split)
  have "nodes_inv Q (insert e C) D s'"
    unfolding nodes_inv_def t
  proof
    fix w
    assume w: "w \<in> set (d_nodes (em_dag s))"
    show "if entered (insert e C) (em_dag s') w \<and> w \<noteq> d_exit (em_dag s)
       then (getEndingPathNumber (em_dag s') w \<noteq> None) = holds_at_end Q D (em_dag s') w \<and> ready Q (em_dag s') w else blank s' w"
    proof (cases "w = ?v")
      case True
      then show ?thesis using new(1) ne D h(10) by (simp add: entered_insert k t s'(6,7) holds_at_end_def ready_def)
    next
      case False
      then show ?thesis
        using nodes_invD [OF W(2) w] by (auto simp: entered_insert k t s'(6,7) ready_def blank_def code)
    qed
  qed
  moreover have "edges_inv Q (insert e C) s'"
  proof -
    have "carried (em_dag s') x = carried (em_dag s) x" if "x \<in> C" for x
      using new(2) [OF that] by (simp add: carried_def t s'(5,7))
    moreover have "carried (em_dag s') e = getEndingPathNumber (em_dag s) ?u" using n uv by (simp add: carried_def t s'(7))
    ultimately show ?thesis
      using W(3) new(1,3,6) ne h(12) sem_nothing [of "em_dag s" "getEndingPathNumber (em_dag s) ?u"]
      unfolding edges_inv_def by (auto simp: k t code s'(7))
  qed
  moreover have "phis_inv (insert e C) D s'" using W(4) n nen unfolding phis_inv_def by (auto simp: entered_insert k t s'(3,5))
  moreover have "incoming_inv blocks (insert e C) s'"
    using W(5) new(2,7) unfolding incoming_inv_def by (auto simp: k t s'(3-5,7))
  moreover have "calls_inv blocks s'" using W(6) by (simp add: calls_inv_def s'(3,4) k)
  moreover have "graph_inv blocks L Q (insert e C) D s'" using enter_graph [OF W(1) h(2)] unfolding graph_inv_def by (simp add: k t)
  ultimately show thesis using that [OF s'(1,2)] by (simp add: walk_inv_def)
qed

section \<open>The PHI of the target\<close>

lemma drop_first_keys: "fst ` set (drop_first p xs) \<subseteq> fst ` set xs"
  by (induction xs) auto

lemma drop_first_other: "q \<noteq> p \<Longrightarrow> map_of (drop_first p xs) q = map_of xs q"
  "q \<noteq> p \<Longrightarrow> count_list (map fst (drop_first p xs)) q = count_list (map fst xs) q"
  by (induction xs) auto

lemma drop_first_count: "count_list (map fst (drop_first p xs)) p = count_list (map fst xs) p - 1"
  by (induction xs) auto

text \<open>Replacing the entry of a block.\<close>

lemma replaced_entry:
  assumes "count_list (map fst xs) p \<le> 1"
  shows "map_of (drop_first p xs @ [(p, x)]) p = Some x"
    "q \<noteq> p \<Longrightarrow> map_of (drop_first p xs @ [(p, x)]) q = map_of xs q"
    "count_list (map fst xs) q \<le> 1 \<Longrightarrow> count_list (map fst (drop_first p xs @ [(p, x)])) q \<le> 1"
    "fst ` set (drop_first p xs @ [(p, x)]) \<subseteq> insert p (fst ` set xs)"
proof -
  have "count_list (map fst (drop_first p xs)) p = 0" using assms drop_first_count [of p xs] by simp
  then have "p \<notin> set (map fst (drop_first p xs))" by (simp add: count_list_0_iff)
  then have "map_of (drop_first p xs) p = None" by (auto simp: map_of_eq_None_iff)
  then show "map_of (drop_first p xs @ [(p, x)]) p = Some x" by (simp add: map_add_def)
  show "q \<noteq> p \<Longrightarrow> map_of (drop_first p xs @ [(p, x)]) q = map_of xs q"
    by (simp add: map_add_def drop_first_other split: option.split)
  show "count_list (map fst (drop_first p xs @ [(p, x)])) q \<le> 1" if "count_list (map fst xs) q \<le> 1"
    using that drop_first_count [of p xs] drop_first_other(2) [of q p xs] by (cases "q = p") auto
  show "fst ` set (drop_first p xs @ [(p, x)]) \<subseteq> insert p (fst ` set xs)" using drop_first_keys [of p xs] by auto
qed

text \<open>
  \<open>joins_edge\<close>: the state after the value of the source was put into the PHI of the
  target, which is created when the target is entered for the first time. \<open>ins\<close> are the
  entries of the PHI before that.
\<close>

definition joins_edge :: "('c \<Rightarrow> block_id set) \<Rightarrow> 'c llvm \<Rightarrow> edge_id set \<Rightarrow> edge_id set \<Rightarrow> (node_id \<Rightarrow> bool) \<Rightarrow>
    'c emitter \<Rightarrow> edge_id \<Rightarrow> inst_id \<Rightarrow> block_id \<Rightarrow> ir_value \<Rightarrow> (block_id \<times> ir_value) list \<Rightarrow> 'c emitter \<Rightarrow> bool" where
  "joins_edge blocks L Q C D s e i p x ins s' \<longleftrightarrow>
     enters_edge blocks L Q C D s e \<and> D (getTarget (em_dag s) e) \<and> getNumberPredEdges (em_dag s) (getTarget (em_dag s) e) \<noteq> 1
     \<and> getBlock (em_dag s) (getSource (em_dag s) e) = Some p \<and> getEndingPathNumber (em_dag s) (getSource (em_dag s) e) = Some x
     \<and> keeps_graph s s' \<and> calls_inv blocks s' \<and> i < em_next s'
     \<and> (\<forall>w. w \<noteq> getTarget (em_dag s) e \<longrightarrow> getStartingPathNumber (em_dag s') w = getStartingPathNumber (em_dag s) w
          \<and> getEndingPathNumber (em_dag s') w = getEndingPathNumber (em_dag s) w \<and> getPathPHI (em_dag s') w = getPathPHI (em_dag s) w)
     \<and> getPathPHI (em_dag s') (getTarget (em_dag s) e) = Some i
     \<and> (\<forall>w\<in>set (d_nodes (em_dag s)). w \<noteq> getTarget (em_dag s) e \<longrightarrow> getPathPHI (em_dag s) w \<noteq> Some i)
     \<and> (if entered C (em_dag s) (getTarget (em_dag s) e)
        then getPathPHI (em_dag s) (getTarget (em_dag s) e) = Some i
          \<and> getStartingPathNumber (em_dag s') (getTarget (em_dag s) e) = getStartingPathNumber (em_dag s) (getTarget (em_dag s) e)
          \<and> getEndingPathNumber (em_dag s') (getTarget (em_dag s) e) = getEndingPathNumber (em_dag s) (getTarget (em_dag s) e)
        else getStartingPathNumber (em_dag s') (getTarget (em_dag s) e) = Some (InstVal i)
          \<and> getEndingPathNumber (em_dag s') (getTarget (em_dag s) e) = Some (InstVal i))
     \<and> block_code (em_calls s') = block_code (em_calls s)
     \<and> (\<forall>w\<in>set (d_nodes (em_dag s)). \<forall>b. getBlock (em_dag s) w = Some b \<longrightarrow>
          phis (em_calls s') b = (if w = getTarget (em_dag s) e then [i] else phis (em_calls s) b))
     \<and> (\<forall>j. j \<noteq> i \<longrightarrow> incoming (em_calls s') j = incoming (em_calls s) j)
     \<and> incoming (em_calls s') i = drop_first p ins @ [(p, x)] \<and> fst ` set ins \<subseteq> blocks (em_fn s)
     \<and> (\<forall>w\<in>set (d_nodes (em_dag s)). \<forall>q. getBlock (em_dag s) w = Some q \<longrightarrow> getNumberSuccEdges (em_dag s) w \<le> 1 \<longrightarrow>
          count_list (map fst ins) q \<le> 1)
     \<and> (entered C (em_dag s) (getTarget (em_dag s) e) \<longrightarrow> ins = incoming (em_calls s) i)"

lemma joins_edge_view:
  assumes "joins_edge blocks L Q C D s e i p x ins s'"
  shows "enters_edge blocks L Q C D s e" "D (getTarget (em_dag s) e)" "getNumberPredEdges (em_dag s) (getTarget (em_dag s) e) \<noteq> 1"
    "getBlock (em_dag s) (getSource (em_dag s) e) = Some p" "getEndingPathNumber (em_dag s) (getSource (em_dag s) e) = Some x"
    "keeps_graph s s'" "calls_inv blocks s'" "i < em_next s'"
    "w \<noteq> getTarget (em_dag s) e \<Longrightarrow> getStartingPathNumber (em_dag s') w = getStartingPathNumber (em_dag s) w"
    "w \<noteq> getTarget (em_dag s) e \<Longrightarrow> getEndingPathNumber (em_dag s') w = getEndingPathNumber (em_dag s) w"
    "w \<noteq> getTarget (em_dag s) e \<Longrightarrow> getPathPHI (em_dag s') w = getPathPHI (em_dag s) w"
    "getPathPHI (em_dag s') (getTarget (em_dag s) e) = Some i"
    "w \<in> set (d_nodes (em_dag s)) \<Longrightarrow> w \<noteq> getTarget (em_dag s) e \<Longrightarrow> getPathPHI (em_dag s) w \<noteq> Some i"
    "block_code (em_calls s') = block_code (em_calls s)"
    "w \<in> set (d_nodes (em_dag s)) \<Longrightarrow> getBlock (em_dag s) w = Some b \<Longrightarrow>
       phis (em_calls s') b = (if w = getTarget (em_dag s) e then [i] else phis (em_calls s) b)"
    "j \<noteq> i \<Longrightarrow> incoming (em_calls s') j = incoming (em_calls s) j"
    "incoming (em_calls s') i = drop_first p ins @ [(p, x)]" "fst ` set ins \<subseteq> blocks (em_fn s)"
    "w \<in> set (d_nodes (em_dag s)) \<Longrightarrow> getBlock (em_dag s) w = Some q \<Longrightarrow> getNumberSuccEdges (em_dag s) w \<le> 1 \<Longrightarrow>
       count_list (map fst ins) q \<le> 1"
    "entered C (em_dag s) (getTarget (em_dag s) e) \<Longrightarrow> ins = incoming (em_calls s) i"
  using assms unfolding joins_edge_def by (blast | simp)+

lemma joins_edge_kept:
  assumes H: "joins_edge blocks L Q C D s e i p x ins s'" and w: "w \<noteq> getTarget (em_dag s) e \<or> entered C (em_dag s) w"
  shows "getStartingPathNumber (em_dag s') w = getStartingPathNumber (em_dag s) w"
    "getEndingPathNumber (em_dag s') w = getEndingPathNumber (em_dag s) w" "getPathPHI (em_dag s') w = getPathPHI (em_dag s) w"
  using H w unfolding joins_edge_def by (cases "w = getTarget (em_dag s) e"; simp)+

lemma joins_edge_new:
  assumes "joins_edge blocks L Q C D s e i p x ins s'" and "\<not> entered C (em_dag s) (getTarget (em_dag s) e)"
  shows "getStartingPathNumber (em_dag s') (getTarget (em_dag s) e) = Some (InstVal i)"
    "getEndingPathNumber (em_dag s') (getTarget (em_dag s) e) = Some (InstVal i)"
  using assms by (simp_all add: joins_edge_def)

lemma joins_edge_source:
  assumes H: "joins_edge blocks L Q C D s e i p x ins s'" and f: "f \<in> C"
  shows "getEndingPathNumber (em_dag s') (getSource (em_dag s) f) = getEndingPathNumber (em_dag s) (getSource (em_dag s) f)"
    "getEndingPathNumber (em_dag s') (getSource (em_dag s) e) = getEndingPathNumber (em_dag s) (getSource (em_dag s) e)"
proof -
  note j = joins_edge_view [OF H] note h = enters_edge_view [OF j(1)] note W = walk_invD [OF h(1)]
  have "f \<in> Q \<union> C" using f by simp
  from graph_invD(7) [OF W(1) this] h(13) [OF j(2)]
  show "getEndingPathNumber (em_dag s') (getSource (em_dag s) f) = getEndingPathNumber (em_dag s) (getSource (em_dag s) f)"
    by (intro joins_edge_kept(2) [OF H]) auto
  show "getEndingPathNumber (em_dag s') (getSource (em_dag s) e) = getEndingPathNumber (em_dag s) (getSource (em_dag s) e)"
    using h(9) by (intro joins_edge_kept(2) [OF H]) simp
qed

lemma joins_edge_nodes:
  assumes H: "joins_edge blocks L Q C D s e i p x ins s'"
  shows "nodes_inv Q (insert e C) D s'"
proof -
  note j = joins_edge_view [OF H] note h = enters_edge_view [OF j(1)] note W = walk_invD [OF h(1)]
  note k = keeps_view [OF j(6)] note t = topo_eqs [OF k(1)] note ne = h(13) [OF j(2)]
  let ?v = "getTarget (em_dag s) e"
  show ?thesis
    unfolding nodes_inv_def t
  proof
    fix w
    assume w: "w \<in> set (d_nodes (em_dag s))"
    show "if entered (insert e C) (em_dag s') w \<and> w \<noteq> d_exit (em_dag s)
       then (getEndingPathNumber (em_dag s') w \<noteq> None) = holds_at_end Q D (em_dag s') w \<and> ready Q (em_dag s') w else blank s' w"
    proof (cases "w = ?v \<and> \<not> entered C (em_dag s) ?v")
      case True
      note new = not_entered [OF h(1,7) _ ne]
      show ?thesis
        using True new(1) joins_edge_new [OF H] ne j(2) by (simp add: entered_insert k t holds_at_end_def ready_def)
    next
      case False
      then have "w \<noteq> ?v \<or> entered C (em_dag s) w" by blast
      note kept = joins_edge_kept [OF H this]
      have "blank s' w = blank s w" by (simp add: blank_def kept node_code_def t j(14) split: option.split)
      moreover have "ready Q (em_dag s') w = ready Q (em_dag s) w" by (simp add: ready_def k t kept)
      moreover have "entered (insert e C) (em_dag s') w = entered C (em_dag s) w" using False by (auto simp: entered_insert k t)
      ultimately show ?thesis using nodes_invD [OF W(2) w] by (auto simp: k kept)
    qed
  qed
qed

lemma joins_edge_graph:
  assumes H: "joins_edge blocks L Q C D s e i p x ins s'"
  shows "graph_inv blocks L Q (insert e C) D s'"
proof -
  note j = joins_edge_view [OF H] note h = enters_edge_view [OF j(1)] note W = walk_invD [OF h(1)]
  note k = keeps_view [OF j(6)] note t = topo_eqs [OF k(1)]
  show ?thesis using enter_graph [OF W(1) h(2)] unfolding graph_inv_def by (simp add: k t)
qed

lemma joins_edge_edges:
  assumes H: "joins_edge blocks L Q C D s e i p x ins s'"
  shows "edges_inv Q (insert e C) s'"
proof -
  note j = joins_edge_view [OF H] note h = enters_edge_view [OF j(1)] note W = walk_invD [OF h(1)]
  note k = keeps_view [OF j(6)] note t = topo_eqs [OF k(1)] note ne = h(13) [OF j(2)]
  let ?v = "getTarget (em_dag s) e"
  have code: "node_code s' = node_code s" by (simp add: node_code_def fun_eq_iff t j(14) split: option.split)
  have old: "sem (em_dag s') (carried (em_dag s') f) (in_steps (em_dag s') f @ out_steps Q (em_dag s') (getTarget (em_dag s') f))
     (node_code s' (getTarget (em_dag s') f)) (getEndingPathNumber (em_dag s') (getTarget (em_dag s') f))"
    if f: "f \<in> C" "getTarget (em_dag s') f \<noteq> d_exit (em_dag s')" for f
  proof -
    have "entered C (em_dag s) (getTarget (em_dag s) f)" using f(1) by (auto simp: entered_def)
    then have kept: "getEndingPathNumber (em_dag s') (getTarget (em_dag s) f) = getEndingPathNumber (em_dag s) (getTarget (em_dag s) f)"
      "getPathPHI (em_dag s') (getTarget (em_dag s) f) = getPathPHI (em_dag s) (getTarget (em_dag s) f)"
      using joins_edge_kept [OF H] by blast+
    then have "carried (em_dag s') f = carried (em_dag s) f"
      using joins_edge_source(1) [OF H f(1)] by (simp add: carried_def t)
    then show ?thesis using edges_invD [OF W(3) f(1)] f(2) by (simp add: k(9,14,15) t code kept)
  qed
  have new: "sem (em_dag s') (carried (em_dag s') e) (in_steps (em_dag s') e @ out_steps Q (em_dag s') (getTarget (em_dag s') e))
     (node_code s' (getTarget (em_dag s') e)) (getEndingPathNumber (em_dag s') (getTarget (em_dag s') e))"
  proof (cases "entered C (em_dag s) ?v")
    case True
    then obtain f where f: "f \<in> C" "getTarget (em_dag s) f = ?v" by (auto simp: entered_def)
    have "e \<noteq> f" using f(1) h(3) by auto
    with same_carried [OF joins_edge_graph [OF H], of e f] f show ?thesis using old [OF f(1)] ne by (simp add: t)
  next
    case False
    note n = not_entered [OF h(1,7) False ne]
    show ?thesis
      using n(1,6) h(12) j(3,12) joins_edge_new [OF H False] sem_nothing [of "em_dag s" "Some (InstVal i)"]
      by (simp add: carried_def k(9,14,15) t code)
  qed
  show ?thesis using old new by (auto simp: edges_inv_def)
qed

lemma joins_edge_phis:
  assumes H: "joins_edge blocks L Q C D s e i p x ins s'"
  shows "phis_inv (insert e C) D s'"
proof -
  note j = joins_edge_view [OF H] note h = enters_edge_view [OF j(1)] note W = walk_invD [OF h(1)]
  note k = keeps_view [OF j(6)] note t = topo_eqs [OF k(1)] note ne = h(13) [OF j(2)]
  let ?v = "getTarget (em_dag s) e"
  have P: "w \<in> set (d_nodes (em_dag s)) \<Longrightarrow> (getPathPHI (em_dag s) w \<noteq> None) \<longleftrightarrow>
      w \<noteq> d_exit (em_dag s) \<and> entered C (em_dag s) w \<and> getNumberPredEdges (em_dag s) w \<noteq> 1 \<and> D w"
    "w \<in> set (d_nodes (em_dag s)) \<Longrightarrow> getBlock (em_dag s) w = Some b \<Longrightarrow>
      phis (em_calls s) b = (case getPathPHI (em_dag s) w of None \<Rightarrow> [] | Some i \<Rightarrow> [i])"
    "u \<in> set (d_nodes (em_dag s)) \<Longrightarrow> w \<in> set (d_nodes (em_dag s)) \<Longrightarrow> getPathPHI (em_dag s) u = Some n \<Longrightarrow>
      getPathPHI (em_dag s) w = Some n \<Longrightarrow> u = w" for u w b n
    using W(4) unfolding phis_inv_def by blast+
  show ?thesis
    unfolding phis_inv_def t k(12) entered_insert
  proof (intro conjI ballI allI impI)
    fix w
    assume w: "w \<in> set (d_nodes (em_dag s))"
    show "(getPathPHI (em_dag s') w \<noteq> None) = (w \<noteq> d_exit (em_dag s) \<and> (entered C (em_dag s) w \<or> w = ?v) \<and> getNumberPredEdges (em_dag s) w \<noteq> 1 \<and> D w)"
      using P(1) [OF w] j(2,3,12) j(11) [of w] ne by (cases "w = ?v") simp_all
    show "phis (em_calls s') b = (case getPathPHI (em_dag s') w of None \<Rightarrow> [] | Some i \<Rightarrow> [i])" if "getBlock (em_dag s) w = Some b" for b
      using P(2) [OF w that] j(12) j(11) [of w] j(15) [OF w that] by (cases "w = ?v") simp_all
    fix u n
    assume u: "u \<in> set (d_nodes (em_dag s))" "getPathPHI (em_dag s') w = Some n" "getPathPHI (em_dag s') u = Some n"
    have "y = ?v \<and> n = i \<or> getPathPHI (em_dag s) y = Some n \<and> n \<noteq> i"
      if "y \<in> set (d_nodes (em_dag s))" "getPathPHI (em_dag s') y = Some n" for y
      using that j(11) [of y] j(12) j(13) [OF that(1)] by (cases "y = ?v") (simp, metis)
    from this [OF w u(2)] this [OF u(1,3)] show "w = u" using P(3) [OF w u(1)] by blast
  qed
qed

lemma joins_edge_incoming:
  assumes H: "joins_edge blocks L Q C D s e i p x ins s'"
  shows "incoming_inv blocks (insert e C) s'"
  unfolding incoming_inv_def
proof (intro ballI allI impI)
  note j = joins_edge_view [OF H] note h = enters_edge_view [OF j(1)] note W = walk_invD [OF h(1)]
  note k = keeps_view [OF j(6)] note t = topo_eqs [OF k(1)] note G = graph_invD [OF W(1)]
  let ?v = "getTarget (em_dag s) e"
  fix w n
  assume "w \<in> set (d_nodes (em_dag s'))" and n: "getPathPHI (em_dag s') w = Some n"
  then have w: "w \<in> set (d_nodes (em_dag s))" by (simp add: t)
  have I: "n < em_next s \<and> fst ` set (incoming (em_calls s) n) \<subseteq> blocks (em_fn s)
     \<and> (\<forall>u\<in>set (d_nodes (em_dag s)). \<forall>p. getBlock (em_dag s) u = Some p \<longrightarrow> getNumberSuccEdges (em_dag s) u \<le> 1 \<longrightarrow>
          count_list (map fst (incoming (em_calls s) n)) p \<le> 1)
     \<and> (\<forall>e\<in>C. getTarget (em_dag s) e = w \<longrightarrow> (\<exists>p. getBlock (em_dag s) (getSource (em_dag s) e) = Some p
          \<and> map_of (incoming (em_calls s) n) p = getEndingPathNumber (em_dag s) (getSource (em_dag s) e)))"
    if "getPathPHI (em_dag s) w = Some n"
    using W(5) w that unfolding incoming_inv_def by blast
  have cp: "count_list (map fst ins) p \<le> 1" using j(19) [OF h(6) j(4)] h(4) by (simp add: single_out_def)
  note R = replaced_entry [OF cp]
  show "n < em_next s' \<and> fst ` set (incoming (em_calls s') n) \<subseteq> blocks (em_fn s')
     \<and> (\<forall>u\<in>set (d_nodes (em_dag s')). \<forall>p. getBlock (em_dag s') u = Some p \<longrightarrow> getNumberSuccEdges (em_dag s') u \<le> 1 \<longrightarrow>
          count_list (map fst (incoming (em_calls s') n)) p \<le> 1)
     \<and> (\<forall>e\<in>insert e C. getTarget (em_dag s') e = w \<longrightarrow> (\<exists>p. getBlock (em_dag s') (getSource (em_dag s') e) = Some p
          \<and> map_of (incoming (em_calls s') n) p = getEndingPathNumber (em_dag s') (getSource (em_dag s') e)))"
  proof (cases "w = ?v")
    case True
    then have ni: "n = i" using n j(12) by simp
    have "p \<in> blocks (em_fn s)" using mirrorsD(3) [OF G(4) h(6) j(4)] .
    then have "fst ` set (incoming (em_calls s') i) \<subseteq> blocks (em_fn s')" using R(4) j(18) by (simp add: j(17) k(2)) blast
    moreover have "\<exists>q. getBlock (em_dag s) (getSource (em_dag s) f) = Some q
        \<and> map_of (incoming (em_calls s') i) q = getEndingPathNumber (em_dag s') (getSource (em_dag s) f)"
      if f: "f \<in> C" "getTarget (em_dag s) f = ?v" for f
    proof -
      have en: "entered C (em_dag s) ?v" using f by (auto simp: entered_def)
      have "getPathPHI (em_dag s) w = Some n" using n joins_edge_kept(3) [OF H, of w] en True by simp
      from I [OF this] f True ni j(20) [OF en] obtain q where q: "getBlock (em_dag s) (getSource (em_dag s) f) = Some q"
        "map_of ins q = getEndingPathNumber (em_dag s) (getSource (em_dag s) f)" by auto
      have "getSource (em_dag s) f \<in> set (d_nodes (em_dag s))" using G(9) [of f] f(1) by simp
      then have "q \<noteq> p" using mirrorsD(1) [OF G(4) _ h(6)] h(11) [OF f(1)] q(1) j(4) by auto
      then show ?thesis using q R(2) joins_edge_source(1) [OF H f(1)] by (simp add: j(17))
    qed
    moreover have "map_of (incoming (em_calls s') i) p = getEndingPathNumber (em_dag s') (getSource (em_dag s) e)"
      using R(1) joins_edge_kept(2) [OF H, of "getSource (em_dag s) e"] h(9) j(5) by (simp add: j(17))
    moreover have "count_list (map fst (incoming (em_calls s') i)) q \<le> 1"
      if "u \<in> set (d_nodes (em_dag s))" "getBlock (em_dag s) u = Some q" "getNumberSuccEdges (em_dag s) u \<le> 1" for u q
      using R(3) [OF j(19) [OF that]] by (simp add: j(17))
    ultimately show ?thesis using True j(4,8) by (auto simp: ni t)
  next
    case False
    then have pn: "getPathPHI (em_dag s) w = Some n" using n j(11) by simp
    then have "n \<noteq> i" using j(13) [OF w False] by auto
    moreover have "getEndingPathNumber (em_dag s') (getSource (em_dag s) f) = getEndingPathNumber (em_dag s) (getSource (em_dag s) f)"
      if "f \<in> C" for f using joins_edge_source(1) [OF H that] .
    ultimately show ?thesis using I [OF pn] False k(4) j(16) [of n] by (auto simp: k(2) t)
  qed
qed

lemma joins_edge_inv:
  assumes H: "joins_edge blocks L Q C D s e i p x ins s'"
  shows "walk_inv blocks L Q (insert e C) D s'"
  using joins_edge_graph [OF H] joins_edge_nodes [OF H] joins_edge_edges [OF H] joins_edge_phis [OF H] joins_edge_incoming [OF H]
    joins_edge_view(7) [OF H] by (simp add: walk_inv_def)

lemma phi_calls:
  assumes "\<forall>c\<in>set cs'. \<exists>x. (\<exists>v b. c = Add_Incoming x v b) \<or> (\<exists>b. c = Remove_Incoming x b) \<or> (\<exists>b k. c = Create_PHI x b k)"
  shows "block_code (cs @ cs') = block_code cs"
  using assms by (intro ext block_code_pointless) auto

lemma incoming_push:
  "incoming (cs @ [Remove_Incoming i p, Add_Incoming i x p]) i = drop_first p (incoming cs i) @ [(p, x)]"
  "j \<noteq> i \<Longrightarrow> incoming (cs @ [Remove_Incoming i p, Add_Incoming i x p]) j = incoming cs j"
  "phis (cs @ [Remove_Incoming i p, Add_Incoming i x p]) b = phis cs b"
  by (simp_all add: incoming_def phis_def List.map_filter_simps)

lemma incoming_prepare:
  "incoming (cs @ Create_PHI i b n # map (Add_Incoming i v) ps) j =
     incoming cs j @ (if j = i then map (\<lambda>p. (p, v)) ps else [])"
  "phis (cs @ Create_PHI i b n # map (Add_Incoming i v) ps) c = phis cs c @ (if c = b then [i] else [])"
proof -
  have "fold (incoming_step j) (map (Add_Incoming i v) ps) xs = xs @ (if j = i then map (\<lambda>p. (p, v)) ps else [])" for xs
    by (induction ps arbitrary: xs) auto
  then show "incoming (cs @ Create_PHI i b n # map (Add_Incoming i v) ps) j =
     incoming cs j @ (if j = i then map (\<lambda>p. (p, v)) ps else [])" by (simp add: incoming_def)
  have "List.map_filter (phi_in c) (map (Add_Incoming i v) ps) = []" by (induction ps) (simp_all add: List.map_filter_simps)
  then show "phis (cs @ Create_PHI i b n # map (Add_Incoming i v) ps) c = phis cs c @ (if c = b then [i] else [])"
    by (auto simp: phis_def List.map_filter_simps)
qed

lemma fold_unchanged: "(\<And>c xs. c \<in> set cs \<Longrightarrow> f c xs = xs) \<Longrightarrow> fold f cs xs = xs"
  by (induction cs arbitrary: xs) auto

lemma incoming_unused:
  assumes "calls_inv blocks s" "em_next s \<le> i"
  shows "incoming (em_calls s) i = []"
proof -
  have "incoming_step i c xs = xs" if "c \<in> set (em_calls s)" for c xs
  proof -
    have "call_fits (blocks (em_fn s)) (em_next s) c" using assms(1) that by (simp add: calls_inv_def)
    with assms(2) show ?thesis by (cases c) auto
  qed
  then show ?thesis by (simp add: incoming_def fold_unchanged)
qed

lemma fold_record_calls:
  "em_calls (fold (\<lambda>x. record_call (f x)) xs s) = em_calls s @ map f xs"
  "em_dag (fold (\<lambda>x. record_call (f x)) xs s) = em_dag s" "em_fn (fold (\<lambda>x. record_call (f x)) xs s) = em_fn s"
  "em_next (fold (\<lambda>x. record_call (f x)) xs s) = em_next s"
  by (induction xs arbitrary: s) simp_all

end
