(* ===== verification/BL_Join.thy ===== *)
theory BL_Join
  imports BL_Cross
begin

text \<open>
  The two ways in which the target of an edge is entered through a PHI, the edges
  whose code stands at the beginning of their target, and together the effect of
  instrumenting one edge.
\<close>

section \<open>Entering through a PHI\<close>

lemma push_phi:
  assumes "getBlock (em_dag s) v \<noteq> None" "1 < getNumberPredEdges (em_dag s) v"
    "getBlock (em_dag s) u = Some p" "getEndingPathNumber (em_dag s) u = Some x" "getPathPHI (em_dag s) v = Some i"
  shows "pushValueIntoNode L u v s = Inr (record_call (Add_Incoming i x p) (record_call (Remove_Incoming i p) s))"
  using assms by (auto simp: pushValueIntoNode_def pushValueIntoPHI_def block_of_def)

definition prepared :: "'c llvm \<Rightarrow> node_id \<Rightarrow> block_id \<Rightarrow> 'c emitter \<Rightarrow> 'c emitter" where
  "prepared L v b s = s\<lparr>em_dag := setEndingPathNumber v (Some (InstVal (em_next s)))
       (setStartingPathNumber v (Some (InstVal (em_next s))) (setPathPHI v (Some (em_next s)) (em_dag s))),
     em_next := Suc (em_next s),
     em_calls := em_calls s @ Create_PHI (em_next s) b (length (l_predecessors L (em_fn s) b))
       # map (Add_Incoming (em_next s) (createIncrementConstant (- 1) 32)) (l_predecessors L (em_fn s) b)\<rparr>"

lemma preparePHI_prepared:
  assumes "getBlock (em_dag s) v = Some b"
  shows "preparePHI L v s = Inr (prepared L v b s)"
  unfolding preparePHI_def
  by (simp add: block_of_def assms Let_def prepared_def) (simp add: emitter.equality fold_record_calls)

lemma push_new_phi:
  assumes "getBlock (em_dag s) v = Some b" "1 < getNumberPredEdges (em_dag s) v" "u \<noteq> v"
    "getBlock (em_dag s) u = Some p" "getEndingPathNumber (em_dag s) u = Some x" "getPathPHI (em_dag s) v = None"
  shows "pushValueIntoNode L u v s =
    Inr (record_call (Add_Incoming (em_next s) x p) (record_call (Remove_Incoming (em_next s) p) (prepared L v b s)))"
  using assms by (auto simp: pushValueIntoNode_def preparePHI_prepared pushValueIntoPHI_def block_of_def prepared_def)

lemma enters_many_preds:
  assumes H: "enters_edge blocks L Q C D s e" and n: "getNumberPredEdges (em_dag s) (getTarget (em_dag s) e) \<noteq> 1"
  shows "1 < getNumberPredEdges (em_dag s) (getTarget (em_dag s) e)"
proof -
  note h = enters_edge_view [OF H] note G = graph_invD [OF walk_invD(1) [OF h(1)]]
  have "e \<in> set (predEdges (em_dag s) (getTarget (em_dag s) e))"
    using linkedD(7) [OF G(1) h(7)] h(5) by (simp add: cfg_edge_def)
  then have "getNumberPredEdges (em_dag s) (getTarget (em_dag s) e) \<noteq> 0" by (auto simp: getNumberPredEdges_def)
  with n show ?thesis by linarith
qed

lemma enter_old_phi:
  assumes H: "enters_edge blocks L Q C D s e" and D: "D (getTarget (em_dag s) e)"
    and n: "getNumberPredEdges (em_dag s) (getTarget (em_dag s) e) \<noteq> 1" and en: "entered C (em_dag s) (getTarget (em_dag s) e)"
  obtains s' i p x ins where "pushValueIntoNode L (getSource (em_dag s) e) (getTarget (em_dag s) e) s = Inr s'"
    "joins_edge blocks L Q C D s e i p x ins s'"
proof -
  note h = enters_edge_view [OF H] note W = walk_invD [OF h(1)] note G = graph_invD [OF W(1)]
  let ?u = "getSource (em_dag s) e" and ?v = "getTarget (em_dag s) e"
  note ne = h(13) [OF D]
  have b: "getBlock (em_dag s) ?v \<noteq> None" using mirrorsD(2) [OF G(4) h(7)] ne by blast
  obtain p where p: "getBlock (em_dag s) ?u = Some p" using h(4) by (auto simp: single_out_def)
  obtain x where x: "getEndingPathNumber (em_dag s) ?u = Some x" using h(10) D by auto
  obtain i where i: "getPathPHI (em_dag s) ?v = Some i" using W(4) h(7) ne en n D unfolding phis_inv_def by blast
  let ?s = "record_call (Add_Incoming i x p) (record_call (Remove_Incoming i p) s)"
  have I: "i < em_next s" "fst ` set (incoming (em_calls s) i) \<subseteq> blocks (em_fn s)"
    "\<forall>w\<in>set (d_nodes (em_dag s)). \<forall>q. getBlock (em_dag s) w = Some q \<longrightarrow> getNumberSuccEdges (em_dag s) w \<le> 1 \<longrightarrow>
       count_list (map fst (incoming (em_calls s) i)) q \<le> 1"
    using W(5) h(7) i unfolding incoming_inv_def by blast+
  have P: "\<forall>w\<in>set (d_nodes (em_dag s)). w \<noteq> ?v \<longrightarrow> getPathPHI (em_dag s) w \<noteq> Some i"
    "\<forall>w\<in>set (d_nodes (em_dag s)). \<forall>b. getBlock (em_dag s) w = Some b \<longrightarrow>
       phis (em_calls s) b = (if w = ?v then [i] else phis (em_calls s) b)"
    using W(4) h(7) i unfolding phis_inv_def by auto
  have "calls_inv blocks ?s" by (rule calls_inv_append [OF W(6), of _ "[Remove_Incoming i p, Add_Incoming i x p]"]) (simp_all add: I(1))
  moreover have "keeps_graph s ?s" by (simp add: keeps_graph_def same_graph_def)
  moreover have "block_code (em_calls ?s) = block_code (em_calls s)"
    using phi_calls [of "[Remove_Incoming i p, Add_Incoming i x p]" "em_calls s"] by simp
  ultimately have "joins_edge blocks L Q C D s e i p x (incoming (em_calls s) i) ?s"
    unfolding joins_edge_def using H D n p x I P i en by (simp add: incoming_push)
  with push_phi [OF b enters_many_preds [OF H n] p x i] that show thesis by blast
qed

lemma enter_new_phi:
  assumes L: "llvm_ok blocks L" and H: "enters_edge blocks L Q C D s e" and D: "D (getTarget (em_dag s) e)"
    and n: "getNumberPredEdges (em_dag s) (getTarget (em_dag s) e) \<noteq> 1" and nen: "\<not> entered C (em_dag s) (getTarget (em_dag s) e)"
  obtains s' i p x ins where "pushValueIntoNode L (getSource (em_dag s) e) (getTarget (em_dag s) e) s = Inr s'"
    "joins_edge blocks L Q C D s e i p x ins s'"
proof -
  note h = enters_edge_view [OF H] note W = walk_invD [OF h(1)] note G = graph_invD [OF W(1)]
  let ?u = "getSource (em_dag s) e" and ?v = "getTarget (em_dag s) e" and ?i = "em_next s"
  note ne = h(13) [OF D] note new = not_entered [OF h(1,7) nen ne]
  obtain b where b: "getBlock (em_dag s) ?v = Some b" using mirrorsD(2) [OF G(4) h(7)] ne by blast
  obtain p where p: "getBlock (em_dag s) ?u = Some p" using h(4) by (auto simp: single_out_def)
  obtain x where x: "getEndingPathNumber (em_dag s) ?u = Some x" using h(10) D by auto
  have uv: "?u \<noteq> ?v" using h(9) nen by auto
  let ?ps = "l_predecessors L (em_fn s) b" and ?c = "createIncrementConstant (- 1) 32"
  let ?new = "Create_PHI ?i b (length ?ps) # map (Add_Incoming ?i ?c) ?ps"
  let ?s1 = "prepared L ?v b s"
  let ?s = "record_call (Add_Incoming ?i x p) (record_call (Remove_Incoming ?i p) ?s1)"
  have calls: "em_calls ?s = (em_calls s @ ?new) @ [Remove_Incoming ?i p, Add_Incoming ?i x p]" by (simp add: prepared_def)
  have view: "em_fn ?s = em_fn s" "em_next ?s = Suc ?i" "keeps_graph s ?s"
    "getPathPHI (em_dag ?s) = (getPathPHI (em_dag s))(?v := Some ?i)"
    "getStartingPathNumber (em_dag ?s) = (getStartingPathNumber (em_dag s))(?v := Some (InstVal ?i))"
    "getEndingPathNumber (em_dag ?s) = (getEndingPathNumber (em_dag s))(?v := Some (InstVal ?i))"
    by (simp_all add: prepared_def keeps_graph_def same_graph_def fun_eq_iff)
  have "calls_inv blocks ?s"
    by (rule calls_inv_append [OF W(6), of _ "?new @ [Remove_Incoming ?i p, Add_Incoming ?i x p]"])
      (use mirrorsD(3) [OF G(4) h(7) b] in \<open>auto simp: prepared_def\<close>)
  moreover have "block_code (em_calls ?s) = block_code (em_calls s)"
    using phi_calls [of "?new @ [Remove_Incoming ?i p, Add_Incoming ?i x p]" "em_calls s"] unfolding calls by auto
  moreover have "phis (em_calls ?s) c = (if w = ?v then [?i] else phis (em_calls s) c)"
    if "w \<in> set (d_nodes (em_dag s))" "getBlock (em_dag s) w = Some c" for w c
  proof -
    have "c = b \<longleftrightarrow> w = ?v" using mirrorsD(1) [OF G(4) that(1) h(7)] that(2) b by auto
    moreover have "phis (em_calls s) b = []" using W(4) h(7) b new(7) unfolding phis_inv_def by auto
    ultimately show ?thesis unfolding calls incoming_push(3) incoming_prepare(2) by auto
  qed
  moreover have "incoming (em_calls ?s) ?i = drop_first p (map (\<lambda>q. (q, ?c)) ?ps) @ [(p, x)]"
    unfolding calls incoming_push(1) incoming_prepare(1) using incoming_unused [OF W(6) order_refl] by simp
  moreover have "incoming (em_calls ?s) j = incoming (em_calls s) j" if "j \<noteq> ?i" for j
    unfolding calls using that by (simp add: incoming_push(2) incoming_prepare(1) del: append_assoc)
  moreover have "getPathPHI (em_dag s) w \<noteq> Some ?i" if "w \<in> set (d_nodes (em_dag s))" for w
    using W(5) that unfolding incoming_inv_def by blast
  moreover have "fst ` set (map (\<lambda>q. (q, ?c)) ?ps) \<subseteq> blocks (em_fn s)" using L by (simp add: llvm_ok_def image_image)
  moreover have "count_list (map fst (map (\<lambda>q. (q, ?c)) ?ps)) q \<le> 1"
    if "w \<in> set (d_nodes (em_dag s))" "getBlock (em_dag s) w = Some q" "getNumberSuccEdges (em_dag s) w \<le> 1" for w q
    using mirrors_single_succ [OF L G(4) that] by (simp add: comp_def)
  ultimately have "joins_edge blocks L Q C D s e ?i p x (map (\<lambda>q. (q, ?c)) ?ps) ?s"
    unfolding joins_edge_def using H D n p x nen view by (auto simp del: record_call_simps)
  with push_new_phi [OF b enters_many_preds [OF H n] uv p x new(7)] that show thesis by blast
qed

lemma enter_target:
  assumes L: "llvm_ok blocks L" and H: "enters_edge blocks L Q C D s e"
  obtains s' where "(if getEndingPathNumber (em_dag s) (getSource (em_dag s) e) \<noteq> None
      then pushValueIntoNode L (getSource (em_dag s) e) (getTarget (em_dag s) e) s else Inr s) = Inr s'"
    "keeps_graph s s'" "walk_inv blocks L Q (insert e C) D s'"
proof (cases "D (getTarget (em_dag s) e)")
  case False
  with enters_edge_view(10) [OF H] enter_empty [OF H] show ?thesis
    by (intro that [of s]) (simp_all add: keeps_graph_def same_graph_refl)
next
  case True
  then have E: "getEndingPathNumber (em_dag s) (getSource (em_dag s) e) \<noteq> None" using enters_edge_view(10) [OF H] by simp
  show ?thesis
  proof (cases "getNumberPredEdges (em_dag s) (getTarget (em_dag s) e) = 1")
    case n: True
    from H True n obtain s' where "pushValueIntoNode L (getSource (em_dag s) e) (getTarget (em_dag s) e) s = Inr s'"
      "keeps_graph s s'" "walk_inv blocks L Q (insert e C) D s'" by (rule enter_single)
    with E show ?thesis by (intro that [of s']) simp_all
  next
    case n: False
    obtain s' i p x ins where j: "pushValueIntoNode L (getSource (em_dag s) e) (getTarget (em_dag s) e) s = Inr s'"
      "joins_edge blocks L Q C D s e i p x ins s'"
      using enter_old_phi [OF H True n] enter_new_phi [OF L H True n] by blast
    from j(1) E joins_edge_view(6) [OF j(2)] joins_edge_inv [OF j(2)] show ?thesis by (intro that [of s']) simp_all
  qed
qed

section \<open>Code at the beginning of the target\<close>

definition begins_edge :: "('c \<Rightarrow> block_id set) \<Rightarrow> 'c llvm \<Rightarrow> edge_id set \<Rightarrow> edge_id set \<Rightarrow> (node_id \<Rightarrow> bool) \<Rightarrow>
    'c emitter \<Rightarrow> edge_id \<Rightarrow> block_id \<Rightarrow> ir_call list \<Rightarrow> 'c emitter \<Rightarrow> bool" where
  "begins_edge blocks L Q C D s e b cs s' \<longleftrightarrow> walk_inv blocks L Q C D s \<and> cfg_edge (em_dag s) e \<and> e \<notin> Q \<and> e \<notin> C
     \<and> \<not> single_out (em_dag s) (getSource (em_dag s) e) \<and> getNumberPredEdges (em_dag s) (getTarget (em_dag s) e) = 1
     \<and> (getSource (em_dag s) e = d_exit (em_dag s) \<or> entered C (em_dag s) (getSource (em_dag s) e))
     \<and> getBlock (em_dag s) (getTarget (em_dag s) e) = Some b
     \<and> keeps_graph s s' \<and> getPathPHI (em_dag s') = getPathPHI (em_dag s)
     \<and> (\<forall>w. w \<noteq> getTarget (em_dag s) e \<longrightarrow> getStartingPathNumber (em_dag s') w = getStartingPathNumber (em_dag s) w
          \<and> getEndingPathNumber (em_dag s') w = getEndingPathNumber (em_dag s) w)
     \<and> em_calls s' = em_calls s @ cs
     \<and> (\<forall>c\<in>set cs. point_of c = Some (FirstInsertionPt b) \<or> point_of c = Some (TerminatorOf b))
     \<and> cs = code_at cs (FirstInsertionPt b) @ code_at cs (TerminatorOf b)
     \<and> sem (em_dag s) (getEndingPathNumber (em_dag s) (getSource (em_dag s) e)) [e] cs
         (getEndingPathNumber (em_dag s') (getTarget (em_dag s) e))
     \<and> (getEndingPathNumber (em_dag s') (getTarget (em_dag s) e) \<noteq> None) = D (getTarget (em_dag s) e)
     \<and> (getStartingPathNumber (em_dag s') (getTarget (em_dag s) e) = getEndingPathNumber (em_dag s') (getTarget (em_dag s) e)
        \<or> drops_number (em_dag s) e)"

lemma single_target_new:
  assumes W: "walk_inv blocks L Q C D s" and e: "cfg_edge (em_dag s) e" "e \<notin> C"
    and n: "getNumberPredEdges (em_dag s) (getTarget (em_dag s) e) = 1"
    and so: "\<not> single_out (em_dag s) (getSource (em_dag s) e)"
    and u: "getSource (em_dag s) e = d_exit (em_dag s) \<or> entered C (em_dag s) (getSource (em_dag s) e)"
  shows "getTarget (em_dag s) e \<in> set (d_nodes (em_dag s))" "\<not> entered C (em_dag s) (getTarget (em_dag s) e)"
    "getTarget (em_dag s) e \<noteq> d_exit (em_dag s)" "getSource (em_dag s) e \<noteq> getTarget (em_dag s) e"
    "(getEndingPathNumber (em_dag s) (getSource (em_dag s) e) \<noteq> None) = D (getSource (em_dag s) e)"
proof -
  note I = walk_invD [OF W] note G = graph_invD [OF I(1)]
  let ?u = "getSource (em_dag s) e" and ?v = "getTarget (em_dag s) e"
  have eE: "e \<in> set (d_edges (em_dag s))" using e(1) by (simp add: cfg_edge_def)
  note un = linkedD(2) [OF G(1) eE]
  show "?v \<in> set (d_nodes (em_dag s))" using linkedD(3) [OF G(1) eE] .
  show nen: "\<not> entered C (em_dag s) ?v"
  proof
    assume "entered C (em_dag s) ?v"
    then obtain f where f: "f \<in> C" "getTarget (em_dag s) f = ?v" by (auto simp: entered_def)
    then show False using two_preds [OF G(1) G(5) e(1), of f] n e(2) by auto
  qed
  show ne: "?v \<noteq> d_exit (em_dag s)"
    using planD(5,6) [OF G(2) e(1)] so mirrorsD(2) [OF G(4) un] by (auto simp: single_out_def)
  show "?u \<noteq> ?v" using u nen ne by auto
  show "(getEndingPathNumber (em_dag s) ?u \<noteq> None) = D ?u"
  proof (cases "?u = d_exit (em_dag s)")
    case True
    then show ?thesis using nodes_invD(3) [OF I(2) un] planD(8) [OF G(2)] by (simp add: blank_def)
  next
    case False
    have "out_steps Q (em_dag s) ?u = []" using so by (simp add: out_steps_def)
    then show ?thesis using nodes_invD(1) [OF I(2) un] u False by (simp add: holds_at_end_def)
  qed
qed

lemma begins_edge_view:
  assumes H: "begins_edge blocks L Q C D s e b cs s'"
  shows "walk_inv blocks L Q C D s" "cfg_edge (em_dag s) e" "e \<notin> Q" "e \<notin> C"
    "\<not> single_out (em_dag s) (getSource (em_dag s) e)" "getNumberPredEdges (em_dag s) (getTarget (em_dag s) e) = 1"
    "getSource (em_dag s) e = d_exit (em_dag s) \<or> entered C (em_dag s) (getSource (em_dag s) e)"
    "getBlock (em_dag s) (getTarget (em_dag s) e) = Some b" "keeps_graph s s'" "getPathPHI (em_dag s') = getPathPHI (em_dag s)"
    "w \<noteq> getTarget (em_dag s) e \<Longrightarrow> getStartingPathNumber (em_dag s') w = getStartingPathNumber (em_dag s) w"
    "w \<noteq> getTarget (em_dag s) e \<Longrightarrow> getEndingPathNumber (em_dag s') w = getEndingPathNumber (em_dag s) w"
    "em_calls s' = em_calls s @ cs"
    "\<forall>c\<in>set cs. point_of c = Some (FirstInsertionPt b) \<or> point_of c = Some (TerminatorOf b)"
    "cs = code_at cs (FirstInsertionPt b) @ code_at cs (TerminatorOf b)"
    "sem (em_dag s) (getEndingPathNumber (em_dag s) (getSource (em_dag s) e)) [e] cs
       (getEndingPathNumber (em_dag s') (getTarget (em_dag s) e))"
    "(getEndingPathNumber (em_dag s') (getTarget (em_dag s) e) \<noteq> None) = D (getTarget (em_dag s) e)"
    "getStartingPathNumber (em_dag s') (getTarget (em_dag s) e) = getEndingPathNumber (em_dag s') (getTarget (em_dag s) e)
       \<or> drops_number (em_dag s) e"
  using H unfolding begins_edge_def by blast+

lemma begins_edge_code:
  assumes H: "begins_edge blocks L Q C D s e b cs s'" and v: "v \<in> set (d_nodes (em_dag s))"
  shows "node_code s' v = (if v = getTarget (em_dag s) e then cs else node_code s v)"
proof -
  note h = begins_edge_view [OF H] note G = graph_invD [OF walk_invD(1) [OF h(1)]]
  note t = topo_eqs [OF keeps_view(1) [OF h(9)]] note st = single_target_new [OF h(1,2,4,6,5,7)]
  have "node_code s (getTarget (em_dag s) e) = []" using not_entered(6) [OF h(1) st(1-3)] .
  then have bc: "block_code (em_calls s) b = []" by (simp add: node_code_def h(8))
  note B = block_code_begin [OF h(14,15) bc]
  show ?thesis
  proof (cases "getBlock (em_dag s) v")
    case None
    with h(8) show ?thesis by (auto simp: node_code_def t)
  next
    case (Some c)
    have "v = getTarget (em_dag s) e \<longleftrightarrow> c = b" using mirrorsD(1) [OF G(4) v st(1)] Some h(8) by auto
    then show ?thesis using Some B by (simp add: node_code_def t h(13))
  qed
qed

lemma begins_edge_inv:
  assumes H: "begins_edge blocks L Q C D s e b cs s'"
  shows "walk_inv blocks L Q (insert e C) D s'"
proof -
  note h = begins_edge_view [OF H] note W = walk_invD [OF h(1)] note G = graph_invD [OF W(1)]
  note k = keeps_view [OF h(9)] note t = topo_eqs [OF k(1)] note st = single_target_new [OF h(1,2,4,6,5,7)]
  note new = not_entered [OF h(1) st(1-3)] note code = begins_edge_code [OF H]
  let ?v = "getTarget (em_dag s) e"
  have nodes: "nodes_inv Q (insert e C) D s'"
    unfolding nodes_inv_def t
  proof
    fix w
    assume w: "w \<in> set (d_nodes (em_dag s))"
    show "if entered (insert e C) (em_dag s') w \<and> w \<noteq> d_exit (em_dag s)
       then (getEndingPathNumber (em_dag s') w \<noteq> None) = holds_at_end Q D (em_dag s') w \<and> ready Q (em_dag s') w else blank s' w"
    proof (cases "w = ?v")
      case True
      have "ready Q (em_dag s') ?v" using h(18) planD(4) [OF G(2) h(2) _ _ h(6)] unfolding ready_def k t by blast
      then show ?thesis using True new(1) st(3) h(17) by (simp add: entered_insert k t holds_at_end_def)
    next
      case False
      then show ?thesis
        using nodes_invD [OF W(2) w] code [OF w] h(11,12) [OF False] by (auto simp: entered_insert k t ready_def blank_def)
    qed
  qed
  have edges: "edges_inv Q (insert e C) s'"
    unfolding edges_inv_def
  proof (intro ballI impI)
    fix f
    assume f: "f \<in> insert e C" "getTarget (em_dag s') f \<noteq> d_exit (em_dag s')"
    show "sem (em_dag s') (carried (em_dag s') f) (in_steps (em_dag s') f @ out_steps Q (em_dag s') (getTarget (em_dag s') f))
       (node_code s' (getTarget (em_dag s') f)) (getEndingPathNumber (em_dag s') (getTarget (em_dag s') f))"
    proof (cases "f = e")
      case True
      have "carried (em_dag s') e = getEndingPathNumber (em_dag s) (getSource (em_dag s) e)"
        using h(6) h(12) [OF st(4)] by (simp add: carried_def t)
      then show ?thesis using True h(5,16) new(1) code [OF st(1)] by (simp add: k(9,14,15) t in_steps_def)
    next
      case False
      then have fC: "f \<in> C" using f(1) by simp
      have fn: "getTarget (em_dag s) f \<in> set (d_nodes (em_dag s))" using G(10) [of f] fC by simp
      have "carried (em_dag s') f = carried (em_dag s) f" using h(12) [OF new(2) [OF fC]] by (simp add: carried_def t h(10))
      then show ?thesis
        using edges_invD [OF W(3) fC] f(2) new(3) [OF fC] h(12) [OF new(3) [OF fC]] code [OF fn] by (simp add: k(9,14,15) t)
    qed
  qed
  have np: "\<forall>c\<in>set cs. point_of c \<noteq> None" using h(14) by auto
  have phis: "phis_inv (insert e C) D s'"
    using W(4) h(6) st(2) unfolding phis_inv_def by (auto simp: entered_insert k t h(10,13) no_phi_calls [OF np])
  have "getEndingPathNumber (em_dag s') (getSource (em_dag s) f) = getEndingPathNumber (em_dag s) (getSource (em_dag s) f)" if "f \<in> C" for f
    using h(12) [OF new(2) [OF that]] .
  then have inc: "incoming_inv blocks (insert e C) s'"
    using W(5) order_less_le_trans [OF _ k(4)] new(7) unfolding incoming_inv_def k(2) t(1) t(12,13) h(10,13) no_phi_calls [OF np]
    by (auto simp: t)
  have "call_fits (blocks (em_fn s)) n c" if "c \<in> set cs" for c n
    using h(14) that mirrorsD(3) [OF G(4) st(1) h(8)] point_call_fits [of c] by fastforce
  then have calls: "calls_inv blocks s'" by (intro calls_inv_append [OF W(6) h(13) k(2,4)]) blast
  have "\<not> stuck (em_dag s) e" using h(6) by (simp add: stuck_def)
  then have "graph_inv blocks L Q (insert e C) D s'"
    using W(1) h(2,5,7) unfolding graph_inv_def k t entered_insert by auto
  with nodes edges phis inc calls show ?thesis by (simp add: walk_inv_def)
qed

end
