(* ===== verification/BL_Numbering.thy ===== *)
theory BL_Numbering
  imports BL_Log
begin

text \<open>
  The edge weights. \<open>BallLarusDag::calculatePathNumbers\<close> is LLVM code; \<open>numbered\<close>
  states the numbering of [Ball96] that the pass relies on: a node has as many
  paths to the exit as its successors together, and the weight of an edge is
  the number of paths through the edges before it. From this the lemmas derive
  that the weights on a path add up to a number below the number of paths, that
  different paths have different numbers and that every number is used, and,
  with the results on the placement, what a run of the function logs.
\<close>

section \<open>The numbering\<close>

definition dag_succs :: "bl_dag \<Rightarrow> node_id \<Rightarrow> edge_id list" where
  "dag_succs d v = filter (dag_edge d) (succEdges d v)"

fun weights_from :: "(node_id \<Rightarrow> nat) \<Rightarrow> bl_dag \<Rightarrow> nat \<Rightarrow> edge_id list \<Rightarrow> bool" where
  "weights_from np d s [] \<longleftrightarrow> True"
| "weights_from np d s (e # es) \<longleftrightarrow>
     unat (getWeight d e) = s \<and> weights_from np d (s + np (getTarget d e)) es"

definition numbered :: "(node_id \<Rightarrow> nat) \<Rightarrow> bl_dag \<Rightarrow> bool" where
  "numbered np d \<longleftrightarrow> np (d_exit d) = 1
     \<and> (\<forall>v\<in>set (d_nodes d). v \<noteq> d_exit d \<longrightarrow>
          np v = (\<Sum>e\<leftarrow>dag_succs d v. np (getTarget d e)) \<and> weights_from np d 0 (dag_succs d v))
     \<and> (\<forall>e\<in>set (succEdges d (d_exit d)). getWeight d e = 0)
     \<and> np (d_root d) \<le> 2 ^ 32 \<and> d_numberOfPaths d = of_nat (np (d_root d))"

definition nat_number :: "bl_dag \<Rightarrow> edge_id list \<Rightarrow> nat" where
  "nat_number d p = (\<Sum>e\<leftarrow>p. unat (getWeight d e))"

lemma weights_from_bounds:
  assumes "weights_from np d s es" "e \<in> set es"
  shows "s \<le> unat (getWeight d e)"
    "unat (getWeight d e) + np (getTarget d e) \<le> s + (\<Sum>e\<leftarrow>es. np (getTarget d e))"
proof -
  have "s \<le> unat (getWeight d e) \<and>
    unat (getWeight d e) + np (getTarget d e) \<le> s + (\<Sum>e\<leftarrow>es. np (getTarget d e))"
    using assms by (induction es arbitrary: s) fastforce+
  then show "s \<le> unat (getWeight d e)"
    "unat (getWeight d e) + np (getTarget d e) \<le> s + (\<Sum>e\<leftarrow>es. np (getTarget d e))" by simp_all
qed

lemma weights_from_unique:
  assumes "weights_from np d s es" "e \<in> set es" "f \<in> set es"
    and "unat (getWeight d e) \<le> k" "k < unat (getWeight d e) + np (getTarget d e)"
    and "unat (getWeight d f) \<le> k" "k < unat (getWeight d f) + np (getTarget d f)"
  shows "e = f"
  using assms
proof (induction es arbitrary: s)
  case Nil
  then show ?case by simp
next
  case (Cons g es)
  note b = weights_from_bounds(1) [of np d "s + np (getTarget d g)" es]
  show ?case
    using Cons b [of e] b [of f] by auto
qed

lemma weights_from_cover:
  assumes "weights_from np d s es" "s \<le> k" "k < s + (\<Sum>e\<leftarrow>es. np (getTarget d e))"
  shows "\<exists>e\<in>set es. unat (getWeight d e) \<le> k \<and> k < unat (getWeight d e) + np (getTarget d e)"
  using assms
proof (induction es arbitrary: s)
  case Nil
  then show ?case by simp
next
  case (Cons g es)
  show ?case
  proof (cases "k < s + np (getTarget d g)")
    case True
    with Cons.prems show ?thesis by auto
  next
    case False
    with Cons.IH [of "s + np (getTarget d g)"] Cons.prems show ?thesis by auto
  qed
qed

lemma dag_succs_iff:
  assumes "bl_wf rk d" "v \<in> set (d_nodes d)"
  shows "e \<in> set (dag_succs d v) \<longleftrightarrow> dag_edge d e \<and> getSource d e = v"
  using wf_succ_iff [OF assms] by (auto simp: dag_succs_def dag_edge_def)

lemma dag_edge_leaves:
  assumes wf: "bl_wf rk d" and e: "dag_edge d e"
  shows "getSource d e \<in> set (d_nodes d)" "getTarget d e \<in> set (d_nodes d)" "getSource d e \<noteq> d_exit d"
    "e \<in> set (dag_succs d (getSource d e))"
proof -
  have E: "e \<in> set (d_edges d)" "getExitRootEdge d \<noteq> Inr e" using e by (simp_all add: dag_edge_def)
  show n: "getSource d e \<in> set (d_nodes d)" "getTarget d e \<in> set (d_nodes d)"
    using wf_ends [OF wf E(1)] by simp_all
  show "getSource d e \<noteq> d_exit d" using wf_out_of_exit [OF wf E(1)] E(2) by blast
  show "e \<in> set (dag_succs d (getSource d e))" using dag_succs_iff [OF wf n(1)] e by simp
qed

lemma numbered_node:
  assumes "numbered np d" "v \<in> set (d_nodes d)" "v \<noteq> d_exit d"
  shows "np v = (\<Sum>e\<leftarrow>dag_succs d v. np (getTarget d e))" "weights_from np d 0 (dag_succs d v)"
  using assms by (auto simp: numbered_def)

lemma number_below:
  assumes wf: "bl_wf rk d" and nu: "numbered np d"
  shows "walk d v p (d_exit d) \<Longrightarrow> \<forall>e\<in>set p. dag_edge d e \<Longrightarrow> nat_number d p < np v"
proof (induction p arbitrary: v)
  case Nil
  then show ?case using nu by (simp add: nat_number_def numbered_def)
next
  case (Cons e p)
  then have v: "getSource d e = v" by simp
  note l = dag_edge_leaves [OF wf, of e, unfolded v]
  have "nat_number d p < np (getTarget d e)" using Cons by simp
  then show ?case
    using weights_from_bounds(2) [OF numbered_node(2) [OF nu], of v e] numbered_node(1) [OF nu, of v] l Cons.prems
    by (simp add: nat_number_def)
qed

lemma number_injective:
  assumes wf: "bl_wf rk d" and nu: "numbered np d"
  shows "walk d v p (d_exit d) \<Longrightarrow> \<forall>e\<in>set p. dag_edge d e \<Longrightarrow>
    walk d v q (d_exit d) \<Longrightarrow> \<forall>e\<in>set q. dag_edge d e \<Longrightarrow> nat_number d p = nat_number d q \<Longrightarrow> p = q"
proof (induction p arbitrary: v q)
  case Nil
  then have "v = d_exit d" by simp
  with Nil.prems dag_edge_leaves(3) [OF wf] show ?case by (cases q) auto
next
  case (Cons e p)
  have v: "getSource d e = v" using Cons.prems by simp
  note l = dag_edge_leaves [OF wf, of e, unfolded v]
  from Cons.prems(3) l(3) Cons.prems(2) obtain f q' where q: "q = f # q'" by (cases q) auto
  have f: "getSource d f = v" "f \<in> set (dag_succs d v)"
    using Cons.prems q dag_edge_leaves(4) [OF wf, of f] by auto
  have np: "nat_number d p < np (getTarget d e)" "nat_number d q' < np (getTarget d f)"
    using number_below [OF wf nu] Cons.prems q by auto
  have "e = f"
    by (rule weights_from_unique [OF numbered_node(2) [OF nu], of v e f "nat_number d (e # p)"])
      (use l f np Cons.prems q in \<open>auto simp: nat_number_def\<close>)
  moreover from this have "p = q'"
    using Cons.IH [of "getTarget d e" q'] Cons.prems q by (simp add: nat_number_def)
  ultimately show ?case using q by simp
qed

lemma number_surjective:
  assumes wf: "bl_wf rk d" and nu: "numbered np d"
  shows "v \<in> set (d_nodes d) \<Longrightarrow> k < np v \<Longrightarrow>
    \<exists>p. walk d v p (d_exit d) \<and> (\<forall>e\<in>set p. dag_edge d e) \<and> nat_number d p = k"
proof (induction "rank_bound rk d - rk v" arbitrary: v k rule: less_induct)
  case less
  show ?case
  proof (cases "v = d_exit d")
    case True
    with less.prems nu show ?thesis
      by (intro exI [of _ "[]"]) (simp add: numbered_def nat_number_def)
  next
    case False
    obtain e where e: "e \<in> set (dag_succs d v)" "unat (getWeight d e) \<le> k"
        "k < unat (getWeight d e) + np (getTarget d e)"
      using weights_from_cover [OF numbered_node(2) [OF nu less.prems(1) False], of k]
        numbered_node(1) [OF nu less.prems(1) False] less.prems(2) by auto
    then have s: "dag_edge d e" "getSource d e = v" using dag_succs_iff [OF wf less.prems(1)] by simp_all
    have t: "getTarget d e \<in> set (d_nodes d)" using dag_edge_leaves(2) [OF wf s(1)] .
    have "rk v < rk (getTarget d e)" "rk (getTarget d e) \<le> rank_bound rk d"
      using wf_rank [OF wf s(1)] s(2) rank_bound_ge [OF t, of rk] by simp_all
    then have "rank_bound rk d - rk (getTarget d e) < rank_bound rk d - rk v" by simp
    moreover have "k - unat (getWeight d e) < np (getTarget d e)" using e by simp
    ultimately obtain p where "walk d (getTarget d e) p (d_exit d)" "\<forall>e\<in>set p. dag_edge d e"
        "nat_number d p = k - unat (getWeight d e)"
      using less.hyps [OF _ t] by blast
    then show ?thesis using s e(2) by (intro exI [of _ "e # p"]) (simp add: nat_number_def)
  qed
qed

text \<open>In 32-bit arithmetic nothing is lost.\<close>

lemma of_nat_nat_number: "path_number d p = of_nat (nat_number d p)"
  by (induction p) (simp_all add: path_number_def nat_number_def)

lemma unat_path_number:
  assumes "bl_wf rk d" "numbered np d" "dag_path d p"
  shows "unat (path_number d p) = nat_number d p"
proof -
  have "nat_number d p < np (d_root d)"
    using number_below [OF assms(1,2)] assms(3) by (simp add: dag_path_def)
  also have "\<dots> \<le> 2 ^ 32" using assms(2) by (simp add: numbered_def)
  finally show ?thesis by (simp add: of_nat_nat_number unat_of_nat)
qed

end
