(* ===== verification/BL_Example.thy ===== *)
theory BL_Example
  imports BL_Numbering
begin

text \<open>
  A small function with a loop, as a concrete dag: entry block 0, loop header 1,
  loop body 2 and the exit node 3. Edge 3 is the back edge of the loop, edges 4
  and 5 are its phony edges, edge 0 runs from the exit to the root.
\<close>

definition mk_node :: "nat \<Rightarrow> edge_id list \<Rightarrow> edge_id list \<Rightarrow> bl_node" where
  "mk_node v ps ss = (createNode (if v = 3 then None else Some v))\<lparr>n_predEdges := ps, n_succEdges := ss\<rparr>"

definition mk_edge :: "node_id \<Rightarrow> node_id \<Rightarrow> edge_type \<Rightarrow> u32 \<Rightarrow> bl_edge" where
  "mk_edge s t ty w = (createEdge s t)\<lparr>e_type := ty, e_weight := w\<rparr>"

definition loop_dag :: bl_dag where
  "loop_dag = \<lparr>d_nodes = [0, 3, 1, 2], d_edges = [0, 1, 2, 3, 4, 5, 6],
     d_node = (\<lambda>v. if v = 0 then mk_node 0 [0] [1, 4]
                   else if v = 1 then mk_node 1 [1, 3, 4] [2, 6]
                   else if v = 2 then mk_node 2 [2] [3, 5]
                   else mk_node 3 [5, 6] [0]),
     d_edge = (\<lambda>e. if e = 0 then mk_edge 3 0 NORMAL 0
                   else if e = 1 then mk_edge 0 1 NORMAL 0
                   else if e = 2 then mk_edge 1 2 NORMAL 0
                   else if e = 3 then (mk_edge 2 1 BACKEDGE 0)\<lparr>e_phonyRoot := Some 4, e_phonyExit := Some 5\<rparr>
                   else if e = 4 then mk_edge 0 1 BACKEDGE_PHONY 2
                   else if e = 5 then mk_edge 2 3 BACKEDGE_PHONY 0
                   else mk_edge 1 3 NORMAL 1),
     d_root = 0, d_exit = 3, d_treeEdges = [], d_chordEdges = [],
     d_counterArray = None, d_numberOfPaths = 4\<rparr>"

definition loop_rank :: "node_id \<Rightarrow> nat" where
  "loop_rank v = v"

definition loop_paths :: "node_id \<Rightarrow> nat" where
  "loop_paths v = (if v = 0 then 4 else if v = 1 then 2 else 1)"

lemmas loop_dag_defs = loop_dag_def mk_node_def mk_edge_def createNode_def createEdge_def getter_defs

lemma loop_dag_parts:
  "d_edges loop_dag = [0, 1, 2, 3, 4, 5, 6]" "d_nodes loop_dag = [0, 3, 1, 2]"
  "d_root loop_dag = 0" "d_exit loop_dag = 3" "d_numberOfPaths loop_dag = 4"
  "d_treeEdges loop_dag = []" "d_chordEdges loop_dag = []"
  "succEdges loop_dag = (\<lambda>v. if v = 0 then [1, 4] else if v = 1 then [2, 6] else if v = 2 then [3, 5] else [0])"
  "predEdges loop_dag = (\<lambda>v. if v = 0 then [0] else if v = 1 then [1, 3, 4] else if v = 2 then [2] else [5, 6])"
  by (simp_all add: loop_dag_defs fun_eq_iff)

lemma loop_dag_edges:
  "getSource loop_dag = (\<lambda>e. if e = 0 then 3 else if e = 1 \<or> e = 4 then 0 else if e = 3 \<or> e = 5 then 2 else 1)"
  "getTarget loop_dag = (\<lambda>e. if e = 0 then 0 else if e = 1 \<or> e = 3 \<or> e = 4 then 1 else if e = 2 then 2 else 3)"
  "getType loop_dag = (\<lambda>e. if e = 3 then BACKEDGE else if e = 4 \<or> e = 5 then BACKEDGE_PHONY else NORMAL)"
  "getWeight loop_dag = (\<lambda>e. if e = 4 then 2 else if e < 6 then 0 else 1)"
  "getPhonyRoot loop_dag = (\<lambda>e. if e = 3 then Some 4 else None)"
  "getPhonyExit loop_dag = (\<lambda>e. if e = 3 then Some 5 else None)"
  "getIncrement loop_dag = (\<lambda>e. 0)" "isInSpanningTree loop_dag = (\<lambda>e. False)"
  "isInitialization loop_dag = (\<lambda>e. False)" "isCounterIncrement loop_dag = (\<lambda>e. False)"
  by (auto simp: loop_dag_defs fun_eq_iff)

lemma loop_dag_er: "getExitRootEdge loop_dag = Inr 0"
  by (simp add: getExitRootEdge_def loop_dag_parts)

lemma loop_dag_dag_edge: "dag_edge loop_dag e \<longleftrightarrow> e \<in> {1, 2, 4, 5, 6}"
  by (auto simp: dag_edge_def loop_dag_er loop_dag_parts loop_dag_edges)

lemmas loop_dag_eval = loop_dag_parts loop_dag_edges loop_dag_er loop_dag_dag_edge

lemma loop_dag_fresh: "fresh_dag loop_dag"
  by (simp add: fresh_dag_def loop_dag_eval)

lemma loop_dag_fuel: "enough_fuel loop_rank 5 loop_dag"
  by (simp add: enough_fuel_def rank_bound_def loop_dag_eval loop_rank_def)

lemma loop_dag_numbered: "numbered loop_paths loop_dag"
  by (simp add: numbered_def dag_succs_def loop_dag_eval loop_paths_def)

lemma loop_dag_execution: "execution loop_dag [1, 2, 3, 6]" "execution loop_dag [1, 6]"
  by (simp_all add: execution_def real_edge_def is_loop_edge_def loop_dag_eval)

lemma loop_dag_wf: "bl_wf loop_rank loop_dag"
proof -
  have ph: "phony_partners loop_dag 3" by (simp add: phony_partners_def loop_dag_eval)
  have v: "\<forall>v\<in>set (d_nodes loop_dag). distinct (succEdges loop_dag v) \<and> distinct (predEdges loop_dag v)
      \<and> set (succEdges loop_dag v) = {e \<in> set (d_edges loop_dag). getSource loop_dag e = v}
      \<and> set (predEdges loop_dag v) = {e \<in> set (d_edges loop_dag). getTarget loop_dag e = v}"
    by (auto simp: loop_dag_eval split: if_splits)
  show ?thesis
    unfolding bl_wf_def by (intro conjI v) (simp_all add: loop_dag_eval loop_rank_def ph)
qed

end
