(* ===== verification/BL_Profile.thy ===== *)
theory BL_Profile
  imports BL_Example
begin

text \<open>
  The properties of the path logging pass up to the emission of code: what a run
  of an instrumented function logs, that the log determines the run, that path
  numbers are dense and unique, and what the single passes guarantee. Each
  property is applied to the loop of \<open>BL_Example\<close>.
\<close>

section \<open>From weights to logged numbers\<close>

lemma placed_path_sum:
  assumes p: "placed rk er d'" and t: "topo d' = topo d" and sh: "shifted d (getWeight d) (getIncrement d')"
    and w: "getWeight d er = 0" and path: "dag_path d q"
  shows "(\<Sum>e\<leftarrow>q. getIncrement d' e) = path_number d q"
proof -
  note e = topo_eqs [OF t]
  have wf: "bl_wf rk d" "getExitRootEdge d = Inr er" using placed_facts(1,2) [OF p] by (simp_all add: e)
  note r = wf_exit_root_edge [OF wf]
  have "walk d (d_exit d) (er # q) (d_exit d)" using path r by (simp add: dag_path_def)
  moreover have "\<forall>e\<in>set (er # q). placement_edge d e"
    using path wf(2) by (auto simp: dag_path_def placement_edge_def)
  ultimately have "(\<Sum>e\<leftarrow>er # q. getIncrement d' e) = (\<Sum>e\<leftarrow>er # q. getWeight d e)"
    using sh by (intro shifted_closed_walk)
  then show ?thesis using placed_exit_root(3) [OF p] w by (simp add: path_number_def)
qed

lemma topo_eq_runs:
  assumes "topo d' = topo d"
  shows "execution d' = execution d" "acyclic_parts d' = acyclic_parts d" "is_loop_edge d' = is_loop_edge d"
proof -
  note t = topo_eqs [OF assms] and w = topo_eq_paths [OF assms]
  show l: "is_loop_edge d' = is_loop_edge d" by (simp add: is_loop_edge_def fun_eq_iff t)
  show "execution d' = execution d" by (simp add: execution_def real_edge_def fun_eq_iff t w l)
  have "acyclic_parts d' acc es = acyclic_parts d acc es" for acc es
    by (induction es arbitrary: acc) (simp_all add: t l split: option.splits)
  then show "acyclic_parts d' = acyclic_parts d" by (simp add: fun_eq_iff)
qed

lemma run_function_log:
  assumes wf: "bl_wf rk d" and fr: "fresh_dag d" and nu: "numbered np d" and n: "enough_fuel rk n d"
  obtains d' where "place_instrumentation n d = Inr d'"
    "\<And>es. execution d es \<Longrightarrow>
       run_function d' es = Inr (None, map (path_number d) (acyclic_parts d [] es))
       \<and> (\<forall>q\<in>set (acyclic_parts d [] es). dag_path d q)"
proof -
  obtain er where er: "getExitRootEdge d = Inr er" using wf by (rule wf_exit_root)
  obtain d' where d': "place_instrumentation n d = Inr d'" "topo d' = topo d" "placed rk er d'"
      "shifted d (getWeight d) (getIncrement d')"
    using wf fr n er by (rule place_instrumentation_placed)
  note e = topo_eqs [OF d'(2)] topo_eq_paths [OF d'(2)] topo_eq_runs [OF d'(2)]
  have w0: "getWeight d er = 0" using nu wf_exit_root_edge(5) [OF wf er] by (simp add: numbered_def)
  have start: "instrumented_step d' er (None, []) = Inr (None, [])"
    using placed_exit_root [OF d'(3)] wf_exit_root_edge(4) [OF wf er]
    by (simp add: instrumented_step_def is_loop_edge_def e edge_action_idle)
  show thesis
  proof (rule that [OF d'(1)])
    fix es
    assume "execution d es"
    then have *: "walk d' (d_root d') es (d_exit d')" "\<forall>e\<in>set es. real_edge d' e"
      by (simp_all add: execution_def real_edge_def e)
    note r = run_execution_from [OF d'(3) *, of "[]" "[]" "(None, [])", simplified]
    then have "map (\<lambda>q. \<Sum>e\<leftarrow>q. getIncrement d' e) (acyclic_parts d [] es) =
        map (path_number d) (acyclic_parts d [] es)"
      using placed_path_sum [OF d'(3,2,4) w0] by (simp add: e)
    with r start show "run_function d' es = Inr (None, map (path_number d) (acyclic_parts d [] es))
       \<and> (\<forall>q\<in>set (acyclic_parts d [] es). dag_path d q)"
      using er by (simp add: run_function_def e)
  qed
qed

text \<open>
  C3. A function is instrumented by the passes of the path profiler. Every execution of it, from the
  entry to the exit and through any number of loop iterations, then logs the
  path numbers of the acyclic paths it consists of, in order, and nothing else;
  no step reads a path number that does not exist and no assert fails.
\<close>

theorem execution_log:
  assumes "bl_wf rk d" and "fresh_dag d" and "numbered np d" and "enough_fuel rk n d"
    and "execution d es"
  shows "\<exists>d'. place_instrumentation n d = Inr d' \<and>
    run_function d' es = Inr (None, map (path_number d) (acyclic_parts d [] es))"
  using run_function_log [OF assms(1-4)] assms(5) by metis

theorem execution_log_witness:
  "\<exists>d'. place_instrumentation 5 loop_dag = Inr d' \<and> run_function d' [1, 2, 3, 6] = Inr (None, [0, 3])"
proof -
  have "map (path_number loop_dag) (acyclic_parts loop_dag [] [1, 2, 3, 6]) = [0, 3]"
    by (simp add: is_loop_edge_def path_number_def loop_dag_eval)
  then show ?thesis
    using execution_log [OF loop_dag_wf loop_dag_fresh loop_dag_numbered loop_dag_fuel loop_dag_execution(1)]
    by simp
qed

section \<open>The log determines the execution\<close>

definition loop_edges_marked :: "bl_dag \<Rightarrow> bool" where
  "loop_edges_marked d \<longleftrightarrow>
     distinct (map (getPhonyExit d) (filter (is_loop_edge d) (d_edges d)))"

lemma loop_edges_markedD:
  assumes "loop_edges_marked d" "e \<in> set (d_edges d)" "f \<in> set (d_edges d)"
    "is_loop_edge d e" "is_loop_edge d f" "getPhonyExit d e = getPhonyExit d f"
  shows "e = f"
  using assms by (auto simp: loop_edges_marked_def distinct_map inj_on_def)

lemma wf_real_edge:
  assumes "bl_wf rk d" "real_edge d e" "is_loop_edge d e"
  obtains p q where "getPhonyRoot d e = Some p" "getPhonyExit d e = Some q"
    "getType d q \<in> {BACKEDGE_PHONY, SPLITEDGE_PHONY}"
proof -
  have "phony_partners d e" using assms by (auto simp: bl_wf_def real_edge_def is_loop_edge_def)
  then show thesis using that by (auto simp: phony_partners_def split: option.splits)
qed

lemma acyclic_parts_head:
  assumes wf: "bl_wf rk d"
  shows "\<forall>e\<in>set es. real_edge d e \<Longrightarrow> \<exists>xs rest. acyclic_parts d acc es = (acc @ xs) # rest"
proof (induction es arbitrary: acc)
  case Nil
  show ?case by simp
next
  case (Cons e es)
  show ?case
  proof (cases "is_loop_edge d e")
    case True
    then obtain p q where "getPhonyRoot d e = Some p" "getPhonyExit d e = Some q"
      using wf_real_edge [OF wf] Cons.prems by (metis list.set_intros(1))
    with True show ?thesis by simp
  next
    case False
    with Cons.IH [of "acc @ [e]"] Cons.prems show ?thesis by auto
  qed
qed

lemma acyclic_parts_not_single:
  assumes wf: "bl_wf rk d" and re: "\<forall>e\<in>set (f # fs). real_edge d e"
  shows "acyclic_parts d acc (f # fs) \<noteq> [acc]"
proof (cases "is_loop_edge d f")
  case True
  then obtain p q where "getPhonyRoot d f = Some p" "getPhonyExit d f = Some q"
    using wf_real_edge [OF wf] re by (metis list.set_intros(1))
  with True show ?thesis by simp
next
  case False
  with acyclic_parts_head [OF wf, of fs "acc @ [f]"] re show ?thesis by auto
qed

lemma acyclic_parts_loop_normal:
  assumes wf: "bl_wf rk d" and e: "real_edge d e" "is_loop_edge d e"
    and f: "\<forall>x\<in>set (f # fs). real_edge d x" "\<not> is_loop_edge d f"
  shows "acyclic_parts d acc (e # es) \<noteq> acyclic_parts d acc (f # fs)"
proof -
  obtain p q where q: "getPhonyRoot d e = Some p" "getPhonyExit d e = Some q"
      "getType d q \<in> {BACKEDGE_PHONY, SPLITEDGE_PHONY}"
    using wf e by (rule wf_real_edge)
  moreover have "getType d f = NORMAL" using f by (simp add: real_edge_def)
  ultimately show ?thesis using acyclic_parts_head [OF wf, of fs "acc @ [f]"] f e by auto
qed

lemma acyclic_parts_injective:
  assumes wf: "bl_wf rk d" and mk: "loop_edges_marked d"
  shows "\<forall>e\<in>set es. real_edge d e \<Longrightarrow> \<forall>e\<in>set fs. real_edge d e \<Longrightarrow>
    acyclic_parts d acc es = acyclic_parts d acc fs \<Longrightarrow> es = fs"
proof (induction es arbitrary: acc fs)
  case Nil
  then show ?case using acyclic_parts_not_single [OF wf, of _ _ acc] by (cases fs) force+
next
  case (Cons e es)
  obtain f fs' where fs: "fs = f # fs'"
    using Cons.prems acyclic_parts_not_single [OF wf, of e es acc] by (cases fs) auto
  have re: "real_edge d e" "real_edge d f" "\<forall>x\<in>set es. real_edge d x" "\<forall>x\<in>set fs'. real_edge d x"
    using Cons.prems fs by simp_all
  consider (loops) "is_loop_edge d e" "is_loop_edge d f" | (normal) "\<not> is_loop_edge d e" "\<not> is_loop_edge d f"
    using acyclic_parts_loop_normal [OF wf] Cons.prems re fs by metis
  then show ?case
  proof cases
    case loops
    obtain p q where pq: "getPhonyRoot d e = Some p" "getPhonyExit d e = Some q"
      using wf re(1) loops(1) by (rule wf_real_edge)
    obtain p' q' where pq': "getPhonyRoot d f = Some p'" "getPhonyExit d f = Some q'"
      using wf re(2) loops(2) by (rule wf_real_edge)
    have "q = q'" using Cons.prems(3) fs loops pq pq' by simp
    with loop_edges_markedD [OF mk] re(1,2) loops pq pq' have ef: "e = f" by (simp add: real_edge_def)
    with Cons.prems(3) fs loops pq have "acyclic_parts d [p] es = acyclic_parts d [p] fs'" by simp
    with Cons.IH re(3,4) ef fs show ?thesis by blast
  next
    case normal
    then have eq: "acyclic_parts d (acc @ [e]) es = acyclic_parts d (acc @ [f]) fs'"
      using Cons.prems(3) fs by simp
    with acyclic_parts_head [OF wf re(3), of "acc @ [e]"] acyclic_parts_head [OF wf re(4), of "acc @ [f]"]
    have "e = f" by auto
    with Cons.IH [OF re(3,4)] eq fs show ?thesis by blast
  qed
qed

lemma path_number_injective:
  assumes "bl_wf rk d" "numbered np d" "dag_path d p" "dag_path d q" "path_number d p = path_number d q"
  shows "p = q"
  using number_injective [OF assms(1,2)] unat_path_number [OF assms(1,2)] assms(3-5)
  by (metis dag_path_def)

lemma same_numbers_same_parts:
  assumes "bl_wf rk d" "numbered np d" "\<forall>p\<in>set ps. dag_path d p" "\<forall>q\<in>set qs. dag_path d q"
    "map (path_number d) ps = map (path_number d) qs"
  shows "ps = qs"
proof -
  have "inj_on (path_number d) (set ps \<union> set qs)"
    by (rule inj_onI) (use path_number_injective [OF assms(1,2)] assms(3,4) in blast)
  with assms(5) show ?thesis by (rule map_inj_on)
qed

text \<open>
  C4. The log is lossless: two executions of an instrumented function that log
  the same numbers took the same edges, provided that no two loop edges share
  their phony edge to the exit.
\<close>

theorem log_determines_execution:
  assumes "bl_wf rk d" and "fresh_dag d" and "numbered np d" and "enough_fuel rk n d"
    and "loop_edges_marked d" and "execution d es" and "execution d fs"
    and "place_instrumentation n d = Inr d'" and "run_function d' es = run_function d' fs"
  shows "es = fs"
proof -
  obtain d'' where d'': "place_instrumentation n d = Inr d''"
    "\<And>es. execution d es \<Longrightarrow>
       run_function d'' es = Inr (None, map (path_number d) (acyclic_parts d [] es))
       \<and> (\<forall>q\<in>set (acyclic_parts d [] es). dag_path d q)"
    by (rule run_function_log [OF assms(1-4)]) (rule that)
  have "acyclic_parts d [] es = acyclic_parts d [] fs"
    using d''(2) [OF assms(6)] d''(2) [OF assms(7)] d''(1) assms(8,9)
    by (intro same_numbers_same_parts [OF assms(1,3)]) simp_all
  then show ?thesis using assms(6,7) by (intro acyclic_parts_injective [OF assms(1,5)]) (simp_all add: execution_def)
qed

theorem log_determines_execution_witness:
  "bl_wf loop_rank loop_dag \<and> loop_edges_marked loop_dag
    \<and> (\<exists>d'. place_instrumentation 5 loop_dag = Inr d' \<and> run_function d' [1, 2, 3, 6] \<noteq> run_function d' [1, 6])"
proof -
  have m: "loop_edges_marked loop_dag"
    by (simp add: loop_edges_marked_def is_loop_edge_def loop_dag_eval)
  obtain d' where d': "place_instrumentation 5 loop_dag = Inr d'"
    using run_function_log [OF loop_dag_wf loop_dag_fresh loop_dag_numbered loop_dag_fuel] by metis
  have "run_function d' [1, 2, 3, 6] \<noteq> run_function d' [1, 6]"
    using log_determines_execution [OF loop_dag_wf loop_dag_fresh loop_dag_numbered loop_dag_fuel m loop_dag_execution d']
    by auto
  with d' m loop_dag_wf show ?thesis by blast
qed

section \<open>Path numbers\<close>

lemma path_number_bij:
  assumes "bl_wf rk d" and "numbered np d"
  shows "bij_betw (path_number d) {p. dag_path d p} {k. unat k < np (d_root d)}"
proof (rule bij_betw_imageI)
  show "inj_on (path_number d) {p. dag_path d p}"
    by (rule inj_onI) (use path_number_injective [OF assms] in blast)
  show "path_number d ` {p. dag_path d p} = {k. unat k < np (d_root d)}"
  proof (intro equalityI subsetI)
    fix k
    assume "k \<in> path_number d ` {p. dag_path d p}"
    then show "k \<in> {k. unat k < np (d_root d)}"
      using number_below [OF assms] unat_path_number [OF assms] by (auto simp: dag_path_def)
  next
    fix k :: clong
    assume "k \<in> {k. unat k < np (d_root d)}"
    then obtain p where "walk d (d_root d) p (d_exit d)" "\<forall>e\<in>set p. dag_edge d e" "nat_number d p = unat k"
      using number_surjective [OF assms, of "d_root d" "unat k"] assms(1) by (auto simp: bl_wf_def)
    then have "dag_path d p" "path_number d p = k" by (simp_all add: dag_path_def of_nat_nat_number)
    then show "k \<in> path_number d ` {p. dag_path d p}" by blast
  qed
qed

text \<open>
  C9. The placed code numbers the paths densely and uniquely: run along any acyclic path from the root to the exit, it logs exactly one number, no
  step reads a path number that does not exist, different paths log different numbers, and the numbers logged are exactly those below the number of paths
  of the root, without wrap-around.
\<close>

theorem placed_paths_numbered:
  assumes "bl_wf rk d" and "fresh_dag d" and "numbered np d" and "enough_fuel rk n d"
  shows "\<exists>d' num. place_instrumentation n d = Inr d'
    \<and> (\<forall>p. dag_path d p \<longrightarrow> fold_res (edge_action d') p (None, []) = Inr (None, [num p]))
    \<and> bij_betw num {p. dag_path d p} {k. unat k < np (d_root d)}"
proof -
  obtain er where er: "getExitRootEdge d = Inr er" using assms(1) by (rule wf_exit_root)
  obtain d' where d': "place_instrumentation n d = Inr d'" "topo d' = topo d" "placed rk er d'"
      "shifted d (getWeight d) (getIncrement d')"
    using assms(1,2,4) er by (rule place_instrumentation_placed)
  have w0: "getWeight d er = 0" using assms(3) wf_exit_root_edge(5) [OF assms(1) er] by (simp add: numbered_def)
  have "fold_res (edge_action d') p (None, []) = Inr (None, [path_number d p])" if "dag_path d p" for p
    using run_path [OF d'(3), of p "[]"] placed_path_sum [OF d'(3,2,4) w0 that] that by (simp add: topo_eq_paths [OF d'(2)])
  then show ?thesis using d'(1) path_number_bij [OF assms(1,3)] by blast
qed

theorem placed_paths_numbered_witness:
  "\<exists>d' num. place_instrumentation 5 loop_dag = Inr d'
    \<and> fold_res (edge_action d') [1, 6] (None, []) = Inr (None, [num [1, 6]])
    \<and> bij_betw num {p. dag_path loop_dag p} {k. unat k < 4}"
proof -
  have "dag_path loop_dag [1, 6]" by (simp add: dag_path_def dag_edge_def loop_dag_eval)
  moreover have "loop_paths (d_root loop_dag) = 4" by (simp add: loop_dag_eval loop_paths_def)
  ultimately show ?thesis
    using placed_paths_numbered [OF loop_dag_wf loop_dag_fresh loop_dag_numbered loop_dag_fuel] by metis
qed

section \<open>Guarantees of the single passes\<close>

text \<open>
  When the passes are done, the phony edge from the root of every back or split
  edge carries a path number initialization and its phony edge to the exit a
  counter increment, which the instrumentation of the edge asserts.
\<close>

lemma phony_edges_marked:
  assumes "bl_wf rk d" and "fresh_dag d" and "enough_fuel rk n d"
    and "b \<in> set (d_edges d)" and "is_loop_edge d b"
  shows "\<exists>d' t q. place_instrumentation n d = Inr d' \<and> getPhonyRoot d' b = Some t
    \<and> getPhonyExit d' b = Some q \<and> isInitialization d' t \<and> isCounterIncrement d' q"
proof -
  obtain er where er: "getExitRootEdge d = Inr er" using assms(1) by (rule wf_exit_root)
  obtain d' where d': "place_instrumentation n d = Inr d'" "topo d' = topo d" "placed rk er d'"
    using assms(1-3) er by (rule place_instrumentation_placed)
  have b: "b \<in> set (d_edges d')" "is_loop_edge d' b"
    using assms(4,5) by (simp_all add: topo_eqs [OF d'(2)] topo_eq_runs [OF d'(2)])
  show ?thesis using placed_loop_edge [OF d'(3) b] d'(1) by metis
qed

lemma tree_grows_no_loop:
  assumes "tree_grows d N T" "f \<in> T"
  shows "getSource d f \<noteq> getTarget d f"
  using assms by (induction rule: tree_grows.induct) auto

text \<open>
  C11. For any spanning tree, the chord increments add up to the weights around
  every cycle of tree edges and chords, while the tree edges themselves are left
  without an increment. The depth first walk returns for any fuel above the
  number of tree edges.
\<close>

theorem chord_increments_cycle_sum:
  assumes "tree_grows d N (set (d_treeEdges d))" and "distinct (d_treeEdges d)"
    and "distinct (d_chordEdges d)" and "set (d_treeEdges d) \<inter> set (d_chordEdges d) = {}"
    and "length (d_treeEdges d) < n"
    and "\<And>e. e \<in> set (d_treeEdges d) \<union> set (d_chordEdges d) \<Longrightarrow> getIncrement d e = 0"
    and "walk d u p u"
    and "\<And>e. e \<in> set p \<Longrightarrow> e \<in> set (d_treeEdges d) \<union> set (d_chordEdges d) \<and> getSource d e \<noteq> getTarget d e"
  shows "\<exists>d'. calculateChordIncrements n d = Inr d'
    \<and> (\<Sum>e\<leftarrow>p. getIncrement d' e) = (\<Sum>e\<leftarrow>p. getWeight d e)
    \<and> (\<forall>f\<in>set (d_treeEdges d). getIncrement d' f = 0)"
proof -
  obtain pot d' where d': "calculateChordIncrements n d = Inr d'"
    "\<And>c. c \<in> set (d_chordEdges d) \<Longrightarrow> getSource d c \<noteq> getTarget d c \<Longrightarrow>
       getIncrement d' c = getIncrement d c + getWeight d c + pot (getSource d c) - pot (getTarget d c)"
    "\<And>f. f \<in> set (d_treeEdges d) \<Longrightarrow> getWeight d f + pot (getSource d f) - pot (getTarget d f) = 0"
    "\<And>f. f \<notin> set (d_chordEdges d) \<Longrightarrow> getSource d f \<noteq> getTarget d f \<Longrightarrow> getIncrement d' f = getIncrement d f"
    using assms(1-3,5) by (rule calculateChordIncrements_potential) blast
  have tree: "getIncrement d' f = 0" if "f \<in> set (d_treeEdges d)" for f
    using d'(4) [of f] tree_grows_no_loop [OF assms(1) that] assms(4) assms(6) [of f] that by auto
  have inc: "getIncrement d' e = getWeight d e + (pot (getSource d e) - pot (getTarget d e))"
    if e: "e \<in> set p" for e
  proof (cases "e \<in> set (d_chordEdges d)")
    case True
    with d'(2) [OF True] assms(6) [of e] assms(8) [OF e] show ?thesis by simp
  next
    case False
    with assms(8) [OF e] have "e \<in> set (d_treeEdges d)" by auto
    with d'(3) [of e] tree [of e] show ?thesis by (simp only: add_diff_eq)
  qed
  have "(\<Sum>e\<leftarrow>p. getIncrement d' e) = (\<Sum>e\<leftarrow>p. getWeight d e + (pot (getSource d e) - pot (getTarget d e)))"
    using inc by (intro arg_cong [of _ _ sum_list] map_cong) auto
  also have "\<dots> = (\<Sum>e\<leftarrow>p. getWeight d e) + (\<Sum>e\<leftarrow>p. pot (getSource d e) - pot (getTarget d e))"
    by (rule sum_list_map_add)
  also have "(\<Sum>e\<leftarrow>p. pot (getSource d e) - pot (getTarget d e)) = 0"
    using walk_telescope [OF assms(7), of pot] by simp
  finally show ?thesis using d'(1) tree by simp
qed

definition spanned_dag :: bl_dag where
  "spanned_dag = loop_dag\<lparr>d_treeEdges := [1, 2, 6], d_chordEdges := [0, 3, 4, 5]\<rparr>"

lemma spanned_dag_eval:
  "d_treeEdges spanned_dag = [1, 2, 6]" "d_chordEdges spanned_dag = [0, 3, 4, 5]" "d_root spanned_dag = 0"
  "getSource spanned_dag = getSource loop_dag" "getTarget spanned_dag = getTarget loop_dag"
  "getWeight spanned_dag = getWeight loop_dag" "getIncrement spanned_dag = getIncrement loop_dag"
  by (simp_all add: spanned_dag_def getter_defs loop_dag_parts fun_eq_iff)

lemma spanned_dag_tree: "tree_grows spanned_dag {3, 2, 1, 0} {6, 2, 1}"
proof -
  note e = spanned_dag_eval loop_dag_edges
  have 0: "tree_grows spanned_dag {0} {}" using tree_root [of spanned_dag] by (simp add: e)
  have 1: "tree_grows spanned_dag {1, 0} {1}" using tree_forward [OF 0, of 1] by (simp add: e)
  have 2: "tree_grows spanned_dag {2, 1, 0} {2, 1}" using tree_forward [OF 1, of 2] by (simp add: e)
  show ?thesis using tree_forward [OF 2, of 6] by (simp add: e)
qed

theorem chord_increments_cycle_sum_witness:
  "\<exists>d'. calculateChordIncrements 4 spanned_dag = Inr d'
    \<and> (\<Sum>e\<leftarrow>[0, 4, 6]. getIncrement d' e) = 3 \<and> getIncrement d' 6 = 0"
proof -
  have t: "tree_grows spanned_dag {3, 2, 1, 0} (set (d_treeEdges spanned_dag))"
    using spanned_dag_tree by (simp add: spanned_dag_eval insert_commute)
  have "\<exists>d'. calculateChordIncrements 4 spanned_dag = Inr d'
    \<and> (\<Sum>e\<leftarrow>[0, 4, 6]. getIncrement d' e) = (\<Sum>e\<leftarrow>[0, 4, 6]. getWeight spanned_dag e)
    \<and> (\<forall>f\<in>set (d_treeEdges spanned_dag). getIncrement d' f = 0)"
    by (rule chord_increments_cycle_sum [OF t, of 4 3 "[0, 4, 6]"])
      (auto simp: spanned_dag_eval loop_dag_edges)
  then show ?thesis by (auto simp: spanned_dag_eval loop_dag_edges)
qed

text \<open>
  C25. \<open>calculateSpanningTree\<close> never finds a tree edge: it colours every node white
  and then skips white nodes. It leaves the tree as it is and makes every edge
  outside the tree but the split edges a chord.
\<close>

theorem spanning_tree_stays_empty:
  assumes "bl_wf rk d" and "fresh_dag d"
  shows "\<exists>d'. calculateSpanningTree d = Inr d' \<and> d_treeEdges d' = []
    \<and> d_chordEdges d' = non_split_edges d \<and> (\<forall>e\<in>set (d_edges d). \<not> isInSpanningTree d' e)"
proof -
  from assms(1) have root: "d_root d \<in> set (d_nodes d)" by (simp add: bl_wf_def)
  obtain d' where d': "calculateSpanningTree d = Inr d'" "d_treeEdges d' = d_treeEdges d"
    "isInSpanningTree d' = isInSpanningTree d" "d_chordEdges d' = d_chordEdges d @
       filter (\<lambda>e. \<not> isInSpanningTree d e \<and> getType d e \<noteq> SPLITEDGE) (d_edges d)"
    using root by (rule calculateSpanningTree_frame)
  moreover have "filter (\<lambda>e. \<not> isInSpanningTree d e \<and> getType d e \<noteq> SPLITEDGE) (d_edges d) = non_split_edges d"
    unfolding non_split_edges_def using assms(2) by (intro filter_cong) (auto simp: fresh_dag_def)
  ultimately show ?thesis using assms(2) by (simp add: fresh_dag_def)
qed

theorem spanning_tree_stays_empty_witness:
  "\<exists>d'. calculateSpanningTree loop_dag = Inr d' \<and> d_treeEdges d' = [] \<and> d_chordEdges d' = [0, 1, 2, 3, 4, 5, 6]"
  using spanning_tree_stays_empty [OF loop_dag_wf loop_dag_fresh]
  by (auto simp: non_split_edges_def loop_dag_eval)

text \<open>
  C26. Pushing the initialization down and pushing the counter increments up each return and keep the
  sum of the increments around every cycle of the dag closed by the edge from exit to root.
\<close>

theorem pushes_keep_cycle_sums:
  assumes "bl_wf rk d" and "enough_fuel rk n d" and "walk d u p u" and "\<forall>e\<in>set p. placement_edge d e"
  shows "\<exists>d1 d2. pushInitialization n d = Inr d1 \<and> pushCounters n d = Inr d2
    \<and> (\<Sum>e\<leftarrow>p. getIncrement d1 e) = (\<Sum>e\<leftarrow>p. getIncrement d e)
    \<and> (\<Sum>e\<leftarrow>p. getIncrement d2 e) = (\<Sum>e\<leftarrow>p. getIncrement d e)"
  using pi.pass_returns [of rk d n] pi.cycle_sum [of rk d n _ u p] pc.pass_returns [of rk d n] pc.cycle_sum [of rk d n _ u p] assms by blast

theorem pushes_keep_cycle_sums_witness:
  "\<exists>d1 d2. pushInitialization 5 loop_dag = Inr d1 \<and> pushCounters 5 loop_dag = Inr d2
    \<and> (\<Sum>e\<leftarrow>[0, 1, 6]. getIncrement d1 e) = 0 \<and> (\<Sum>e\<leftarrow>[0, 1, 6]. getIncrement d2 e) = 0"
  using pushes_keep_cycle_sums [OF loop_dag_wf loop_dag_fuel, of 3 "[0, 1, 6]"]
  by (simp add: placement_edge_def loop_dag_eval)

end
