(* ===== verification/BL_Codegen.thy ===== *)
theory BL_Codegen
  imports BL_Walk BL_Profile
begin

text \<open>
  The properties of the graph surgery and of the emission: phony edges are
  unlinked and nothing else, a split keeps the graph consistent, the instructions
  created for an edge do what the edge is meant to do, and the pass ends on
  every function.
\<close>

section \<open>Surgery\<close>

text \<open>
  \<open>unlinkPhony\<close> returns and takes exactly the phony edges out of the edge vectors of
  every node, in place; the edges themselves stay reachable from the back edges.
\<close>

lemma unlinkPhony_vectors:
  assumes "base_ok B" and "bl_wf rk d"
  shows "\<exists>d'. unlinkPhony B d = Inr d' \<and> d_edges d' = d_edges d \<and> getPhonyRoot d' = getPhonyRoot d
    \<and> getPhonyExit d' = getPhonyExit d
    \<and> (\<forall>v\<in>set (d_nodes d). succEdges d' v = filter (\<lambda>e. \<not> is_phony d e) (succEdges d v)
         \<and> predEdges d' v = filter (\<lambda>e. \<not> is_phony d e) (predEdges d v))"
proof -
  let ?R = "{e \<in> set (d_edges d). is_phony d e}"
  have "filter (\<lambda>e. e \<notin> ?R) (succEdges d v) = filter (\<lambda>e. \<not> is_phony d e) (succEdges d v)"
    "filter (\<lambda>e. e \<notin> ?R) (predEdges d v) = filter (\<lambda>e. \<not> is_phony d e) (predEdges d v)"
    if "v \<in> set (d_nodes d)" for v
    using wf_edge_vectors(2,4) [OF assms(2) that] by (auto intro!: filter_cong)
  then show ?thesis
    using unlinkPhony_unlinked [OF assms] by (simp add: unlinked_vectors)
qed

text \<open>
  C23. Splitting an edge of the linked graph inserts a node with one predecessor and one
  successor edge, keeps all edge vectors consistent and the degrees of the other nodes, and moves
  the type and the phony partners of a loop edge to its second half.
\<close>

theorem splitUpdate_splits:
  assumes "base_ok B" and "linked d" and "f \<in> set (d_edges d)" and "\<not> is_phony d f"
  shows "\<exists>v g. is_split d f BB v g (splitUpdate B f BB d) \<and> linked (splitUpdate B f BB d)
    \<and> getNumberPredEdges (splitUpdate B f BB d) v = 1 \<and> getNumberSuccEdges (splitUpdate B f BB d) v = 1
    \<and> (\<forall>u\<in>set (d_nodes d).
         getNumberPredEdges (splitUpdate B f BB d) u = getNumberPredEdges d u
         \<and> getNumberSuccEdges (splitUpdate B f BB d) u = getNumberSuccEdges d u)"
proof -
  have "getTarget d f \<in> set (d_nodes d)" using assms(2,3) by (rule linkedD)
  with assms(1,3) obtain v g where s: "is_split d f BB v g (splitUpdate B f BB d)"
    by (rule splitUpdate_is_split)
  show ?thesis
    using s is_split_linked [OF assms(2) s assms(3,4)] is_split_degrees [OF assms(2) s assms(3,4)] by blast
qed

lemma loop_dag_unlinked:
  obtains d' where "unlinkPhony simple_base loop_dag = Inr d'" "linked d'" "d_edges d' = d_edges loop_dag"
    "is_phony d' = is_phony loop_dag" "d_nodes d' = d_nodes loop_dag"
proof -
  let ?d = "unlinked {e \<in> set (d_edges loop_dag). is_phony loop_dag e} loop_dag"
  obtain d' where d': "unlinkPhony simple_base loop_dag = Inr d'" "linked d'" "d_edges d' = d_edges loop_dag"
    using simple_base_ok loop_dag_wf by (rule unlinkPhony_linked)
  have "d' = ?d" using d'(1) unlinkPhony_unlinked [OF simple_base_ok loop_dag_wf] by simp
  then show thesis using d' by (intro that [of d']) (auto simp: is_phony_def fun_eq_iff)
qed

theorem splitUpdate_splits_witness:
  "\<exists>d. unlinkPhony simple_base loop_dag = Inr d \<and> linked (splitUpdate simple_base 3 7 d)
    \<and> getNumberPredEdges (splitUpdate simple_base 3 7 d) 1 = getNumberPredEdges d 1"
proof -
  obtain d where d: "unlinkPhony simple_base loop_dag = Inr d" "linked d" "d_edges d = d_edges loop_dag"
    "is_phony d = is_phony loop_dag" "d_nodes d = d_nodes loop_dag"
    by (rule loop_dag_unlinked)
  have "3 \<in> set (d_edges d)" "\<not> is_phony d 3" by (simp_all add: d is_phony_def loop_dag_eval)
  moreover have "1 \<in> set (d_nodes d)" by (simp add: d loop_dag_eval)
  ultimately show ?thesis using splitUpdate_splits [OF simple_base_ok d(2), of 3 7] d(1) by blast
qed

section \<open>Emission\<close>

text \<open>
  C5. The instructions created for an edge, put at the end of its source or at the
  beginning of its target, do to the register and the log what the edge is meant
  to do: initialize, add, log, and at a loop edge end one path and start the next.
  When the edge has no meaning (a null path number, a missing phony mark) the
  pass stops with the same error.
\<close>

theorem emit_edge_realizes:
  assumes "getBlock (em_dag s) node = Some b" and "HASH_THRESHHOLD < d_numberOfPaths (em_dag s)"
    and "getStartingPathNumber (em_dag s) node = getEndingPathNumber (em_dag s) node"
  shows "realizes s node (instrumented_step (em_dag s) edge) (emit_edge edge node atBeginning s)"
  using emit_loop_edge_realizes [OF assms, of edge atBeginning]
    emit_normal_edge_realizes [OF assms, of edge atBeginning]
  by (cases "is_loop_edge (em_dag s) edge")
    (simp_all add: realizes_def emit_edge_def instrumented_step_def)

definition counting_emitter :: "unit emitter" where
  "counting_emitter = \<lparr>em_dag = setStartingPathNumber 2 (Some (ConstInt 5)) (setEndingPathNumber 2 (Some (ConstInt 5))
       (setIncrement 2 4 (setIsCounterIncrement 2 True loop_dag))),
     em_fn = (), em_next = 0, em_calls = []\<rparr>"

lemma counting_emitter_eval:
  "getBlock (em_dag counting_emitter) 2 = Some 2" "d_numberOfPaths (em_dag counting_emitter) = 4"
  "getStartingPathNumber (em_dag counting_emitter) 2 = Some (ConstInt 5)"
  "getEndingPathNumber (em_dag counting_emitter) 2 = Some (ConstInt 5)"
  "getType (em_dag counting_emitter) 2 = NORMAL" "getIncrement (em_dag counting_emitter) 2 = 4"
  "isCounterIncrement (em_dag counting_emitter) 2" "\<not> isInitialization (em_dag counting_emitter) 2"
  by (simp_all add: counting_emitter_def loop_dag_defs setter_defs)

theorem emit_edge_realizes_witness:
  "\<exists>s' cs env'. emit_edge 2 2 True counting_emitter = Inr s' \<and> em_calls s' = em_calls counting_emitter @ cs
    \<and> fold exec_call cs (\<lambda>_. 0, []) = (env', [9])"
proof -
  have "HASH_THRESHHOLD < d_numberOfPaths (em_dag counting_emitter)"
    by (simp add: HASH_THRESHHOLD_def counting_emitter_eval)
  with emit_edge_realizes [of counting_emitter 2 2 2 True]
  have "realizes counting_emitter 2 (instrumented_step (em_dag counting_emitter) 2) (emit_edge 2 2 True counting_emitter)"
    by (simp add: counting_emitter_eval)
  from this [unfolded realizes_def, rule_format, of "\<lambda>_. 0" "[]"] show ?thesis
    by (auto simp: instrumented_step_def is_loop_edge_def edge_action_def counting_emitter_eval)
qed

text \<open>What the placement passes never touch.\<close>

definition node_frame where
  "node_frame d = (hasInstrumentation d, d_numberOfPaths d, d_counterArray d,
     getStartingPathNumber d, getEndingPathNumber d, getPathPHI d)"

lemma node_frame_setters [simp]:
  "node_frame (setIncrement e i d) = node_frame d" "node_frame (setIsInitialization e b d) = node_frame d"
  "node_frame (setIsCounterIncrement e b d) = node_frame d" "node_frame (setColor v c d) = node_frame d"
  "node_frame (d\<lparr>d_chordEdges := xs\<rparr>) = node_frame d"
  by (simp_all add: node_frame_def getter_defs setter_defs fun_eq_iff)

lemma push_init_frame:
  "pushInitializationFromEdge n e d = Inr d' \<Longrightarrow> node_frame d' = node_frame d"
  "push_init_loop n e es d = Inr d' \<Longrightarrow> node_frame d' = node_frame d"
  by (induction n e d and n e es d arbitrary: d' and d'
        rule: pushInitializationFromEdge_push_init_loop.induct)
    (auto simp: Let_def bind_res_eq_Inr split: if_splits)

lemma push_counter_frame:
  "pushCountersFromEdge n e d = Inr d' \<Longrightarrow> node_frame d' = node_frame d"
  "push_counter_loop n e es d = Inr d' \<Longrightarrow> node_frame d' = node_frame d"
  by (induction n e d and n e es d arbitrary: d' and d'
        rule: pushCountersFromEdge_push_counter_loop.induct)
    (auto simp: Let_def bind_res_eq_Inr split: if_splits)

lemma chord_frame:
  "calculateChordIncrementsDfs n w v eo d = Inr d' \<Longrightarrow> node_frame d' = node_frame d"
  "chord_tree_loop n w v eo fs d = Inr d' \<Longrightarrow> node_frame d' = node_frame d"
proof (induction n w v eo d and n w v eo fs d arbitrary: d' and d'
    rule: calculateChordIncrementsDfs_chord_tree_loop.induct)
  case (2 n w v eo d)
  have "node_frame (chord_visit w v eo f d) = node_frame d" for f d by (simp add: chord_visit_def)
  then have "node_frame (fold (chord_visit w v eo) cs d) = node_frame d" for cs d by (rule fold_keeps)
  with 2 show ?case by (auto simp: bind_res_eq_Inr)
next
  case (4 n w v eo f fs d)
  from 4(4) obtain d1 d2 where r:
    "(if eo \<noteq> Some f \<and> v = getTarget d f
      then calculateChordIncrementsDfs n (calculateChordIncrementsDir d eo f * w + getWeight d f) (getSource d f) (Some f) d
      else Inr d) = Inr d1"
    "(if eo \<noteq> Some f \<and> v = getSource d1 f
      then calculateChordIncrementsDfs n (calculateChordIncrementsDir d1 eo f * w + getWeight d1 f) (getTarget d1 f) (Some f) d1
      else Inr d1) = Inr d2"
    "chord_tree_loop n w v eo fs d2 = Inr d'"
    by (auto simp: bind_res_eq_Inr)
  have "node_frame d1 = node_frame d" using r(1) 4(1) [of d1] by (auto split: if_splits)
  moreover have "node_frame d2 = node_frame d1" using r(2) 4(2) [OF r(1), of d2] by (auto split: if_splits)
  moreover have "node_frame d' = node_frame d2" using 4(3) [OF r] .
  ultimately show ?case by simp
qed simp_all

lemma placement_frame:
  assumes "place_instrumentation n d = Inr d'" "d_root d \<in> set (d_nodes d)"
  shows "node_frame d' = node_frame d"
proof -
  obtain d1 d2 d3 where s: "calculateSpanningTree d = Inr d1" "calculateChordIncrements n d1 = Inr d2"
    "pushInitialization n d2 = Inr d3" "pushCounters n d3 = Inr d'"
    using assms(1) by (auto simp: place_instrumentation_def bind_res_eq_Inr)
  have "node_frame (fold (\<lambda>v. setColor v WHITE) vs d) = node_frame d" for vs by (rule fold_keeps) simp
  then have "node_frame d1 = node_frame d"
    using s(1) calculateSpanningTree_result [OF assms(2)] by (auto simp: Let_def)
  moreover have "node_frame (fold add_weight cs d) = node_frame d" for cs d
    by (rule fold_keeps) (simp add: add_weight_def)
  then have "node_frame d2 = node_frame d1"
    using s(2) chord_frame(1) by (auto simp: calculateChordIncrements_def bind_res_eq_Inr)
  moreover have "node_frame d3 = node_frame d2"
    using s(3) push_init_frame(1) by (auto simp: pushInitialization_def bind_res_eq_Inr)
  moreover have "node_frame d' = node_frame d3"
    using s(4) push_counter_frame(1) by (auto simp: pushCounters_def bind_res_eq_Inr)
  ultimately show ?thesis by simp
qed

text \<open>
  C8. The whole pass over a function ends: with a recursion budget above the depth of the dag
  and twice the number of its edges no part of \<open>runOnFunction\<close> recurses too deeply, although the
  walk splits edges while it goes.
\<close>

theorem runOnFunction_ends:
  assumes "base_ok B" and "bl_wf rk d" and "fresh_dag d" and "enough_fuel rk n d"
    and "2 * length (d_edges d) \<le> n" and "\<And>e. e \<in> set (d_edges d) \<Longrightarrow> \<not> hasInstrumentation d e"
  shows "runOnFunction n B L (d, F) pf \<noteq> Inl Out_Of_Fuel"
proof -
  obtain er where er: "getExitRootEdge d = Inr er" "er \<in> set (d_edges d)" "getType d er = NORMAL"
    using assms(2) by (rule wf_exit_root)
  obtain d1 where d1: "place_instrumentation n d = Inr d1" "topo d1 = topo d"
    using assms(2-4) er(1) by (rule place_instrumentation_placed)
  note t = topo_eqs [OF d1(2)]
  have wf1: "bl_wf rk d1" using assms(2) by (simp add: t)
  let ?R = "{e \<in> set (d_edges d1). is_phony d1 e}" let ?d = "unlinked ?R d1"
  have unl: "unlinkPhony B d1 = Inr ?d" using assms(1) wf1 by (rule unlinkPhony_unlinked)
  have l: "linked ?d" using unlinkPhony_linked [OF assms(1) wf1] unl by auto
  define ds where "ds = (if d_numberOfPaths ?d \<le> HASH_THRESHHOLD
    then ?d\<lparr>d_counterArray := Some (length (pf_ftInit pf))\<rparr> else ?d)"
  let ?s = "\<lparr>em_dag = ds, em_fn = F, em_next = 0, em_calls = []\<rparr>"
  have ts: "topo ds = topo ?d" by (simp add: ds_def)
  note tl = topo_eqs [OF ts] topo_eq_linked [OF ts]
  have "hasInstrumentation d1 = hasInstrumentation d"
    using placement_frame [OF d1(1)] assms(2) by (simp add: node_frame_def bl_wf_def)
  moreover have "hasInstrumentation (?d\<lparr>d_counterArray := c\<rparr>) = hasInstrumentation ?d" for c
    by (simp add: hasInstrumentation_def fun_eq_iff)
  ultimately have h: "\<not> hasInstrumentation ds er" using assms(6) er(2) by (simp add: ds_def)
  have ph: "\<not> is_phony d1 er" using er(3) by (simp add: is_phony_def t)
  then have "getExitRootEdge ds = Inr er" using unlinked_exit_root [OF wf1, of er ?R] er(1) by (simp add: t tl)
  then have "insertInstrumentation n B L ?s \<noteq> Inl Out_Of_Fuel"
    using ph er(2) h assms(5) l
    by (intro insertInstrumentation_ends(1) [OF assms(1), of _ er]) (simp_all add: tl t)
  then show ?thesis
    using d1(1) unl by (cases "insertInstrumentation n B L ?s") (auto simp: runOnFunction_def Let_def ds_def split: if_splits)
qed

definition straight_llvm :: "unit llvm" where
  "straight_llvm = \<lparr>l_successors = (\<lambda>_ _. []), l_predecessors = (\<lambda>_ _. []), l_isIndirectBr = (\<lambda>_ _. False),
     l_SplitCriticalEdge = (\<lambda>_ _ _. None)\<rparr>"

theorem runOnFunction_ends_witness:
  "runOnFunction 14 simple_base straight_llvm (loop_dag, ())
     \<lparr>pf_ftInit = [], pf_currentFunctionNumber = 1, pf_totalPaths = 0, pf_maxPaths = 0\<rparr> \<noteq> Inl Out_Of_Fuel"
proof -
  have "enough_fuel loop_rank 14 loop_dag" using loop_dag_fuel by (simp add: enough_fuel_def)
  then show ?thesis
    by (rule runOnFunction_ends [OF simple_base_ok loop_dag_wf loop_dag_fresh])
      (simp_all add: loop_dag_eval hasInstrumentation_def loop_dag_defs)
qed

end
