(* ===== verification/BL_Pass.thy ===== *)
theory BL_Pass
  imports BL_Join BL_Codegen
begin

text \<open>
  The pass as a whole: every edge that the walk instruments keeps the invariant,
  the walk never fails, and running the blocks of the instrumented function logs
  what the edges of the execution are meant to log.
\<close>

section \<open>Instrumenting one edge\<close>

lemma cross_at_target:
  assumes W: "walk_inv blocks L Q C D s" and e: "cfg_edge (em_dag s) e" "e \<notin> Q" "e \<notin> C"
    and so: "\<not> single_out (em_dag s) (getSource (em_dag s) e)" and n: "getNumberPredEdges (em_dag s) (getTarget (em_dag s) e) = 1"
    and u: "getSource (em_dag s) e = d_exit (em_dag s) \<or> entered C (em_dag s) (getSource (em_dag s) e)"
  obtains s1 s' where "pushValueIntoNode L (getSource (em_dag s) e) (getTarget (em_dag s) e) s = Inr s1"
    "emit_edge e (getTarget (em_dag s) e) True s1 = Inr s'" "keeps_graph s s'" "walk_inv blocks L Q (insert e C) D s'"
proof -
  let ?u = "getSource (em_dag s) e" and ?v = "getTarget (em_dag s) e"
  note G = graph_invD [OF walk_invD(1) [OF W]] note st = single_target_new [OF W e(1,3) n so u]
  note new = not_entered [OF W st(1-3)]
  obtain b where b: "getBlock (em_dag s) ?v = Some b" using mirrorsD(2) [OF G(4) st(1)] st(3) by blast
  have "getBlock (em_dag s) ?v \<noteq> None" "getNumberPredEdges (em_dag s) ?v \<le> 1" using b n by simp_all
  then obtain s1 where s1: "pushValueIntoNode L ?u ?v s = Inr s1" "keeps_graph s s1" "em_calls s1 = em_calls s" "em_next s1 = em_next s"
    "getPathPHI (em_dag s1) = getPathPHI (em_dag s)"
    "getStartingPathNumber (em_dag s1) = (getStartingPathNumber (em_dag s))(?v := getEndingPathNumber (em_dag s) ?u)"
    "getEndingPathNumber (em_dag s1) = (getEndingPathNumber (em_dag s))(?v := getEndingPathNumber (em_dag s) ?u)"
    using new(4) by (rule push_single)
  note k = keeps_view [OF s1(2)] note t = topo_eqs [OF k(1)]
  have a: "acts (em_dag s1) = acts (em_dag s)" using s1(2) by (simp add: keeps_graph_def)
  have b1: "getBlock (em_dag s1) ?v = Some b" using b by (simp add: t)
  have p1: "HASH_THRESHHOLD < d_numberOfPaths (em_dag s1)" using G(3) k(3) by simp
  have ty: "step_typed (em_dag s1) e (getEndingPathNumber (em_dag s1) ?v \<noteq> None) (D ?v)"
    using planD(1) [OF G(2) e(1)] st(5) by (simp add: acts_eq(4) [OF a] s1(7))
  have se: "getStartingPathNumber (em_dag s1) ?v = getEndingPathNumber (em_dag s1) ?v" by (simp add: s1(6,7))
  obtain s' cs where s': "emit_edge e ?v True s1 = Inr s'" "emit_frame s1 ?v b True s'" "em_calls s' = em_calls s1 @ cs"
    "sem (em_dag s1) (getEndingPathNumber (em_dag s1) ?v) [e] cs (getEndingPathNumber (em_dag s') ?v)"
    "(getEndingPathNumber (em_dag s') ?v \<noteq> None) = D ?v"
    using b1 p1 ty disjI1 [OF se] by (rule emit_edge_effect)
  have fr: "keeps_graph s1 s'" "getPathPHI (em_dag s') = getPathPHI (em_dag s1)"
    "\<And>w. w \<noteq> ?v \<Longrightarrow> getStartingPathNumber (em_dag s') w = getStartingPathNumber (em_dag s1) w
      \<and> getEndingPathNumber (em_dag s') w = getEndingPathNumber (em_dag s1) w"
    "\<forall>c\<in>set cs. point_of c = Some (FirstInsertionPt b) \<or> point_of c = Some (TerminatorOf b)"
    "cs = code_at cs (FirstInsertionPt b) @ code_at cs (TerminatorOf b)"
    using s'(2,3) by (auto simp: emit_frame_def)
  have kg: "keeps_graph s s'"
    using s1(2) fr(1) same_graph_trans unfolding keeps_graph_def by (metis order_trans)
  have "getStartingPathNumber (em_dag s') ?v = getEndingPathNumber (em_dag s') ?v \<or> drops_number (em_dag s) e"
    using emit_edge_sync [OF b1 s'(1) se] acts_eq(6) [OF a] by simp
  then have "begins_edge blocks L Q C D s e b cs s'"
    unfolding begins_edge_def using W e so n u b kg fr s'(3-5) s1(3,5-7) sem_acts [OF a] by simp
  then have "walk_inv blocks L Q (insert e C) D s'" by (rule begins_edge_inv)
  with s1(1) s'(1) kg that show thesis by blast
qed

text \<open>\<open>pass_inv\<close>: the invariant between two edges.\<close>

definition pass_inv :: "('c \<Rightarrow> block_id set) \<Rightarrow> 'c llvm \<Rightarrow> edge_id set \<Rightarrow> 'c emitter \<Rightarrow> bool" where
  "pass_inv blocks L C s \<longleftrightarrow> (\<exists>Q D. Q \<subseteq> C \<and> walk_inv blocks L Q C D s)"

lemma instrument_at_inv:
  assumes L: "llvm_ok blocks L" and W: "pass_inv blocks L C s" and e: "cfg_edge (em_dag s) e" "e \<notin> C" "\<not> stuck (em_dag s) e"
    and u: "getSource (em_dag s) e = d_exit (em_dag s) \<or> entered C (em_dag s) (getSource (em_dag s) e)"
  obtains s' where "instrument_at L e s = Inr (Some (getTarget (em_dag s) e), s')" "keeps_graph s s'"
    "pass_inv blocks L (insert e C) s'"
proof -
  obtain Q D where Q: "Q \<subseteq> C" and W: "walk_inv blocks L Q C D s" using W by (auto simp: pass_inv_def)
  have eQ: "e \<notin> Q" using Q e(2) by blast
  note G = graph_invD [OF walk_invD(1) [OF W]]
  let ?u = "getSource (em_dag s) e" and ?v = "getTarget (em_dag s) e"
  show thesis
  proof (cases "single_out (em_dag s) ?u")
    case True
    have "?u \<in> set (d_nodes (em_dag s))" using linkedD(2) [OF G(1)] e(1) by (simp add: cfg_edge_def)
    then have "?u \<noteq> d_exit (em_dag s)" using mirrorsD(2) [OF G(4)] True by (auto simp: single_out_def)
    with u have "entered C (em_dag s) ?u" by blast
    with W e(1) eQ e(2) True obtain b cs s1 where s1: "emit_edge e ?u False s = Inr s1" "ends_edge blocks L Q C D s e b cs s1"
      by (rule emit_at_source)
    note k = keeps_view [OF ends_edge_view(8) [OF s1(2)]] note t = topo_eqs [OF k(1)]
    have "enters_edge blocks L (insert e Q) C D s1 e"
      using ends_edge_inv [OF s1(2)] e(2) True by (simp add: enters_edge_def k t)
    with L obtain s2 where s2: "(if getEndingPathNumber (em_dag s1) (getSource (em_dag s1) e) \<noteq> None
      then pushValueIntoNode L (getSource (em_dag s1) e) (getTarget (em_dag s1) e) s1 else Inr s1) = Inr s2"
      "keeps_graph s1 s2" "walk_inv blocks L (insert e Q) (insert e C) D s2" by (rule enter_target)
    have "keeps_graph s s2"
      using ends_edge_view(8) [OF s1(2)] s2(2) same_graph_trans unfolding keeps_graph_def by (metis order_trans)
    moreover have "pass_inv blocks L (insert e C) s2" using s2(3) Q unfolding pass_inv_def by (metis insert_mono)
    moreover have "instrument_at L e s = Inr (Some ?v, s2)"
      using True s1(1) s2(1) unfolding instrument_at_def Let_def single_out_def t by (simp only: if_True bind_res_Inr simp_thms)
    ultimately show ?thesis using that by blast
  next
    case False
    with e(3) have n: "getNumberPredEdges (em_dag s) ?v = 1" by (auto simp: stuck_def single_out_def)
    from W e(1) eQ e(2) False n u obtain s1 s2 where s2: "pushValueIntoNode L ?u ?v s = Inr s1"
      "emit_edge e ?v True s1 = Inr s2" "keeps_graph s s2" "walk_inv blocks L Q (insert e C) D s2" by (rule cross_at_target)
    moreover have "instrument_at L e s = Inr (Some ?v, s2)"
      using False n s2(1,2) by (auto simp: instrument_at_def single_out_def Let_def)
    moreover have "pass_inv blocks L (insert e C) s2" using s2(4) Q unfolding pass_inv_def by blast
    ultimately show ?thesis using that by blast
  qed
qed

definition no_calls :: "bl_dag \<Rightarrow> bool" where
  "no_calls d \<longleftrightarrow> (\<forall>e\<in>set (d_edges d). getType d e \<noteq> CALLEDGE_PHONY)"

lemma no_calls_split:
  assumes s: "is_split d f BB v g d'" and n: "no_calls d" and f: "f \<in> set (d_edges d)"
  shows "no_calls d'"
proof -
  have "f \<noteq> g" using is_splitD(2) [OF s] f by blast
  then show ?thesis using s n by (auto simp: is_split_def no_calls_def split: if_splits)
qed

lemma no_calls_topo: "topo d' = topo d \<Longrightarrow> no_calls d' = no_calls d"
  by (simp add: no_calls_def topo_eqD [of d' d])

lemma keeps_refines: "keeps_graph s s' \<Longrightarrow> refines (em_dag s) (em_dag s')"
  by (simp add: keeps_graph_def same_graph_def refines_same)

lemma split_inv:
  assumes B: "base_ok B" and L: "llvm_ok blocks L" and P: "pass_inv blocks L C s" and e: "cfg_edge (em_dag s) e" "e \<notin> C"
    and nc: "no_calls (em_dag s)"
  obtains ok s' where "splitCritical B L e s = Inr (ok, s')" "pass_inv blocks L C s'" "refines (em_dag s) (em_dag s')"
    "entered C (em_dag s') = entered C (em_dag s)" "getSource (em_dag s') e = getSource (em_dag s) e" "cfg_edge (em_dag s') e"
    "no_calls (em_dag s')" "d_exit (em_dag s') = d_exit (em_dag s)" "splits_critical blocks L \<longrightarrow> \<not> stuck (em_dag s') e"
proof -
  obtain Q D where Q: "Q \<subseteq> C" and W: "walk_inv blocks L Q C D s" using P by (auto simp: pass_inv_def)
  note G = graph_invD [OF walk_invD(1) [OF W]]
  obtain ok s' where s': "splitCritical B L e s = Inr (ok, s')" "mirrors blocks L (em_fn s') (em_dag s')"
    "em_calls s' = em_calls s" "em_next s' = em_next s" "blocks (em_fn s) \<subseteq> blocks (em_fn s')"
    "s' = s \<or> (\<exists>nb v g. is_split (em_dag s) e nb v g (em_dag s') \<and> nb \<notin> blocks (em_fn s)
       \<and> 1 < getNumberSuccEdges (em_dag s) (getSource (em_dag s) e)
       \<and> getTarget (em_dag s) e \<noteq> d_exit (em_dag s) \<and> getSource (em_dag s) e \<noteq> d_exit (em_dag s))"
    using B L G(4) G(1) e(1) planD(7) [OF G(2)] by (rule splitCritical_mirrors)
  show thesis
  proof (cases "s' = s")
    case True
    have "splits_critical blocks L \<longrightarrow> \<not> stuck (em_dag s) e"
      using critical_split [OF B L _ G(4) G(1) G(2) e(1)] s'(1) True by auto
    with True s'(1) P e nc that show ?thesis by (simp add: refines_same)
  next
    case False
    with s'(6) obtain nb v g where sp: "is_split (em_dag s) e nb v g (em_dag s')" "nb \<notin> blocks (em_fn s)" by blast
    have S: "splits_edge blocks (Q \<union> C) s e nb v g s'"
      using sp s'(3-5) e Q by (auto simp: splits_edge_def)
    have eE: "e \<in> set (d_edges (em_dag s))" using e(1) by (simp add: cfg_edge_def)
    have "e \<noteq> g" using is_splitD(2) [OF sp(1)] eE by blast
    then have "getSource (em_dag s') e = getSource (em_dag s) e" by (simp add: is_splitD(8) [OF sp(1)])
    moreover have "pass_inv blocks L C s'" using walk_inv_split [OF S W s'(2)] Q unfolding pass_inv_def by blast
    moreover have "\<not> stuck (em_dag s') e"
      using is_split_degrees(4) [OF G(1) sp(1) eE] e(1) \<open>e \<noteq> g\<close> by (simp add: stuck_def is_splitD(9) [OF sp(1)] cfg_edge_def)
    ultimately show ?thesis
      using that [OF s'(1)] split_refines [OF G(1,2) sp(1) e(1)] splits_view(5) [OF S walk_invD(1) [OF W]]
        split_cfg_edge [OF sp(1) e(1)] e(1) no_calls_split [OF sp(1) nc eE] is_splitD(6) [OF sp(1)] by simp
  qed
qed

lemma instrument_edge_inv:
  assumes B: "base_ok B" and L: "llvm_ok blocks L" and P: "pass_inv blocks L C s" and e: "cfg_edge (em_dag s) e" "e \<notin> C"
    and u: "getSource (em_dag s) e = d_exit (em_dag s) \<or> entered C (em_dag s) (getSource (em_dag s) e)"
    and nc: "no_calls (em_dag s)"
  obtains t s' C' where "instrument_edge B L e s = Inr (t, s')" "pass_inv blocks L C' s'" "refines (em_dag s) (em_dag s')"
    "C' = (if stuck (em_dag s') e then C else insert e C)" "t = None \<longleftrightarrow> stuck (em_dag s') e" "no_calls (em_dag s')"
    "splits_critical blocks L \<longrightarrow> \<not> stuck (em_dag s') e"
proof -
  let ?m = "on_dag (setHasInstrumentation e True) s"
  have tm: "topo (em_dag ?m) = topo (em_dag s)" and am: "acts (em_dag ?m) = acts (em_dag s)" by simp_all
  note t = topo_eqs [OF tm] and p = plan_same [OF tm am]
  have Pm: "pass_inv blocks L C ?m" using P by (simp add: pass_inv_def walk_inv_mark)
  have em: "cfg_edge (em_dag ?m) e" using e(1) by (simp only: p)
  have ncm: "no_calls (em_dag ?m)" using nc no_calls_topo [OF tm] by simp
  obtain ok s1 where s1: "splitCritical B L e ?m = Inr (ok, s1)" "pass_inv blocks L C s1" "refines (em_dag ?m) (em_dag s1)"
    "entered C (em_dag s1) = entered C (em_dag ?m)" "getSource (em_dag s1) e = getSource (em_dag ?m) e" "cfg_edge (em_dag s1) e"
    "no_calls (em_dag s1)" "d_exit (em_dag s1) = d_exit (em_dag ?m)" "splits_critical blocks L \<longrightarrow> \<not> stuck (em_dag s1) e"
    using B L Pm em e(2) ncm by (rule split_inv)
  have r: "refines (em_dag s) (em_dag s1)" using refines_same [OF tm am] s1(3) by (rule refines_trans)
  have en: "entered C (em_dag ?m) = entered C (em_dag s)" by (simp only: entered_def [abs_def] t)
  have u1: "getSource (em_dag s1) e = d_exit (em_dag s1) \<or> entered C (em_dag s1) (getSource (em_dag s1) e)"
    using u by (simp only: s1(4,5,8) en t)
  show thesis
  proof (cases "stuck (em_dag s1) e")
    case True
    have "instrument_edge B L e s = Inr (None, s1)"
      using s1(1) True by (auto simp: instrument_edge_def instrument_at_def stuck_def Let_def)
    with that True s1(2,7,9) r show ?thesis by auto
  next
    case False
    then have ok: ok using s1(1) splitCritical_refused [of B L e ?m s1] by (cases ok) auto
    obtain s' where s': "instrument_at L e s1 = Inr (Some (getTarget (em_dag s1) e), s')" "keeps_graph s1 s'"
      "pass_inv blocks L (insert e C) s'"
      using L s1(2,6) e(2) False u1 by (rule instrument_at_inv)
    note k = keeps_view [OF s'(2)]
    have "instrument_edge B L e s = Inr (Some (getTarget (em_dag s1) e), s')"
      using s1(1) s'(1) ok by (simp add: instrument_edge_def)
    with that s'(3) refines_trans [OF r keeps_refines [OF s'(2)]] False no_calls_topo [OF k(1)] s1(7) show ?thesis
      by (simp add: k(8))
  qed
qed

section \<open>The walk\<close>

definition walked :: "('c \<Rightarrow> block_id set) \<Rightarrow> 'c llvm \<Rightarrow> edge_id set \<Rightarrow> 'c emitter \<Rightarrow> bool" where
  "walked blocks L C s \<longleftrightarrow> pass_inv blocks L C s \<and> no_calls (em_dag s) \<and> (\<forall>e\<in>C. hasInstrumentation (em_dag s) e)
     \<and> (\<forall>e. cfg_edge (em_dag s) e \<longrightarrow> hasInstrumentation (em_dag s) e \<longrightarrow> \<not> stuck (em_dag s) e \<longrightarrow> e \<in> C)
     \<and> (splits_critical blocks L \<longrightarrow> (\<forall>e. cfg_edge (em_dag s) e \<longrightarrow> hasInstrumentation (em_dag s) e \<longrightarrow> \<not> stuck (em_dag s) e))"

lemma pass_invD:
  assumes "pass_inv blocks L C s"
  shows "linked (em_dag s)" "e \<in> C \<Longrightarrow> cfg_edge (em_dag s) e" "e \<in> C \<Longrightarrow> \<not> stuck (em_dag s) e"
proof -
  obtain Q D where "walk_inv blocks L Q C D s" using assms by (auto simp: pass_inv_def)
  note G = graph_invD [OF walk_invD(1) [OF this]]
  show "linked (em_dag s)" by (rule G)
  show "e \<in> C \<Longrightarrow> cfg_edge (em_dag s) e" "e \<in> C \<Longrightarrow> \<not> stuck (em_dag s) e" using G(5,6) [of e] by simp_all
qed

text \<open>\<open>passes\<close>: the walk does not fail, and its result is the walked graph with more crossed edges.\<close>

definition passes :: "('c \<Rightarrow> block_id set) \<Rightarrow> 'c llvm \<Rightarrow> edge_id set \<Rightarrow> 'c emitter \<Rightarrow> 'c emitter res \<Rightarrow> bool" where
  "passes blocks L C s r \<longleftrightarrow> r = Inl Out_Of_Fuel \<or> (\<exists>s' C'. r = Inr s' \<and> C \<subseteq> C' \<and> walked blocks L C' s'
     \<and> settles (em_dag s) (em_dag s') \<and> refines (em_dag s) (em_dag s'))"

lemma passes_after:
  assumes "C \<subseteq> C1" "settles (em_dag s) (em_dag s1)" "refines (em_dag s) (em_dag s1)" "passes blocks L C1 s1 r"
  shows "passes blocks L C s r"
  unfolding passes_def
proof (cases "r = Inl Out_Of_Fuel")
  case False
  then obtain s' C' where "r = Inr s'" "C1 \<subseteq> C'" "walked blocks L C' s'" "settles (em_dag s1) (em_dag s')" "refines (em_dag s1) (em_dag s')"
    using assms(4) by (auto simp: passes_def)
  then show "r = Inl Out_Of_Fuel \<or> (\<exists>s' C'. r = Inr s' \<and> C \<subseteq> C' \<and> walked blocks L C' s'
     \<and> settles (em_dag s) (em_dag s') \<and> refines (em_dag s) (em_dag s'))"
    using assms(1) settles_trans [OF assms(2)] refines_trans [OF assms(3)] by blast
qed simp

lemma passes_done: "walked blocks L C s \<Longrightarrow> passes blocks L C s (Inr s)"
  using pass_invD(1) [of blocks L C s] settles_refl [of "em_dag s"] refines_same [OF refl refl, of "em_dag s"]
  by (auto simp: passes_def walked_def)

lemma entered_settles:
  assumes "settles d d'" "C \<subseteq> C'" "\<forall>e\<in>C. cfg_edge d e \<and> hasInstrumentation d e" "entered C d v"
  shows "entered C' d' v"
proof -
  obtain e where e: "e \<in> C" "getTarget d e = v" using assms(4) by (auto simp: entered_def)
  then have "getTarget d' e = v" using settlesD(8) [OF assms(1)] assms(3) by (auto simp: cfg_edge_def)
  with e(1) assms(2) show ?thesis by (auto simp: entered_def)
qed

lemma settles_exit: "refines d d' \<Longrightarrow> d_exit d' = d_exit d"
  by (simp add: refines_def)

lemma cfg_edge_settles: "settles d d' \<Longrightarrow> cfg_edge d e \<Longrightarrow> cfg_edge d' e"
  using settlesD(3,6) by (auto simp: cfg_edge_def)

lemma instrument_edge_walked:
  assumes B: "base_ok B" and L: "llvm_ok blocks L" and W: "walked blocks L C s" and e: "cfg_edge (em_dag s) e" "\<not> hasInstrumentation (em_dag s) e"
    and u: "getSource (em_dag s) e = d_exit (em_dag s) \<or> entered C (em_dag s) (getSource (em_dag s) e)"
  obtains t s' C' where "instrument_edge B L e s = Inr (t, s')" "C \<subseteq> C'" "walked blocks L C' s'"
    "settles (em_dag s) (em_dag s')" "refines (em_dag s) (em_dag s')"
    "\<forall>v. t = Some v \<longrightarrow> v = getTarget (em_dag s') e \<and> e \<in> C'"
proof -
  have P: "pass_inv blocks L C s" and nc: "no_calls (em_dag s)" and C: "\<forall>e\<in>C. hasInstrumentation (em_dag s) e"
    and N: "\<And>e. cfg_edge (em_dag s) e \<Longrightarrow> hasInstrumentation (em_dag s) e \<Longrightarrow> \<not> stuck (em_dag s) e \<Longrightarrow> e \<in> C"
    and U: "\<And>e. splits_critical blocks L \<Longrightarrow> cfg_edge (em_dag s) e \<Longrightarrow> hasInstrumentation (em_dag s) e \<Longrightarrow> \<not> stuck (em_dag s) e"
    using W unfolding walked_def by blast+
  note l = pass_invD(1) [OF P]
  have eC: "e \<notin> C" using C e(2) by blast
  obtain t s' C' where r: "instrument_edge B L e s = Inr (t, s')" "pass_inv blocks L C' s'" "refines (em_dag s) (em_dag s')"
    "C' = (if stuck (em_dag s') e then C else insert e C)" "t = None \<longleftrightarrow> stuck (em_dag s') e" "no_calls (em_dag s')"
    "splits_critical blocks L \<longrightarrow> \<not> stuck (em_dag s') e"
    using B L P e(1) eC u nc by (rule instrument_edge_inv)
  have eE: "e \<in> set (d_edges (em_dag s))" "\<not> is_phony (em_dag s) e" using e(1) by (simp_all add: cfg_edge_def)
  note p = instrument_edge_settles [OF B l eE e(2) r(1)]
  have sub: "C \<subseteq> C'" using r(4) by auto
  have "hasInstrumentation (em_dag s') f" if "f \<in> C'" for f
    using that r(4) C p(2) settlesD(5) [OF p(1)] pass_invD(2) [OF P] by (auto simp: cfg_edge_def split: if_splits)
  moreover have old: "cfg_edge (em_dag s) f" "hasInstrumentation (em_dag s) f" "stuck (em_dag s') f \<longleftrightarrow> stuck (em_dag s) f"
    if f: "cfg_edge (em_dag s') f" "hasInstrumentation (em_dag s') f" "f \<noteq> e" for f
  proof -
    have fd: "f \<in> set (d_edges (em_dag s))" "hasInstrumentation (em_dag s) f" using p(5) [of f] f by (auto simp: cfg_edge_def)
    then show "cfg_edge (em_dag s) f" "hasInstrumentation (em_dag s) f" "stuck (em_dag s') f \<longleftrightarrow> stuck (em_dag s) f"
      using f(1) settlesD(6) [OF p(1) fd(1)] stuck_settles [OF l p(1) fd] by (simp_all add: cfg_edge_def)
  qed
  moreover have "f \<in> C'" if f: "cfg_edge (em_dag s') f" "hasInstrumentation (em_dag s') f" "\<not> stuck (em_dag s') f" for f
    using old [OF f(1,2)] N [of f] f(3) r(4) sub by (cases "f = e") auto
  moreover have "\<not> stuck (em_dag s') f"
    if f: "splits_critical blocks L" "cfg_edge (em_dag s') f" "hasInstrumentation (em_dag s') f" for f
    using old [OF f(2,3)] U [OF f(1), of f] r(7) f(1) by (cases "f = e") auto
  ultimately have "walked blocks L C' s'" using r(2,6) by (simp add: walked_def)
  moreover have "v = getTarget (em_dag s') e \<and> e \<in> C'" if "t = Some v" for v using that p(4) r(4,5) by auto
  ultimately show thesis using that [OF r(1) sub] p(1) r(3) by blast
qed

lemma walk_passes:
  shows "base_ok B \<Longrightarrow> llvm_ok blocks L \<Longrightarrow> walked blocks L C s \<Longrightarrow> cfg_edge (em_dag s) e \<Longrightarrow> \<not> hasInstrumentation (em_dag s) e \<Longrightarrow>
      getSource (em_dag s) e = d_exit (em_dag s) \<or> entered C (em_dag s) (getSource (em_dag s) e) \<Longrightarrow>
      passes blocks L C s (insertInstrumentationStartingAt n B L e s)"
    and "base_ok B \<Longrightarrow> llvm_ok blocks L \<Longrightarrow> walked blocks L C s \<Longrightarrow> \<forall>e\<in>set es. cfg_edge (em_dag s) e \<Longrightarrow>
      \<forall>e\<in>set es. entered C (em_dag s) (getSource (em_dag s) e) \<Longrightarrow>
      passes blocks L C s (instrument_successors n B L es s)"
proof (induction n B L e s and n B L es s arbitrary: C and C
    rule: insertInstrumentationStartingAt_instrument_successors.induct)
  case (1 B L e s)
  then show ?case by (simp add: passes_def)
next
  case (2 n B L e s)
  obtain t s1 C1 where r: "instrument_edge B L e s = Inr (t, s1)" "C \<subseteq> C1" "walked blocks L C1 s1"
    "settles (em_dag s) (em_dag s1)" "refines (em_dag s) (em_dag s1)"
    "\<forall>v. t = Some v \<longrightarrow> v = getTarget (em_dag s1) e \<and> e \<in> C1"
    using 2(2-7) by (rule instrument_edge_walked)
  show ?case
  proof (cases t)
    case None
    then show ?thesis using passes_after [OF r(2,4,5) passes_done [OF r(3)]] r(1) by simp
  next
    case (Some v)
    have v: "v = getTarget (em_dag s1) e \<and> e \<in> C1" using r(6) Some by blast
    have l1: "linked (em_dag s1)" using r(3) pass_invD(1) by (auto simp: walked_def)
    have "e \<in> set (d_edges (em_dag s1))" using cfg_edge_settles [OF r(4) 2(5)] by (simp add: cfg_edge_def)
    then have vn: "v \<in> set (d_nodes (em_dag s1))" using linkedD(3) [OF l1] v by blast
    have "\<forall>f\<in>set (succEdges (em_dag s1) v). cfg_edge (em_dag s1) f"
      "\<forall>f\<in>set (succEdges (em_dag s1) v). entered C1 (em_dag s1) (getSource (em_dag s1) f)"
      using linkedD(6) [OF l1 vn] v by (auto simp: cfg_edge_def entered_def)
    from 2(1) [OF r(1) refl Some 2(2,3) r(3) this] have "passes blocks L C1 s1 (instrument_successors n B L (succEdges (em_dag s1) v) s1)" .
    from passes_after [OF r(2,4,5) this] r(1) Some show ?thesis by simp
  qed
next
  case (3 n B L s)
  then show ?case by (simp add: passes_done)
next
  case (4 n B L e es s)
  let ?r = "if \<not> hasInstrumentation (em_dag s) e then insertInstrumentationStartingAt n B L e s else Inr s"
  have "passes blocks L C s ?r" using 4(1) [OF _ 4(3-5)] 4(6,7) passes_done [OF 4(5)] by auto
  then consider "?r = Inl Out_Of_Fuel" | s1 C1 where "?r = Inr s1" "C \<subseteq> C1" "walked blocks L C1 s1"
    "settles (em_dag s) (em_dag s1)" "refines (em_dag s) (em_dag s1)"
    unfolding passes_def by blast
  then show ?case
  proof cases
    case 1
    then show ?thesis by (simp add: passes_def)
  next
    case 2
    have C: "\<forall>e\<in>C. cfg_edge (em_dag s) e \<and> hasInstrumentation (em_dag s) e" using 4(5) pass_invD(2) by (auto simp: walked_def)
    have "cfg_edge (em_dag s1) f \<and> entered C1 (em_dag s1) (getSource (em_dag s1) f)" if "f \<in> set es" for f
    proof -
      have f: "cfg_edge (em_dag s) f" "entered C (em_dag s) (getSource (em_dag s) f)" using 4(6,7) that by simp_all
      then have "getSource (em_dag s1) f = getSource (em_dag s) f" using settlesD(7) [OF 2(4)] by (simp add: cfg_edge_def)
      then show ?thesis using entered_settles [OF 2(4,2) C f(2)] cfg_edge_settles [OF 2(4) f(1)] by simp
    qed
    then have "passes blocks L C1 s1 (instrument_successors n B L es s1)" using 4(2) [OF 2(1) 4(3,4) 2(3)] by blast
    from passes_after [OF 2(2,4,5) this] 2(1) show ?thesis by simp
  qed
qed

end
