(* ===== verification/BL_Sim.thy ===== *)
theory BL_Sim
  imports BL_Pass
begin

text \<open>
  Running the instrumented function: along any execution of the graph that the
  walk leaves behind, the blocks log what the edges are meant to log.
\<close>

section \<open>From block to block\<close>

lemma holds_at_source:
  assumes W: "walk_inv blocks L Q C D s" and e: "e \<in> C" and so: "single_out (em_dag s) (getSource (em_dag s) e)"
  shows "out_steps Q (em_dag s) (getSource (em_dag s) e) = [e]"
    "(getEndingPathNumber (em_dag s) (getSource (em_dag s) e) \<noteq> None) = D (getTarget (em_dag s) e)"
proof -
  note I = walk_invD [OF W] note G = graph_invD [OF I(1)]
  have eX: "e \<in> Q \<union> C" using e by simp
  have eQ: "e \<in> Q" using G(11) [OF e so] .
  show o: "out_steps Q (em_dag s) (getSource (em_dag s) e) = [e]"
    using out_steps_insert(2) [OF G(1) G(5) [OF eX] so, of Q] eQ by simp
  have "getSource (em_dag s) e \<noteq> d_exit (em_dag s)"
    using mirrorsD(2) [OF G(4) G(9) [OF eX]] so by (auto simp: single_out_def)
  then show "(getEndingPathNumber (em_dag s) (getSource (em_dag s) e) \<noteq> None) = D (getTarget (em_dag s) e)"
    using nodes_invD(1) [OF I(2) G(9) [OF eX]] G(7) [OF eX] o by (simp add: holds_at_end_def)
qed

text \<open>The PHIs of the target make the value that is carried along an edge hold the register.\<close>

lemma carried_along:
  assumes W: "walk_inv blocks L Q C D s" and e: "e \<in> C" "getTarget (em_dag s) e \<noteq> d_exit (em_dag s)"
    and p: "getBlock (em_dag s) (getSource (em_dag s) e) = Some p" and b: "getBlock (em_dag s) (getTarget (em_dag s) e) = Some b"
  shows "map_option (ir_val (enter_phis (em_calls s) p b env)) (carried (em_dag s) e)
    = map_option (ir_val env) (getEndingPathNumber (em_dag s) (getSource (em_dag s) e))"
proof -
  note I = walk_invD [OF W] note G = graph_invD [OF I(1)]
  have eX: "e \<in> Q \<union> C" using e(1) by simp
  let ?u = "getSource (em_dag s) e" and ?v = "getTarget (em_dag s) e"
  note vn = G(10) [OF eX]
  have en: "entered C (em_dag s) ?v" using e(1) by (auto simp: entered_def)
  have P: "(getPathPHI (em_dag s) ?v \<noteq> None) \<longleftrightarrow> getNumberPredEdges (em_dag s) ?v \<noteq> 1 \<and> D ?v"
    using I(4) vn e(2) en unfolding phis_inv_def by blast
  have ph: "phis (em_calls s) b = (case getPathPHI (em_dag s) ?v of None \<Rightarrow> [] | Some i \<Rightarrow> [i])"
    using I(4) vn b unfolding phis_inv_def by blast
  show ?thesis
  proof (cases "getPathPHI (em_dag s) ?v")
    case None
    then have "enter_phis (em_calls s) p b env = env" by (simp add: enter_phis_def ph fun_eq_iff)
    moreover have "carried (em_dag s) e = getEndingPathNumber (em_dag s) ?u"
    proof (cases "getNumberPredEdges (em_dag s) ?v = 1")
      case False
      then have "single_out (em_dag s) ?u" using G(6) [OF eX] by (auto simp: stuck_def single_out_def)
      from holds_at_source(2) [OF W e(1) this] P None False show ?thesis by (simp add: carried_def)
    qed (simp add: carried_def)
    ultimately show ?thesis by simp
  next
    case (Some i)
    then have n: "getNumberPredEdges (em_dag s) ?v \<noteq> 1" "D ?v" using P by simp_all
    then have "single_out (em_dag s) ?u" using G(6) [OF eX] by (auto simp: stuck_def single_out_def)
    then obtain x where x: "getEndingPathNumber (em_dag s) ?u = Some x" using holds_at_source(2) [OF W e(1)] n(2) by auto
    have "map_of (incoming (em_calls s) i) p = Some x"
      using I(5) vn Some e(1) p x unfolding incoming_inv_def by fastforce
    then show ?thesis using n(1) Some x by (simp add: carried_def enter_phis_def ph)
  qed
qed

lemma run_block_sem:
  assumes W: "walk_inv blocks L Q C D s" and e: "e \<in> C" "getTarget (em_dag s) e \<noteq> d_exit (em_dag s)"
    and b: "getBlock (em_dag s) (getTarget (em_dag s) e) = Some b"
    and r: "map_option (ir_val (case pb of None \<Rightarrow> env | Some p \<Rightarrow> enter_phis (em_calls s) p b env)) (carried (em_dag s) e) = r"
  shows "\<exists>env' out'. run_block (em_calls s) pb b (env, out) = (env', out')
    \<and> fold_res (instrumented_step (em_dag s)) (in_steps (em_dag s) e @ out_steps Q (em_dag s) (getTarget (em_dag s) e)) (r, out)
      = Inr (map_option (ir_val env') (getEndingPathNumber (em_dag s) (getTarget (em_dag s) e)), out')"
proof -
  have "sem (em_dag s) (carried (em_dag s) e) (in_steps (em_dag s) e @ out_steps Q (em_dag s) (getTarget (em_dag s) e))
       (block_code (em_calls s) b) (getEndingPathNumber (em_dag s) (getTarget (em_dag s) e))"
    using edges_invD [OF walk_invD(3) [OF W] e] b by (simp add: node_code_def)
  then show ?thesis unfolding sem_def run_block_def r [symmetric] fst_conv snd_conv by blast
qed

lemma out_steps_first:
  assumes W: "walk_inv blocks L Q C D s" and w: "walk (em_dag s) v es (d_exit (em_dag s))" "v \<noteq> d_exit (em_dag s)" "set es \<subseteq> C"
  shows "es = out_steps Q (em_dag s) v @ (if single_out (em_dag s) v then tl es else es)"
proof (cases es)
  case Nil
  with w show ?thesis by simp
next
  case (Cons f fs)
  then have f: "f \<in> C" "getSource (em_dag s) f = v" using w by simp_all
  show ?thesis using holds_at_source(1) [OF W f(1)] f(2) Cons by (auto simp: out_steps_def)
qed

text \<open>
  The rest of an execution that has just left the block of \<open>u\<close>: the code of its
  only outgoing edge has run already.
\<close>

lemma run_blocks_sem:
  assumes W: "walk_inv blocks L Q C D s"
  shows "walk (em_dag s) u es (d_exit (em_dag s)) \<Longrightarrow> \<forall>e\<in>set es. e \<in> C \<and> getSource (em_dag s) e \<noteq> d_exit (em_dag s) \<Longrightarrow>
    u \<in> set (d_nodes (em_dag s)) \<Longrightarrow> u \<noteq> d_exit (em_dag s) \<Longrightarrow>
    \<exists>r'. fold_res (instrumented_step (em_dag s)) (if single_out (em_dag s) u then tl es else es)
        (map_option (ir_val env) (getEndingPathNumber (em_dag s) u), out)
      = Inr (r', snd (run_blocks (em_calls s) (getBlock (em_dag s) u) (List.map_filter (target_block (em_dag s)) es) (env, out)))"
proof (induction es arbitrary: u env out)
  case Nil
  then show ?case by simp
next
  case (Cons e es)
  note I = walk_invD [OF W] note G = graph_invD [OF I(1)]
  let ?d = "em_dag s" and ?v = "getTarget (em_dag s) e"
  have e: "e \<in> C" "e \<in> Q \<union> C" and u: "getSource ?d e = u" and w: "walk ?d ?v es (d_exit ?d)" using Cons.prems(1,2) by simp_all
  have rest: "\<forall>e\<in>set es. e \<in> C \<and> getSource ?d e \<noteq> d_exit ?d" using Cons.prems(2) by simp
  note vn = G(10) [OF e(2)]
  have ins: "(if single_out ?d u then tl (e # es) else e # es) = in_steps ?d e @ es" by (simp add: in_steps_def u)
  show ?case
  proof (cases "?v = d_exit ?d")
    case True
    have "es = []" using w rest True by (cases es) auto
    moreover have "target_block ?d e = None" using mirrorsD(2) [OF G(4) vn] True by (simp add: target_block_def)
    moreover have "single_out ?d u"
      using planD(5) [OF G(2) G(5) [OF e(2)] True] mirrorsD(2) [OF G(4) Cons.prems(3)] Cons.prems(4) u by (simp add: single_out_def)
    ultimately show ?thesis by (simp add: List.map_filter_simps)
  next
    case False
    obtain p where p: "getBlock ?d u = Some p" using mirrorsD(2) [OF G(4) Cons.prems(3)] Cons.prems(4) by blast
    obtain b where b: "getBlock ?d ?v = Some b" using mirrorsD(2) [OF G(4) vn] False by blast
    have tb: "target_block ?d e = Some b" using b by (simp add: target_block_def)
    have p': "getBlock ?d (getSource ?d e) = Some p" using p u by simp
    have "map_option (ir_val (enter_phis (em_calls s) p b env)) (carried ?d e) = map_option (ir_val env) (getEndingPathNumber ?d u)"
      using carried_along [OF W e(1) False p' b] u by simp
    then obtain env' out' where r: "run_block (em_calls s) (Some p) b (env, out) = (env', out')"
      "fold_res (instrumented_step ?d) (in_steps ?d e @ out_steps Q ?d ?v)
         (map_option (ir_val env) (getEndingPathNumber ?d u), out) = Inr (map_option (ir_val env') (getEndingPathNumber ?d ?v), out')"
      using run_block_sem [OF W e(1) False b, where pb = "Some p" and env = env and out = out] by auto
    obtain r' where IH: "fold_res (instrumented_step ?d) (if single_out ?d ?v then tl es else es)
        (map_option (ir_val env') (getEndingPathNumber ?d ?v), out')
      = Inr (r', snd (run_blocks (em_calls s) (getBlock ?d ?v) (List.map_filter (target_block ?d) es) (env', out')))"
      using Cons.IH [OF w rest vn False, of env' out'] by auto
    have "es = out_steps Q ?d ?v @ (if single_out ?d ?v then tl es else es)"
      using W w False by (rule out_steps_first) (use rest in blast)
    then have "fold_res (instrumented_step ?d) (in_steps ?d e @ es) (map_option (ir_val env) (getEndingPathNumber ?d u), out)
      = bind_res (fold_res (instrumented_step ?d) (in_steps ?d e @ out_steps Q ?d ?v) (map_option (ir_val env) (getEndingPathNumber ?d u), out))
          (fold_res (instrumented_step ?d) (if single_out ?d ?v then tl es else es))"
      by (metis append.assoc fold_res_append)
    then show ?thesis
      using r IH b p tb by (simp only: ins) (simp add: List.map_filter_simps)
  qed
qed

section \<open>The walked graph\<close>

text \<open>
  A run of the graph: from the root to the exit, over edges of the function
  that carry code. An edge is stuck when it is critical and LLVM refused to split it.
\<close>

definition block_run :: "bl_dag \<Rightarrow> edge_id list \<Rightarrow> bool" where
  "block_run d es \<longleftrightarrow> walk d (d_root d) es (d_exit d)
     \<and> (\<forall>e\<in>set es. inner_edge d e \<and> \<not> stuck d e)"

lemma crossed_next:
  assumes W: "walked blocks L C s" and S: "searched (em_dag s) {}" and e: "e \<in> C"
    and f: "cfg_edge (em_dag s) f" "getSource (em_dag s) f = getTarget (em_dag s) e"
  shows "hasInstrumentation (em_dag s) f"
proof -
  have P: "pass_inv blocks L C s" and C: "hasInstrumentation (em_dag s) e" using W e by (auto simp: walked_def)
  note l = pass_invD(1) [OF P]
  have eE: "e \<in> set (d_edges (em_dag s))" using pass_invD(2) [OF P e] by (simp add: cfg_edge_def)
  have "f \<in> set (succEdges (em_dag s) (getTarget (em_dag s) e))"
    using linkedD(6) [OF l linkedD(3) [OF l eE]] f by (simp add: cfg_edge_def)
  then show ?thesis using S eE C pass_invD(3) [OF P e] unfolding searched_def by blast
qed

lemma walk_crossed:
  assumes W: "walked blocks L C s" and S: "searched (em_dag s) {}"
  shows "e \<in> C \<Longrightarrow> walk (em_dag s) (getTarget (em_dag s) e) es v \<Longrightarrow>
    \<forall>e\<in>set es. cfg_edge (em_dag s) e \<and> \<not> stuck (em_dag s) e \<Longrightarrow> set es \<subseteq> C"
proof (induction es arbitrary: e)
  case (Cons f es)
  have "hasInstrumentation (em_dag s) f" using crossed_next [OF W S Cons.prems(1)] Cons.prems(2,3) by simp
  then have "f \<in> C" using W Cons.prems(3) by (auto simp: walked_def)
  with Cons.IH [of f] Cons.prems show ?case by simp
qed simp

lemma walk_unstuck:
  assumes W: "walked blocks L C s" and S: "searched (em_dag s) {}" and L: "splits_critical blocks L"
  shows "e \<in> C \<Longrightarrow> walk (em_dag s) (getTarget (em_dag s) e) es v \<Longrightarrow>
    \<forall>e\<in>set es. cfg_edge (em_dag s) e \<Longrightarrow> \<forall>e\<in>set es. \<not> stuck (em_dag s) e"
proof (induction es arbitrary: e)
  case (Cons f es)
  have h: "hasInstrumentation (em_dag s) f" using crossed_next [OF W S Cons.prems(1)] Cons.prems(2,3) by simp
  then have "\<not> stuck (em_dag s) f" "f \<in> C" using W L Cons.prems(3) by (auto simp: walked_def)
  with Cons.IH [of f] Cons.prems show ?case by simp
qed simp

lemma walked_run:
  assumes W: "walked blocks L C s" and S: "searched (em_dag s) {}" and er: "er \<in> C" "getSource (em_dag s) er = d_exit (em_dag s)"
      "getTarget (em_dag s) er = d_root (em_dag s)"
    and r: "block_run (em_dag s) es"
  shows "\<exists>x. fold_res (instrumented_step (em_dag s)) (er # es) (None, [])
    = Inr (x, snd (run_blocks (em_calls s) None (block_path (em_dag s) es) (env, [])))"
proof -
  obtain Q D where I: "walk_inv blocks L Q C D s" using W by (auto simp: walked_def pass_inv_def)
  note J = walk_invD [OF I] note G = graph_invD [OF J(1)]
  let ?d = "em_dag s" and ?v = "d_root (em_dag s)"
  have eX: "er \<in> Q \<union> C" using er by simp
  note p = planD(6) [OF G(2) G(5) [OF eX] er(2), unfolded er(3)]
  have vn: "?v \<in> set (d_nodes ?d)" using G(10) [OF eX] er(3) by simp
  obtain b where b: "getBlock ?d ?v = Some b" using mirrorsD(2) [OF G(4) vn] p by blast
  have w: "walk ?d ?v es (d_exit ?d)" and es: "\<forall>e\<in>set es. cfg_edge ?d e \<and> getSource ?d e \<noteq> d_exit ?d \<and> \<not> stuck ?d e"
    using r by (simp_all add: block_run_def inner_edge_def)
  have C: "set es \<subseteq> C" using walk_crossed [OF W S er(1)] w es er(3) by simp
  have "getEndingPathNumber ?d (d_exit ?d) = None" using nodes_invD(3) [OF J(2) planD(7) [OF G(2)]] by (simp add: blank_def)
  then have c: "carried ?d er = None" using p er by (simp add: carried_def)
  have ne: "getBlock ?d (d_exit ?d) = None" using mirrorsD(2) [OF G(4) planD(7) [OF G(2)]] by simp
  have i: "in_steps ?d er = [er]" using ne er(2) by (simp add: in_steps_def single_out_def)
  obtain env' out' where 1: "run_block (em_calls s) None b (env, []) = (env', out')"
    "fold_res (instrumented_step ?d) (er # out_steps Q ?d ?v) (None, []) = Inr (map_option (ir_val env') (getEndingPathNumber ?d ?v), out')"
    using run_block_sem [OF I er(1), where b = b and pb = None and env = env and r = None and out = "[]"] p b c i er(3) by auto
  obtain x where 2: "fold_res (instrumented_step ?d) (if single_out ?d ?v then tl es else es)
      (map_option (ir_val env') (getEndingPathNumber ?d ?v), out')
    = Inr (x, snd (run_blocks (em_calls s) (getBlock ?d ?v) (List.map_filter (target_block ?d) es) (env', out')))"
    using run_blocks_sem [OF I w _ vn, of env' out'] p es C by blast
  have 3: "er # es = (er # out_steps Q ?d ?v) @ (if single_out ?d ?v then tl es else es)"
    using out_steps_first [OF I w _ C] p by simp
  have "block_path ?d es = b # List.map_filter (target_block ?d) es"
    using b by (simp add: block_path_def List.map_filter_simps List.map_filter_def target_block_def [abs_def] comp_def filter_map)
  moreover have "fold_res (instrumented_step ?d) (er # es) (None, [])
    = Inr (x, snd (run_blocks (em_calls s) (getBlock ?d ?v) (List.map_filter (target_block ?d) es) (env', out')))"
    unfolding 3 fold_res_append 1(2) bind_res_Inr 2 ..
  ultimately show ?thesis using 1(1) b by simp
qed

section \<open>The whole walk\<close>

text \<open>The edge out of the exit is never split: the exit has no block.\<close>

lemma exit_edge_target:
  assumes b: "getBlock (em_dag s) (getSource (em_dag s) e) = None" and r: "instrument_edge B L e s = Inr (t, s')"
  shows "getTarget (em_dag s') e = getTarget (em_dag s) e"
proof -
  let ?m = "on_dag (setHasInstrumentation e True) s"
  have "splitCritical B L e ?m = Inr (True, ?m)" using b by (simp add: splitCritical_def Let_def)
  then have "same_graph ?m s'" using r instrument_at_leaves(2) [of L e ?m t s'] by (simp add: instrument_edge_def)
  then have "topo (em_dag s') = topo (em_dag ?m)" by (simp add: same_graph_def)
  from topo_eqD(6) [OF this] show ?thesis by simp
qed

lemma walk_keeps_exit_edge:
  assumes B: "base_ok B" and l: "linked (em_dag s)" and e: "e \<in> set (d_edges (em_dag s))" "\<not> is_phony (em_dag s) e"
      "\<not> hasInstrumentation (em_dag s) e" "getBlock (em_dag s) (getSource (em_dag s) e) = None"
    and r: "insertInstrumentationStartingAt n B L e s = Inr s'"
  shows "getTarget (em_dag s') e = getTarget (em_dag s) e"
proof -
  obtain m where n: "n = Suc m" using r by (cases n) simp_all
  obtain t s1 where s1: "instrument_edge B L e s = Inr (t, s1)"
    "(case t of None \<Rightarrow> Inr s1 | Some v \<Rightarrow> instrument_successors m B L (succEdges (em_dag s1) v) s1) = Inr s'"
    using r n by (auto simp: bind_res_eq_Inr)
  note p = instrument_edge_settles [OF B l e(1-3) s1(1)]
  have l1: "linked (em_dag s1)" and e1: "e \<in> set (d_edges (em_dag s1))"
    using settlesD(2,3) [OF p(1)] e(1) by blast+
  have "settles (em_dag s1) (em_dag s')"
  proof (cases t)
    case None
    with s1(2) settles_refl [OF l1] show ?thesis by simp
  next
    case (Some v)
    have vn: "v \<in> set (d_nodes (em_dag s1))" using linkedD(3) [OF l1 e1] p(4) [OF Some] by simp
    have "searched (em_dag s1) UNIV" by (simp add: searched_def)
    from walk_covers(2) [OF B l1 linked_succ [OF l1 vn] this, of m L s'] Some s1(2) show ?thesis by (simp add: covers_def)
  qed
  then show ?thesis using settlesD(8) e1 p(2) exit_edge_target [OF e(4) s1(1)] by metis
qed

lemma insertInstrumentation_walked:
  assumes B: "base_ok B" and L: "llvm_ok blocks L" and W: "walked blocks L {} s"
    and er: "getExitRootEdge (em_dag s) = Inr er" "cfg_edge (em_dag s) er" "getSource (em_dag s) er = d_exit (em_dag s)"
    and h: "\<forall>e\<in>set (d_edges (em_dag s)). \<not> hasInstrumentation (em_dag s) e" and n: "2 * length (d_edges (em_dag s)) \<le> n"
  obtains s' C where "insertInstrumentation n B L s = Inr s'" "walked blocks L C s'" "er \<in> C" "searched (em_dag s') {}"
    "settles (em_dag s) (em_dag s')" "refines (em_dag s) (em_dag s')" "getTarget (em_dag s') er = getTarget (em_dag s) er"
proof -
  have P: "pass_inv blocks L {} s" using W by (simp add: walked_def)
  obtain Q0 D0 where I0: "walk_inv blocks L Q0 {} D0 s" using P by (auto simp: pass_inv_def)
  note G0 = graph_invD [OF walk_invD(1) [OF I0]]
  have e: "er \<in> set (d_edges (em_dag s))" "\<not> is_phony (em_dag s) er" using er(2) by (simp_all add: cfg_edge_def)
  have he: "\<not> hasInstrumentation (em_dag s) er" using h e(1) by blast
  have nb: "getBlock (em_dag s) (getSource (em_dag s) er) = None" using mirrorsD(2) [OF G0(4) planD(7) [OF G0(2)]] er(3) by simp
  have "work (em_dag s) \<le> n" using n work_bound [of "em_dag s"] by linarith
  then have "insertInstrumentationStartingAt n B L er s \<noteq> Inl Out_Of_Fuel"
    using walk_finishes(1) [OF B G0(1) e he, of n L] by (simp add: finishes_def)
  then obtain s' C where s': "insertInstrumentationStartingAt n B L er s = Inr s'" "walked blocks L C s'"
    "settles (em_dag s) (em_dag s')" "refines (em_dag s) (em_dag s')"
    using walk_passes(1) [OF B L W er(2) he, of n] er(3) by (auto simp: passes_def)
  have "searched (em_dag s) {}" using h by (simp add: searched_def)
  from walk_covers(1) [OF B G0(1) e he this s'(1)] have c: "searched (em_dag s') {}" "hasInstrumentation (em_dag s') er"
    by (simp_all add: covers_def)
  obtain Q D where I: "walk_inv blocks L Q C D s'" using s'(2) by (auto simp: walked_def pass_inv_def)
  note G = graph_invD [OF walk_invD(1) [OF I]]
  have ce: "cfg_edge (em_dag s') er" using s'(3) er(2) by (rule cfg_edge_settles)
  have "getSource (em_dag s') er = d_exit (em_dag s')" using settlesD(7) [OF s'(3) e(1)] er(3) settles_exit [OF s'(4)] by simp
  then have "\<not> stuck (em_dag s') er" using planD(6) [OF G(2) ce] by (simp add: stuck_def)
  then have "er \<in> C" using s'(2) ce c(2) by (simp add: walked_def)
  moreover have "getCallPhonyEdges (em_dag s') = []"
    using s'(2) by (auto simp: walked_def no_calls_def getCallPhonyEdges_def filter_empty_conv)
  then have "insertInstrumentation n B L s = Inr s'" using er(1) s'(1) by (simp add: insertInstrumentation_def)
  ultimately show thesis using that s'(2-4) c(1) walk_keeps_exit_edge [OF B G0(1) e he nb s'(1)] by blast
qed

end
