(* ===== verification/BL_Whole.thy ===== *)
theory BL_Whole
  imports BL_Sim
begin

text \<open>
  The whole pass over a function: the dag that LLVM builds, its placement, the
  removal of the phony edges and the walk that emits the code. The theorem says
  what the instrumented function logs when it runs.
\<close>

section \<open>The function before the pass\<close>

text \<open>
  What the constructor of LLVM's dag promises: the nodes are the blocks and the
  exit, and the edges that are not phony are the edges of the control flow, with
  those from the returning blocks to the exit. Nothing is instrumented yet.
\<close>

definition reflects :: "('c \<Rightarrow> block_id set) \<Rightarrow> 'c llvm \<Rightarrow> 'c \<Rightarrow> bl_dag \<Rightarrow> bool" where
  "reflects blocks L F d \<longleftrightarrow> inj_on (getBlock d) (set (d_nodes d))
     \<and> (\<forall>v\<in>set (d_nodes d). getBlock d v = None \<longleftrightarrow> v = d_exit d)
     \<and> (\<forall>v\<in>set (d_nodes d). \<forall>b. getBlock d v = Some b \<longrightarrow> b \<in> blocks F
          \<and> mset (l_successors L F b) = mset (List.map_filter (target_block d) (filter (\<lambda>e. \<not> is_phony d e) (succEdges d v))))"

definition pristine :: "bl_dag \<Rightarrow> bool" where
  "pristine d \<longleftrightarrow> (\<forall>v\<in>set (d_nodes d). getStartingPathNumber d v = None \<and> getEndingPathNumber d v = None \<and> getPathPHI d v = None)
     \<and> (\<forall>e\<in>set (d_edges d). \<not> hasInstrumentation d e)"

lemma reflects_mirrors:
  assumes r: "reflects blocks L F d" and wf: "bl_wf rk d1" and t: "topo d1 = topo d" and R: "R = {e \<in> set (d_edges d1). is_phony d1 e}"
  shows "mirrors blocks L F (unlinked R d1)"
proof -
  note e = topo_eqs [OF t] topo_eq_linked(1) [OF t]
  have "target_block (unlinked R d1) = target_block d" by (simp add: target_block_def fun_eq_iff e)
  then show ?thesis
    using r unlinked_degrees(2) [OF wf _ R] by (simp add: mirrors_def reflects_def e)
qed

lemma start_inv:
  assumes p: "placed rk er d1" and bd: "built_dag d1" and R: "R = {e \<in> set (d_edges d1). is_phony d1 e}"
    and idle: "\<And>b. b \<in> set (d_edges d1) \<Longrightarrow> is_loop_edge d1 b \<Longrightarrow>
      \<not> isInitialization d1 b \<and> \<not> isCounterIncrement d1 b \<and> getIncrement d1 b = 0"
    and l: "linked (unlinked R d1)" and m: "mirrors blocks L F (unlinked R d1)" and n: "HASH_THRESHHOLD < d_numberOfPaths d1"
    and pr: "pristine d1" and nc: "no_calls d1"
  shows "walked blocks L {} \<lparr>em_dag = unlinked R d1, em_fn = F, em_next = 0, em_calls = []\<rparr>"
proof -
  let ?s = "\<lparr>em_dag = unlinked R d1, em_fn = F, em_next = 0, em_calls = []\<rparr>"
  have pl: "plan (unlinked R d1) (holds_number d1 er)" using p bd R idle by (rule placed_plan)
  have "graph_inv blocks L {} {} (holds_number d1 er) ?s" using l m n pl by (simp add: graph_inv_def)
  moreover have "node_code ?s v = []" for v by (simp add: node_code_def block_code_def code_at_def split: option.split)
  then have "nodes_inv {} {} (holds_number d1 er) ?s"
    using pr by (auto simp: nodes_inv_def entered_def blank_def pristine_def)
  moreover have "edges_inv {} {} ?s" "incoming_inv blocks {} ?s" "calls_inv blocks ?s"
    using pr by (simp_all add: edges_inv_def incoming_inv_def calls_inv_def pristine_def)
  moreover have "phis_inv {} (holds_number d1 er) ?s"
    using pr by (auto simp: phis_inv_def entered_def phis_def pristine_def List.map_filter_simps)
  ultimately have "walk_inv blocks L {} {} (holds_number d1 er) ?s" by (simp add: walk_inv_def)
  then have "pass_inv blocks L {} ?s" by (auto simp: pass_inv_def)
  then show ?thesis using nc pr by (auto simp: walked_def no_calls_def pristine_def cfg_edge_def)
qed

text \<open>A run of the instrumented graph is an execution of the function with the new blocks left out.\<close>

lemma block_run_execution:
  assumes wf: "bl_wf rk d" and er: "getExitRootEdge d = Inr er" and r: "refines d2 d'" and s: "settles d2 d'"
    and d2: "set (d_edges d2) = set (d_edges d)" "d_root d2 = d_root d" "d_exit d2 = d_exit d" "d_nodes d2 = d_nodes d"
      "getSource d2 = getSource d" "getTarget d2 = getTarget d" "getType d2 = getType d"
    and e: "cfg_edge d' er" "getSource d' er = d_exit d'" "getTarget d' er = d_root d'"
    and b: "block_run d' es"
  defines "fs \<equiv> filter (\<lambda>e. e \<in> set (d_edges d)) es"
  shows "execution d fs" "fold_res (instrumented_step d') (er # es) = fold_res (instrumented_step d2) (er # fs)"
proof -
  note w = wf_exit_root_edge [OF wf er]
  have x: "d_exit d \<in> set (d_nodes d)" "d_exit d' = d_exit d" using wf r d2(3) by (simp_all add: bl_wf_def refines_def)
  have ce: "\<forall>e\<in>set (er # es). cfg_edge d' e" using b e(1) by (simp add: block_run_def inner_edge_def)
  have "walk d' (d_exit d') (er # es) (d_exit d')" using b e by (simp add: block_run_def)
  then have *: "walk d2 (d_exit d) (er # fs) (d_exit d)" "\<forall>e\<in>set es. e \<in> set (d_edges d2) \<longrightarrow> cfg_edge d2 e"
    "fold_res (instrumented_step d') (er # es) = fold_res (instrumented_step d2) (er # fs)"
    using refinesD(6-8) [OF r, of "d_exit d" "d_exit d" "er # es"] ce x d2(1,4) w(3) unfolding fs_def by simp_all
  show "fold_res (instrumented_step d') (er # es) = fold_res (instrumented_step d2) (er # fs)" by (rule *)
  have wk: "walk d2 u p v = walk d u p v" for u p v by (induction p arbitrary: u) (simp_all add: d2(5,6))
  have "real_edge d f" if "f \<in> set fs" for f
  proof -
    have f: "f \<in> set es" "f \<in> set (d_edges d)" using that by (simp_all add: fs_def)
    then have "\<not> is_phony d2 f" using *(2) d2(1) by (simp add: cfg_edge_def)
    moreover have "getSource d f \<noteq> d_exit d" using b f settlesD(7) [OF s, of f] d2(1,5) x(2) by (auto simp: block_run_def inner_edge_def)
    ultimately show ?thesis
      using f(2) w(1) er d2(7) by (cases "getType d f") (auto simp: real_edge_def is_phony_def is_loop_edge_def)
  qed
  then show "execution d fs" using *(1) w(1,2) wk d2(6) by (simp add: execution_def)
qed

section \<open>The pass\<close>

lemma start_of_pass:
  assumes B: "base_ok B" and wf: "bl_wf rk d" and fr: "fresh_dag d" and n: "enough_fuel rk n d" and bd: "built_dag d"
    and re: "reflects blocks L F d" and pr: "pristine d" and nc: "no_calls d" and np: "HASH_THRESHHOLD < d_numberOfPaths d"
    and er: "getExitRootEdge d = Inr er"
  obtains d1 d2 where "place_instrumentation n d = Inr d1" "unlinkPhony B d1 = Inr d2" "topo d1 = topo d"
    "d2 = unlinked {e \<in> set (d_edges d1). is_phony d1 e} d1" "getExitRootEdge d2 = Inr er"
    "walked blocks L {} \<lparr>em_dag = d2, em_fn = F, em_next = 0, em_calls = []\<rparr>"
    "d_numberOfPaths d2 = d_numberOfPaths d" "\<forall>e\<in>set (d_edges d2). \<not> hasInstrumentation d2 e"
proof -
  obtain d1 where d1: "place_instrumentation n d = Inr d1" "topo d1 = topo d" "placed rk er d1"
    "shifted d (getWeight d) (getIncrement d1)"
    "\<And>x. x \<in> set (d_edges d) \<Longrightarrow> \<not> init_reach d1 er x \<Longrightarrow> \<not> counter_reach d1 er x \<Longrightarrow>
       \<not> isInitialization d1 x \<and> \<not> isCounterIncrement d1 x \<and> (getWeight d x = 0 \<longrightarrow> getIncrement d1 x = 0)"
    by (rule place_instrumentation_placed [OF wf fr n er]) (rule that)
  note t = topo_eqs [OF d1(2)] topo_eq_runs(3) [OF d1(2)]
  note bd1 = bd [folded built_dag_topo [OF d1(2)]]
  have wf1: "bl_wf rk d1" using wf by (simp add: t)
  let ?R = "{e \<in> set (d_edges d1). is_phony d1 e}"
  have unl: "unlinkPhony B d1 = Inr (unlinked ?R d1)" using B wf1 by (rule unlinkPhony_unlinked)
  have l: "linked (unlinked ?R d1)" using unlinkPhony_linked [OF B wf1] unl by auto
  have f: "node_frame d1 = node_frame d" using placement_frame [OF d1(1)] wf by (simp add: bl_wf_def)
  then have pr1: "pristine d1" and np1: "d_numberOfPaths d1 = d_numberOfPaths d"
    using pr by (simp_all add: node_frame_def pristine_def t)
  have idle: "\<not> isInitialization d1 b \<and> \<not> isCounterIncrement d1 b \<and> getIncrement d1 b = 0"
    if b: "b \<in> set (d_edges d1)" "is_loop_edge d1 b" for b
    using d1(5) [of b] loop_edge_unreached [OF d1(3) bd1 b] built_dagD(5) [OF bd, of b] b by (simp add: t)
  have er1: "getExitRootEdge d1 = Inr er" using er by (simp add: t)
  have "er \<notin> ?R" using wf_exit_root_edge(4) [OF wf1 er1] by (simp add: is_phony_def)
  from unlinked_exit_root [OF wf1 er1 this] have er2: "getExitRootEdge (unlinked ?R d1) = Inr er" .
  have "walked blocks L {} \<lparr>em_dag = unlinked ?R d1, em_fn = F, em_next = 0, em_calls = []\<rparr>"
    using d1(3) bd1 refl idle l reflects_mirrors [OF re wf1 d1(2) refl] np [folded np1] pr1 nc [folded no_calls_topo [OF d1(2)]]
    by (rule start_inv)
  then show thesis using that [OF d1(1) unl d1(2) refl er2] pr1 np1 by (simp add: pristine_def)
qed

text \<open>
  What the pass needs of a function: its numbered dag as LLVM builds it, fresh, and a recursion budget.
  \<open>kept d es\<close> is a run of the instrumented graph without the edges that splitting has added.
\<close>

definition instrumentable :: "('c \<Rightarrow> block_id set) \<Rightarrow> 'c llvm \<Rightarrow> (node_id \<Rightarrow> nat) \<Rightarrow> (node_id \<Rightarrow> nat) \<Rightarrow> nat \<Rightarrow> bl_dag \<Rightarrow> 'c \<Rightarrow> bool" where
  "instrumentable blocks L rk np n d F \<longleftrightarrow> bl_wf rk d \<and> fresh_dag d \<and> numbered np d \<and> enough_fuel rk n d
     \<and> 2 * length (d_edges d) \<le> n \<and> built_dag d \<and> reflects blocks L F d \<and> pristine d \<and> no_calls d
     \<and> HASH_THRESHHOLD < d_numberOfPaths d"

definition kept :: "bl_dag \<Rightarrow> edge_id list \<Rightarrow> edge_id list" where
  "kept d es = filter (\<lambda>e. e \<in> set (d_edges d)) es"

text \<open>What the code of an instrumented function logs when it runs along \<open>es\<close>.\<close>

definition code_log :: "'c emitter \<Rightarrow> (inst_id \<Rightarrow> u32) \<Rightarrow> edge_id list \<Rightarrow> clong list" where
  "code_log s env es = snd (run_blocks (em_calls s) None (block_path (em_dag s) es) (env, []))"

lemma execution_inner:
  assumes wf: "bl_wf rk d" and er: "getExitRootEdge d = Inr er" and x: "execution d es"
  shows "\<forall>e\<in>set es. inner_edge d e"
proof
  fix e
  assume "e \<in> set es"
  then have e: "real_edge d e" using x by (simp add: execution_def)
  note w = wf_exit_root_edge [OF wf er]
  have "e = er" if "getSource d e = d_exit d"
  proof -
    have "e \<in> set (succEdges d (d_exit d))" using wf_edge_vectors(2) [OF wf] wf that e by (simp add: bl_wf_def real_edge_def)
    then show ?thesis by (simp add: w(5))
  qed
  then show "inner_edge d e"
    using e er w(4) by (auto simp: inner_edge_def cfg_edge_def real_edge_def is_phony_def is_loop_edge_def)
qed

lemma runOnFunction_result:
  assumes B: "base_ok B" and L: "llvm_ok blocks L" and i: "instrumentable blocks L rk np n d F" and er: "getExitRootEdge d = Inr er"
  obtains s' pf' C d1 d2 where "runOnFunction n B L (d, F) pf = Inr (s', pf')" "place_instrumentation n d = Inr d1" "topo d1 = topo d"
    "d2 = unlinked {e \<in> set (d_edges d1). is_phony d1 e} d1"
    "walked blocks L C s'" "er \<in> C" "searched (em_dag s') {}" "settles d2 (em_dag s')" "refines d2 (em_dag s')"
    "cfg_edge (em_dag s') er" "getSource (em_dag s') er = d_exit (em_dag s')" "getTarget (em_dag s') er = d_root (em_dag s')"
proof -
  note i = i [unfolded instrumentable_def]
  have wf: "bl_wf rk d" using i by blast
  note w = wf_exit_root_edge [OF wf er]
  obtain d1 d2 where d: "place_instrumentation n d = Inr d1" "unlinkPhony B d1 = Inr d2" "topo d1 = topo d"
    "d2 = unlinked {e \<in> set (d_edges d1). is_phony d1 e} d1" "getExitRootEdge d2 = Inr er"
    "walked blocks L {} \<lparr>em_dag = d2, em_fn = F, em_next = 0, em_calls = []\<rparr>"
    "d_numberOfPaths d2 = d_numberOfPaths d" "\<forall>e\<in>set (d_edges d2). \<not> hasInstrumentation d2 e"
    using start_of_pass [OF B wf _ _ _ _ _ _ _ er, of n blocks L F] i by blast
  note t = topo_eqs [OF d(3)]
  have v: "d_edges d2 = d_edges d" "d_root d2 = d_root d" "d_exit d2 = d_exit d"
    "getSource d2 = getSource d" "getTarget d2 = getTarget d" "getType d2 = getType d" by (simp_all add: d(4) t)
  let ?s = "\<lparr>em_dag = d2, em_fn = F, em_next = 0, em_calls = []\<rparr>"
  have ce: "cfg_edge d2 er" using w(3,4) by (simp add: cfg_edge_def is_phony_def v)
  obtain s' C where s': "insertInstrumentation n B L ?s = Inr s'" "walked blocks L C s'" "er \<in> C" "searched (em_dag s') {}"
    "settles d2 (em_dag s')" "refines d2 (em_dag s')" "getTarget (em_dag s') er = getTarget d2 er"
    using insertInstrumentation_walked [OF B L d(6), of er n] d(5,8) ce w(1) i v by auto
  have "\<not> d_numberOfPaths d2 \<le> HASH_THRESHHOLD" using i by (simp add: d(7) not_le)
  then obtain pf' where run: "runOnFunction n B L (d, F) pf = Inr (s', pf')"
    using d(1,2) s'(1) by (simp add: runOnFunction_def Let_def)
  have "cfg_edge (em_dag s') er" "getSource (em_dag s') er = d_exit (em_dag s')" "getTarget (em_dag s') er = d_root (em_dag s')"
    using cfg_edge_settles [OF s'(5) ce] settlesD(7) [OF s'(5)] refinesD(4,5) [OF s'(6)] s'(7) w v by simp_all
  then show thesis using that [OF run d(1,3,4) s'(2-6)] by blast
qed

lemma runOnFunction_logs:
  assumes B: "base_ok B" and L: "llvm_ok blocks L" and i: "instrumentable blocks L rk np n d F"
  obtains s' pf' where "runOnFunction n B L (d, F) pf = Inr (s', pf')"
    "\<forall>es env. block_run (em_dag s') es \<longrightarrow>
       execution d (kept d es) \<and> code_log s' env es = map (path_number d) (acyclic_parts d [] (kept d es))"
    "splits_critical blocks L \<longrightarrow> (\<forall>es. execution d es \<longrightarrow> (\<exists>es'. block_run (em_dag s') es' \<and> kept d es' = es))"
proof -
  note I = i [unfolded instrumentable_def]
  have wf: "bl_wf rk d" using I by blast
  obtain er where er: "getExitRootEdge d = Inr er" using wf by (rule wf_exit_root)
  note w = wf_exit_root_edge [OF wf er]
  obtain s' pf' C d1 d2 where r: "runOnFunction n B L (d, F) pf = Inr (s', pf')" "place_instrumentation n d = Inr d1" "topo d1 = topo d"
    "d2 = unlinked {e \<in> set (d_edges d1). is_phony d1 e} d1"
    "walked blocks L C s'" "er \<in> C" "searched (em_dag s') {}" "settles d2 (em_dag s')" "refines d2 (em_dag s')"
    "cfg_edge (em_dag s') er" "getSource (em_dag s') er = d_exit (em_dag s')" "getTarget (em_dag s') er = d_root (em_dag s')"
    using B L i er by (rule runOnFunction_result)
  note t = topo_eqs [OF r(3)] topo_eq_paths(1) [OF r(3)]
  have v: "d_edges d2 = d_edges d" "d_root d2 = d_root d" "d_exit d2 = d_exit d" "d_nodes d2 = d_nodes d"
    "getSource d2 = getSource d" "getTarget d2 = getTarget d" "getType d2 = getType d" by (simp_all add: r(4) t)
  have wk: "walk d2 u p x = walk d u p x" for u p x by (induction p arbitrary: u) (simp_all add: v)
  have st: "instrumented_step d2 = instrumented_step d1" by (simp add: r(4) unlinked_steps)
  have "execution d (kept d es) \<and> code_log s' env es = map (path_number d) (acyclic_parts d [] (kept d es))"
    if b: "block_run (em_dag s') es" for es env
  proof -
    note x = block_run_execution [OF wf er r(9,8) arg_cong [OF v(1), of set] v(2-7) r(10-12) b, folded kept_def]
    have "run_function d1 (kept d es) = Inr (None, map (path_number d) (acyclic_parts d [] (kept d es)))"
      using run_function_log [of rk d np n] I x(1) r(2) by (metis sum.inject(2))
    then have "fold_res (instrumented_step (em_dag s')) (er # es) (None, []) = Inr (None, map (path_number d) (acyclic_parts d [] (kept d es)))"
      using er by (simp only: x(2) st) (simp add: run_function_def t)
    with walked_run [OF r(5,7,6,11,12) b, of env] x(1) show ?thesis by (auto simp: code_log_def)
  qed
  moreover have "\<exists>es'. block_run (em_dag s') es' \<and> kept d es' = es" if s: "splits_critical blocks L" and x: "execution d es" for es
  proof -
    have "\<forall>e\<in>set es. inner_edge d2 e"
      using execution_inner [OF wf er x] by (simp add: inner_edge_def cfg_edge_def is_phony_def v)
    moreover have "walk d2 (d_root d) es (d_exit d)" using x by (simp add: execution_def wk)
    ultimately obtain es' where es': "walk (em_dag s') (d_root d) es' (d_exit d)" "\<forall>e\<in>set es'. inner_edge (em_dag s') e" "kept d es' = es"
      using refinesD(1) [OF r(9)] unfolding lifts_def v kept_def by blast
    note q = refinesD(4,5) [OF r(9), unfolded v]
    have "\<forall>e\<in>set es'. \<not> stuck (em_dag s') e"
      using walk_unstuck [OF r(5,7) s r(6), of es' "d_exit d"] es'(1,2) r(12) q by (simp add: inner_edge_def)
    with es' q show ?thesis by (auto simp: block_run_def)
  qed
  ultimately show thesis using that [OF r(1)] by blast
qed

end
