(* ===== verification/BL_Self.thy ===== *)
theory BL_Self
  imports BL_Whole BL_Example
begin

text \<open>
  A function whose loop is one block: entry block 0, the loop 1, the returning
  block 2 and the exit node 3. Edge 2 is the back edge, and it is critical, so the
  walk splits it. The functions are lists of blocks with their successors.
\<close>

section \<open>Functions as lists of blocks\<close>

type_synonym cfg = "(block_id \<times> block_id list) list"

definition cfg_blocks :: "cfg \<Rightarrow> block_id set" where
  "cfg_blocks F = fst ` set F"

definition cfg_succs :: "cfg \<Rightarrow> block_id \<Rightarrow> block_id list" where
  "cfg_succs F b = (case map_of F b of None \<Rightarrow> [] | Some bs \<Rightarrow> bs)"

definition cfg_preds :: "cfg \<Rightarrow> block_id \<Rightarrow> block_id list" where
  "cfg_preds F b = concat (map (\<lambda>p. replicate (count_list (cfg_succs F p) b) p) (remdups (map fst F)))"

definition cfg_split :: "cfg \<Rightarrow> block_id \<Rightarrow> nat \<Rightarrow> cfg option" where
  "cfg_split F b k = (let nb = next_id (map fst F)
     in Some ((nb, [cfg_succs F b ! k]) # (b, (cfg_succs F b)[k := nb]) # F))"

definition cfg_llvm :: "cfg llvm" where
  "cfg_llvm = \<lparr>l_successors = cfg_succs, l_predecessors = cfg_preds, l_isIndirectBr = (\<lambda>_ _. False),
     l_SplitCriticalEdge = cfg_split\<rparr>"

lemma count_list_replicate: "count_list (replicate n x) p = (if x = p then n else 0)"
  by (induction n) auto

lemma count_preds:
  "distinct ps \<Longrightarrow> count_list (concat (map (\<lambda>p. replicate (f p) p) ps)) p = (if p \<in> set ps then f p else 0)"
  by (induction ps) (auto simp: count_list_replicate)

lemma cfg_llvm_ok: "llvm_ok cfg_blocks cfg_llvm"
  unfolding llvm_ok_def
proof (intro conjI allI impI)
  fix F :: cfg and b p
  show "set (l_predecessors cfg_llvm F b) \<subseteq> cfg_blocks F" by (force simp: cfg_llvm_def cfg_preds_def cfg_blocks_def)
  have "count_list (cfg_succs F p) b = 0" if "p \<notin> set (map fst F)"
    using that map_of_eq_None_iff [of F p] by (auto simp: cfg_succs_def split: option.split)
  then show "count_list (l_predecessors cfg_llvm F b) p = count_list (l_successors cfg_llvm F p) b"
    by (simp add: cfg_llvm_def cfg_preds_def count_preds)
next
  fix F :: cfg and b k F'
  assume b: "b \<in> cfg_blocks F" and s: "l_SplitCriticalEdge cfg_llvm F b k = Some F'"
  let ?nb = "next_id (map fst F)"
  have F': "F' = (?nb, [cfg_succs F b ! k]) # (b, (cfg_succs F b)[k := ?nb]) # F"
    using s by (simp add: cfg_llvm_def cfg_split_def Let_def)
  have n: "?nb \<notin> cfg_blocks F" using next_id_fresh [of "map fst F"] by (simp add: cfg_blocks_def)
  then have "l_successors cfg_llvm F' = (l_successors cfg_llvm F)
      (b := (l_successors cfg_llvm F b)[k := ?nb], ?nb := [l_successors cfg_llvm F b ! k])"
    by (auto simp: F' cfg_llvm_def cfg_succs_def fun_eq_iff)
  moreover have "cfg_blocks F' = insert ?nb (cfg_blocks F)" using b by (auto simp: F' cfg_blocks_def)
  ultimately show "\<exists>nb. nb \<notin> cfg_blocks F \<and> cfg_blocks F' = insert nb (cfg_blocks F)
      \<and> l_successors cfg_llvm F' = (l_successors cfg_llvm F)(b := (l_successors cfg_llvm F b)[k := nb], nb := [l_successors cfg_llvm F b ! k])"
    using n by blast
qed

section \<open>A loop of one block\<close>

definition self_fn :: cfg where
  "self_fn = [(0, [1]), (1, [1, 2]), (2, [])]"

definition self_dag :: bl_dag where
  "self_dag = \<lparr>d_nodes = [0, 3, 1, 2], d_edges = [0, 1, 2, 3, 4, 5, 6],
     d_node = (\<lambda>v. if v = 0 then mk_node 0 [0] [1, 5]
                   else if v = 1 then mk_node 1 [1, 2, 5] [2, 3, 6]
                   else if v = 2 then mk_node 2 [3] [4]
                   else mk_node 3 [4, 6] [0]),
     d_edge = (\<lambda>e. if e = 0 then mk_edge 3 0 NORMAL 0
                   else if e = 1 then mk_edge 0 1 NORMAL 0
                   else if e = 2 then (mk_edge 1 1 BACKEDGE 0)\<lparr>e_phonyRoot := Some 5, e_phonyExit := Some 6\<rparr>
                   else if e = 3 then mk_edge 1 2 NORMAL 0
                   else if e = 4 then mk_edge 2 3 NORMAL 0
                   else if e = 5 then mk_edge 0 1 BACKEDGE_PHONY 2
                   else mk_edge 1 3 BACKEDGE_PHONY 1),
     d_root = 0, d_exit = 3, d_treeEdges = [], d_chordEdges = [],
     d_counterArray = None, d_numberOfPaths = 4\<rparr>"

lemmas self_dag_defs = self_dag_def mk_node_def mk_edge_def createNode_def createEdge_def getter_defs

lemma self_dag_parts:
  "d_edges self_dag = [0, 1, 2, 3, 4, 5, 6]" "d_nodes self_dag = [0, 3, 1, 2]"
  "d_root self_dag = 0" "d_exit self_dag = 3" "d_numberOfPaths self_dag = 4"
  "d_treeEdges self_dag = []" "d_chordEdges self_dag = []"
  "succEdges self_dag = (\<lambda>v. if v = 0 then [1, 5] else if v = 1 then [2, 3, 6] else if v = 2 then [4] else [0])"
  "predEdges self_dag = (\<lambda>v. if v = 0 then [0] else if v = 1 then [1, 2, 5] else if v = 2 then [3] else [4, 6])"
  by (simp_all add: self_dag_defs fun_eq_iff)

lemma self_dag_edges:
  "getSource self_dag = (\<lambda>e. if e = 0 then 3 else if e = 1 \<or> e = 5 then 0 else if e = 4 then 2 else 1)"
  "getTarget self_dag = (\<lambda>e. if e = 0 then 0 else if e = 1 \<or> e = 2 \<or> e = 5 then 1 else if e = 3 then 2 else 3)"
  "getType self_dag = (\<lambda>e. if e = 2 then BACKEDGE else if e < 5 then NORMAL else BACKEDGE_PHONY)"
  "getWeight self_dag = (\<lambda>e. if e = 5 then 2 else if e < 5 then 0 else 1)"
  "getPhonyRoot self_dag = (\<lambda>e. if e = 2 then Some 5 else None)"
  "getPhonyExit self_dag = (\<lambda>e. if e = 2 then Some 6 else None)"
  "getIncrement self_dag = (\<lambda>e. 0)" "isInSpanningTree self_dag = (\<lambda>e. False)"
  "isInitialization self_dag = (\<lambda>e. False)" "isCounterIncrement self_dag = (\<lambda>e. False)" "hasInstrumentation self_dag = (\<lambda>e. False)"
  by (auto simp: self_dag_defs fun_eq_iff)

lemma self_dag_nodes:
  "getBlock self_dag = (\<lambda>v. if v < 3 then Some v else None)" "getStartingPathNumber self_dag = (\<lambda>v. None)"
  "getEndingPathNumber self_dag = (\<lambda>v. None)" "getPathPHI self_dag = (\<lambda>v. None)"
  by (auto simp: self_dag_defs fun_eq_iff)

lemma self_dag_er: "getExitRootEdge self_dag = Inr 0"
  by (simp add: getExitRootEdge_def self_dag_parts)

lemma self_dag_dag_edge: "dag_edge self_dag e \<longleftrightarrow> e \<in> {1, 3, 4, 5, 6}"
  by (auto simp: dag_edge_def self_dag_er self_dag_parts self_dag_edges)

lemmas self_dag_eval = self_dag_parts self_dag_edges self_dag_nodes self_dag_er self_dag_dag_edge

lemma self_dag_fresh: "fresh_dag self_dag"
  by (simp add: fresh_dag_def self_dag_eval)

lemma self_dag_fuel: "enough_fuel (\<lambda>v. v) 14 self_dag"
  by (simp add: enough_fuel_def rank_bound_def self_dag_eval)

lemma self_dag_numbered: "numbered (\<lambda>v. if v = 0 then 4 else if v = 1 then 2 else 1) self_dag"
  by (simp add: numbered_def dag_succs_def self_dag_eval)

lemma self_dag_wf: "bl_wf (\<lambda>v. v) self_dag"
proof -
  have ph: "phony_partners self_dag 2" by (simp add: phony_partners_def self_dag_eval)
  have v: "\<forall>v\<in>set (d_nodes self_dag). distinct (succEdges self_dag v) \<and> distinct (predEdges self_dag v)
      \<and> set (succEdges self_dag v) = {e \<in> set (d_edges self_dag). getSource self_dag e = v}
      \<and> set (predEdges self_dag v) = {e \<in> set (d_edges self_dag). getTarget self_dag e = v}"
    by (auto simp: self_dag_eval split: if_splits)
  show ?thesis
    unfolding bl_wf_def by (intro conjI v) (simp_all add: self_dag_eval ph)
qed

lemma self_dag_built: "built_dag self_dag"
proof -
  have "\<exists>p. walk self_dag 1 p 1 \<and> (\<forall>e\<in>set p. dag_edge self_dag e)" by (rule exI [of _ "[]"]) simp
  then show ?thesis by (auto simp: built_dag_def is_phony_def is_loop_edge_def self_dag_eval)
qed

lemma self_dag_reflects: "reflects cfg_blocks cfg_llvm self_fn self_dag"
  by (auto simp: reflects_def cfg_llvm_def cfg_blocks_def cfg_succs_def self_fn_def target_block_def is_phony_def
      self_dag_eval inj_on_def List.map_filter_simps)

lemma self_dag_instrumentable:
  "instrumentable cfg_blocks cfg_llvm (\<lambda>v. v) (\<lambda>v. if v = 0 then 4 else if v = 1 then 2 else 1) 14 self_dag self_fn"
proof -
  have "pristine self_dag" "no_calls self_dag" "HASH_THRESHHOLD < d_numberOfPaths self_dag" "2 * length (d_edges self_dag) \<le> 14"
    by (simp_all add: pristine_def no_calls_def self_dag_eval HASH_THRESHHOLD_def)
  then show ?thesis
    using self_dag_wf self_dag_fresh self_dag_fuel self_dag_numbered self_dag_built self_dag_reflects
    by (simp add: instrumentable_def)
qed

lemma self_dag_executions: "execution self_dag [1, 2, 3, 4]" "execution self_dag [1, 3, 4]"
  by (simp_all add: execution_def real_edge_def is_loop_edge_def self_dag_eval)

lemma self_dag_numbers:
  "acyclic_parts self_dag [] [1, 2, 3, 4] = [[1, 6], [5, 3, 4]]" "acyclic_parts self_dag [] [1, 3, 4] = [[1, 3, 4]]"
  "path_number self_dag [1, 6] = 1" "path_number self_dag [5, 3, 4] = 2" "path_number self_dag [1, 3, 4] = 0"
  by (simp_all add: is_loop_edge_def path_number_def self_dag_eval)

lemma cfg_llvm_splits: "splits_critical cfg_blocks cfg_llvm"
  by (simp add: splits_critical_def cfg_llvm_def cfg_split_def Let_def)

end
