(* ===== verification/BL_Types.thy ===== *)
theory BL_Types
  imports BL_Self
begin

text \<open>
  A type checker for the created instructions, in the order in which the pass
  creates them: every instruction gets the next number, operands are constants or
  instructions that exist already, and only a PHI takes incoming values. Every
  operation of the pass keeps the emitted code well typed.
\<close>

section \<open>The checker\<close>

datatype ir_kind = Add_Inst | PHI_Inst

fun value_typed :: "ir_kind list \<Rightarrow> ir_value \<Rightarrow> bool" where
  "value_typed E (ConstInt c) = True"
| "value_typed E (InstVal i) = (i < length E)"

definition phi_typed :: "ir_kind list \<Rightarrow> inst_id \<Rightarrow> bool" where
  "phi_typed E i \<longleftrightarrow> i < length E \<and> E ! i = PHI_Inst"

fun check_call :: "ir_kind list \<Rightarrow> ir_call \<Rightarrow> ir_kind list option" where
  "check_call E (Create_Add i a b p) = (if i = length E \<and> value_typed E a \<and> value_typed E b then Some (E @ [Add_Inst]) else None)"
| "check_call E (Create_Call f v p) = (if value_typed E v then Some E else None)"
| "check_call E (Create_PHI i b k) = (if i = length E then Some (E @ [PHI_Inst]) else None)"
| "check_call E (Add_Incoming i v b) = (if phi_typed E i \<and> value_typed E v then Some E else None)"
| "check_call E (Remove_Incoming i b) = (if phi_typed E i then Some E else None)"

fun check_calls :: "ir_kind list \<Rightarrow> ir_call list \<Rightarrow> ir_kind list option" where
  "check_calls E [] = Some E"
| "check_calls E (c # cs) = (case check_call E c of None \<Rightarrow> None | Some E' \<Rightarrow> check_calls E' cs)"

lemma check_calls_append:
  "check_calls E (cs @ ds) = (case check_calls E cs of None \<Rightarrow> None | Some E' \<Rightarrow> check_calls E' ds)"
  by (induction cs arbitrary: E) (auto split: option.split)

section \<open>Well-typed states\<close>

definition node_typed :: "ir_kind list \<Rightarrow> bl_dag \<Rightarrow> node_id \<Rightarrow> bool" where
  "node_typed E d v \<longleftrightarrow> pred_option (value_typed E) (getStartingPathNumber d v)
     \<and> pred_option (value_typed E) (getEndingPathNumber d v) \<and> pred_option (phi_typed E) (getPathPHI d v)"

definition typed :: "ir_kind list \<Rightarrow> 'c emitter \<Rightarrow> bool" where
  "typed E s \<longleftrightarrow> check_calls [] (em_calls s) = Some E \<and> em_next s = length E
     \<and> (\<forall>v\<in>set (d_nodes (em_dag s)). node_typed E (em_dag s) v)"

definition well_typed :: "'c emitter \<Rightarrow> bool" where
  "well_typed s \<longleftrightarrow> (\<exists>E. typed E s)"

lemma value_typed_append [simp]: "value_typed E v \<Longrightarrow> value_typed (E @ F) v"
  by (cases v) auto

lemma phi_typed_append [simp]: "phi_typed E i \<Longrightarrow> phi_typed (E @ F) i"
  by (simp add: phi_typed_def nth_append)

lemma node_typed_append: "node_typed E d v \<Longrightarrow> node_typed (E @ F) d v"
  by (auto simp: node_typed_def option.pred_set)

lemma typed_node:
  assumes "typed E s" "v \<in> set (d_nodes (em_dag s))"
  shows "pred_option (value_typed E) (getStartingPathNumber (em_dag s) v)"
    "pred_option (value_typed E) (getEndingPathNumber (em_dag s) v)" "pred_option (phi_typed E) (getPathPHI (em_dag s) v)"
  using assms by (simp_all add: typed_def node_typed_def)

lemma typed_call: "typed E s \<Longrightarrow> check_call E c = Some E \<Longrightarrow> typed E (record_call c s)"
  by (simp add: typed_def record_call_def check_calls_append)

lemma typed_new:
  "typed E s \<Longrightarrow> check_call E c = Some (E @ [k]) \<Longrightarrow> typed (E @ [k]) (record_call c (s\<lparr>em_next := Suc (em_next s)\<rparr>))"
  by (simp add: typed_def record_call_def check_calls_append node_typed_append)

lemma typed_set_number:
  assumes "typed E s" "pred_option (value_typed E) x"
  shows "typed E (on_dag (setStartingPathNumber v x) s)" "typed E (on_dag (setEndingPathNumber v x) s)"
  using assms by (auto simp: typed_def on_dag_def node_typed_def setter_defs getter_defs)

lemma typed_set_phi: "typed E s \<Longrightarrow> phi_typed E i \<Longrightarrow> typed E (on_dag (setPathPHI v (Some i)) s)"
  by (auto simp: typed_def on_dag_def node_typed_def setter_defs getter_defs)

lemma typed_create_add:
  assumes "typed E s" "pred_option (value_typed E) a" "value_typed E b" "create_add a b p s = Inr (x, s')"
  shows "typed (E @ [Add_Inst]) s'" "value_typed (E @ [Add_Inst]) x" "em_dag s' = em_dag s"
proof -
  obtain v where v: "a = Some v" "x = InstVal (em_next s)"
    "s' = record_call (Create_Add (em_next s) v b p) (s\<lparr>em_next := Suc (em_next s)\<rparr>)"
    using assms(4) by (auto simp: create_add_def split: option.splits)
  have n: "em_next s = length E" using assms(1) by (simp add: typed_def)
  show "typed (E @ [Add_Inst]) s'" unfolding v(3) by (rule typed_new [OF assms(1)]) (use assms(2,3) v(1) n in simp)
  show "value_typed (E @ [Add_Inst]) x" "em_dag s' = em_dag s" by (simp_all add: v n record_call_def)
qed

lemma typed_counter:
  assumes "typed E s" "pred_option (value_typed E) a" "insertCounterIncrement a p i s = Inr s'"
  shows "typed E s'" "em_dag s' = em_dag s"
  using assms by (auto simp: insertCounterIncrement_def record_call_def split: if_splits option.splits
      dest: typed_call [of E s "Create_Call _ _ _"])

section \<open>Operations\<close>

text \<open>\<open>types N r\<close>: when \<open>r\<close> is a state, it is well typed and has the nodes \<open>N\<close>.\<close>

definition types :: "node_id set \<Rightarrow> 'c emitter res \<Rightarrow> bool" where
  "types N r \<longleftrightarrow> (\<forall>s. r = Inr s \<longrightarrow> well_typed s \<and> set (d_nodes (em_dag s)) = N)"

named_theorems typing

lemma types_Inr [typing]: "well_typed s \<Longrightarrow> set (d_nodes (em_dag s)) = N \<Longrightarrow> types N (Inr s)"
  by (simp add: types_def)

lemma types_Inl [typing]: "types N (Inl err)"
  by (simp add: types_def)

lemma types_if [typing]: "(b \<Longrightarrow> types N r) \<Longrightarrow> (\<not> b \<Longrightarrow> types N q) \<Longrightarrow> types N (if b then r else q)"
  by simp

lemma types_bind [typing]:
  "types N r \<Longrightarrow> (\<And>s. well_typed s \<Longrightarrow> set (d_nodes (em_dag s)) = N \<Longrightarrow> types N (f s)) \<Longrightarrow> types N (bind_res r f)"
  by (cases r) (auto simp: types_def)

lemma types_block [typing]: "(\<And>b. types N (f b)) \<Longrightarrow> types N (bind_res (block_of v s) f)"
  by (cases "block_of v s") (auto simp: types_def)

lemma well_typedI: "typed E s \<Longrightarrow> well_typed s"
  by (auto simp: well_typed_def)

lemma types_add [typing]:
  assumes "well_typed s" "v \<in> N" "set (d_nodes (em_dag s)) = N"
    "\<And>x s'. set (d_nodes (em_dag s')) = N \<Longrightarrow> (\<And>v. well_typed (on_dag (setEndingPathNumber v (Some x)) s')) \<Longrightarrow>
       (\<And>v. well_typed (on_dag (setStartingPathNumber v (Some x)) (on_dag (setEndingPathNumber v (Some x)) s'))) \<Longrightarrow> types N (f x s')"
  shows "types N (bind_res (create_add (getStartingPathNumber (em_dag s) v) (createIncrementConstant_edge d e) p s) (\<lambda>(x, s'). f x s'))"
proof (cases "create_add (getStartingPathNumber (em_dag s) v) (createIncrementConstant_edge d e) p s")
  case (Inr a)
  obtain x s' where a: "a = (x, s')" by (cases a)
  obtain E where E: "typed E s" using assms(1) by (auto simp: well_typed_def)
  have c: "value_typed E (createIncrementConstant_edge d e)" by (simp add: createIncrementConstant_edge_def createIncrementConstant_def)
  note t = typed_create_add [OF E typed_node(1) [OF E] c Inr [unfolded a]]
  have x: "pred_option (value_typed (E @ [Add_Inst])) (Some x)" and t': "typed (E @ [Add_Inst]) s'" using t assms(2,3) by simp_all
  note n = typed_set_number(2) [OF t' x]
  have "types N (f x s')"
    using assms(2,3) t by (intro assms(4) well_typedI [OF n] well_typedI [OF typed_set_number(1) [OF n x]]) simp
  then show ?thesis using Inr a by simp
qed (simp add: types_def)

lemma types_count [typing]:
  assumes "well_typed s" "v \<in> N" "set (d_nodes (em_dag s)) = N"
  shows "types N (insertCounterIncrement (getEndingPathNumber (em_dag s) v) p i s)"
proof -
  obtain E where E: "typed E s" using assms(1) by (auto simp: well_typed_def)
  have v: "v \<in> set (d_nodes (em_dag s))" using assms(2,3) by simp
  show ?thesis
    unfolding types_def
  proof (intro allI impI)
    fix s'
    assume "insertCounterIncrement (getEndingPathNumber (em_dag s) v) p i s = Inr s'"
    from typed_counter [OF E typed_node(2) [OF E v] this] show "well_typed s' \<and> set (d_nodes (em_dag s')) = N"
      using assms(3) well_typedI by simp
  qed
qed

lemma well_typed_constant [typing]:
  assumes "well_typed s"
  shows "well_typed (on_dag (setStartingPathNumber v (Some (createIncrementConstant_edge d e))) s)"
    "well_typed (on_dag (setEndingPathNumber v (Some (createIncrementConstant_edge d e))) s)"
    "well_typed (on_dag (setStartingPathNumber v (Some (createIncrementConstant c n))) s)"
    "well_typed (on_dag (setEndingPathNumber v (Some (createIncrementConstant c n))) s)"
    "well_typed (on_dag (setEndingPathNumber v None) s)"
proof -
  obtain E where E: "typed E s" using assms by (auto simp: well_typed_def)
  show "well_typed (on_dag (setStartingPathNumber v (Some (createIncrementConstant_edge d e))) s)"
    "well_typed (on_dag (setEndingPathNumber v (Some (createIncrementConstant_edge d e))) s)"
    "well_typed (on_dag (setStartingPathNumber v (Some (createIncrementConstant c n))) s)"
    "well_typed (on_dag (setEndingPathNumber v (Some (createIncrementConstant c n))) s)"
    "well_typed (on_dag (setEndingPathNumber v None) s)"
    by (rule well_typedI, rule typed_set_number [OF E],
        simp add: createIncrementConstant_edge_def createIncrementConstant_def)+
qed

lemma well_typed_if [typing]: "(b \<Longrightarrow> well_typed s) \<Longrightarrow> (\<not> b \<Longrightarrow> well_typed t) \<Longrightarrow> well_typed (if b then s else t)"
  by simp

lemma nodes_on_dag [simp]:
  "d_nodes (em_dag (on_dag (setStartingPathNumber v x) s)) = d_nodes (em_dag s)"
  "d_nodes (em_dag (on_dag (setEndingPathNumber v x) s)) = d_nodes (em_dag s)"
  "d_nodes (em_dag (on_dag (setPathPHI v y) s)) = d_nodes (em_dag s)"
  by (simp_all add: on_dag_def)

section \<open>The code of one edge\<close>

lemma emit_normal_edge_types [typing]:
  assumes "well_typed s" "v \<in> N" "set (d_nodes (em_dag s)) = N"
  shows "types N (emit_normal_edge e v b s)"
  unfolding emit_normal_edge_def Let_def prod.case using assms
  by - (rule typing | assumption | (simp; fail))+

lemma emit_loop_edge_types [typing]:
  assumes "well_typed s" "v \<in> N" "set (d_nodes (em_dag s)) = N"
  shows "types N (emit_loop_edge e v b s)"
proof (cases "getPhonyRoot (em_dag s) e"; cases "getPhonyExit (em_dag s) e")
  fix t q
  assume "getPhonyRoot (em_dag s) e = Some t" "getPhonyExit (em_dag s) e = Some q"
  with assms show ?thesis
    unfolding emit_loop_edge_def Let_def by - (simp only: prod.case option.case, (rule typing | assumption | (simp; fail))+)
qed (simp_all add: emit_loop_edge_def types_Inl)

lemma emit_edge_types [typing]:
  "well_typed s \<Longrightarrow> v \<in> N \<Longrightarrow> set (d_nodes (em_dag s)) = N \<Longrightarrow> types N (emit_edge e v b s)"
  unfolding emit_edge_def by (rule typing | assumption)+

section \<open>Passing the number on\<close>

lemma typed_incomings:
  "typed E s \<Longrightarrow> phi_typed E i \<Longrightarrow> typed E (fold (\<lambda>p. record_call (Add_Incoming i (createIncrementConstant c n) p)) ps s)
    \<and> em_dag (fold (\<lambda>p. record_call (Add_Incoming i (createIncrementConstant c n) p)) ps s) = em_dag s"
proof (induction ps arbitrary: s)
  case (Cons p ps)
  have "typed E (record_call (Add_Incoming i (createIncrementConstant c n) p) s)"
    by (rule typed_call [OF Cons.prems(1)]) (use Cons.prems(2) in \<open>simp add: createIncrementConstant_def\<close>)
  from Cons.IH [OF this Cons.prems(2)] show ?case by (simp add: record_call_def)
qed simp

lemma preparePHI_types [typing]:
  assumes "well_typed s" "set (d_nodes (em_dag s)) = N"
  shows "types N (preparePHI L v s)"
  unfolding preparePHI_def Let_def
proof (rule types_block)
  fix b
  obtain E where E: "typed E s" using assms(1) by (auto simp: well_typed_def)
  let ?i = "em_next s" and ?k = "length (l_predecessors L (em_fn s) b)"
  have "check_call E (Create_PHI ?i b ?k) = Some (E @ [PHI_Inst])" using E by (simp add: typed_def)
  note n = typed_new [OF E this]
  have i: "phi_typed (E @ [PHI_Inst]) ?i" "pred_option (value_typed (E @ [PHI_Inst])) (Some (InstVal ?i))"
    using E by (simp_all add: typed_def phi_typed_def nth_append)
  note t = typed_set_number(2) [OF typed_set_number(1) [OF typed_set_phi [OF n i(1), of v] i(2), of v] i(2), of v]
  show "types N (Inr (fold (\<lambda>pred. record_call (Add_Incoming ?i (createIncrementConstant (- 1) 32) pred)) (l_predecessors L (em_fn s) b)
      (on_dag (setEndingPathNumber v (Some (InstVal ?i))) (on_dag (setStartingPathNumber v (Some (InstVal ?i)))
        (on_dag (setPathPHI v (Some ?i)) (record_call (Create_PHI ?i b ?k) (s\<lparr>em_next := Suc ?i\<rparr>)))))))"
    using typed_incomings [OF t i(1)] assms(2) by (intro types_Inr) (auto intro: well_typedI simp: record_call_def)
qed

lemma pushValueIntoPHI_types [typing]:
  assumes "well_typed s" "v \<in> N" "u \<in> N" "set (d_nodes (em_dag s)) = N"
  shows "types N (pushValueIntoPHI v u s)"
proof -
  obtain E where E: "typed E s" using assms(1) by (auto simp: well_typed_def)
  have "well_typed (record_call (Add_Incoming i x b) (record_call (Remove_Incoming i b) s))"
    if "getPathPHI (em_dag s) v = Some i" "getEndingPathNumber (em_dag s) u = Some x" for i x b
  proof -
    have i: "phi_typed E i" and x: "value_typed E x" using typed_node(2,3) [OF E] assms(2-4) that by (metis option.pred_inject(2))+
    have "typed E (record_call (Remove_Incoming i b) s)" by (rule typed_call [OF E]) (use i in simp)
    then show ?thesis by (intro well_typedI, rule typed_call) (use i x in simp)
  qed
  then show ?thesis
    using assms(4) by (auto simp: pushValueIntoPHI_def types_def block_of_def Let_def record_call_def split: option.splits)
qed

lemma pushValueIntoNode_types [typing]:
  assumes "well_typed s" "u \<in> N" "v \<in> N" "set (d_nodes (em_dag s)) = N"
  shows "types N (pushValueIntoNode L u v s)"
proof -
  obtain E where E: "typed E s" using assms(1) by (auto simp: well_typed_def)
  have x: "pred_option (value_typed E) (getEndingPathNumber (em_dag s) u)" using typed_node(2) [OF E] assms(2,4) by simp
  let ?s1 = "on_dag (\<lambda>d. setStartingPathNumber v (getEndingPathNumber d u) d) s"
  have s1: "?s1 = on_dag (setStartingPathNumber v (getEndingPathNumber (em_dag s) u)) s" by (simp add: on_dag_def)
  have E1: "typed E ?s1" unfolding s1 by (rule typed_set_number [OF E x])
  have x1: "pred_option (value_typed E) (getEndingPathNumber (em_dag ?s1) u)"
    using typed_node(2) [OF E1] assms(2,4) by (simp add: s1)
  have 2: "on_dag (\<lambda>d. setEndingPathNumber v (getEndingPathNumber d u) d) ?s1 = on_dag (setEndingPathNumber v (getEndingPathNumber (em_dag ?s1) u)) ?s1"
    by (simp add: on_dag_def)
  have "well_typed (on_dag (\<lambda>d. setEndingPathNumber v (getEndingPathNumber d u) d) ?s1)"
    unfolding 2 by (rule well_typedI [OF typed_set_number(2) [OF E1 x1]])
  moreover have "d_nodes (em_dag (on_dag (\<lambda>d. setEndingPathNumber v (getEndingPathNumber d u) d) ?s1)) = d_nodes (em_dag s)"
    by (simp add: on_dag_def)
  ultimately show ?thesis
    unfolding pushValueIntoNode_def Let_def using assms
    by - (rule typing | assumption | (simp; fail))+
qed

section \<open>The walk\<close>

lemma typesD: "types N r \<Longrightarrow> r = Inr s \<Longrightarrow> well_typed s \<and> set (d_nodes (em_dag s)) = N"
  by (simp add: types_def)

lemma instrument_at_typed:
  assumes t: "well_typed s" and n: "getSource (em_dag s) e \<in> set (d_nodes (em_dag s))" "getTarget (em_dag s) e \<in> set (d_nodes (em_dag s))"
    and r: "instrument_at L e s = Inr (t, s')"
  shows "well_typed s'"
proof -
  let ?N = "set (d_nodes (em_dag s))" and ?u = "getSource (em_dag s) e" and ?v = "getTarget (em_dag s) e"
  have "types ?N (bind_res (emit_edge e ?u False s) (\<lambda>s1.
      if getEndingPathNumber (em_dag s1) ?u \<noteq> None then pushValueIntoNode L ?u ?v s1 else Inr s1))"
    "types ?N (bind_res (pushValueIntoNode L ?u ?v s) (\<lambda>s1. emit_edge e ?v True s1))"
    using t n by - (rule typing | assumption | (simp; fail))+
  then show ?thesis
    using r t unfolding instrument_at_def Let_def by (auto simp: bind_res_eq_Inr types_def split: if_splits)
qed

lemma split_keeps_typed:
  assumes "typed E s" "is_split (em_dag s) e BB v g d'"
  shows "typed E (s\<lparr>em_fn := F', em_dag := d'\<rparr>)"
  using assms(1) is_splitD(3,17-19) [OF assms(2)] by (auto simp: typed_def node_typed_def)

lemma splitCritical_typed:
  assumes B: "base_ok B" and l: "linked (em_dag s)" and e: "e \<in> set (d_edges (em_dag s))" and t: "well_typed s"
    and r: "splitCritical B L e s = Inr (ok, s')"
  shows "well_typed s'"
proof -
  obtain E where E: "typed E s" using t by (auto simp: well_typed_def)
  have "s' = s \<or> (\<exists>F' BB. s' = s\<lparr>em_fn := F', em_dag := splitUpdate B e BB (em_dag s)\<rparr>)"
    using r by (auto simp: splitCritical_def Let_def split: option.splits if_splits)
  moreover have "well_typed (s\<lparr>em_fn := F', em_dag := splitUpdate B e BB (em_dag s)\<rparr>)" for F' BB
  proof -
    obtain v g where "is_split (em_dag s) e BB v g (splitUpdate B e BB (em_dag s))"
      using B e linkedD(3) [OF l e] by (rule splitUpdate_is_split)
    then show ?thesis by (intro well_typedI [OF split_keeps_typed [OF E]])
  qed
  ultimately show ?thesis using t by blast
qed

lemma well_typed_mark: "well_typed s \<Longrightarrow> well_typed (on_dag (setHasInstrumentation e b) s)"
  by (auto simp: well_typed_def typed_def node_typed_def on_dag_def setter_defs getter_defs)

lemma instrument_edge_typed:
  assumes B: "base_ok B" and l: "linked (em_dag s)"
    and e: "e \<in> set (d_edges (em_dag s))" "\<not> is_phony (em_dag s) e" "\<not> hasInstrumentation (em_dag s) e"
    and t: "well_typed s" and r: "instrument_edge B L e s = Inr (t, s')"
  shows "well_typed s'"
proof -
  let ?m = "on_dag (setHasInstrumentation e True) s"
  obtain ok s1 where s1: "splitCritical B L e ?m = Inr (ok, s1)"
    "(if \<not> ok then Inr (None, s1) else instrument_at L e s1) = Inr (t, s')"
    using r by (auto simp: instrument_edge_def bind_res_eq_Inr)
  have lm: "linked (em_dag ?m)" using topo_eq_linked(2) [of "em_dag ?m" "em_dag s"] l by simp
  have t1: "well_typed s1" by (rule splitCritical_typed [OF B lm _ well_typed_mark [OF t] s1(1)]) (use e(1) in simp)
  have g: "goes_on (em_dag s) (em_dag s1)" by (rule split_step [OF B l e s1(1)])
  then have l1: "linked (em_dag s1)" "e \<in> set (d_edges (em_dag s1))" using e(1) by (auto simp: goes_on_def)
  show ?thesis
    using s1(2) t1 instrument_at_typed [OF t1 linkedD(2,3) [OF l1(1) l1(2)], of L t s'] linkedD(3) [OF l1] by (auto split: if_splits)
qed

lemma walk_typed:
  shows "base_ok B \<Longrightarrow> linked (em_dag s) \<Longrightarrow> e \<in> set (d_edges (em_dag s)) \<Longrightarrow> \<not> is_phony (em_dag s) e \<Longrightarrow>
      \<not> hasInstrumentation (em_dag s) e \<Longrightarrow> well_typed s \<Longrightarrow> insertInstrumentationStartingAt n B L e s = Inr s' \<Longrightarrow> well_typed s'"
    and "base_ok B \<Longrightarrow> linked (em_dag s) \<Longrightarrow> set es \<subseteq> set (d_edges (em_dag s)) \<Longrightarrow> \<forall>e\<in>set es. \<not> is_phony (em_dag s) e \<Longrightarrow>
      well_typed s \<Longrightarrow> instrument_successors n B L es s = Inr s' \<Longrightarrow> well_typed s'"
proof (induction n B L e s and n B L es s arbitrary: s' and s'
    rule: insertInstrumentationStartingAt_instrument_successors.induct)
  case (2 n B L e s)
  from 2(8) obtain t s1 where r: "instrument_edge B L e s = Inr (t, s1)"
    "(case t of None \<Rightarrow> Inr s1 | Some v \<Rightarrow> instrument_successors n B L (succEdges (em_dag s1) v) s1) = Inr s'"
    by (auto simp: bind_res_eq_Inr)
  note p = instrument_edge_settles [OF 2(2-6) r(1)] and t1 = instrument_edge_typed [OF 2(2-7) r(1)]
  have l1: "linked (em_dag s1)" "e \<in> set (d_edges (em_dag s1))" using settlesD(2,3) [OF p(1)] 2(4) by blast+
  show ?case
  proof (cases t)
    case None
    with r(2) t1 show ?thesis by simp
  next
    case (Some v)
    have "v \<in> set (d_nodes (em_dag s1))" using linkedD(3) [OF l1] p(4) [OF Some] by simp
    then show ?thesis using 2(1) [OF r(1) refl Some 2(2) l1(1) linked_succ [OF l1(1)] t1] r(2) Some by simp
  qed
next
  case (4 n B L e es s)
  let ?r = "if \<not> hasInstrumentation (em_dag s) e then insertInstrumentationStartingAt n B L e s else Inr s"
  obtain s1 where r: "?r = Inr s1" "instrument_successors n B L es s1 = Inr s'" using 4(8) by (auto simp: bind_res_eq_Inr)
  have u: "searched (em_dag s) UNIV" by (simp add: searched_def)
  have "well_typed s1 \<and> settles (em_dag s) (em_dag s1)"
    using r(1) 4(1) [OF _ 4(3,4)] 4(5-7) walk_covers(1) [OF 4(3,4) _ _ _ u, of e n L s1] settles_refl [OF 4(4)]
    by (auto simp: covers_def split: if_splits)
  then show ?case
    using 4(2) [OF r(1) 4(3), of s'] settlesD(2,3,6) [of "em_dag s" "em_dag s1"] 4(5,6) r(2) by auto
qed simp_all

section \<open>The whole pass\<close>

lemma instrument_call_edge_typed:
  assumes t: "well_typed s" and n: "getSource (em_dag s) e \<in> set (d_nodes (em_dag s))" and r: "instrument_call_edge e s = Inr s'"
  shows "well_typed s'"
proof -
  let ?v = "getSource (em_dag s) e" and ?c = "createIncrementConstant (getIncrement (em_dag s) e) 32"
  obtain E where E: "typed E s" using t by (auto simp: well_typed_def)
  have c: "value_typed E' ?c" for E' by (simp add: createIncrementConstant_def)
  obtain b x s1 where x: "(case getStartingPathNumber (em_dag s) ?v of
        Some v \<Rightarrow> if getIncrement (em_dag s) e \<noteq> 0 then create_add (Some v) ?c (FirstCall b) s else Inr (v, s)
      | None \<Rightarrow> Inr (?c, s)) = Inr (x, s1)"
    and "bind_res (insertCounterIncrement (Some x) (FirstCall b) True s1) (insertCounterIncrement (Some x) (TerminatorOf b) False) = Inr s'"
    using r unfolding instrument_call_edge_def Let_def by (auto simp: bind_res_eq_Inr [where m = "block_of _ _"] elim!: bind_res_InrE)
  then obtain s2 where s: "insertCounterIncrement (Some x) (FirstCall b) True s1 = Inr s2" "insertCounterIncrement (Some x) (TerminatorOf b) False s2 = Inr s'"
    by (auto simp: bind_res_eq_Inr)
  have "\<exists>E1. typed E1 s1 \<and> value_typed E1 x"
  proof (cases "getStartingPathNumber (em_dag s) ?v")
    case None
    with x E c show ?thesis by auto
  next
    case (Some v)
    have v: "pred_option (value_typed E) (Some v)" using typed_node(1) [OF E n] Some by simp
    show ?thesis
    proof (cases "getIncrement (em_dag s) e = 0")
      case True
      with x E v Some show ?thesis by auto
    next
      case False
      then have "create_add (Some v) ?c (FirstCall b) s = Inr (x, s1)" using x Some by simp
      from typed_create_add [OF E v c this] show ?thesis by blast
    qed
  qed
  then obtain E1 where 1: "typed E1 s1" "pred_option (value_typed E1) (Some x)" by auto
  show ?thesis using typed_counter(1) [OF typed_counter(1) [OF 1 s(1)] 1(2) s(2)] by (rule well_typedI)
qed

lemma call_edges_typed:
  "well_typed s \<Longrightarrow> linked (em_dag s) \<Longrightarrow> set es \<subseteq> set (d_edges (em_dag s)) \<Longrightarrow> fold_res instrument_call_edge es s = Inr s' \<Longrightarrow> well_typed s'"
proof (induction es arbitrary: s)
  case (Cons e es)
  obtain s1 where s1: "instrument_call_edge e s = Inr s1" "fold_res instrument_call_edge es s1 = Inr s'"
    using Cons.prems(4) by (auto simp: bind_res_eq_Inr)
  have "getSource (em_dag s) e \<in> set (d_nodes (em_dag s))" using linkedD(2) [OF Cons.prems(2)] Cons.prems(3) by simp
  note t1 = instrument_call_edge_typed [OF Cons.prems(1) this s1(1)]
  have "same_graph s s1" using instrument_call_edge_leaves [of s s, OF same_graph_refl, of e] s1(1) by (simp add: leaves_graph_def)
  then have tp: "topo (em_dag s1) = topo (em_dag s)" by (simp add: same_graph_def)
  show ?case
    by (rule Cons.IH [OF t1 _ _ s1(2)])
      (use Cons.prems(2,3) topo_eq_linked(2) [OF tp] topo_eqD(2) [OF tp] in simp_all)
qed simp

lemma insertInstrumentation_typed:
  assumes B: "base_ok B" and l: "linked (em_dag s)" and er: "getExitRootEdge (em_dag s) = Inr e"
    and e: "e \<in> set (d_edges (em_dag s))" "\<not> is_phony (em_dag s) e" "\<not> hasInstrumentation (em_dag s) e"
    and t: "well_typed s" and r: "insertInstrumentation n B L s = Inr s'"
  shows "well_typed s'"
proof -
  obtain s1 where s1: "insertInstrumentationStartingAt n B L e s = Inr s1"
    "fold_res instrument_call_edge (getCallPhonyEdges (em_dag s1)) s1 = Inr s'"
    using r er by (auto simp: insertInstrumentation_def bind_res_eq_Inr)
  have u: "searched (em_dag s) UNIV" by (simp add: searched_def)
  have "linked (em_dag s1)" using walk_covers(1) [OF B l e u s1(1)] settlesD(2) by (auto simp: covers_def)
  then show ?thesis
    by (rule call_edges_typed [OF walk_typed(1) [OF B l e t s1(1)] _ _ s1(2)]) (auto simp: getCallPhonyEdges_def)
qed

lemma counterArray_frame:
  "hasInstrumentation (d\<lparr>d_counterArray := c\<rparr>) = hasInstrumentation d"
  "getStartingPathNumber (d\<lparr>d_counterArray := c\<rparr>) = getStartingPathNumber d"
  "getEndingPathNumber (d\<lparr>d_counterArray := c\<rparr>) = getEndingPathNumber d" "getPathPHI (d\<lparr>d_counterArray := c\<rparr>) = getPathPHI d"
  by (simp_all add: getter_defs fun_eq_iff)

lemma runOnFunction_typed:
  assumes "base_ok B" and "bl_wf rk d" and "fresh_dag d" and "enough_fuel rk n d" and "pristine d"
    and "runOnFunction n B L (d, F) pf = Inr (s', pf')"
  shows "\<exists>E. check_calls [] (em_calls s') = Some E \<and> length E = em_next s'"
proof -
  obtain er where er: "getExitRootEdge d = Inr er" "er \<in> set (d_edges d)" "getType d er = NORMAL"
    using assms(2) by (rule wf_exit_root)
  obtain d1 where d1: "place_instrumentation n d = Inr d1" "topo d1 = topo d"
    using assms(2-4) er(1) by (rule place_instrumentation_placed)
  note t = topo_eqs [OF d1(2)]
  have wf1: "bl_wf rk d1" using assms(2) by (simp add: t)
  let ?R = "{e \<in> set (d_edges d1). is_phony d1 e}"
  define d2 where "d2 = unlinked ?R d1"
  have unl: "unlinkPhony B d1 = Inr d2" unfolding d2_def using assms(1) wf1 by (rule unlinkPhony_unlinked)
  have l: "linked d2" using unlinkPhony_linked [OF assms(1) wf1] unl by auto
  define ds where "ds = (if d_numberOfPaths d2 \<le> HASH_THRESHHOLD
    then d2\<lparr>d_counterArray := Some (length (pf_ftInit pf))\<rparr> else d2)"
  let ?s = "\<lparr>em_dag = ds, em_fn = F, em_next = 0, em_calls = []\<rparr>"
  have ts: "topo ds = topo d2" by (simp add: ds_def)
  note tl = topo_eqs [OF ts] topo_eq_linked [OF ts]
  have f: "node_frame d1 = node_frame d" using placement_frame [OF d1(1)] assms(2) by (simp add: bl_wf_def)
  have fr: "hasInstrumentation ds = hasInstrumentation d" "getStartingPathNumber ds = getStartingPathNumber d"
    "getEndingPathNumber ds = getEndingPathNumber d" "getPathPHI ds = getPathPHI d"
    using f by (simp_all add: ds_def d2_def node_frame_def counterArray_frame)
  have v: "d_nodes ds = d_nodes d" "d_edges ds = d_edges d" "is_phony ds er = is_phony d er" by (simp_all add: tl t d2_def is_phony_def)
  have ph: "\<not> is_phony ds er" "er \<notin> ?R" using er(3) v(3) by (simp_all add: is_phony_def t)
  have "well_typed ?s" using assms(5) by (intro well_typedI [of "[]"]) (simp add: typed_def node_typed_def fr pristine_def v)
  moreover have "getExitRootEdge ds = Inr er" using unlinked_exit_root [OF wf1 _ ph(2)] er(1) by (simp add: t tl d2_def)
  moreover have "insertInstrumentation n B L ?s = Inr s'"
    using assms(6) unfolding runOnFunction_def fst_conv snd_conv d1(1) bind_res_Inr unl Let_def ds_def [symmetric]
    by (cases "insertInstrumentation n B L ?s") simp_all
  moreover have "\<not> hasInstrumentation ds er" "linked ds" using er(2) assms(5) l by (simp_all add: fr pristine_def tl)
  ultimately have "well_typed s'"
    using ph(1) er(2) v(2) insertInstrumentation_typed [OF assms(1), of ?s er n L s'] by simp
  then show ?thesis by (auto simp: well_typed_def typed_def)
qed

section \<open>Joins\<close>

text \<open>
  A crossed edge between two blocks: a target with other edges into it has a PHI exactly when a path number is held
  at the end of the source, and the PHI takes that value from the source's block.
\<close>

definition join_ok :: "'c emitter \<Rightarrow> edge_id \<Rightarrow> bool" where
  "join_ok s e \<longleftrightarrow> (\<forall>p b. getBlock (em_dag s) (getSource (em_dag s) e) = Some p \<and> getBlock (em_dag s) (getTarget (em_dag s) e) = Some b \<longrightarrow>
     (case getEndingPathNumber (em_dag s) (getSource (em_dag s) e) of
        Some x \<Rightarrow> if getNumberPredEdges (em_dag s) (getTarget (em_dag s) e) = 1 then phis (em_calls s) b = []
          else (\<exists>i. phis (em_calls s) b = [i] \<and> map_of (incoming (em_calls s) i) p = Some x)
      | None \<Rightarrow> phis (em_calls s) b = []))"

lemma crossed_join:
  assumes W: "walk_inv blocks L Q C D s" and e: "e \<in> C"
  shows "join_ok s e"
  unfolding join_ok_def
proof (intro allI impI)
  fix p b
  assume "getBlock (em_dag s) (getSource (em_dag s) e) = Some p \<and> getBlock (em_dag s) (getTarget (em_dag s) e) = Some b"
  then have p: "getBlock (em_dag s) (getSource (em_dag s) e) = Some p" and b: "getBlock (em_dag s) (getTarget (em_dag s) e) = Some b" by simp_all
  note I = walk_invD [OF W] note G = graph_invD [OF I(1)]
  have eX: "e \<in> Q \<union> C" using e by simp
  let ?u = "getSource (em_dag s) e" and ?v = "getTarget (em_dag s) e"
  note vn = G(10) [OF eX]
  have "?v \<noteq> d_exit (em_dag s)" using mirrorsD(2) [OF G(4) vn] b by auto
  moreover have "entered C (em_dag s) ?v" using e by (auto simp: entered_def)
  ultimately have P: "(getPathPHI (em_dag s) ?v \<noteq> None) \<longleftrightarrow> getNumberPredEdges (em_dag s) ?v \<noteq> 1 \<and> D ?v"
    using I(4) vn unfolding phis_inv_def by blast
  have ph: "phis (em_calls s) b = (case getPathPHI (em_dag s) ?v of None \<Rightarrow> [] | Some i \<Rightarrow> [i])"
    using I(4) vn b unfolding phis_inv_def by blast
  have D: "(getEndingPathNumber (em_dag s) ?u \<noteq> None) = D ?v" if "getNumberPredEdges (em_dag s) ?v \<noteq> 1"
    using that G(6) [OF eX] holds_at_source(2) [OF W e] by (auto simp: stuck_def single_out_def)
  have "map_of (incoming (em_calls s) i) p = getEndingPathNumber (em_dag s) ?u" if "getPathPHI (em_dag s) ?v = Some i" for i
    using I(5) vn that e p unfolding incoming_inv_def by fastforce
  then show "case getEndingPathNumber (em_dag s) ?u of
        Some x \<Rightarrow> if getNumberPredEdges (em_dag s) ?v = 1 then phis (em_calls s) b = []
          else (\<exists>i. phis (em_calls s) b = [i] \<and> map_of (incoming (em_calls s) i) p = Some x)
      | None \<Rightarrow> phis (em_calls s) b = []"
    using P ph D by (auto split: option.splits)
qed

text \<open>
  C6. The pass over a function as LLVM describes it succeeds, and the code it creates is well formed: each instruction has a number of its own and
  uses constants and instructions created before, only PHIs take incoming values, and at every edge of a run of the instrumented function that
  joins others the target has exactly one PHI when the source leaves a path number behind, which takes that very value
  from the source's block, and none otherwise.
\<close>

theorem emitted_code_joins:
  assumes "base_ok B" and "llvm_ok blocks L" and "instrumentable blocks L rk np n d F"
  shows "\<exists>s' prof' E. runOnFunction n B L (d, F) prof = Inr (s', prof') \<and> check_calls [] (em_calls s') = Some E \<and> length E = em_next s'
    \<and> (\<forall>es. block_run (em_dag s') es \<longrightarrow> (\<forall>e\<in>set es. join_ok s' e))"
proof -
  note I = assms(3) [unfolded instrumentable_def]
  have wf: "bl_wf rk d" using I by blast
  obtain er where er: "getExitRootEdge d = Inr er" using wf by (rule wf_exit_root)
  obtain s' prof' C d1 d2 where r: "runOnFunction n B L (d, F) prof = Inr (s', prof')" "place_instrumentation n d = Inr d1" "topo d1 = topo d"
    "d2 = unlinked {e \<in> set (d_edges d1). is_phony d1 e} d1"
    "walked blocks L C s'" "er \<in> C" "searched (em_dag s') {}" "settles d2 (em_dag s')" "refines d2 (em_dag s')"
    "cfg_edge (em_dag s') er" "getSource (em_dag s') er = d_exit (em_dag s')" "getTarget (em_dag s') er = d_root (em_dag s')"
    using assms er by (rule runOnFunction_result)
  obtain E where E: "check_calls [] (em_calls s') = Some E" "length E = em_next s'"
    using runOnFunction_typed [OF assms(1) wf _ _ _ r(1)] I by blast
  obtain Q D where W: "walk_inv blocks L Q C D s'" using r(5) by (auto simp: walked_def pass_inv_def)
  have "join_ok s' e" if "block_run (em_dag s') es" "e \<in> set es" for es e
    using walk_crossed [OF r(5,7,6), of es "d_exit (em_dag s')"] that r(12)
    by (intro crossed_join [OF W]) (auto simp: block_run_def inner_edge_def)
  with r(1) E show ?thesis by blast
qed

theorem emitted_code_joins_witness:
  "\<exists>s' prof' E. runOnFunction 14 simple_base cfg_llvm (self_dag, self_fn)
       \<lparr>pf_ftInit = [], pf_currentFunctionNumber = 1, pf_totalPaths = 0, pf_maxPaths = 0\<rparr> = Inr (s', prof')
    \<and> check_calls [] (em_calls s') = Some E \<and> (\<forall>es. block_run (em_dag s') es \<longrightarrow> (\<forall>e\<in>set es. join_ok s' e))"
  using emitted_code_joins [OF simple_base_ok cfg_llvm_ok self_dag_instrumentable] by blast

end
