(* ===== verification/BL_Module.thy ===== *)
theory BL_Module
  imports BL_Types
begin

text \<open>
  The pass over a module: every function that has a body is instrumented, and the totals that the pass prints are those of the
  functions' path numbers.
\<close>

section \<open>The number of paths stays\<close>

lemma splitUpdate_paths:
  assumes B: "base_ok B"
  shows "d_numberOfPaths (splitUpdate B f BB d) = d_numberOfPaths d"
proof -
  obtain v where v: "b_addNode B BB d = (v, with_node v BB d)"
    using B unfolding base_ok_def by blast
  let ?d4 = "remove_pred (getTarget d f) f (add_pred v f (setTarget f v (with_node v BB d)))"
  obtain g where g: "b_addEdge B v (getTarget d f) 0 ?d4 = (g, with_edge g v (getTarget d f) ?d4)"
    using B unfolding base_ok_def by blast
  show ?thesis
    using g v by (auto simp: splitUpdate_def base_okD [OF B] Let_def with_edge_def with_node_def add_succ_def add_pred_def remove_pred_def setter_defs)
qed

lemma splitCritical_paths:
  "base_ok B \<Longrightarrow> splitCritical B L e s = Inr (ok, s') \<Longrightarrow> d_numberOfPaths (em_dag s') = d_numberOfPaths (em_dag s)"
  by (auto simp: splitCritical_def Let_def splitUpdate_paths split: option.splits if_splits)

lemma instrument_edge_paths:
  assumes "base_ok B" "instrument_edge B L e s = Inr (t, s')"
  shows "d_numberOfPaths (em_dag s') = d_numberOfPaths (em_dag s)"
proof -
  obtain ok s1 where s1: "splitCritical B L e (on_dag (setHasInstrumentation e True) s) = Inr (ok, s1)"
    "(if \<not> ok then Inr (None, s1) else instrument_at L e s1) = Inr (t, s')"
    using assms(2) by (auto simp: instrument_edge_def bind_res_eq_Inr)
  have "same_graph s1 s'" using s1(2) instrument_at_leaves(2) [of L e s1 t s'] by (auto simp: same_graph_refl split: if_splits)
  then show ?thesis using splitCritical_paths [OF assms(1) s1(1)] by (simp add: same_graph_def setter_defs)
qed

lemma walk_paths:
  shows "base_ok B \<Longrightarrow> insertInstrumentationStartingAt n B L e s = Inr s' \<Longrightarrow> d_numberOfPaths (em_dag s') = d_numberOfPaths (em_dag s)"
    and "base_ok B \<Longrightarrow> instrument_successors n B L es s = Inr s' \<Longrightarrow> d_numberOfPaths (em_dag s') = d_numberOfPaths (em_dag s)"
proof (induction n B L e s and n B L es s arbitrary: s' and s' rule: insertInstrumentationStartingAt_instrument_successors.induct)
  case (2 n B L e s)
  obtain t s1 where r: "instrument_edge B L e s = Inr (t, s1)"
    "(case t of None \<Rightarrow> Inr s1 | Some v \<Rightarrow> instrument_successors n B L (succEdges (em_dag s1) v) s1) = Inr s'"
    using 2(3) by (auto simp: bind_res_eq_Inr)
  note p = instrument_edge_paths [OF 2(2) r(1)]
  show ?case
  proof (cases t)
    case None
    with r(2) p show ?thesis by simp
  next
    case (Some v)
    show ?thesis using 2(1) [OF r(1) refl Some 2(2)] r(2) Some p by simp
  qed
next
  case (4 n B L e es s)
  let ?r = "if \<not> hasInstrumentation (em_dag s) e then insertInstrumentationStartingAt n B L e s else Inr s"
  obtain s1 where r: "?r = Inr s1" "instrument_successors n B L es s1 = Inr s'" using 4(4) by (auto simp: bind_res_eq_Inr)
  have "d_numberOfPaths (em_dag s1) = d_numberOfPaths (em_dag s)" using r(1) 4(1) [OF _ 4(3)] by (cases "hasInstrumentation (em_dag s) e") simp_all
  then show ?case using 4(2) [OF r(1) 4(3) r(2)] by simp
qed simp_all

lemma insertInstrumentation_paths:
  assumes "base_ok B" "insertInstrumentation n B L s = Inr s'"
  shows "d_numberOfPaths (em_dag s') = d_numberOfPaths (em_dag s)"
proof -
  obtain e s1 where s1: "insertInstrumentationStartingAt n B L e s = Inr s1" "fold_res instrument_call_edge (getCallPhonyEdges (em_dag s1)) s1 = Inr s'"
    using assms(2) by (auto simp: insertInstrumentation_def bind_res_eq_Inr)
  have "same_graph s1 s'" using fold_call_edges_leaves [OF same_graph_refl, of s1 "getCallPhonyEdges (em_dag s1)"] s1(2) by (simp add: leaves_graph_def)
  then show ?thesis using walk_paths(1) [OF assms(1) s1(1)] by (simp add: same_graph_def)
qed

text \<open>What a function adds to the table and the totals.\<close>

lemma runOnFunction_totals:
  assumes "base_ok B" "instrumentable blocks L rk np n d F" "runOnFunction n B L (d, F) prof = Inr (s', prof')"
  shows "pf_totalPaths prof' = pf_totalPaths prof + ucast (d_numberOfPaths d)"
    "pf_maxPaths prof' = smax (pf_maxPaths prof) (ucast (d_numberOfPaths d))"
    "\<exists>a. pf_ftInit prof' = pf_ftInit prof @ [(ProfilingHash, d_numberOfPaths d, a)]"
proof -
  note i = assms(2) [unfolded instrumentable_def]
  obtain d1 d2 where d: "place_instrumentation n d = Inr d1" "unlinkPhony B d1 = Inr d2" using assms(3) by (auto simp: runOnFunction_def bind_res_eq_Inr)
  obtain er where er: "getExitRootEdge d = Inr er" using i wf_exit_root by blast
  have n: "d_numberOfPaths d2 = d_numberOfPaths d"
    by (rule start_of_pass [OF assms(1) _ _ _ _ _ _ _ _ er, of rk n blocks L F]) (use i d in auto)
  then have "\<not> d_numberOfPaths d2 \<le> HASH_THRESHHOLD" using i by (simp add: not_le)
  then have r: "insertInstrumentation n B L \<lparr>em_dag = d2, em_fn = F, em_next = 0, em_calls = []\<rparr> = Inr s'"
    "prof' = prof\<lparr>pf_ftInit := pf_ftInit prof @ [(if d_numberOfPaths (em_dag s') \<le> HASH_THRESHHOLD then ProfilingArray else ProfilingHash,
          d_numberOfPaths (em_dag s'), d_counterArray (em_dag s'))],
        pf_totalPaths := pf_totalPaths prof + ucast (d_numberOfPaths (em_dag s')), pf_maxPaths := smax (pf_maxPaths prof) (ucast (d_numberOfPaths (em_dag s')))\<rparr>"
    using assms(3) d by (auto simp: runOnFunction_def bind_res_eq_Inr Let_def)
  have "d_numberOfPaths (em_dag s') = d_numberOfPaths d" using insertInstrumentation_paths [OF assms(1) r(1)] n by simp
  with r(2) i show "pf_totalPaths prof' = pf_totalPaths prof + ucast (d_numberOfPaths d)"
    "pf_maxPaths prof' = smax (pf_maxPaths prof) (ucast (d_numberOfPaths d))"
    "\<exists>a. pf_ftInit prof' = pf_ftInit prof @ [(ProfilingHash, d_numberOfPaths d, a)]" by (simp_all add: not_le)
qed

section \<open>All functions of a module\<close>

definition defined_functions :: "(bl_dag \<times> 'c) option list \<Rightarrow> (bl_dag \<times> 'c) list" where
  "defined_functions M = List.map_filter (\<lambda>f. f) M"

text \<open>
  \<open>logs_paths\<close>: every run of the instrumented function logs the path numbers of its acyclic parts. \<open>runs_all\<close>: every execution of the
  function is such a run.
\<close>

definition logs_paths :: "bl_dag \<Rightarrow> 'c emitter \<Rightarrow> bool" where
  "logs_paths d s \<longleftrightarrow> (\<forall>es env. block_run (em_dag s) es \<longrightarrow>
     execution d (kept d es) \<and> code_log s env es = map (path_number d) (acyclic_parts d [] (kept d es)))"

definition runs_all :: "bl_dag \<Rightarrow> 'c emitter \<Rightarrow> bool" where
  "runs_all d s \<longleftrightarrow> (\<forall>es. execution d es \<longrightarrow> (\<exists>es'. block_run (em_dag s) es' \<and> kept d es' = es))"

lemma defined_functions_simps [simp]:
  "defined_functions [] = []" "defined_functions (None # M) = defined_functions M" "defined_functions (Some f # M) = f # defined_functions M"
  by (simp_all add: defined_functions_def List.map_filter_simps)

lemma run_functions_logs:
  fixes M :: "(bl_dag \<times> 'c) option list"
  assumes B: "base_ok B" and L: "llvm_ok blocks L"
  shows "\<forall>f\<in>set (defined_functions M). \<exists>rk np. instrumentable blocks L rk np n (fst f) (snd f) \<Longrightarrow>
    \<exists>ss prof'. run_functions n B L M k prof = Inr (ss, k + of_nat (length (defined_functions M)), prof')
      \<and> list_all2 (\<lambda>f s. logs_paths (fst f) s \<and> (splits_critical blocks L \<longrightarrow> runs_all (fst f) s)) (defined_functions M) ss
      \<and> pf_totalPaths prof' = pf_totalPaths prof + (\<Sum>f\<leftarrow>defined_functions M. ucast (d_numberOfPaths (fst f)))
      \<and> pf_maxPaths prof' = fold (\<lambda>f m. smax m (ucast (d_numberOfPaths (fst f)))) (defined_functions M) (pf_maxPaths prof)
      \<and> map (\<lambda>(kind, p, _). (kind, p)) (pf_ftInit prof') = map (\<lambda>(kind, p, _). (kind, p)) (pf_ftInit prof)
          @ map (\<lambda>f. (ProfilingHash, d_numberOfPaths (fst f))) (defined_functions M)"
proof (induction M arbitrary: k prof)
  case (Cons f M)
  show ?case
  proof (cases f)
    case None
    then show ?thesis using Cons by simp
  next
    case (Some g)
    obtain d F where g: "g = (d, F)" by (cases g)
    obtain rk np where i: "instrumentable blocks L rk np n d F" using Cons.prems Some g by auto
    let ?p = "prof\<lparr>pf_currentFunctionNumber := k + 1\<rparr>"
    obtain s p1 where r: "runOnFunction n B L (d, F) ?p = Inr (s, p1)" "logs_paths d s" "splits_critical blocks L \<longrightarrow> runs_all d s"
      by (rule runOnFunction_logs [OF B L i, of ?p, folded logs_paths_def runs_all_def]) (rule that)
    note t = runOnFunction_totals [OF B i r(1)]
    obtain ss p2 where s: "run_functions n B L M (k + 1) p1 = Inr (ss, (k + 1) + of_nat (length (defined_functions M)), p2)"
      "list_all2 (\<lambda>f s. logs_paths (fst f) s \<and> (splits_critical blocks L \<longrightarrow> runs_all (fst f) s)) (defined_functions M) ss"
      "pf_totalPaths p2 = pf_totalPaths p1 + (\<Sum>f\<leftarrow>defined_functions M. ucast (d_numberOfPaths (fst f)))"
      "pf_maxPaths p2 = fold (\<lambda>f m. smax m (ucast (d_numberOfPaths (fst f)))) (defined_functions M) (pf_maxPaths p1)"
      "map (\<lambda>(kind, p, _). (kind, p)) (pf_ftInit p2) = map (\<lambda>(kind, p, _). (kind, p)) (pf_ftInit p1)
          @ map (\<lambda>f. (ProfilingHash, d_numberOfPaths (fst f))) (defined_functions M)"
      using Cons.IH [of "k + 1" p1] Cons.prems Some by (auto simp only: defined_functions_simps list.set insert_iff ball_simps)
    have "run_functions n B L (f # M) k prof = Inr (s # ss, k + of_nat (length (defined_functions (f # M))), p2)"
      using r(1) s(1) by (simp add: Some g Let_def)
    then show ?thesis using r(2,3) s(2-5) t by (intro exI [of _ "s # ss"] exI [of _ p2]) (auto simp: Some g)
  qed
qed simp

end
