(* ===== verification/C_Text.thy ===== *)
theory C_Text
  imports RRW_Prelude
begin

text \<open>
  What the programs use of the C library for text: the decimal and hexadecimal
  conversions of \<open>printf\<close>, \<open>strtoul\<close> with base 0 (decimal, octal or hexadecimal by the prefix)
  and C strings, which end at the first zero byte. Numbers that were printed read
  back as they were.
\<close>

section \<open>Digits\<close>

definition newline :: string where
  "newline = [CHR 0x0A]"

definition digit_char :: "nat \<Rightarrow> char" where
  "digit_char d = (char_of (if d < 10 then 48 + d else 87 + d) :: char)"

definition digit_val :: "char \<Rightarrow> nat" where
  "digit_val c = (let n = (of_char c :: nat) in
     if 48 \<le> n \<and> n \<le> 57 then n - 48
     else if 97 \<le> n \<and> n \<le> 122 then n - 87
     else if 65 \<le> n \<and> n \<le> 90 then n - 55
     else 255)"

fun render :: "nat \<Rightarrow> nat \<Rightarrow> string" where
  "render b n = (if b < 2 \<or> n < b then [digit_char n] else render b (n div b) @ [digit_char (n mod b)])"

declare render.simps [simp del]

abbreviation dec :: "nat \<Rightarrow> string" where
  "dec \<equiv> render 10"

abbreviation hex :: "nat \<Rightarrow> string" where
  "hex \<equiv> render 16"

text \<open>\<open>%d\<close> of a signed 32-bit value.\<close>

definition dec_int :: "u32 \<Rightarrow> string" where
  "dec_int w = (if 0 \<le> sint w then dec (nat (sint w)) else CHR ''-'' # dec (nat (- sint w)))"

text \<open>\<open>%p\<close> of the GNU C library.\<close>

definition show_ptr :: "u32 \<Rightarrow> string" where
  "show_ptr w = (if w = 0 then ''(nil)'' else ''0x'' @ hex (unat w))"

text \<open>\<open>%#x\<close>, which leaves out the prefix of zero.\<close>

definition show_hex :: "u32 \<Rightarrow> string" where
  "show_hex w = (if w = 0 then ''0'' else ''0x'' @ hex (unat w))"

section \<open>Reading numbers\<close>

definition read_digits :: "nat \<Rightarrow> string \<Rightarrow> nat" where
  "read_digits b s = foldl (\<lambda>a c. b * a + digit_val c) 0 (takeWhile (\<lambda>c. digit_val c < b) s)"

definition is_space :: "char \<Rightarrow> bool" where
  "is_space c \<longleftrightarrow> (let n = (of_char c :: nat) in n = 32 \<or> 9 \<le> n \<and> n \<le> 13)"

text \<open>The magnitude: a prefix \<open>0x\<close> counts only before a hexadecimal digit.\<close>

definition read_magnitude :: "string \<Rightarrow> nat" where
  "read_magnitude s =
     (case s of
        CHR ''0'' # x # c # r \<Rightarrow>
          if (x = CHR ''x'' \<or> x = CHR ''X'') \<and> digit_val c < 16 then read_digits 16 (c # r) else read_digits 8 s
      | CHR ''0'' # _ \<Rightarrow> read_digits 8 s
      | _ \<Rightarrow> read_digits 10 s)"

definition strtoul :: "string \<Rightarrow> u32" where
  "strtoul s =
     (let s1 = dropWhile is_space s;
          (neg, s2) = (case s1 of
              c # r \<Rightarrow> if c = CHR ''-'' then (True, r) else if c = CHR ''+'' then (False, r) else (False, s1)
            | [] \<Rightarrow> (False, s1));
          m = read_magnitude s2
      in if 2 ^ 32 \<le> m then - 1 else if neg then - of_nat m else of_nat m)"

section \<open>Strings in arrays\<close>

definition cstr :: "string \<Rightarrow> string" where
  "cstr s = takeWhile (\<lambda>c. c \<noteq> CHR 0x00) s"

section \<open>Round trips\<close>

lemma digit_val_char [simp]: "d < 16 \<Longrightarrow> digit_val (digit_char d) = d"
  by (simp add: digit_val_def digit_char_def Let_def)

lemma render_valid: "2 \<le> b \<Longrightarrow> b \<le> 16 \<Longrightarrow> c \<in> set (render b n) \<Longrightarrow> digit_val c < b"
proof (induction b n rule: render.induct)
  case (1 b n)
  show ?case
  proof (cases "n < b")
    case True
    then show ?thesis using 1(2-) by (simp add: render.simps [of b n])
  next
    case False
    have m: "n mod b < b" using 1(2) by simp
    then have v: "digit_val (digit_char (n mod b)) < b" using 1(3) by simp
    have "c \<in> set (render b (n div b)) \<or> c = digit_char (n mod b)" using 1(2,4) False by (auto simp: render.simps [of b n])
    then show ?thesis using v 1(1-3) False by auto
  qed
qed

lemma render_value:
  "2 \<le> b \<Longrightarrow> b \<le> 16 \<Longrightarrow> foldl (\<lambda>a c. b * a + digit_val c) 0 (render b n) = n"
proof (induction b n rule: render.induct)
  case (1 b n)
  show ?case
  proof (cases "n < b")
    case True
    then show ?thesis using 1(2-) by (simp add: render.simps [of b n])
  next
    case False
    have "n mod b < b" using 1(2) by simp
    then have "digit_val (digit_char (n mod b)) = n mod b" using 1(3) by simp
    then show ?thesis using 1 False by (simp add: render.simps [of b n])
  qed
qed

lemma read_render:
  assumes "2 \<le> b" "b \<le> 16" "\<And>c. c \<in> set (take 1 rest) \<Longrightarrow> b \<le> digit_val c"
  shows "read_digits b (render b n @ rest) = n"
proof -
  have "takeWhile (\<lambda>c. digit_val c < b) (render b n @ rest) = render b n @ takeWhile (\<lambda>c. digit_val c < b) rest"
    using render_valid [OF assms(1,2)] by (simp add: takeWhile_append2)
  also have "takeWhile (\<lambda>c. digit_val c < b) rest = []" using assms(3) by (cases rest) fastforce+
  finally show ?thesis by (simp add: read_digits_def render_value [OF assms(1,2)])
qed

lemma render_nonempty [simp]: "render b n \<noteq> []"
  by (subst render.simps) simp

lemma strtoul_hex:
  assumes "n < 2 ^ 32"
  shows "strtoul (''0x'' @ hex n) = of_nat n"
proof -
  obtain c r where h: "hex n = c # r" using render_nonempty [of 16 n] by (cases "hex n") auto
  have c: "digit_val c < 16" using render_valid [of 16 c n] by (simp add: h)
  have "read_digits 16 (c # r) = n" using read_render [of 16 "[]" n] by (simp add: h)
  then show ?thesis using assms c by (simp add: strtoul_def h read_magnitude_def is_space_def)
qed

end
