(* ===== verification/BL_Dot.thy ===== *)
theory BL_Dot
  imports BL_Surgery C_Text
begin

text \<open>
  The textual forms of the graph (\<open>src/PathLogging.cpp\<close>): the line that the debug output shows for an edge and the file that
  \<open>generateDotGraph\<close> writes for the option \<open>path-profile-pathdag\<close>. The name of a node is the base class' and an argument.
\<close>

definition show_edge :: "(node_id \<Rightarrow> string) \<Rightarrow> bl_dag \<Rightarrow> edge_id \<Rightarrow> string" where
  "show_edge name d e =
     ''['' @ name (getSource d e) @ '' -> '' @ name (getTarget d e) @ ''] init: ''
     @ (if isInitialization d e then ''yes'' else ''no'') @ '' incr:'' @ dec_int (getIncrement d e) @ '' cinc: ''
     @ (if isCounterIncrement d e then ''yes'' else ''no'')"

definition dot_attributes :: "edge_type \<Rightarrow> clong \<Rightarrow> string" where
  "dot_attributes t inc =
     (case t of
        NORMAL \<Rightarrow> ''[label='' @ dec_int inc @ ''] [color=black];'' @ newline
      | BACKEDGE \<Rightarrow> ''[color=cyan];'' @ newline
      | BACKEDGE_PHONY \<Rightarrow> ''[label='' @ dec_int inc @ ''] [color=blue];'' @ newline
      | SPLITEDGE \<Rightarrow> ''[color=violet];'' @ newline
      | SPLITEDGE_PHONY \<Rightarrow> ''[label='' @ dec_int inc @ ''] [color=red];'' @ newline
      | CALLEDGE_PHONY \<Rightarrow> ''[label='' @ dec_int inc @ ''] [color=green];'' @ newline)"

abbreviation tab :: char where "tab \<equiv> CHR 0x09"
abbreviation quote :: char where "quote \<equiv> CHR 0x22"

definition dot_edge :: "(node_id \<Rightarrow> string) \<Rightarrow> bl_dag \<Rightarrow> edge_id \<Rightarrow> string" where
  "dot_edge name d e =
     [tab, quote] @ cstr (name (getSource d e)) @ [quote] @ '' -> '' @ [quote] @ cstr (name (getTarget d e)) @ [quote] @ '' ''
     @ dot_attributes (getType d e) (getIncrement d e)"

text \<open>The file that is written, if it can be opened, and the error output.\<close>

definition generateDotGraph :: "(node_id \<Rightarrow> string) \<Rightarrow> string \<Rightarrow> bool \<Rightarrow> bl_dag \<Rightarrow> (string \<times> string) option \<times> string" where
  "generateDotGraph name functionName opened d =
     (let filename = ''pathdag.'' @ functionName @ ''.dot'' in
      if \<not> opened then (None, ''Error opening '' @ [CHR 0x27] @ filename @ [CHR 0x27] @ '' for writing!'' @ newline)
      else (Some (filename, ''digraph '' @ functionName @ '' {'' @ newline
              @ concat (map (dot_edge name d) (d_edges d)) @ ''}'' @ newline), []))"

section \<open>What the lines tell\<close>

text \<open>
  An edge can be read off its line: the names, when they hold no quotes, and the kind of the edge by its colour.
\<close>

lemma quoted_inject:
  assumes "quote \<notin> set a" "quote \<notin> set b" "a @ quote # xs = b @ quote # ys"
  shows "a = b \<and> xs = ys"
  using assms
proof (induction a arbitrary: b)
  case Nil
  then show ?case by (cases b) auto
next
  case (Cons c a)
  then show ?case by (cases b) auto
qed

lemma attributes_type:
  assumes "dot_attributes t i = dot_attributes u j"
  shows "t = u"
proof -
  have "rev (dot_attributes t i) = rev (dot_attributes u j)" using assms by simp
  then show ?thesis by (cases t; cases u) (simp_all add: dot_attributes_def newline_def)
qed

lemma dot_edge_readable:
  assumes "dot_edge name d e = dot_edge name d f"
    and "\<And>v. quote \<notin> set (name v)" "\<And>v. CHR 0x00 \<notin> set (name v)" "inj name"
  shows "getSource d e = getSource d f \<and> getTarget d e = getTarget d f \<and> getType d e = getType d f"
proof -
  have c: "cstr (name v) = name v" for v using assms(3) by (induction "name v") (auto simp: cstr_def takeWhile_eq_all_conv)
  have "name (getSource d e) = name (getSource d f)"
    "name (getTarget d e) = name (getTarget d f)" "dot_attributes (getType d e) (getIncrement d e) = dot_attributes (getType d f) (getIncrement d f)"
    using assms(1,2) by (auto simp: dot_edge_def c dest!: quoted_inject [rotated 2])
  then show ?thesis using assms(4) attributes_type by (auto dest: injD)
qed

end
