(* ===== verification/Path_Runtime.thy ===== *)
theory Path_Runtime
  imports RRW_Prelude
begin

text \<open>
  The runtime that instrumented programs call (\<open>src/path_logging.c\<close>): a buffer of
  path records per thread, mapped on first use, flushed when it is full, when its
  thread ends and when the process exits, and dropped in the child of a fork.
  \<open>proc\<close> is one process. The calls of \<open>write\<close> are recorded with their data in
  \<open>p_writes\<close>; \<open>mmap\<close> is an argument, since the address is the kernel's choice.
  The locale \<open>log_sink\<close> says what a client of the runtime sees: one sequence of
  records per thread, extended by every retired path.
\<close>

section \<open>The process\<close>

type_synonym tid = nat
type_synonym addr = nat

record path_record =
  pr_fn :: u32
  pr_path :: u32

record path_records =
  pb_recs :: "path_record list"
  pb_len :: "30 word"
  pb_finished :: "1 word"

definition PATH_RECORD_BUFFER_SIZE :: nat where
  "PATH_RECORD_BUFFER_SIZE = 2 ^ 5"

definition PAGE_ALIGN :: "u32 \<Rightarrow> u32" where
  "PAGE_ALIGN x = and (x + 4096 - 1) (not (4096 - 1))"

text \<open>The kernel's answer to \<open>mmap\<close>, \<open>None\<close> when it fails.\<close>

type_synonym mmap_fn = "(addr \<Rightarrow> path_records option) \<Rightarrow> addr option"

definition MAP_FAILED :: addr where
  "MAP_FAILED = 2 ^ 32 - 1"

text \<open>
  The buffer addresses that the thread-local variable \<open>record_buffer\<close> and the
  thread-specific key hold, 0 for a null pointer, and the mapped buffers.
\<close>

record proc =
  p_inited :: bool
  p_mem :: "addr \<Rightarrow> path_records option"
  p_record_buffer :: "tid \<Rightarrow> addr"
  p_key :: "tid \<Rightarrow> addr"
  p_writes :: "(tid \<times> path_record list) list"

definition zero_page :: path_records where
  "zero_page = \<lparr>pb_recs = replicate PATH_RECORD_BUFFER_SIZE \<lparr>pr_fn = 0, pr_path = 0\<rparr>,
     pb_len = 0, pb_finished = 0\<rparr>"

definition deref :: "addr \<Rightarrow> proc \<Rightarrow> path_records res" where
  "deref a s = (case p_mem s a of None \<Rightarrow> Inl Bad_Deref | Some b \<Rightarrow> Inr b)"

definition store :: "addr \<Rightarrow> path_records \<Rightarrow> proc \<Rightarrow> proc" where
  "store a b s = s\<lparr>p_mem := (p_mem s)(a \<mapsto> b)\<rparr>"

section \<open>The operations\<close>

text \<open>The records of a buffer handed to \<open>write\<close>; a length beyond the array reads past the object.\<close>

definition sys_write :: "tid \<Rightarrow> path_records \<Rightarrow> proc \<Rightarrow> proc res" where
  "sys_write t b s =
     (if unat (pb_len b) \<le> length (pb_recs b)
      then Inr (s\<lparr>p_writes := p_writes s @ [(t, take (unat (pb_len b)) (pb_recs b))]\<rparr>)
      else Inl Bad_Deref)"

definition flush_buffer :: "tid \<Rightarrow> addr \<Rightarrow> proc \<Rightarrow> proc res" where
  "flush_buffer t buf s =
     bind_res (deref buf s) (\<lambda>b.
     bind_res (sys_write t b s) (\<lambda>s1.
     Inr (store buf (b\<lparr>pb_len := 0\<rparr>) s1)))"

definition drop_buffer :: "tid \<Rightarrow> proc \<Rightarrow> proc" where
  "drop_buffer t s =
     (let buf = p_record_buffer s t
      in s\<lparr>p_key := (p_key s)(t := 0), p_record_buffer := (p_record_buffer s)(t := 0),
           p_mem := (p_mem s)(buf := None)\<rparr>)"

definition finish_buffer :: "tid \<Rightarrow> addr \<Rightarrow> proc \<Rightarrow> proc res" where
  "finish_buffer t pbuf s = bind_res (flush_buffer t pbuf s) (\<lambda>s1. Inr (drop_buffer t s1))"

definition finish_main_thread_buffer_hack :: "tid \<Rightarrow> proc \<Rightarrow> proc res" where
  "finish_main_thread_buffer_hack t s =
     (let buf = p_record_buffer s t in if buf \<noteq> 0 then finish_buffer t buf s else Inr s)"

text \<open>Registers the fork handler, the key with its destructor and the exit handler.\<close>

definition init_process :: "proc \<Rightarrow> proc" where
  "init_process s = s\<lparr>p_inited := True\<rparr>"

definition pthread_once_init :: "proc \<Rightarrow> proc" where
  "pthread_once_init s = (if p_inited s then s else init_process s)"

definition ensure_thread_init ::
    "mmap_fn \<Rightarrow> tid \<Rightarrow> proc \<Rightarrow> addr \<times> proc" where
  "ensure_thread_init mmap t s =
     (let buf = p_record_buffer s t
      in if buf \<noteq> 0 then (buf, s)
         else let s1 = pthread_once_init s;
                  (buf, s2) = (case mmap (p_mem s1) of
                     None \<Rightarrow> (MAP_FAILED, s1)
                   | Some a \<Rightarrow> (a, s1\<lparr>p_mem := (p_mem s1)(a \<mapsto> zero_page)\<rparr>));
                  s3 = s2\<lparr>p_record_buffer := (p_record_buffer s2)(t := buf)\<rparr>
              in (buf, s3\<lparr>p_key := (p_key s3)(t := buf)\<rparr>))"

definition llvm_increment_path_count ::
    "mmap_fn \<Rightarrow> u32 \<Rightarrow> u32 \<Rightarrow> tid \<Rightarrow> proc \<Rightarrow> proc res" where
  "llvm_increment_path_count mmap fn path t s =
     (let (buf, s1) = ensure_thread_init mmap t s
      in bind_res (deref buf s1) (\<lambda>b.
           let i = unat (pb_len b); b1 = b\<lparr>pb_len := pb_len b + 1\<rparr>
           in if i < length (pb_recs b)
              then let b2 = b1\<lparr>pb_recs := (pb_recs b1)[i := \<lparr>pr_fn = fn, pr_path = path\<rparr>]\<rparr>;
                       s2 = store buf b2 s1
                   in if PATH_RECORD_BUFFER_SIZE = unat (pb_len b2) then flush_buffer t buf s2 else Inr s2
              else Inl Bad_Deref))"

definition llvm_decrement_path_count :: "u32 \<Rightarrow> u32 \<Rightarrow> tid \<Rightarrow> proc \<Rightarrow> proc" where
  "llvm_decrement_path_count fn path t s = s"

subsection \<open>What happens to a process\<close>

text \<open>
  \<open>Exit_Thread\<close> runs the key's destructor as \<open>pthread_exit\<close> does: the value is
  reset to null and the destructor called if it was not null. \<open>Exit_Process\<close> runs
  the exit handler in the thread that calls \<open>exit\<close>.
\<close>

datatype rt_event =
    Retire tid u32 u32
  | Unretire tid u32 u32
  | Exit_Thread tid
  | Exit_Process tid

fun rt_step :: "mmap_fn \<Rightarrow> rt_event \<Rightarrow> proc \<Rightarrow> proc res" where
  "rt_step mmap (Retire t fn path) s = llvm_increment_path_count mmap fn path t s"
| "rt_step mmap (Unretire t fn path) s = Inr (llvm_decrement_path_count fn path t s)"
| "rt_step mmap (Exit_Thread t) s =
     (let v = p_key s t; s1 = s\<lparr>p_key := (p_key s)(t := 0)\<rparr>
      in if p_inited s \<and> v \<noteq> 0 then finish_buffer t v s1 else Inr s1)"
| "rt_step mmap (Exit_Process t) s =
     (if p_inited s then finish_main_thread_buffer_hack t s else Inr s)"

text \<open>
  The child of a fork by thread \<open>t\<close> has a copy of the memory and of the calling
  thread only; the fork handler, once registered, runs in it.
\<close>

definition fork_child :: "tid \<Rightarrow> proc \<Rightarrow> proc" where
  "fork_child t s =
     (let c = s\<lparr>p_record_buffer := (\<lambda>u. if u = t then p_record_buffer s t else 0),
                p_key := (\<lambda>u. if u = t then p_key s t else 0), p_writes := []\<rparr>
      in if p_inited s then drop_buffer t c else c)"

definition new_proc :: proc where
  "new_proc = \<lparr>p_inited = False, p_mem = (\<lambda>_. None), p_record_buffer = (\<lambda>_. 0), p_key = (\<lambda>_. 0), p_writes = []\<rparr>"

section \<open>What a thread has logged\<close>

definition written :: "proc \<Rightarrow> tid \<Rightarrow> path_record list" where
  "written s t = concat (map snd (filter (\<lambda>w. fst w = t) (p_writes s)))"

definition pending :: "proc \<Rightarrow> tid \<Rightarrow> path_record list" where
  "pending s t = (case p_mem s (p_record_buffer s t) of
     None \<Rightarrow> [] | Some b \<Rightarrow> take (unat (pb_len b)) (pb_recs b))"

definition logged :: "proc \<Rightarrow> tid \<Rightarrow> path_record list" where
  "logged s t = written s t @ pending s t"

fun retired_by :: "tid \<Rightarrow> rt_event list \<Rightarrow> path_record list" where
  "retired_by t [] = []"
| "retired_by t (Retire u fn path # es) =
     (if u = t then [\<lparr>pr_fn = fn, pr_path = path\<rparr>] else []) @ retired_by t es"
| "retired_by t (_ # es) = retired_by t es"

text \<open>What the runtime relies on in \<open>mmap\<close>: it succeeds and returns an unused, non-null page.\<close>

definition mmap_ok :: "mmap_fn \<Rightarrow> bool" where
  "mmap_ok mmap \<longleftrightarrow> (\<forall>m. finite (dom m) \<longrightarrow> (\<exists>a. mmap m = Some a \<and> a \<noteq> 0 \<and> m a = None))"

definition buffer_ok :: "path_records \<Rightarrow> bool" where
  "buffer_ok b \<longleftrightarrow> length (pb_recs b) = PATH_RECORD_BUFFER_SIZE \<and> unat (pb_len b) < PATH_RECORD_BUFFER_SIZE"

definition rt_inv :: "proc \<Rightarrow> bool" where
  "rt_inv s \<longleftrightarrow> p_key s = p_record_buffer s \<and> finite (dom (p_mem s)) \<and> p_mem s 0 = None
     \<and> (\<forall>t. p_record_buffer s t \<noteq> 0 \<longrightarrow> p_inited s
          \<and> (\<exists>b. p_mem s (p_record_buffer s t) = Some b \<and> buffer_ok b))
     \<and> (\<forall>t u. p_record_buffer s t = p_record_buffer s u \<and> p_record_buffer s t \<noteq> 0 \<longrightarrow> t = u)"

section \<open>The operations keep the invariant and the log\<close>

lemma rt_invD:
  assumes "rt_inv s"
  shows "p_key s = p_record_buffer s" "finite (dom (p_mem s))" "p_mem s 0 = None"
    "p_record_buffer s t \<noteq> 0 \<Longrightarrow> p_inited s"
    "p_record_buffer s t = p_record_buffer s u \<Longrightarrow> p_record_buffer s t \<noteq> 0 \<Longrightarrow> t = u"
  using assms unfolding rt_inv_def by blast+

lemma rt_inv_buffer:
  assumes "rt_inv s" "p_record_buffer s t \<noteq> 0"
  obtains b where "p_mem s (p_record_buffer s t) = Some b" "buffer_ok b"
  using assms unfolding rt_inv_def by blast

lemma new_proc_inv [simp]: "rt_inv new_proc"
  by (simp add: rt_inv_def new_proc_def)

lemma new_proc_logged [simp]: "logged new_proc t = []"
  by (simp add: logged_def written_def pending_def new_proc_def)

lemma written_store [rt_simps]: "written (store a b s) = written s"
  by (simp add: written_def store_def fun_eq_iff)

lemma pending_store:
  assumes "rt_inv s" "p_record_buffer s t \<noteq> 0"
  shows "pending (store (p_record_buffer s t) b s) u =
    (if u = t then take (unat (pb_len b)) (pb_recs b) else pending s u)"
  using rt_invD(5) [OF assms(1)] assms(2) by (auto simp: pending_def store_def)

lemma rt_inv_store:
  assumes "rt_inv s" "p_record_buffer s t \<noteq> 0" "buffer_ok b"
  shows "rt_inv (store (p_record_buffer s t) b s)"
  using assms unfolding rt_inv_def store_def by auto

lemma rt_inv_writes [simp]: "rt_inv (s\<lparr>p_writes := w\<rparr>) = rt_inv s"
  by (simp add: rt_inv_def)

lemma buffer_ok_zero [simp]: "buffer_ok zero_page" "pb_len zero_page = 0"
  by (simp_all add: buffer_ok_def zero_page_def PATH_RECORD_BUFFER_SIZE_def)

lemma unat_len_Suc:
  assumes "buffer_ok b"
  shows "unat (pb_len b + 1) = Suc (unat (pb_len b))"
  using assms by (simp add: buffer_ok_def PATH_RECORD_BUFFER_SIZE_def unat_word_ariths)

lemma flush_buffer_eq:
  assumes "p_mem s a = Some b" "unat (pb_len b) \<le> length (pb_recs b)"
  shows "flush_buffer t a s = Inr (store a (b\<lparr>pb_len := 0\<rparr>)
    (s\<lparr>p_writes := p_writes s @ [(t, take (unat (pb_len b)) (pb_recs b))]\<rparr>))"
  using assms by (simp add: flush_buffer_def deref_def sys_write_def)

lemma ensure_thread_init_ok:
  assumes inv: "rt_inv s" and mm: "mmap_ok mmap"
  obtains a s' b where "ensure_thread_init mmap t s = (a, s')" "rt_inv s'" "logged s' = logged s"
    "p_record_buffer s' t = a" "a \<noteq> 0" "p_mem s' a = Some b" "buffer_ok b"
proof (cases "p_record_buffer s t = 0")
  case False
  then obtain b where "p_mem s (p_record_buffer s t) = Some b" "buffer_ok b"
    using inv rt_inv_buffer by blast
  with False inv that show thesis by (simp add: ensure_thread_init_def)
next
  case True
  let ?s1 = "pthread_once_init s"
  have s1: "p_mem ?s1 = p_mem s" "p_record_buffer ?s1 = p_record_buffer s" "p_key ?s1 = p_key s"
    "p_writes ?s1 = p_writes s" "p_inited ?s1"
    by (simp_all add: pthread_once_init_def init_process_def)
  obtain a where a: "mmap (p_mem s) = Some a" "a \<noteq> 0" "p_mem s a = None"
    using mm rt_invD(2) [OF inv] by (auto simp: mmap_ok_def)
  let ?s' = "?s1\<lparr>p_mem := (p_mem s)(a \<mapsto> zero_page), p_record_buffer := (p_record_buffer s)(t := a),
    p_key := (p_key s)(t := a)\<rparr>"
  have init: "ensure_thread_init mmap t s = (a, ?s')"
    using True a s1 by (simp add: ensure_thread_init_def)
  have fresh: "p_record_buffer s u \<noteq> a" for u
    using rt_inv_buffer [OF inv, of u] a by (metis option.distinct(1))
  have "rt_inv ?s'"
    unfolding rt_inv_def
  proof (intro conjI allI impI)
    show "p_key ?s' = p_record_buffer ?s'" "finite (dom (p_mem ?s'))" "p_mem ?s' 0 = None"
      using rt_invD(1-3) [OF inv] a(2) by simp_all
    show "\<exists>b. p_mem ?s' (p_record_buffer ?s' u) = Some b \<and> buffer_ok b" if "p_record_buffer ?s' u \<noteq> 0" for u
      using that rt_inv_buffer [OF inv, of u] fresh [of u] by (cases "u = t") auto
    show "u = v" if "p_record_buffer ?s' u = p_record_buffer ?s' v \<and> p_record_buffer ?s' u \<noteq> 0" for u v
      using that rt_invD(5) [OF inv, of u v] fresh by (auto split: if_splits)
  qed (simp add: s1)
  moreover have "logged ?s' u = logged s u" for u
    using fresh [of u] rt_invD(3) [OF inv] True a(2)
    by (simp add: logged_def written_def pending_def s1 zero_page_def)
  ultimately show thesis using init a(2) by (intro that [of a ?s' zero_page]) (auto simp: fun_eq_iff)
qed

lemma llvm_increment_path_count_ok:
  assumes inv: "rt_inv s" and mm: "mmap_ok mmap"
  obtains s' where "llvm_increment_path_count mmap fn path t s = Inr s'" "rt_inv s'"
    "logged s' = (logged s)(t := logged s t @ [\<lparr>pr_fn = fn, pr_path = path\<rparr>])"
proof -
  obtain a s1 b where s1: "ensure_thread_init mmap t s = (a, s1)" "rt_inv s1" "logged s1 = logged s"
    "p_record_buffer s1 t = a" "a \<noteq> 0" "p_mem s1 a = Some b" "buffer_ok b"
    using inv mm by (rule ensure_thread_init_ok)
  let ?r = "\<lparr>pr_fn = fn, pr_path = path\<rparr>"
  let ?b2 = "b\<lparr>pb_len := pb_len b + 1, pb_recs := (pb_recs b)[unat (pb_len b) := ?r]\<rparr>"
  let ?s2 = "store a ?b2 s1"
  have len: "unat (pb_len b) < length (pb_recs b)" "length (pb_recs b) = PATH_RECORD_BUFFER_SIZE"
    using s1(7) by (simp_all add: buffer_ok_def)
  have pend: "pending s1 t = take (unat (pb_len b)) (pb_recs b)" using s1(4,6) by (simp add: pending_def)
  have new: "take (unat (pb_len ?b2)) (pb_recs ?b2) = pending s1 t @ [?r]"
    using len(1) by (simp add: unat_len_Suc [OF s1(7)] pend take_Suc_conv_app_nth)
  have pend2: "pending (store a b' s1) u = (if u = t then take (unat (pb_len b')) (pb_recs b') else pending s1 u)" for b' u
    using pending_store [OF s1(2), of t b' u] s1(4,5) by simp
  have upd: "((logged s1)(t := logged s1 t @ [?r])) u = written s1 u @ (if u = t then pending s1 t @ [?r] else pending s1 u)" for u
    by (simp add: logged_def)
  show thesis
  proof (cases "PATH_RECORD_BUFFER_SIZE = unat (pb_len ?b2)")
    case True
    let ?s3 = "store a (?b2\<lparr>pb_len := 0\<rparr>) (?s2\<lparr>p_writes := p_writes ?s2 @ [(t, take (unat (pb_len ?b2)) (pb_recs ?b2))]\<rparr>)"
    have "flush_buffer t a ?s2 = Inr ?s3"
      using len True by (intro flush_buffer_eq) (simp_all add: store_def)
    with s1 len True have run: "llvm_increment_path_count mmap fn path t s = Inr ?s3"
      by (simp add: llvm_increment_path_count_def deref_def Let_def)
    have eq: "?s3 = (store a (?b2\<lparr>pb_len := 0\<rparr>) s1)\<lparr>p_writes := p_writes s1 @ [(t, pending s1 t @ [?r])]\<rparr>"
      unfolding new by (simp add: store_def)
    have "rt_inv ?s3" unfolding eq rt_inv_writes using rt_inv_store [OF s1(2), of t] s1(4,5) len
      by (simp add: buffer_ok_def PATH_RECORD_BUFFER_SIZE_def)
    moreover have "logged ?s3 u = ((logged s1)(t := logged s1 t @ [?r])) u" for u
      unfolding eq using pend2 [of "?b2\<lparr>pb_len := 0\<rparr>" u]
      by (simp add: logged_def written_def pending_def store_def)
    ultimately show thesis using run s1(3) by (intro that [of ?s3]) (auto simp: fun_eq_iff)
  next
    case False
    with s1 len have run: "llvm_increment_path_count mmap fn path t s = Inr ?s2"
      by (simp add: llvm_increment_path_count_def deref_def Let_def)
    have "buffer_ok ?b2" using s1(7) False unat_len_Suc [OF s1(7)] by (simp add: buffer_ok_def)
    then have "rt_inv ?s2" using rt_inv_store [OF s1(2), of t ?b2] s1(4,5) by simp
    moreover have "logged ?s2 u = ((logged s1)(t := logged s1 t @ [?r])) u" for u
      unfolding upd using pend2 [of ?b2 u] new by (simp add: logged_def written_store)
    ultimately show thesis using run s1(3) by (intro that [of ?s2]) (auto simp: fun_eq_iff)
  qed
qed

lemma finish_buffer_ok:
  assumes inv: "rt_inv s" and a: "p_record_buffer s t \<noteq> 0"
  obtains s' where "finish_buffer t (p_record_buffer s t) (s\<lparr>p_key := (p_key s)(t := k)\<rparr>) = Inr s'"
    "rt_inv s'" "logged s' = logged s" "written s' t = logged s t"
proof -
  let ?a = "p_record_buffer s t"
  obtain b where b: "p_mem s ?a = Some b" "buffer_ok b" using inv a by (rule rt_inv_buffer)
  let ?w = "p_writes s @ [(t, take (unat (pb_len b)) (pb_recs b))]"
  let ?s' = "s\<lparr>p_mem := (p_mem s)(?a := None), p_record_buffer := (p_record_buffer s)(t := 0),
    p_key := (p_key s)(t := 0), p_writes := ?w\<rparr>"
  have run: "finish_buffer t ?a (s\<lparr>p_key := (p_key s)(t := k)\<rparr>) = Inr ?s'"
    using b by (simp add: finish_buffer_def flush_buffer_eq buffer_ok_def drop_buffer_def store_def)
  have other: "p_record_buffer s u \<noteq> ?a" if "u \<noteq> t" for u
    using rt_invD(5) [OF inv, of t u] a that by auto
  have "rt_inv ?s'"
    unfolding rt_inv_def
  proof (intro conjI allI impI)
    show "p_key ?s' = p_record_buffer ?s'" "finite (dom (p_mem ?s'))" "p_mem ?s' 0 = None"
      using rt_invD(1-3) [OF inv] a by simp_all
    show "p_inited ?s'" using rt_invD(4) [OF inv a] by simp
    show "\<exists>b. p_mem ?s' (p_record_buffer ?s' u) = Some b \<and> buffer_ok b" if "p_record_buffer ?s' u \<noteq> 0" for u
      using that rt_inv_buffer [OF inv, of u] other [of u] by (cases "u = t") auto
    show "u = v" if "p_record_buffer ?s' u = p_record_buffer ?s' v \<and> p_record_buffer ?s' u \<noteq> 0" for u v
      using that rt_invD(5) [OF inv, of u v] by (auto split: if_splits)
  qed
  moreover have "logged ?s' u = logged s u" for u
    using b(1) rt_invD(3) [OF inv] other [of u] a
    by (cases "u = t") (simp_all add: logged_def written_def pending_def)
  moreover have "written ?s' t = logged s t"
    using b(1) by (simp add: logged_def written_def pending_def)
  ultimately show thesis using run by (intro that [of ?s']) (auto simp: fun_eq_iff)
qed

lemma exit_thread_ok:
  assumes inv: "rt_inv s"
  obtains s' where "rt_step mmap (Exit_Thread t) s = Inr s'" "rt_inv s'" "logged s' = logged s"
    "written s' t = logged s t"
proof (cases "p_record_buffer s t = 0")
  case True
  then have "rt_step mmap (Exit_Thread t) s = Inr s"
    using rt_invD(1) [OF inv] by (simp add: fun_upd_idem)
  moreover have "written s t = logged s t"
    using True rt_invD(3) [OF inv] by (simp add: logged_def pending_def)
  ultimately show thesis using inv that by blast
next
  case False
  then obtain s' where "finish_buffer t (p_record_buffer s t) (s\<lparr>p_key := (p_key s)(t := 0)\<rparr>) = Inr s'"
    "rt_inv s'" "logged s' = logged s" "written s' t = logged s t"
    using inv by (metis finish_buffer_ok)
  with False rt_invD(1,4) [OF inv] that show thesis by simp
qed

lemma exit_process_ok:
  assumes inv: "rt_inv s"
  obtains s' where "rt_step mmap (Exit_Process t) s = Inr s'" "rt_inv s'" "logged s' = logged s"
    "written s' t = logged s t"
proof (cases "p_record_buffer s t = 0")
  case True
  then have "rt_step mmap (Exit_Process t) s = Inr s"
    by (simp add: finish_main_thread_buffer_hack_def)
  moreover have "written s t = logged s t"
    using True rt_invD(3) [OF inv] by (simp add: logged_def pending_def)
  ultimately show thesis using inv that by blast
next
  case False
  then obtain s' where s': "finish_buffer t (p_record_buffer s t) (s\<lparr>p_key := (p_key s)(t := p_key s t)\<rparr>) = Inr s'"
    "rt_inv s'" "logged s' = logged s" "written s' t = logged s t"
    using inv by (metis finish_buffer_ok)
  have "s\<lparr>p_key := (p_key s)(t := p_key s t)\<rparr> = s" by simp
  with s' False rt_invD(4) [OF inv] that show thesis by (simp add: finish_main_thread_buffer_hack_def)
qed

lemma fork_child_ok:
  assumes inv: "rt_inv s"
  shows "rt_inv (fork_child t s)" "logged (fork_child t s) u = []"
proof -
  let ?m = "if p_inited s then (p_mem s)(p_record_buffer s t := None) else p_mem s"
  have rb: "p_record_buffer (fork_child t s) = (\<lambda>_. 0)" "p_key (fork_child t s) = (\<lambda>_. 0)"
      "p_writes (fork_child t s) = []" "p_mem (fork_child t s) = ?m"
    using rt_invD(1,4) [OF inv] by (auto simp: fork_child_def drop_buffer_def Let_def fun_eq_iff)
  show "rt_inv (fork_child t s)"
    using rt_invD(2,3) [OF inv] by (simp add: rt_inv_def rb)
  show "logged (fork_child t s) u = []"
    using rt_invD(3) [OF inv] by (simp add: logged_def written_def pending_def rb)
qed

section \<open>The runtime as a log\<close>

text \<open>
  What instrumented code relies on: emitting a record succeeds and extends the
  log of the calling thread only. A process with an orderly end also hands over
  all that a thread has logged.
\<close>

locale log_sink =
  fixes emit :: "tid \<Rightarrow> 'r \<Rightarrow> 's \<Rightarrow> 's res" and inv :: "'s \<Rightarrow> bool" and log :: "'s \<Rightarrow> tid \<Rightarrow> 'r list"
  assumes emit_ok: "inv s \<Longrightarrow> \<exists>s'. emit t r s = Inr s' \<and> inv s' \<and> log s' = (log s)(t := log s t @ [r])"
begin

lemma emit_interleaved:
  "inv s \<Longrightarrow> \<exists>s'. fold_res (\<lambda>(t, r). emit t r) evs s = Inr s' \<and> inv s'
     \<and> (\<forall>u. log s' u = log s u @ map snd (filter (\<lambda>ev. fst ev = u) evs))"
proof (induction evs arbitrary: s)
  case Nil
  then show ?case by simp
next
  case (Cons ev evs)
  obtain t r where ev: "ev = (t, r)" by (cases ev)
  from emit_ok [OF Cons.prems] obtain s1 where
    s1: "emit t r s = Inr s1" "inv s1" "log s1 = (log s)(t := log s t @ [r])" by blast
  from Cons.IH [OF s1(2)] s1 ev show ?case by auto
qed

lemma emit_all:
  assumes "inv s"
  shows "\<exists>s'. fold_res (emit t) rs s = Inr s' \<and> inv s' \<and> log s' = (log s)(t := log s t @ rs)"
  using assms
proof (induction rs arbitrary: s)
  case Nil
  then show ?case by simp
next
  case (Cons r rs)
  from emit_ok [OF Cons.prems] obtain s1 where
    s1: "emit t r s = Inr s1" "inv s1" "log s1 = (log s)(t := log s t @ [r])" by blast
  from Cons.IH [OF s1(2)] s1 show ?case by (auto simp: fun_eq_iff)
qed

end

locale closing_sink = log_sink emit inv log
  for emit :: "tid \<Rightarrow> 'r \<Rightarrow> 's \<Rightarrow> 's res" and inv :: "'s \<Rightarrow> bool" and log :: "'s \<Rightarrow> tid \<Rightarrow> 'r list" +
  fixes close :: "tid \<Rightarrow> 's \<Rightarrow> 's res" and handed_over :: "'s \<Rightarrow> tid \<Rightarrow> 'r list"
  assumes close_ok: "inv s \<Longrightarrow> \<exists>s'. close t s = Inr s' \<and> inv s' \<and> log s' = log s \<and> handed_over s' t = log s t"
begin

lemma all_handed_over:
  assumes "inv s"
  shows "\<exists>s'. bind_res (fold_res (emit t) rs s) (close t) = Inr s' \<and> inv s' \<and> handed_over s' t = log s t @ rs"
proof -
  obtain s1 where s1: "fold_res (emit t) rs s = Inr s1" "inv s1" "log s1 = (log s)(t := log s t @ rs)"
    using emit_all [OF assms] by blast
  with close_ok [OF s1(2), of t] show ?thesis by auto
qed

end

definition retire :: "mmap_fn \<Rightarrow> tid \<Rightarrow> path_record \<Rightarrow> proc \<Rightarrow> proc res" where
  "retire mmap t r = llvm_increment_path_count mmap (pr_fn r) (pr_path r) t"

interpretation rt: closing_sink "retire mmap" "\<lambda>s. rt_inv s \<and> mmap_ok mmap" logged
  "\<lambda>t. rt_step mmap (Exit_Thread t)" written for mmap
proof (unfold_locales, goal_cases)
  case (1 s t r)
  then obtain s' where "llvm_increment_path_count mmap (pr_fn r) (pr_path r) t s = Inr s'" "rt_inv s'"
    "logged s' = (logged s)(t := logged s t @ [\<lparr>pr_fn = pr_fn r, pr_path = pr_path r\<rparr>])"
    by (metis llvm_increment_path_count_ok)
  moreover have "\<lparr>pr_fn = pr_fn r, pr_path = pr_path r\<rparr> = r" by simp
  ultimately show ?case using 1 by (simp only: retire_def) blast
next
  case (2 s t)
  then have "rt_inv s" by simp
  from exit_thread_ok [OF this, of mmap t] 2 show ?case by blast
qed

interpretation rt_main: closing_sink "retire mmap" "\<lambda>s. rt_inv s \<and> mmap_ok mmap" logged
  "\<lambda>t. rt_step mmap (Exit_Process t)" written for mmap
proof (unfold_locales, goal_cases)
  case (1 s t)
  then have "rt_inv s" by simp
  from exit_process_ok [OF this, of mmap t] 1 show ?case by blast
qed

section \<open>Runs of a process\<close>

lemma rt_run:
  assumes mm: "mmap_ok mmap"
  shows "rt_inv s \<Longrightarrow> \<exists>s'. fold_res (rt_step mmap) evs s = Inr s' \<and> rt_inv s'
    \<and> (\<forall>t. logged s' t = logged s t @ retired_by t evs)"
proof (induction evs arbitrary: s)
  case Nil
  then show ?case by simp
next
  case (Cons ev evs)
  have "\<exists>s1. rt_step mmap ev s = Inr s1 \<and> rt_inv s1 \<and>
    (\<forall>t. logged s1 t @ retired_by t evs = logged s t @ retired_by t (ev # evs))"
  proof (cases ev)
    case (Retire t fn path)
    obtain s1 where "llvm_increment_path_count mmap fn path t s = Inr s1" "rt_inv s1"
      "logged s1 = (logged s)(t := logged s t @ [\<lparr>pr_fn = fn, pr_path = path\<rparr>])"
      using Cons.prems mm by (rule llvm_increment_path_count_ok)
    then show ?thesis by (intro exI [of _ s1]) (simp add: Retire)
  next
    case (Unretire t fn path)
    with Cons.prems show ?thesis by (simp add: llvm_decrement_path_count_def)
  next
    case (Exit_Thread t)
    obtain s1 where "rt_step mmap (Exit_Thread t) s = Inr s1" "rt_inv s1" "logged s1 = logged s"
      using Cons.prems by (rule exit_thread_ok)
    then show ?thesis by (intro exI [of _ s1]) (simp only: Exit_Thread retired_by.simps, simp)
  next
    case (Exit_Process t)
    obtain s1 where "rt_step mmap (Exit_Process t) s = Inr s1" "rt_inv s1" "logged s1 = logged s"
      using Cons.prems by (rule exit_process_ok)
    then show ?thesis by (intro exI [of _ s1]) (simp only: Exit_Process retired_by.simps, simp)
  qed
  then obtain s1 where s1: "rt_step mmap ev s = Inr s1" "rt_inv s1"
    "\<And>t. logged s1 t @ retired_by t evs = logged s t @ retired_by t (ev # evs)" by blast
  from Cons.IH [OF s1(2)] s1 show ?case by auto
qed

lemma rt_run_new:
  assumes "mmap_ok mmap"
  obtains s where "fold_res (rt_step mmap) evs new_proc = Inr s" "rt_inv s" "\<And>t. logged s t = retired_by t evs"
  using rt_run [OF assms new_proc_inv, of evs] by auto

text \<open>A page allocator for the witnesses.\<close>

definition next_page :: mmap_fn where
  "next_page m = Some (Suc (Max (insert 0 (dom m))))"

lemma next_page_ok: "mmap_ok next_page"
proof -
  have "m (Suc (Max (insert 0 (dom m)))) = None" if f: "finite (dom m)" for m :: "addr \<Rightarrow> path_records option"
  proof (rule ccontr)
    assume "m (Suc (Max (insert 0 (dom m)))) \<noteq> None"
    then have "Suc (Max (insert 0 (dom m))) \<le> Max (insert 0 (dom m))" using f by (intro Max_ge) auto
    then show False by simp
  qed
  then show ?thesis by (simp add: mmap_ok_def next_page_def)
qed

section \<open>Properties\<close>

text \<open>
  C7. Whatever threads do and however their calls interleave, no call of the
  runtime fails or writes outside a buffer, and the records a thread has handed
  to \<open>write\<close> followed by those in its buffer are exactly the records it retired,
  in order.
\<close>

theorem runtime_loses_nothing:
  assumes "mmap_ok mmap"
  shows "\<exists>s. fold_res (rt_step mmap) evs new_proc = Inr s \<and> (\<forall>t. logged s t = retired_by t evs)"
  using rt_run_new [OF assms, of evs] by metis

theorem runtime_loses_nothing_witness:
  "\<exists>s. fold_res (rt_step next_page) [Retire 1 64 0, Retire 2 64 3, Retire 1 96 5] new_proc = Inr s
    \<and> logged s 1 = [\<lparr>pr_fn = 64, pr_path = 0\<rparr>, \<lparr>pr_fn = 96, pr_path = 5\<rparr>]"
  using runtime_loses_nothing [OF next_page_ok, of "[Retire 1 64 0, Retire 2 64 3, Retire 1 96 5]"] by auto

text \<open>
  C10. When a thread ends, or the process exits in it, everything that it retired
  has been handed to \<open>write\<close>.
\<close>

theorem exit_hands_over:
  assumes "mmap_ok mmap" and "end_event = Exit_Thread t \<or> end_event = Exit_Process t"
  shows "\<exists>s. fold_res (rt_step mmap) (evs @ [end_event]) new_proc = Inr s \<and> written s t = retired_by t evs"
proof -
  obtain s where s: "fold_res (rt_step mmap) evs new_proc = Inr s" "rt_inv s" "\<And>t. logged s t = retired_by t evs"
    using assms(1) by (rule rt_run_new) blast
  have "\<exists>s'. rt_step mmap end_event s = Inr s' \<and> written s' t = logged s t"
    using assms(2) rt.close_ok [of s mmap t] rt_main.close_ok [of s mmap t] s(2) assms(1) by blast
  with s show ?thesis by (auto simp: fold_res_append simp del: rt_step.simps)
qed

theorem exit_hands_over_witness:
  "\<exists>s. fold_res (rt_step next_page) ([Retire 1 64 0] @ [Exit_Thread 1]) new_proc = Inr s
    \<and> written s 1 = [\<lparr>pr_fn = 64, pr_path = 0\<rparr>]"
  using exit_hands_over [OF next_page_ok, of "Exit_Thread 1" 1 "[Retire 1 64 0]"] by (simp del: rt_step.simps)

text \<open>
  C24. The child of a fork starts with an empty log, whatever its parent had
  buffered, so that no record is handed over by both processes, and it logs its
  own records without loss.
\<close>

theorem fork_duplicates_nothing:
  assumes "mmap_ok mmap" and "fold_res (rt_step mmap) evs new_proc = Inr s"
  shows "\<exists>c. fold_res (rt_step mmap) child_evs (fork_child t s) = Inr c
    \<and> (\<forall>u. logged c u = retired_by u child_evs)"
proof -
  have "rt_inv s" using rt_run_new [OF assms(1), of evs] assms(2) by (metis sum.inject(2))
  note f = fork_child_ok [OF this, of t]
  from rt_run [OF assms(1) f(1), of child_evs] f(2) show ?thesis by auto
qed

theorem fork_duplicates_nothing_witness:
  "\<exists>s c. fold_res (rt_step next_page) [Retire 1 64 0] new_proc = Inr s
    \<and> fold_res (rt_step next_page) [Retire 1 64 9] (fork_child 1 s) = Inr c
    \<and> logged c 1 = [\<lparr>pr_fn = 64, pr_path = 9\<rparr>]"
proof -
  obtain s where s: "fold_res (rt_step next_page) [Retire 1 64 0] new_proc = Inr s"
    using next_page_ok by (rule rt_run_new)
  show ?thesis
    using fork_duplicates_nothing [OF next_page_ok s, of "[Retire 1 64 9]" 1] s by auto
qed

end
