(* ===== verification/Seccomp_BPF.thy ===== *)
theory Seccomp_BPF
  imports C_Text
begin

text \<open>
  The seccomp filters (\<open>src/seccomp-bpf.h\<close> and \<open>src/seccomptrace.c\<close>): the three kinds of
  BPF instructions that the macros use with their meaning on a \<open>seccomp_data\<close>, the macros as
  instruction lists, and \<open>ensure_filter\<close>. The locale \<open>fragment\<close> says what a macro
  contributes to a program it is part of: a verdict, or the accumulator with
  which the rest runs. Every macro interprets it, and the verdict of a whole
  filter is that of its first macro with one.
\<close>

section \<open>The filter machine\<close>

record seccomp_data =
  sd_nr :: u32
  sd_arch :: u32
  sd_instruction_pointer :: u64
  sd_args :: "u64 list"

definition syscall_nr :: nat where "syscall_nr = 0"
definition arch_nr :: nat where "arch_nr = 4"
definition inst_ptr :: nat where "inst_ptr = 8"
definition args_off :: "nat \<Rightarrow> nat" where "args_off i = 16 + 8 * i"

text \<open>The 32-bit word at an aligned offset; the halves of a 64-bit field are little endian.\<close>

definition word_at :: "seccomp_data \<Rightarrow> nat \<Rightarrow> u32" where
  "word_at sd off =
     (if off = syscall_nr then sd_nr sd
      else if off = arch_nr then sd_arch sd
      else let w = (if off < 16 then sd_instruction_pointer sd else sd_args sd ! ((off - 16) div 8))
           in if off mod 8 = 0 then ucast w else ucast (drop_bit 32 w))"

text \<open>\<open>BPF_LD+BPF_W+BPF_ABS\<close>, \<open>BPF_JMP+BPF_JEQ+BPF_K\<close> with the two jump offsets, \<open>BPF_RET+BPF_K\<close>.\<close>

datatype bpf_insn = LD_W_ABS nat | JMP_JEQ_K u32 nat nat | RET_K u32

text \<open>Jumps only go forward; a program without a final return has no verdict.\<close>

function bpf_run :: "bpf_insn list \<Rightarrow> u32 \<Rightarrow> seccomp_data \<Rightarrow> u32 option" where
  "bpf_run [] A sd = None"
| "bpf_run (LD_W_ABS k # prog) A sd = bpf_run prog (word_at sd k) sd"
| "bpf_run (JMP_JEQ_K k jt jf # prog) A sd = bpf_run (drop (if A = k then jt else jf) prog) A sd"
| "bpf_run (RET_K k # prog) A sd = Some k"
  by pat_completeness auto
termination
  by (relation "measure (\<lambda>(prog, A, sd). length prog)") auto

section \<open>The macros\<close>

definition SECCOMP_RET_KILL :: u32 where "SECCOMP_RET_KILL = 0x00000000"
definition SECCOMP_RET_TRAP :: u32 where "SECCOMP_RET_TRAP = 0x00030000"
definition SECCOMP_RET_ALLOW :: u32 where "SECCOMP_RET_ALLOW = 0x7fff0000"
definition SECCOMP_RET_TRACE :: u32 where "SECCOMP_RET_TRACE = 0x7ff00000"

text \<open>The i386 numbers of \<open>socketcall\<close> and of its operations.\<close>

definition NR_socketcall :: u32 where "NR_socketcall = 102"
definition SYS_RECV :: u32 where "SYS_RECV = 10"
definition SYS_ACCEPT :: u32 where "SYS_ACCEPT = 5"

definition EXAMINE_SYSCALL :: "bpf_insn list" where
  "EXAMINE_SYSCALL = [LD_W_ABS syscall_nr]"

definition KILL_PROCESS :: "bpf_insn list" where
  "KILL_PROCESS = [RET_K SECCOMP_RET_KILL]"

definition ALLOW_PROCESS :: "bpf_insn list" where
  "ALLOW_PROCESS = [RET_K SECCOMP_RET_ALLOW]"

definition TRACE_PROCESS :: "bpf_insn list" where
  "TRACE_PROCESS = [RET_K SECCOMP_RET_TRACE]"

definition ALLOW_SYSCALLS_FROM_CALLSITE :: "u32 \<Rightarrow> bpf_insn list" where
  "ALLOW_SYSCALLS_FROM_CALLSITE callsite = [LD_W_ABS inst_ptr, JMP_JEQ_K callsite 0 1] @ ALLOW_PROCESS"

definition ALLOW_SYSCALL :: "u32 \<Rightarrow> bpf_insn list" where
  "ALLOW_SYSCALL nr = [JMP_JEQ_K nr 0 1, RET_K SECCOMP_RET_ALLOW]"

definition KILL_SYSCALL :: "u32 \<Rightarrow> bpf_insn list" where
  "KILL_SYSCALL nr = [JMP_JEQ_K nr 0 1, RET_K SECCOMP_RET_KILL]"

definition TRACE_SYSCALL :: "u32 \<Rightarrow> bpf_insn list" where
  "TRACE_SYSCALL nr = [JMP_JEQ_K nr 0 1, RET_K SECCOMP_RET_TRACE]"

definition ALLOW_SOCKETCALL :: "bpf_insn list" where
  "ALLOW_SOCKETCALL =
     [JMP_JEQ_K NR_socketcall 0 5,
      LD_W_ABS (args_off 0),
      JMP_JEQ_K SYS_RECV 2 0,
      JMP_JEQ_K SYS_ACCEPT 1 0,
      RET_K SECCOMP_RET_ALLOW,
      RET_K SECCOMP_RET_TRACE]"

section \<open>The preloaded library\<close>

text \<open>
  \<open>ensure_filter\<close>: the static flag and the system calls that the process has made. \<open>prctl\<close> is the kernel's answer to a call,
  which may depend on the calls before it. A call of \<open>err\<close> ends the process with its message; the calls made until then stay made.
\<close>

datatype preload_call = Set_No_New_Privs | Set_Seccomp "bpf_insn list" | Write_Out string

record preload =
  pl_installed :: bool
  pl_calls :: "preload_call list"

definition make_call :: "preload_call \<Rightarrow> preload \<Rightarrow> preload" where
  "make_call c st = st\<lparr>pl_calls := pl_calls st @ [c]\<rparr>"

definition ensure_filter :: "(preload_call list \<Rightarrow> preload_call \<Rightarrow> int) \<Rightarrow> preload \<Rightarrow> (string \<times> preload) + preload" where
  "ensure_filter prctl st =
     (if pl_installed st then Inr st
      else let st1 = make_call Set_No_New_Privs st in
           if prctl (pl_calls st) Set_No_New_Privs \<noteq> 0 then Inl (''PR_SET_NO_NEW_PRIVS'', st1)
           else let st2 = make_call (Set_Seccomp TRACE_PROCESS) st1 in
                if prctl (pl_calls st1) (Set_Seccomp TRACE_PROCESS) \<noteq> 0 then Inl (''SET_SECCOMP'', st2)
                else Inr ((make_call (Write_Out (''filter on'' @ newline)) st2)\<lparr>pl_installed := True\<rparr>))"

definition puts :: "(preload_call list \<Rightarrow> preload_call \<Rightarrow> int) \<Rightarrow> string \<Rightarrow> preload \<Rightarrow> (string \<times> preload) + int \<times> preload" where
  "puts prctl str st =
     (case ensure_filter prctl st of
        Inl e \<Rightarrow> Inl e
      | Inr st1 \<Rightarrow> Inr (1, make_call (Write_Out newline) (make_call (Write_Out str) st1)))"

text \<open>A process that prints several lines through the library.\<close>

fun puts_all :: "(preload_call list \<Rightarrow> preload_call \<Rightarrow> int) \<Rightarrow> string list \<Rightarrow> preload \<Rightarrow> (string \<times> preload) + preload" where
  "puts_all prctl [] st = Inr st"
| "puts_all prctl (str # strs) st = (case puts prctl str st of Inl e \<Rightarrow> Inl e | Inr (_, st1) \<Rightarrow> puts_all prctl strs st1)"

definition fresh_preload :: preload where
  "fresh_preload = \<lparr>pl_installed = False, pl_calls = []\<rparr>"

section \<open>Fragments\<close>

text \<open>
  \<open>verdict\<close> is what the fragment returns, \<open>None\<close> when it lets the rest of the
  program decide, which then starts with the accumulator \<open>leaves\<close>.
\<close>

locale fragment =
  fixes code :: "bpf_insn list" and verdict :: "u32 \<Rightarrow> seccomp_data \<Rightarrow> u32 option"
    and leaves :: "u32 \<Rightarrow> seccomp_data \<Rightarrow> u32"
  assumes runs: "bpf_run (code @ prog) A sd =
    (case verdict A sd of None \<Rightarrow> bpf_run prog (leaves A sd) sd | Some r \<Rightarrow> Some r)"
begin

lemma decides: "verdict A sd = Some r \<Longrightarrow> bpf_run (code @ prog) A sd = Some r"
  by (simp add: runs)

lemma passes: "verdict A sd = None \<Longrightarrow> bpf_run (code @ prog) A sd = bpf_run prog (leaves A sd) sd"
  by (simp add: runs)

end

definition on_number :: "u32 \<Rightarrow> u32 \<Rightarrow> u32 \<Rightarrow> seccomp_data \<Rightarrow> u32 option" where
  "on_number nr r A sd = (if A = nr then Some r else None)"

definition keeps_acc :: "u32 \<Rightarrow> seccomp_data \<Rightarrow> u32" where
  "keeps_acc A sd = A"

definition socketcall_verdict :: "u32 \<Rightarrow> seccomp_data \<Rightarrow> u32 option" where
  "socketcall_verdict A sd =
     (if A = NR_socketcall
      then if word_at sd (args_off 0) \<in> {SYS_RECV, SYS_ACCEPT} then Some SECCOMP_RET_TRACE else Some SECCOMP_RET_ALLOW
      else None)"

lemmas macro_defs [bpf_simps] = EXAMINE_SYSCALL_def KILL_PROCESS_def ALLOW_PROCESS_def TRACE_PROCESS_def
  ALLOW_SYSCALLS_FROM_CALLSITE_def ALLOW_SYSCALL_def KILL_SYSCALL_def TRACE_SYSCALL_def ALLOW_SOCKETCALL_def

interpretation examine: fragment EXAMINE_SYSCALL "\<lambda>A sd. None" "\<lambda>A sd. sd_nr sd"
  by unfold_locales (simp add: macro_defs word_at_def)

interpretation allow: fragment "ALLOW_SYSCALL nr" "on_number nr SECCOMP_RET_ALLOW" keeps_acc for nr
  by unfold_locales (simp add: macro_defs on_number_def keeps_acc_def)

interpretation kill: fragment "KILL_SYSCALL nr" "on_number nr SECCOMP_RET_KILL" keeps_acc for nr
  by unfold_locales (simp add: macro_defs on_number_def keeps_acc_def)

interpretation traced: fragment "TRACE_SYSCALL nr" "on_number nr SECCOMP_RET_TRACE" keeps_acc for nr
  by unfold_locales (simp add: macro_defs on_number_def keeps_acc_def)

interpretation socketcall: fragment ALLOW_SOCKETCALL socketcall_verdict keeps_acc
  by unfold_locales (auto simp: macro_defs socketcall_verdict_def keeps_acc_def)

interpretation callsite: fragment "ALLOW_SYSCALLS_FROM_CALLSITE site"
  "\<lambda>A sd. if word_at sd inst_ptr = site then Some SECCOMP_RET_ALLOW else None" "\<lambda>A sd. word_at sd inst_ptr" for site
  by unfold_locales (simp add: macro_defs)

section \<open>Whole filters\<close>

text \<open>The rules a filter is made of after the system call number is loaded.\<close>

datatype filter_rule = Allow u32 | Kill u32 | Trace u32 | Socketcall

fun rule_code :: "filter_rule \<Rightarrow> bpf_insn list" where
  "rule_code (Allow nr) = ALLOW_SYSCALL nr"
| "rule_code (Kill nr) = KILL_SYSCALL nr"
| "rule_code (Trace nr) = TRACE_SYSCALL nr"
| "rule_code Socketcall = ALLOW_SOCKETCALL"

fun rule_verdict :: "filter_rule \<Rightarrow> seccomp_data \<Rightarrow> u32 option" where
  "rule_verdict (Allow nr) sd = (if sd_nr sd = nr then Some SECCOMP_RET_ALLOW else None)"
| "rule_verdict (Kill nr) sd = (if sd_nr sd = nr then Some SECCOMP_RET_KILL else None)"
| "rule_verdict (Trace nr) sd = (if sd_nr sd = nr then Some SECCOMP_RET_TRACE else None)"
| "rule_verdict Socketcall sd = socketcall_verdict (sd_nr sd) sd"

fun first_verdict :: "filter_rule list \<Rightarrow> seccomp_data \<Rightarrow> u32" where
  "first_verdict [] sd = SECCOMP_RET_TRACE"
| "first_verdict (r # rs) sd = (case rule_verdict r sd of None \<Rightarrow> first_verdict rs sd | Some v \<Rightarrow> v)"

definition assemble :: "filter_rule list \<Rightarrow> bpf_insn list" where
  "assemble rs = EXAMINE_SYSCALL @ concat (map rule_code rs) @ TRACE_PROCESS"

lemma rule_code_runs:
  "bpf_run (rule_code r @ prog) (sd_nr sd) sd =
    (case rule_verdict r sd of None \<Rightarrow> bpf_run prog (sd_nr sd) sd | Some v \<Rightarrow> Some v)"
  by (cases r) (simp_all add: allow.runs kill.runs traced.runs socketcall.runs on_number_def keeps_acc_def split: option.splits)

lemma assemble_tail:
  "bpf_run (concat (map rule_code rs) @ TRACE_PROCESS) (sd_nr sd) sd = Some (first_verdict rs sd)"
  by (induction rs) (simp_all add: rule_code_runs macro_defs split: option.splits)

text \<open>
  C22. A filter assembled from the macros gives the verdict of its first rule that
  matches the system call, and traces the call when none does; jump offsets in
  one macro never land in another.
\<close>

theorem filter_first_match:
  "bpf_run (assemble rs) A sd = Some (first_verdict rs sd)"
  by (simp add: assemble_def examine.runs assemble_tail)

text \<open>The rules look at the number only through the accumulator.\<close>

lemma tail_other_number:
  "bpf_run (concat (map rule_code rs) @ TRACE_PROCESS) A sd = Some (first_verdict rs (sd\<lparr>sd_nr := A\<rparr>))"
proof (induction rs)
  case (Cons r rs)
  then show ?case
    by (cases r) (simp_all add: allow.runs kill.runs traced.runs socketcall.runs on_number_def keeps_acc_def socketcall_verdict_def
        word_at_def args_off_def syscall_nr_def arch_nr_def)
qed (simp add: macro_defs)

text \<open>
  C30. A filter with \<open>ALLOW_SYSCALLS_FROM_CALLSITE\<close>. In front of a filter the macro allows the calls whose address
  has the given low half, which on i386 is the whole address, and leaves all others to the filter. Behind the load of the system call number it takes the number
  from the rules that follow: they decide as if the address were the number.
\<close>

theorem callsite_filter:
  "bpf_run (ALLOW_SYSCALLS_FROM_CALLSITE site @ assemble rs) A sd =
    Some (if ucast (sd_instruction_pointer sd) = site then SECCOMP_RET_ALLOW else first_verdict rs sd)
   \<and> bpf_run (EXAMINE_SYSCALL @ ALLOW_SYSCALLS_FROM_CALLSITE site @ concat (map rule_code rs) @ TRACE_PROCESS) A sd =
    Some (if ucast (sd_instruction_pointer sd) = site then SECCOMP_RET_ALLOW
          else first_verdict rs (sd\<lparr>sd_nr := ucast (sd_instruction_pointer sd)\<rparr>))"
proof -
  have w: "word_at sd inst_ptr = ucast (sd_instruction_pointer sd)" by (simp add: word_at_def inst_ptr_def syscall_nr_def arch_nr_def)
  show ?thesis by (simp add: callsite.runs examine.runs w tail_other_number assemble_def assemble_tail)
qed

section \<open>Printing under the filter\<close>

lemma puts_all_installed:
  "pl_installed st \<Longrightarrow> puts_all prctl strs st = Inr (st\<lparr>pl_calls := pl_calls st @ concat (map (\<lambda>s. [Write_Out s, Write_Out newline]) strs)\<rparr>)"
  by (induction strs arbitrary: st) (simp_all add: puts_def ensure_filter_def make_call_def)

text \<open>
  C31. A process that prints any number of lines through the library asks for the two settings once, before the first line; the filter that
  it installs traces every system call; it announces the filter once and then writes the lines. When one of the settings is refused, the
  process ends with the message for it, and nothing has been written.
\<close>

theorem puts_installs_filter:
  assumes "strs \<noteq> []"
  shows "puts_all prctl strs fresh_preload =
      (if prctl [] Set_No_New_Privs \<noteq> 0 then Inl (''PR_SET_NO_NEW_PRIVS'', \<lparr>pl_installed = False, pl_calls = [Set_No_New_Privs]\<rparr>)
       else if prctl [Set_No_New_Privs] (Set_Seccomp TRACE_PROCESS) \<noteq> 0
       then Inl (''SET_SECCOMP'', \<lparr>pl_installed = False, pl_calls = [Set_No_New_Privs, Set_Seccomp TRACE_PROCESS]\<rparr>)
       else Inr \<lparr>pl_installed = True, pl_calls = [Set_No_New_Privs, Set_Seccomp TRACE_PROCESS, Write_Out (''filter on'' @ newline)]
              @ concat (map (\<lambda>s. [Write_Out s, Write_Out newline]) strs)\<rparr>)
    \<and> bpf_run TRACE_PROCESS A sd = Some SECCOMP_RET_TRACE"
proof -
  obtain str rest where s: "strs = str # rest" using assms by (cases strs) auto
  show ?thesis by (simp add: s puts_def ensure_filter_def make_call_def fresh_preload_def Let_def puts_all_installed macro_defs)
qed

theorem puts_installs_filter_witness:
  "puts_all (\<lambda>_ _. 0) [''a'', ''b''] fresh_preload =
    Inr \<lparr>pl_installed = True, pl_calls = [Set_No_New_Privs, Set_Seccomp TRACE_PROCESS, Write_Out (''filter on'' @ newline),
      Write_Out ''a'', Write_Out newline, Write_Out ''b'', Write_Out newline]\<rparr>"
  using puts_installs_filter [of "[''a'', ''b'']" "\<lambda>_ _. 0"] by simp

end
