(* ===== verification/I386.thy ===== *)
theory I386
  imports RRW_Prelude
begin

text \<open>
  The i386 instructions that the assembly parts use: \<open>strlen\<close> in
  \<open>src/libc-sysdeps-i386-i586-strlen.S\<close>, the trampoline of \<open>src/vdso_monkeypatch.c\<close>
  and the wrapper of \<open>src/libc-libio-iofputs.c\<close>. A program is a list of
  instructions with labels; \<open>run\<close> executes it from a point on. Fuel bounds the
  number of jumps. The flags are those that the programs test: carry, zero and
  parity. The operands stand in the order of the AT\&T syntax, source first.
\<close>

section \<open>State\<close>

datatype reg = EAX | EBX | ECX | EDX | ESI | EDI | EBP | ESP

datatype reg8 = CL | CH | DH

record cpu =
  regs :: "reg \<Rightarrow> u32"
  cf :: bool
  zf :: bool
  pf :: bool
  mem :: "u32 \<Rightarrow> byte"

definition rd :: "reg \<Rightarrow> cpu \<Rightarrow> u32" where
  "rd r s = regs s r"

definition wr :: "reg \<Rightarrow> u32 \<Rightarrow> cpu \<Rightarrow> cpu" where
  "wr r w s = s\<lparr>regs := (regs s)(r := w)\<rparr>"

fun rd8 :: "reg8 \<Rightarrow> cpu \<Rightarrow> byte" where
  "rd8 CL s = ucast (rd ECX s)"
| "rd8 CH s = ucast (drop_bit 8 (rd ECX s))"
| "rd8 DH s = ucast (drop_bit 8 (rd EDX s))"

definition load32 :: "(u32 \<Rightarrow> byte) \<Rightarrow> u32 \<Rightarrow> u32" where
  "load32 m a = ucast (m a) + 2 ^ 8 * ucast (m (a + 1)) + 2 ^ 16 * ucast (m (a + 2)) + 2 ^ 24 * ucast (m (a + 3))"

definition store32 :: "u32 \<Rightarrow> u32 \<Rightarrow> (u32 \<Rightarrow> byte) \<Rightarrow> u32 \<Rightarrow> byte" where
  "store32 a w m = m(a := ucast w, a + 1 := ucast (drop_bit 8 w),
     a + 2 := ucast (drop_bit 16 w), a + 3 := ucast (drop_bit 24 w))"

text \<open>The parity flag tells whether the low byte has an even number of bits set.\<close>

definition parity_even :: "byte \<Rightarrow> bool" where
  "parity_even b = even (length (filter (bit b) [0..<8]))"

definition set_zp :: "u32 \<Rightarrow> cpu \<Rightarrow> cpu" where
  "set_zp w s = s\<lparr>zf := w = 0, pf := parity_even (ucast w)\<rparr>"

definition set_zp8 :: "byte \<Rightarrow> cpu \<Rightarrow> cpu" where
  "set_zp8 b s = s\<lparr>zf := b = 0, pf := parity_even b\<rparr>"

definition set_cf :: "bool \<Rightarrow> cpu \<Rightarrow> cpu" where
  "set_cf c s = s\<lparr>cf := c\<rparr>"

section \<open>Instructions\<close>

datatype cond = Z | NZ | NC | PE

fun holds :: "cond \<Rightarrow> cpu \<Rightarrow> bool" where
  "holds Z s = zf s"
| "holds NZ s = (\<not> zf s)"
| "holds NC s = (\<not> cf s)"
| "holds PE s = pf s"

datatype 'l insn =
    Label 'l
  | Mov_rr reg reg
  | Mov_ir u32 reg
  | Mov_mr u32 reg reg
  | And_rr reg reg
  | And_ir u32 reg
  | Xor_rr reg reg
  | Xor_ir u32 reg
  | Add_ir u32 reg
  | Sub_rr reg reg
  | Sub_ir u32 reg
  | Sub_mr u32 reg reg
  | Inc reg
  | Dec reg
  | Shr nat reg
  | Cmp_ir u32 reg
  | Cmpb_rm reg8 reg
  | Cmpb_ir byte reg8
  | Testb reg8 reg8
  | Push reg
  | Push_i u32
  | Pop reg
  | J cond 'l
  | Jmp 'l
  | Call_r reg
  | Call_i u32
  | Int80
  | Ret

definition logic_result :: "reg \<Rightarrow> u32 \<Rightarrow> cpu \<Rightarrow> cpu" where
  "logic_result r w s = set_cf False (set_zp w (wr r w s))"

definition sub_result :: "reg \<Rightarrow> u32 \<Rightarrow> u32 \<Rightarrow> cpu \<Rightarrow> cpu" where
  "sub_result r a b s = set_cf (a < b) (set_zp (a - b) (wr r (a - b) s))"

definition push :: "u32 \<Rightarrow> cpu \<Rightarrow> cpu" where
  "push w s = (let a = rd ESP s - 4 in (wr ESP a s)\<lparr>mem := store32 a w (mem s)\<rparr>)"

definition pop :: "reg \<Rightarrow> cpu \<Rightarrow> cpu" where
  "pop r s = wr r (load32 (mem s) (rd ESP s)) (wr ESP (rd ESP s + 4) s)"

text \<open>Instructions without a transfer of control; \<open>inc\<close> and \<open>dec\<close> leave the carry flag alone.\<close>

fun exec :: "'l insn \<Rightarrow> cpu \<Rightarrow> cpu" where
  "exec (Mov_rr a b) s = wr b (rd a s) s"
| "exec (Mov_ir i b) s = wr b i s"
| "exec (Mov_mr off a b) s = wr b (load32 (mem s) (rd a s + off)) s"
| "exec (And_rr a b) s = logic_result b (and (rd b s) (rd a s)) s"
| "exec (And_ir i b) s = logic_result b (and (rd b s) i) s"
| "exec (Xor_rr a b) s = logic_result b (xor (rd b s) (rd a s)) s"
| "exec (Xor_ir i b) s = logic_result b (xor (rd b s) i) s"
| "exec (Add_ir i b) s = set_cf (2 ^ 32 \<le> unat (rd b s) + unat i) (set_zp (rd b s + i) (wr b (rd b s + i) s))"
| "exec (Sub_rr a b) s = sub_result b (rd b s) (rd a s) s"
| "exec (Sub_ir i b) s = sub_result b (rd b s) i s"
| "exec (Sub_mr off a b) s = sub_result b (rd b s) (load32 (mem s) (rd a s + off)) s"
| "exec (Inc b) s = set_zp (rd b s + 1) (wr b (rd b s + 1) s)"
| "exec (Dec b) s = set_zp (rd b s - 1) (wr b (rd b s - 1) s)"
| "exec (Shr n b) s = set_cf (bit (rd b s) (n - 1)) (set_zp (drop_bit n (rd b s)) (wr b (drop_bit n (rd b s)) s))"
| "exec (Cmp_ir i b) s = set_cf (rd b s < i) (set_zp (rd b s - i) s)"
| "exec (Cmpb_rm r a) s = set_cf (mem s (rd a s) < rd8 r s) (set_zp8 (mem s (rd a s) - rd8 r s) s)"
| "exec (Cmpb_ir i r) s = set_cf (rd8 r s < i) (set_zp8 (rd8 r s - i) s)"
| "exec (Testb a b) s = set_cf False (set_zp8 (and (rd8 a s) (rd8 b s)) s)"
| "exec (Push a) s = push (rd a s) s"
| "exec (Push_i i) s = push i s"
| "exec (Pop b) s = pop b s"
| "exec _ s = s"

section \<open>Programs\<close>

fun at_label :: "'l \<Rightarrow> 'l insn list \<Rightarrow> 'l insn list" where
  "at_label l [] = []"
| "at_label l (i # is) = (if i = Label l then is else at_label l is)"

text \<open>
  \<open>callee\<close> is the function at an address, as it leaves the state when it returns,
  \<open>int80\<close> a system call. A return pops the address and ends the run. Running
  off the end of the code or out of fuel has no result.
\<close>

fun run :: "nat \<Rightarrow> (u32 \<Rightarrow> cpu \<Rightarrow> cpu) \<Rightarrow> (cpu \<Rightarrow> cpu) \<Rightarrow> 'l insn list \<Rightarrow> 'l insn list \<Rightarrow> cpu \<Rightarrow> cpu option" where
  "run n callee int80 code [] s = None"
| "run n callee int80 code (i # is) s =
     (case i of
        J c l \<Rightarrow> if holds c s
          then (case n of 0 \<Rightarrow> None | Suc m \<Rightarrow> run m callee int80 code (at_label l code) s)
          else run n callee int80 code is s
      | Jmp l \<Rightarrow> (case n of 0 \<Rightarrow> None | Suc m \<Rightarrow> run m callee int80 code (at_label l code) s)
      | Ret \<Rightarrow> Some (wr ESP (rd ESP s + 4) s)
      | Call_r r \<Rightarrow> run n callee int80 code is (callee (rd r s) s)
      | Call_i f \<Rightarrow> run n callee int80 code is (callee f s)
      | Int80 \<Rightarrow> run n callee int80 code is (int80 s)
      | _ \<Rightarrow> run n callee int80 code is (exec i s))"

section \<open>Registers and flags\<close>

lemma rd_wr [simp, asm_simps]: "rd r (wr q w s) = (if r = q then w else rd r s)"
  by (simp add: rd_def wr_def)

lemma rd_frame [simp, asm_simps]:
  "rd r (set_zp w s) = rd r s" "rd r (set_zp8 b s) = rd r s" "rd r (set_cf c s) = rd r s"
  "rd r (s\<lparr>mem := m\<rparr>) = rd r s"
  by (simp_all add: rd_def set_zp_def set_zp8_def set_cf_def)

lemma mem_frame [simp, asm_simps]:
  "mem (set_zp w s) = mem s" "mem (set_zp8 b s) = mem s" "mem (set_cf c s) = mem s" "mem (wr r w s) = mem s"
  by (simp_all add: wr_def set_zp_def set_zp8_def set_cf_def)

lemma flags_frame [simp, asm_simps]:
  "zf (set_zp w s) = (w = 0)" "zf (set_zp8 b s) = (b = 0)" "zf (set_cf c s) = zf s" "zf (wr r w s) = zf s"
  "cf (set_zp w s) = cf s" "cf (set_zp8 b s) = cf s" "cf (set_cf c s) = c" "cf (wr r w s) = cf s"
  "pf (set_zp w s) = parity_even (ucast w)" "pf (set_cf c s) = pf s" "pf (wr r w s) = pf s"
  by (simp_all add: wr_def set_zp_def set_zp8_def set_cf_def)

lemma flags_mem [simp, asm_simps]: "zf (s\<lparr>mem := m\<rparr>) = zf s" "cf (s\<lparr>mem := m\<rparr>) = cf s" "pf (s\<lparr>mem := m\<rparr>) = pf s"
  by simp_all

lemma sub_result_simps [simp, asm_simps]:
  "rd r (sub_result q a b s) = (if r = q then a - b else rd r s)" "mem (sub_result q a b s) = mem s"
  "zf (sub_result q a b s) = (a = b)" "cf (sub_result q a b s) = (a < b)"
  by (simp_all add: sub_result_def)

lemma logic_result_simps [simp, asm_simps]:
  "rd r (logic_result q w s) = (if r = q then w else rd r s)" "mem (logic_result q w s) = mem s"
  "zf (logic_result q w s) = (w = 0)" "pf (logic_result q w s) = parity_even (ucast w)"
  by (simp_all add: logic_result_def)

lemma stack_simps [simp, asm_simps]:
  "rd r (push w s) = (if r = ESP then rd ESP s - 4 else rd r s)" "mem (push w s) = store32 (rd ESP s - 4) w (mem s)"
  "rd r (pop q s) = (if r = q then load32 (mem s) (rd ESP s) else if r = ESP then rd ESP s + 4 else rd r s)"
  "mem (pop q s) = mem s"
  by (simp_all add: push_def pop_def Let_def)

section \<open>Memory\<close>

lemma store32_outside:
  assumes "4 \<le> b - a"
  shows "store32 a w m b = m b"
proof -
  have "b \<noteq> a + k" if "k < 4" for k using assms that by auto
  from this [of 0] this [of 1] this [of 2] this [of 3] show ?thesis by (simp add: store32_def)
qed

lemma load32_cong:
  assumes "m a = m' a" "m (a + 1) = m' (a + 1)" "m (a + 2) = m' (a + 2)" "m (a + 3) = m' (a + 3)"
  shows "load32 m a = load32 m' a"
  using assms by (simp add: load32_def)

lemma load32_bytes_of:
  fixes w :: u32
  shows "ucast (ucast w :: byte) + 2 ^ 8 * ucast (ucast (drop_bit 8 w) :: byte)
    + 2 ^ 16 * ucast (ucast (drop_bit 16 w) :: byte) + 2 ^ 24 * ucast (ucast (drop_bit 24 w) :: byte) = w"
proof -
  have b: "ucast (ucast x :: byte) = take_bit 8 x" for x :: u32
    by (rule bit_word_eqI) (auto simp: bit_simps)
  have split: "x = take_bit 8 x + 2 ^ 8 * drop_bit 8 x" for x :: u32
    using bits_ident [of 8 x] by (simp add: push_bit_eq_mult ac_simps)
  have last: "take_bit 8 (drop_bit 24 w) = drop_bit 24 w"
    by (rule bit_word_eqI) (auto simp: bit_simps dest: bit_imp_le_length)
  have d: "drop_bit 8 (drop_bit 8 w) = drop_bit 16 w" "drop_bit 8 (drop_bit 16 w) = drop_bit 24 w" by simp_all
  note s1 = split [of w] and s2 = split [of "drop_bit 8 w", unfolded d(1)] and s3 = split [of "drop_bit 16 w", unfolded d(2)]
  have "take_bit 8 w + 2 ^ 8 * (take_bit 8 (drop_bit 8 w) + 2 ^ 8 * (take_bit 8 (drop_bit 16 w) + 2 ^ 8 * drop_bit 24 w)) = w"
    by (simp only: s1 [symmetric] s2 [symmetric] s3 [symmetric])
  then show ?thesis unfolding b last by (simp add: algebra_simps)
qed

lemma load32_store32_same [simp]: "load32 (store32 a w m) a = w"
  using load32_bytes_of [of w] by (simp add: load32_def store32_def)

lemma word_gap:
  fixes x k :: u32
  assumes "4 \<le> x" "4 \<le> - x" "k < 4"
  shows "4 \<le> x + k"
proof -
  have x: "unat x \<le> 2 ^ 32 - 4"
  proof -
    have "x \<noteq> 0" using assms(1) by auto
    then have "unat (- x) = 2 ^ 32 - unat x" using unat_sub_if_size [of 0 x] by (simp add: word_size unat_eq_0)
    moreover have "4 \<le> unat (- x)" using assms(2) by (simp add: word_le_nat_alt)
    ultimately show ?thesis by linarith
  qed
  have k: "unat k < 4" using assms(3) by (simp add: word_less_nat_alt)
  have "unat (x + k) = unat x + unat k" using x k by (simp add: unat_plus_if_size word_size)
  then show ?thesis using assms(1) by (simp add: word_le_nat_alt)
qed

lemma load32_store32_other:
  assumes "4 \<le> b - a" "4 \<le> a - b"
  shows "load32 (store32 a w m) b = load32 m b"
proof (rule load32_cong)
  have gap: "4 \<le> b + k - a" if "k < 4" for k
    using word_gap [of "b - a" k] assms that by (simp add: algebra_simps)
  show "store32 a w m b = m b" using assms(1) by (rule store32_outside)
  show "store32 a w m (b + 1) = m (b + 1)" "store32 a w m (b + 2) = m (b + 2)" "store32 a w m (b + 3) = m (b + 3)"
    by (rule store32_outside, rule gap, simp)+
qed

text \<open>Slots below an address, as a stack frame has them, and memory above it.\<close>

lemma load32_below:
  assumes "4 \<le> c - c'" "4 \<le> c' - c"
  shows "load32 (store32 (e - c) w m) (e - c') = load32 m (e - c')"
proof (rule load32_store32_other)
  have "e - c' - (e - c) = c - c'" "e - c - (e - c') = c' - c" by (simp_all add: algebra_simps)
  with assms show "4 \<le> e - c' - (e - c)" "4 \<le> e - c - (e - c')" by (simp_all only:)
qed

definition stack_above :: "u32 \<Rightarrow> u32 \<Rightarrow> bool" where
  "stack_above e a \<longleftrightarrow> a - e < 2 ^ 31"

lemma stack_above_shift:
  assumes "a - e < 2 ^ 30" "k \<le> 2 ^ 30"
  shows "stack_above (e - k) a"
proof -
  have e: "a - (e - k) = (a - e) + k" by (simp add: algebra_simps)
  have "unat (a - e) < 2 ^ 30" "unat k \<le> 2 ^ 30" using assms by (simp_all add: word_less_nat_alt word_le_nat_alt)
  moreover have "unat (x + k) < 2 ^ 31" if "unat x < 2 ^ 30" "unat k \<le> 2 ^ 30" for x
    using that by (simp add: unat_plus_if_size word_size)
  ultimately show ?thesis unfolding stack_above_def e by (simp add: word_less_nat_alt)
qed

lemma store32_above:
  assumes "stack_above e a" "4 \<le> c" "c \<le> 2 ^ 30"
  shows "store32 (e - c) w m a = m a"
proof (rule store32_outside)
  have e: "a - (e - c) = (a - e) + c" by (simp add: algebra_simps)
  have "unat (a - e) < 2 ^ 31" "4 \<le> unat c" "unat c \<le> 2 ^ 30"
    using assms by (simp_all add: stack_above_def word_less_nat_alt word_le_nat_alt)
  moreover have "unat (x + c) = unat x + unat c" if "unat x < 2 ^ 31" "unat c \<le> 2 ^ 30" for x
    using that by (simp add: unat_plus_if_size word_size)
  ultimately show "4 \<le> a - (e - c)" unfolding e by (simp add: word_le_nat_alt)
qed

lemma load32_above:
  assumes "\<And>a. stack_above e a \<Longrightarrow> m' a = m a" "k < 2 ^ 30"
  shows "load32 m' (e + k) = load32 m (e + k)"
proof (rule load32_cong)
  have "stack_above e (e + k + j)" if "j < 4" for j
  proof -
    have "unat k < 2 ^ 30" "unat j < 4" using assms(2) that by (simp_all add: word_less_nat_alt)
    then have "unat (k + j) < 2 ^ 31" by (simp add: unat_plus_if_size word_size)
    then show ?thesis by (simp add: stack_above_def word_less_nat_alt add.assoc)
  qed
  from assms(1) [OF this [of 0]] assms(1) [OF this [of 1]] assms(1) [OF this [of 2]] assms(1) [OF this [of 3]]
  show "m' (e + k) = m (e + k)" "m' (e + k + 1) = m (e + k + 1)" "m' (e + k + 2) = m (e + k + 2)"
    "m' (e + k + 3) = m (e + k + 3)" by simp_all
qed

lemma unat_load32:
  "unat (load32 m a) = unat (m a) + 256 * (unat (m (a + 1)) + 256 * (unat (m (a + 2)) + 256 * unat (m (a + 3))))" (is "_ = ?n")
proof -
  have u: "ucast b = (of_nat (unat b) :: u32)" for b :: byte by (simp add: unsigned_of_nat)
  have "load32 m a = of_nat ?n" unfolding load32_def u by (simp add: algebra_simps)
  moreover have "?n < 2 ^ 32"
    using unsigned_less [where 'a = nat, of "m a"] unsigned_less [where 'a = nat, of "m (a + 1)"] unsigned_less [where 'a = nat, of "m (a + 2)"] unsigned_less [where 'a = nat, of "m (a + 3)"] by simp
  moreover have "unat (of_nat k :: u32) = k" if "k < 2 ^ 32" for k
    using that by (simp add: unsigned_of_nat take_bit_nat_eq_self)
  ultimately show ?thesis by metis
qed

lemma byte_digits:
  assumes "b0 < 256" "b1 < 256" "b2 < 256" "(b3 :: nat) < 256" and "W = b0 + 256 * (b1 + 256 * (b2 + 256 * b3))"
  shows "W mod 256 = b0" "W div 2 ^ 8 mod 256 = b1" "W div 2 ^ 16 mod 256 = b2" "W div 2 ^ 24 mod 256 = b3"
proof -
  have s: "(b + 256 * x) mod 256 = b" "(b + 256 * x) div 256 = x" if "b < 256" for b x :: nat
    using that by simp_all
  have "W div 2 ^ 8 = W div 256" "W div 2 ^ 16 = W div 256 div 256" "W div 2 ^ 24 = W div 256 div 256 div 256"
    by (simp_all flip: div_mult2_eq)
  then show "W mod 256 = b0" "W div 2 ^ 8 mod 256 = b1" "W div 2 ^ 16 mod 256 = b2" "W div 2 ^ 24 mod 256 = b3"
    unfolding assms(5) by (simp_all only: s assms mod_less)
qed

lemma load32_bytes:
  "(ucast (load32 m a) :: byte) = m a" "(ucast (drop_bit 8 (load32 m a)) :: byte) = m (a + 1)"
  "(ucast (drop_bit 16 (load32 m a)) :: byte) = m (a + 2)" "(ucast (drop_bit 24 (load32 m a)) :: byte) = m (a + 3)"
proof -
  have lt: "unat b < 256" for b :: byte using unsigned_less [where 'a = nat, of b] by simp
  have e: "(ucast w :: byte) = b \<longleftrightarrow> unat w mod 256 = unat b" for w :: u32 and b :: byte
    by (simp add: word_unat_eq_iff unsigned_ucast_eq take_bit_eq_mod)
  have d: "unat (drop_bit n w) = unat w div 2 ^ n" for n and w :: u32
    by (simp only: unat_drop_bit_eq) (simp add: drop_bit_eq_div)
  show "(ucast (load32 m a) :: byte) = m a" "(ucast (drop_bit 8 (load32 m a)) :: byte) = m (a + 1)"
    "(ucast (drop_bit 16 (load32 m a)) :: byte) = m (a + 2)" "(ucast (drop_bit 24 (load32 m a)) :: byte) = m (a + 3)"
    unfolding e d by (rule byte_digits [OF lt lt lt lt unat_load32])+
qed

section \<open>Straight code\<close>

fun straight :: "'l insn \<Rightarrow> bool" where
  "straight (J c l) \<longleftrightarrow> False"
| "straight (Jmp l) \<longleftrightarrow> False"
| "straight (Call_r r) \<longleftrightarrow> False"
| "straight (Call_i f) \<longleftrightarrow> False"
| "straight Int80 \<longleftrightarrow> False"
| "straight Ret \<longleftrightarrow> False"
| "straight _ \<longleftrightarrow> True"

lemma run_straight:
  "list_all straight xs \<Longrightarrow> run n callee int80 code (xs @ ys) s = run n callee int80 code ys (fold exec xs s)"
proof (induction xs arbitrary: s)
  case (Cons x xs)
  then show ?case by (cases x) auto
qed simp

section \<open>Reaching a point of a program\<close>

text \<open>
  From \<open>is\<close> in state \<open>s\<close> the program comes to \<open>js\<close> in state \<open>t\<close> after at most \<open>k\<close> taken jumps.
\<close>

definition reaches :: "(u32 \<Rightarrow> cpu \<Rightarrow> cpu) \<Rightarrow> (cpu \<Rightarrow> cpu) \<Rightarrow> 'l insn list \<Rightarrow> nat \<Rightarrow>
    'l insn list \<Rightarrow> cpu \<Rightarrow> 'l insn list \<Rightarrow> cpu \<Rightarrow> bool" where
  "reaches callee int80 code k is s js t \<longleftrightarrow>
     (\<exists>j\<le>k. \<forall>f. run (f + j) callee int80 code is s = run f callee int80 code js t)"

lemma reachesI:
  assumes "\<And>f. run (f + j) callee int80 code is s = run f callee int80 code js t" "j \<le> k"
  shows "reaches callee int80 code k is s js t"
  using assms unfolding reaches_def by blast

lemma reaches_trans:
  assumes "reaches callee int80 code k is s js t" "reaches callee int80 code k' js t ls u"
  shows "reaches callee int80 code (k + k') is s ls u"
proof -
  obtain a where a: "a \<le> k" "\<And>f. run (f + a) callee int80 code is s = run f callee int80 code js t"
    using assms(1) unfolding reaches_def by blast
  obtain b where b: "b \<le> k'" "\<And>f. run (f + b) callee int80 code js t = run f callee int80 code ls u"
    using assms(2) unfolding reaches_def by blast
  have "run (f + (b + a)) callee int80 code is s = run f callee int80 code ls u" for f
    using a(2) [of "f + b"] b(2) [of f] by (simp add: add.assoc)
  then show ?thesis by (rule reachesI) (use a b in simp)
qed

lemma reaches_mono: "reaches callee int80 code k is s js t \<Longrightarrow> k \<le> k' \<Longrightarrow> reaches callee int80 code k' is s js t"
  unfolding reaches_def by (meson order_trans)

lemma reaches_result:
  assumes "reaches callee int80 code k is s js t" "\<And>f. run (f + k') callee int80 code js t = Some r" "k + k' \<le> n"
  shows "run n callee int80 code is s = Some r"
proof -
  obtain a where a: "a \<le> k" "\<And>f. run (f + a) callee int80 code is s = run f callee int80 code js t"
    using assms(1) unfolding reaches_def by blast
  have "run n callee int80 code is s = run (n - a) callee int80 code js t"
    using a(1) a(2) [of "n - a"] assms(3) by simp
  also have "\<dots> = Some r" using assms(2) [of "n - a - k'"] a(1) assms(3) by simp
  finally show ?thesis .
qed

end
