(* ===== verification/Strlen.thy ===== *)
theory Strlen
  imports I386
begin

text \<open>
  The instrumented string length (\<open>src/libc-sysdeps-i386-i586-strlen.S\<close>), instruction
  by instruction, for the configuration that the file selects (\<open>BB_INST\<close> and \<open>ZERO_TEST_INST\<close>). The
  macros \<open>ENTER\<close>, \<open>LEAVE\<close> and the bounds checks of the C library are empty in a build without
  bounded pointers, and \<open>STR\<close> is the first argument, at offset 4. The routine reads four bytes at a time
  and finds a zero byte with one addition; it is shown equivalent to the byte by byte definition
  of a string's length.
\<close>

section \<open>The code\<close>

datatype lbl = Strlen_instr | Strlen_begin_impl | L0 | L1 | L2 | L3 | Done

definition magic :: u32 where
  "magic = 0xfefefeff"

definition STR_ARG :: u32 where
  "STR_ARG = 4"

definition strlen_prologue :: "lbl insn list" where
  "strlen_prologue =
    [Mov_mr STR_ARG ESP EAX,
     Cmp_ir 0xdeadd00d EDI, J Z Strlen_instr,
     Push EBX, Push ESI, Push EDI, Push EBP, Push_i 0, Jmp Strlen_begin_impl,
     Label Strlen_instr,
     Xor_rr EBX EBX, Xor_rr ESI ESI, Xor_rr EDI EDI, Xor_rr EBP EBP, Push_i 1]"

definition strlen_align :: "lbl insn list" where
  "strlen_align =
    [Mov_ir 3 EDX, And_rr EAX EDX, J Z L1, J PE L0,
     Cmpb_rm DH EAX, J Z L2, Inc EAX, Cmpb_rm DH EAX, J Z L2, Inc EAX, Xor_ir 2 EDX, J Z L1,
     Label L0,
     Cmpb_rm DH EAX, J Z L2, Inc EAX, Xor_rr EDX EDX]"

text \<open>One of the four unrolled iterations up to its last jump.\<close>

definition check_word :: "lbl insn list" where
  "check_word =
    [Mov_mr 0 EAX ECX, Add_ir 4 EAX, Sub_rr ECX EDX, Add_ir magic ECX, Dec EDX, J NC L3,
     Xor_rr ECX EDX, And_ir (not magic) EDX]"

definition strlen_find :: "lbl insn list" where
  "strlen_find =
    [Sub_ir 4 EAX, Sub_ir magic ECX, Inc EBX, Cmpb_ir 0 CL, J Z L2,
     Inc ESI, Inc EAX, Testb CH CH, J Z L2, Shr 16 ECX, Inc EAX,
     Inc EDI, Cmpb_ir 0 CL, J Z L2, Inc EBP, Inc EAX]"

definition strlen_epilogue :: "lbl insn list" where
  "strlen_epilogue =
    [Pop EDX, Cmp_ir 1 EDX, J Z Done, Pop EBP, Pop EDI, Pop ESI, Pop EBX, Label Done, Sub_mr STR_ARG ESP EAX, Ret]"

definition strlen_code :: "lbl insn list" where
  "strlen_code =
     strlen_prologue @ [Label Strlen_begin_impl] @ strlen_align @ [Label L1]
     @ check_word @ [J NZ L3] @ check_word @ [J NZ L3] @ check_word @ [J NZ L3] @ check_word @ [J Z L1]
     @ [Label L3] @ strlen_find @ [Label L2] @ strlen_epilogue"

section \<open>Strings\<close>

definition cstring :: "(u32 \<Rightarrow> byte) \<Rightarrow> u32 \<Rightarrow> nat \<Rightarrow> bool" where
  "cstring m p n \<longleftrightarrow> m (p + of_nat n) = 0 \<and> (\<forall>i<n. m (p + of_nat i) \<noteq> 0)"

section \<open>A zero byte in a word\<close>

lemma mask3: "and x (0x01010100 :: 32 word) = 0 \<longleftrightarrow> \<not> bit x 8 \<and> \<not> bit x 16 \<and> \<not> bit x 24"
proof -
  have e: "(0x01010100 :: 32 word) = or (push_bit 8 1) (or (push_bit 16 1) (push_bit 24 1))" by simp
  have b: "bit (0x01010100 :: 32 word) n \<longleftrightarrow> n = 8 \<or> n = 16 \<or> n = 24" for n
    unfolding e bit_or_iff bit_push_bit_iff bit_1_iff by auto
  show ?thesis
  proof
    assume "and x 0x01010100 = 0"
    then have "\<not> bit (and x (0x01010100 :: 32 word)) n" for n by simp
    then have "\<not> (bit x n \<and> bit (0x01010100 :: 32 word) n)" for n unfolding bit_and_iff by blast
    then show "\<not> bit x 8 \<and> \<not> bit x 16 \<and> \<not> bit x 24" unfolding b by blast
  next
    assume "\<not> bit x 8 \<and> \<not> bit x 16 \<and> \<not> bit x 24"
    then have "\<not> bit (and x (0x01010100 :: 32 word)) n" for n unfolding bit_and_iff b by blast
    then show "and x 0x01010100 = 0" by (intro bit_word_eqI) simp
  qed
qed

lemma byte_carry:
  assumes "b < 256" and "(c :: nat) \<le> 1"
  shows "(b + 254 + c) div 256 = (if b + c < 2 then 0 else 1)"
proof (cases "b + c < 2")
  case True
  then show ?thesis using assms by simp
next
  case False
  then have "256 \<le> b + 254 + c" "b + 254 + c < 2 * 256" using assms by simp_all
  then have "(b + 254 + c) div 256 = Suc 0" by (intro div_nat_eqI) simp_all
  with False show ?thesis by simp
qed

lemma carries:
  fixes b0 b1 b2 b3 :: nat
  assumes "b0 < 256" "b1 < 256" "b2 < 256" "b3 < 256"
    and W: "W = b0 + 256 * (b1 + 256 * (b2 + 256 * b3))"
  shows "2 ^ 32 \<le> W + 0xfefefeff \<and> odd ((W + 0xfefefeff) div 2 ^ 8) \<noteq> odd (W div 2 ^ 8)
      \<and> odd ((W + 0xfefefeff) div 2 ^ 16) \<noteq> odd (W div 2 ^ 16)
      \<and> odd ((W + 0xfefefeff) div 2 ^ 24) \<noteq> odd (W div 2 ^ 24)
    \<longleftrightarrow> b0 \<noteq> 0 \<and> b1 \<noteq> 0 \<and> b2 \<noteq> 0 \<and> b3 \<noteq> 0"
proof -
  define c1 c2 c3 c4 where "c1 = (b0 + 255) div 256" and "c2 = (b1 + 254 + c1) div 256"
    and "c3 = (b2 + 254 + c2) div 256" and "c4 = (b3 + 254 + c3) div 256"
  define r1 r2 r3 r4 where "r1 = (b0 + 255) mod 256" and "r2 = (b1 + 254 + c1) mod 256"
    and "r3 = (b2 + 254 + c2) mod 256" and "r4 = (b3 + 254 + c3) mod 256"
  have s: "b0 + 255 = 256 * c1 + r1" "b1 + 254 + c1 = 256 * c2 + r2" "b2 + 254 + c2 = 256 * c3 + r3"
     "b3 + 254 + c3 = 256 * c4 + r4"
    by (simp_all add: c1_def c2_def c3_def c4_def r1_def r2_def r3_def r4_def)
  have r: "r1 < 256" "r2 < 256" "r3 < 256" "r4 < 256" by (simp_all add: r1_def r2_def r3_def r4_def)
  have S: "W + 0xfefefeff = r1 + 256 * (r2 + 256 * (r3 + 256 * (r4 + 256 * c4)))"
    using s W by simp
  have w: "W div 2 ^ 8 = b1 + 256 * (b2 + 256 * b3)" "W div 2 ^ 16 = b2 + 256 * b3" "W div 2 ^ 24 = b3"
    using assms by simp_all
  have t: "(W + 0xfefefeff) div 2 ^ 8 = r2 + 256 * (r3 + 256 * (r4 + 256 * c4))"
    "(W + 0xfefefeff) div 2 ^ 16 = r3 + 256 * (r4 + 256 * c4)" "(W + 0xfefefeff) div 2 ^ 24 = r4 + 256 * c4"
    unfolding S using r by simp_all
  have c1: "c1 = (if b0 = 0 then 0 else 1)" using assms(1) unfolding c1_def by (cases "b0 = 0") auto
  then have l1: "c1 \<le> 1" by simp
  note c2 = byte_carry [OF assms(2) l1, folded c2_def]
  then have l2: "c2 \<le> 1" by simp
  note c3 = byte_carry [OF assms(3) l2, folded c3_def]
  then have l3: "c3 \<le> 1" by simp
  note c4 = byte_carry [OF assms(4) l3, folded c4_def]
  have o: "odd c \<longleftrightarrow> c = 1" if "c \<le> 1" for c :: nat using that by (cases c) auto
  have "odd (b1 + c1) \<longleftrightarrow> odd r2" "odd (b2 + c2) \<longleftrightarrow> odd r3" "odd (b3 + c3) \<longleftrightarrow> odd r4"
    using s(2-4) [THEN arg_cong [where f = odd]] by simp_all
  then have p: "odd ((W + 0xfefefeff) div 2 ^ 8) \<noteq> odd (W div 2 ^ 8) \<longleftrightarrow> odd c1"
    "odd ((W + 0xfefefeff) div 2 ^ 16) \<noteq> odd (W div 2 ^ 16) \<longleftrightarrow> odd c2"
    "odd ((W + 0xfefefeff) div 2 ^ 24) \<noteq> odd (W div 2 ^ 24) \<longleftrightarrow> odd c3"
    unfolding w t by simp_all argo+
  have "2 ^ 32 \<le> W + 0xfefefeff \<longleftrightarrow> c4 \<noteq> 0"
    unfolding S using r by (cases c4) auto
  moreover have "c4 \<noteq> 0 \<and> c1 = 1 \<and> c2 = 1 \<and> c3 = 1 \<longleftrightarrow> b0 \<noteq> 0 \<and> b1 \<noteq> 0 \<and> b2 \<noteq> 0 \<and> b3 \<noteq> 0"
  proof -
    have "c1 = 1 \<longleftrightarrow> b0 \<noteq> 0" using c1 by simp
    moreover have "c2 = 1 \<longleftrightarrow> b1 \<noteq> 0" if "c1 = 1" using c2 that by simp
    moreover have "c3 = 1 \<longleftrightarrow> b2 \<noteq> 0" if "c2 = 1" using c3 that by simp
    moreover have "c4 \<noteq> 0 \<longleftrightarrow> b3 \<noteq> 0" if "c3 = 1" using c4 that by simp
    ultimately show ?thesis by blast
  qed
  ultimately show ?thesis unfolding p o [OF l1] o [OF l2] o [OF l3] by blast
qed

lemma word_trick:
  "2 ^ 32 \<le> unat (load32 m a) + unat magic \<and> and (xor (not (load32 m a)) (load32 m a + magic)) (not magic) = 0
   \<longleftrightarrow> m a \<noteq> 0 \<and> m (a + 1) \<noteq> 0 \<and> m (a + 2) \<noteq> 0 \<and> m (a + 3) \<noteq> 0"
proof -
  let ?w = "load32 m a" let ?W = "unat ?w"
  have lt: "unat b < 256" for b :: byte using unsigned_less [where 'a = nat, of b] by simp
  have M: "unat magic = 0xfefefeff" "not magic = 0x01010100" by (simp_all add: magic_def)
  have bits: "bit (xor (not ?w) (?w + magic)) i \<longleftrightarrow> odd (?W div 2 ^ i) = odd ((?W + 0xfefefeff) div 2 ^ i)" if "i < 32" for i
  proof -
    have "bit ?w i \<longleftrightarrow> odd (?W div 2 ^ i)"
      using bit_unsigned_iff [where 'a = nat, of ?w i] by (simp add: bit_iff_odd possible_bit_def)
    moreover have "bit (?w + magic) i \<longleftrightarrow> odd ((?W + 0xfefefeff) div 2 ^ i)"
    proof -
      have "?w + magic = of_nat (?W + 0xfefefeff)" by (simp add: magic_def)
      then show ?thesis using that by (simp only: bit_of_nat_iff) (simp add: bit_iff_odd possible_bit_def)
    qed
    ultimately show ?thesis using that by (simp add: bit_xor_iff bit_not_iff possible_bit_def)
  qed
  show ?thesis
    unfolding M mask3 using carries [OF lt lt lt lt unat_load32 [of m a]] bits [of 8] bits [of 16] bits [of 24]
    by (simp add: unat_eq_0) blast
qed

section \<open>The points of the program\<close>

fun unrolled :: "nat \<Rightarrow> lbl insn list" where
  "unrolled 0 = check_word @ [J Z L1] @ [Label L3] @ strlen_find @ [Label L2] @ strlen_epilogue"
| "unrolled (Suc n) = check_word @ [J NZ L3] @ unrolled n"

lemma unrolled_3: "unrolled 3 = check_word @ [J NZ L3] @ check_word @ [J NZ L3] @ check_word @ [J NZ L3] @ check_word @ [J Z L1]
     @ [Label L3] @ strlen_find @ [Label L2] @ strlen_epilogue"
  by (simp add: numeral_3_eq_3)

lemma strlen_code_3: "strlen_code = strlen_prologue @ [Label Strlen_begin_impl] @ strlen_align @ [Label L1] @ unrolled 3"
  unfolding unrolled_3 strlen_code_def by simp

lemma strlen_labels:
  "at_label Strlen_instr strlen_code =
     [Xor_rr EBX EBX, Xor_rr ESI ESI, Xor_rr EDI EDI, Xor_rr EBP EBP, Push_i 1, Label Strlen_begin_impl]
     @ strlen_align @ [Label L1] @ unrolled 3"
  "at_label Strlen_begin_impl strlen_code = strlen_align @ [Label L1] @ unrolled 3"
  "at_label L0 strlen_code = [Cmpb_rm DH EAX, J Z L2, Inc EAX, Xor_rr EDX EDX, Label L1] @ unrolled 3"
  "at_label L1 strlen_code = unrolled 3"
  "at_label L3 strlen_code = strlen_find @ [Label L2] @ strlen_epilogue"
  "at_label L2 strlen_code = strlen_epilogue"
  "at_label Done strlen_code = [Sub_mr STR_ARG ESP EAX, Ret]"
  unfolding unrolled_3 strlen_code_def
  by (simp_all add: strlen_prologue_def strlen_align_def check_word_def strlen_find_def strlen_epilogue_def)

definition same_frame :: "cpu \<Rightarrow> cpu \<Rightarrow> bool" where
  "same_frame s t \<longleftrightarrow> mem t = mem s \<and> (\<forall>r\<in>{ESP, EBX, ESI, EDI, EBP}. rd r t = rd r s)"

section \<open>The search by words\<close>

lemma negated: "- w - 1 = not (w :: u32)"
  by (simp add: not_eq_complement)

definition holds_zero :: "(u32 \<Rightarrow> byte) \<Rightarrow> u32 \<Rightarrow> bool" where
  "holds_zero m a \<longleftrightarrow> m a = 0 \<or> m (a + 1) = 0 \<or> m (a + 2) = 0 \<or> m (a + 3) = 0"

lemma check_word_skips:
  assumes "rd EDX s = 0" "\<not> holds_zero (mem s) (rd EAX s)"
  obtains t where "\<And>f rest. run f callee int80 strlen_code (check_word @ rest) s = run f callee int80 strlen_code rest t"
    "zf t" "rd EDX t = 0" "rd EAX t = rd EAX s + 4" "same_frame s t"
proof -
  note w = word_trick [of "mem s" "rd EAX s"]
  have w1: "2 ^ 32 \<le> unat (load32 (mem s) (rd EAX s)) + unat magic"
    and w2: "and (xor (not (load32 (mem s) (rd EAX s))) (load32 (mem s) (rd EAX s) + magic)) (not magic) = 0"
    using w assms(2) by (auto simp: holds_zero_def)
  let ?t = "fold exec (filter (\<lambda>i. i \<noteq> J NC L3) check_word) s"
  have "run f callee int80 strlen_code (check_word @ rest) s = run f callee int80 strlen_code rest ?t" for f rest
    using w1 assms(1) by (simp add: check_word_def)
  moreover have "zf ?t" "rd EDX ?t = 0" "rd EAX ?t = rd EAX s + 4" "same_frame s ?t"
    using w2 assms(1) by (simp_all add: check_word_def negated same_frame_def)
  ultimately show thesis by (rule that)
qed

lemma check_word_finds:
  assumes "rd EDX s = 0" "holds_zero (mem s) (rd EAX s)"
  obtains (carry) t where
    "\<And>f rest. run (Suc f) callee int80 strlen_code (check_word @ rest) s
       = run f callee int80 strlen_code (at_label L3 strlen_code) t"
    "rd EAX t = rd EAX s + 4" "rd ECX t = load32 (mem s) (rd EAX s) + magic" "same_frame s t"
  | (hole) t where
    "\<And>f rest. run f callee int80 strlen_code (check_word @ rest) s = run f callee int80 strlen_code rest t"
    "\<not> zf t" "rd EAX t = rd EAX s + 4" "rd ECX t = load32 (mem s) (rd EAX s) + magic" "same_frame s t"
proof (cases "2 ^ 32 \<le> unat (load32 (mem s) (rd EAX s)) + unat magic")
  case True
  then have w: "and (xor (not (load32 (mem s) (rd EAX s))) (load32 (mem s) (rd EAX s) + magic)) (not magic) \<noteq> 0"
    using word_trick [of "mem s" "rd EAX s"] assms(2) by (auto simp: holds_zero_def)
  let ?t = "fold exec (filter (\<lambda>i. i \<noteq> J NC L3) check_word) s"
  have "run f callee int80 strlen_code (check_word @ rest) s = run f callee int80 strlen_code rest ?t" for f rest
    using True assms(1) by (simp add: check_word_def)
  moreover have "\<not> zf ?t" "rd EAX ?t = rd EAX s + 4" "rd ECX ?t = load32 (mem s) (rd EAX s) + magic" "same_frame s ?t"
    using w assms(1) by (simp_all add: check_word_def negated same_frame_def)
  ultimately show thesis by (rule hole)
next
  case False
  let ?t = "fold exec (take 5 check_word) s"
  have "run (Suc f) callee int80 strlen_code (check_word @ rest) s
      = run f callee int80 strlen_code (at_label L3 strlen_code) ?t" for f rest
    using False assms(1) by (simp add: check_word_def)
  moreover have "rd EAX ?t = rd EAX s + 4" "rd ECX ?t = load32 (mem s) (rd EAX s) + magic" "same_frame s ?t"
    using assms(1) by (simp_all add: check_word_def same_frame_def)
  ultimately show thesis by (rule carry)
qed

abbreviation strlen_reaches where
  "strlen_reaches callee int80 \<equiv> reaches callee int80 strlen_code"

text \<open>From any of the unrolled iterations: a word without zero leads to the next one, a word with a zero to \<open>L(3)\<close>.\<close>

lemma unrolled_skips:
  assumes "rd EDX s = 0" "\<not> holds_zero (mem s) (rd EAX s)" "i \<le> 3"
  obtains i' t where "i' \<le> 3" "strlen_reaches callee int80 1 (unrolled i) s (unrolled i') t"
    "rd EDX t = 0" "rd EAX t = rd EAX s + 4" "same_frame s t"
proof -
  obtain t where t: "\<And>f rest. run f callee int80 strlen_code (check_word @ rest) s = run f callee int80 strlen_code rest t"
    "zf t" "rd EDX t = 0" "rd EAX t = rd EAX s + 4" "same_frame s t"
    using assms(1,2) by (rule check_word_skips) (rule that)
  show thesis
  proof (cases i)
    case 0
    have "strlen_reaches callee int80 1 (unrolled i) s (unrolled 3) t"
      by (rule reachesI [where j = 1]) (simp_all add: 0 t(1,2) strlen_labels)
    with t(3-5) show thesis by (intro that [of 3]) simp_all
  next
    case (Suc k)
    have "strlen_reaches callee int80 1 (unrolled i) s (unrolled k) t"
      by (rule reachesI [where j = 0]) (simp_all add: Suc t(1,2))
    with t(3-5) Suc assms(3) show thesis by (intro that [of k]) simp_all
  qed
qed

lemma unrolled_finds:
  assumes "rd EDX s = 0" "holds_zero (mem s) (rd EAX s)"
  obtains t where "strlen_reaches callee int80 1 (unrolled i) s (at_label L3 strlen_code) t"
    "rd EAX t = rd EAX s + 4" "rd ECX t = load32 (mem s) (rd EAX s) + magic" "same_frame s t"
proof (rule check_word_finds [OF assms])
  fix t
  assume carry: "\<And>f rest. run (Suc f) callee int80 strlen_code (check_word @ rest) s
       = run f callee int80 strlen_code (at_label L3 strlen_code) t"
    "rd EAX t = rd EAX s + 4" "rd ECX t = load32 (mem s) (rd EAX s) + magic" "same_frame s t"
  have "strlen_reaches callee int80 1 (unrolled i) s (at_label L3 strlen_code) t"
    by (rule reachesI [where j = 1]) (cases i; simp add: carry(1))+
  then show thesis using carry(2-4) by (rule that)
next
  fix t
  assume hole: "\<And>f rest. run f callee int80 strlen_code (check_word @ rest) s = run f callee int80 strlen_code rest t"
    "\<not> zf t" "rd EAX t = rd EAX s + 4" "rd ECX t = load32 (mem s) (rd EAX s) + magic" "same_frame s t"
  have "strlen_reaches callee int80 1 (unrolled i) s (at_label L3 strlen_code) t"
  proof (cases i)
    case 0
    show ?thesis by (rule reachesI [where j = 0]) (simp_all add: 0 hole(1,2) strlen_labels)
  next
    case (Suc k)
    show ?thesis by (rule reachesI [where j = 1]) (simp_all add: Suc hole(1,2))
  qed
  then show thesis using hole(3-5) by (rule that)
qed

lemma same_frame_trans: "same_frame s t \<Longrightarrow> same_frame t u \<Longrightarrow> same_frame s u"
  by (simp add: same_frame_def)

lemma less_4_cases: "(\<exists>j<4::nat. P j) \<longleftrightarrow> P 0 \<or> P 1 \<or> P 2 \<or> P 3"
  by (auto simp: numeral_eq_Suc less_Suc_eq)

lemma holds_zero_string:
  assumes "cstring m p n" "k \<le> n"
  shows "holds_zero m (p + of_nat k) \<longleftrightarrow> n < k + 4"
proof -
  have z: "holds_zero m (p + of_nat k) \<longleftrightarrow> (\<exists>j<4. m (p + of_nat (k + j)) = 0)"
    unfolding less_4_cases holds_zero_def by (simp add: ac_simps)
  show ?thesis
  proof
    assume "holds_zero m (p + of_nat k)"
    then obtain j where "j < 4" "m (p + of_nat (k + j)) = 0" unfolding z by blast
    moreover from this(2) have "\<not> k + j < n" using assms(1) unfolding cstring_def by blast
    ultimately show "n < k + 4" by linarith
  next
    assume "n < k + 4"
    moreover have "m (p + of_nat (k + (n - k))) = 0" using assms unfolding cstring_def by simp
    ultimately show "holds_zero m (p + of_nat k)" unfolding z using assms(2) by (intro exI [of _ "n - k"]) simp
  qed
qed

lemma words_search:
  assumes "cstring (mem s) p n" "k \<le> n" "rd EAX s = p + of_nat k" "rd EDX s = 0" "i \<le> 3"
  shows "\<exists>t k'. strlen_reaches callee int80 (n - k + 1) (unrolled i) s (at_label L3 strlen_code) t \<and> same_frame s t
    \<and> k' \<le> n \<and> n < k' + 4 \<and> k \<le> k' \<and> 4 dvd k' - k
    \<and> rd EAX t = p + of_nat k' + 4 \<and> rd ECX t = load32 (mem s) (p + of_nat k') + magic"
  using assms
proof (induction "n - k" arbitrary: k s i rule: less_induct)
  case less
  show ?case
  proof (cases "n < k + 4")
    case True
    then have z: "holds_zero (mem s) (rd EAX s)" using holds_zero_string [OF less.prems(1,2)] less.prems(3) by simp
    obtain t where t: "strlen_reaches callee int80 1 (unrolled i) s (at_label L3 strlen_code) t"
      "rd EAX t = rd EAX s + 4" "rd ECX t = load32 (mem s) (rd EAX s) + magic" "same_frame s t"
      using less.prems(4) z by (rule unrolled_finds)
    show ?thesis using t(2-4) reaches_mono [OF t(1), of "n - k + 1"] True less.prems(2,3) by (intro exI [of _ t] exI [of _ k]) simp
  next
    case False
    then have z: "\<not> holds_zero (mem s) (rd EAX s)" using holds_zero_string [OF less.prems(1,2)] less.prems(3) by simp
    obtain i' t where t: "i' \<le> 3" "strlen_reaches callee int80 1 (unrolled i) s (unrolled i') t"
      "rd EDX t = 0" "rd EAX t = rd EAX s + 4" "same_frame s t"
      using less.prems(4) z less.prems(5) by (rule unrolled_skips)
    have m: "mem t = mem s" using t(5) by (simp add: same_frame_def)
    have "\<exists>u k'. strlen_reaches callee int80 (n - (k + 4) + 1) (unrolled i') t (at_label L3 strlen_code) u \<and> same_frame t u
      \<and> k' \<le> n \<and> n < k' + 4 \<and> k + 4 \<le> k' \<and> 4 dvd k' - (k + 4)
      \<and> rd EAX u = p + of_nat k' + 4 \<and> rd ECX u = load32 (mem t) (p + of_nat k') + magic"
      using False less.prems t(1,3,4) m by (intro less.hyps) simp_all
    then obtain u k' where u: "strlen_reaches callee int80 (n - (k + 4) + 1) (unrolled i') t (at_label L3 strlen_code) u"
      "same_frame t u" "k' \<le> n" "n < k' + 4" "k + 4 \<le> k'" "4 dvd k' - (k + 4)"
      "rd EAX u = p + of_nat k' + 4" "rd ECX u = load32 (mem t) (p + of_nat k') + magic" by blast
    have "4 dvd k' - k" using u(5,6) by presburger
    moreover have "strlen_reaches callee int80 (n - k + 1) (unrolled i) s (at_label L3 strlen_code) u"
      by (rule reaches_mono [OF reaches_trans [OF t(2) u(1)]]) (use False in arith)
    ultimately show ?thesis using u same_frame_trans [OF t(5) u(2)] m by (intro exI [of _ u] exI [of _ k']) simp
  qed
qed

section \<open>The zero byte of a word\<close>

lemma find_byte:
  assumes "cstring (mem s) p n" "k \<le> n" "n < k + 4"
    "rd EAX s = p + of_nat k + 4" "rd ECX s = load32 (mem s) (p + of_nat k) + magic"
  obtains t where "strlen_reaches callee int80 1 (at_label L3 strlen_code) s strlen_epilogue t"
    "rd EAX t = p + of_nat n" "mem t = mem s" "rd ESP t = rd ESP s" "rd EBX t = rd EBX s + 1"
    "rd ESI t = rd ESI s + of_bool (1 \<le> n - k)" "rd EDI t = rd EDI s + of_bool (2 \<le> n - k)"
    "rd EBP t = rd EBP s + of_bool (3 \<le> n - k)"
proof -
  let ?a = "p + of_nat k"
  obtain j where n: "n = k + j" using assms(2) by (metis le_Suc_ex)
  have b: "mem s (?a + of_nat i) \<noteq> 0" if "i < j" for i
    using assms(1) that unfolding cstring_def n by (metis add_less_cancel_left add.assoc of_nat_add)
  have z: "mem s (?a + of_nat j) = 0" using assms(1) unfolding cstring_def n by (simp add: add.assoc)
  have "j = 0 \<or> j = 1 \<or> j = 2 \<or> j = 3" using assms(3) n by linarith
  then show thesis
  proof (elim disjE)
    assume [simp]: "j = 0"
    let ?t = "fold exec (take 4 strlen_find) s"
    have "strlen_reaches callee int80 1 (at_label L3 strlen_code) s strlen_epilogue ?t"
      by (rule reachesI [where j = 1])
        (use z assms(4,5) in \<open>simp_all add: strlen_labels strlen_find_def load32_bytes\<close>)
    then show thesis by (rule that) (use assms(4,5) in \<open>simp_all add: strlen_find_def n\<close>)
  next
    assume [simp]: "j = 1"
    let ?t = "fold exec (filter (\<lambda>i. i \<noteq> J Z L2) (take 8 strlen_find)) s"
    have "strlen_reaches callee int80 1 (at_label L3 strlen_code) s strlen_epilogue ?t"
      by (rule reachesI [where j = 1])
        (use z b [of 0] assms(4,5) in \<open>simp_all add: strlen_labels strlen_find_def load32_bytes\<close>)
    then show thesis by (rule that) (use assms(4,5) in \<open>simp_all add: strlen_find_def n\<close>)
  next
    assume [simp]: "j = 2"
    let ?t = "fold exec (filter (\<lambda>i. i \<noteq> J Z L2) (take 13 strlen_find)) s"
    have "strlen_reaches callee int80 1 (at_label L3 strlen_code) s strlen_epilogue ?t"
      by (rule reachesI [where j = 1])
        (use z b [of 0] b [of 1] assms(4,5) in \<open>simp_all add: strlen_labels strlen_find_def load32_bytes\<close>)
    then show thesis by (rule that) (use assms(4,5) in \<open>simp_all add: strlen_find_def n\<close>)
  next
    assume [simp]: "j = 3"
    let ?t = "fold exec (filter (\<lambda>i. i \<noteq> J Z L2) strlen_find) s"
    have "strlen_reaches callee int80 1 (at_label L3 strlen_code) s strlen_epilogue ?t"
      by (rule reachesI [where j = 0])
        (use z b [of 0] b [of 1] b [of 2] assms(4,5) in \<open>simp_all add: strlen_labels strlen_find_def load32_bytes\<close>)
    then show thesis by (rule that) (use assms(4,5) in \<open>simp_all add: strlen_find_def n\<close>)
  qed
qed

section \<open>The bytes before the first aligned word\<close>

text \<open>The number of bytes up to the first aligned address.\<close>

definition unaligned :: "u32 \<Rightarrow> nat" where
  "unaligned p = (4 - unat p mod 4) mod 4"

abbreviation strlen_begin :: "lbl insn list" where
  "strlen_begin \<equiv> strlen_align @ [Label L1] @ unrolled 3"

lemma low_bits: "unat (and (3 :: u32) p) = unat p mod 4"
proof -
  have "and 3 p = take_bit 2 p" by (simp add: take_bit_eq_mask mask_eq_exp_minus_1 and.commute)
  then show ?thesis by (simp only: unsigned_take_bit_eq) (simp add: take_bit_eq_mod)
qed

lemma low_bits_cases:
  obtains "and 3 p = 0" "unaligned p = 0" | "and 3 p = 1" "unaligned p = 3"
  | "and 3 p = 2" "unaligned p = 2" | "and 3 p = (3 :: u32)" "unaligned p = 1"
proof -
  have e: "and 3 p = c \<longleftrightarrow> unat p mod 4 = unat c" for c by (simp add: word_unat_eq_iff low_bits)
  have "unat p mod 4 = 0 \<or> unat p mod 4 = 1 \<or> unat p mod 4 = 2 \<or> unat p mod 4 = 3" by linarith
  then show thesis using that unfolding e unaligned_def by auto
qed

lemma parity_low:
  "parity_even 0" "\<not> parity_even 1" "\<not> parity_even 2" "parity_even 3"
  by (simp_all add: parity_even_def upt_rec)

definition align_exit where
  "align_exit callee int80 s p n k \<longleftrightarrow>
     (if n < k
      then \<exists>t. strlen_reaches callee int80 2 strlen_begin s strlen_epilogue t \<and> rd EAX t = p + of_nat n \<and> same_frame s t
      else \<exists>t. strlen_reaches callee int80 2 strlen_begin s (unrolled 3) t \<and> rd EAX t = p + of_nat k \<and> rd EDX t = 0
        \<and> same_frame s t)"

lemma align_exitI:
  assumes "\<And>f. run (f + j) callee int80 strlen_code strlen_begin s
      = run f callee int80 strlen_code (if n < k then strlen_epilogue else unrolled 3) t" "j \<le> 2"
    "same_frame s t" "rd EAX t = p + of_nat (if n < k then n else k)" "n < k \<or> rd EDX t = 0"
  shows "align_exit callee int80 s p n k"
  using assms(2-) reachesI [OF assms(1,2)] unfolding align_exit_def by (auto split: if_splits)

lemma align_0:
  assumes "cstring (mem s) p n" "rd EAX s = p" "and 3 p = 0"
  shows "align_exit callee int80 s p n 0"
  by (rule align_exitI [where j = 1 and t = "fold exec (take 2 strlen_align) s"])
    (use assms in \<open>simp_all add: strlen_align_def same_frame_def strlen_labels\<close>)

lemma string_bytes:
  assumes "cstring m p n"
  shows "n = 0 \<Longrightarrow> m p = 0" "0 < n \<Longrightarrow> m p \<noteq> 0" "n = 1 \<Longrightarrow> m (p + 1) = 0" "1 < n \<Longrightarrow> m (p + 1) \<noteq> 0"
    "n = 2 \<Longrightarrow> m (2 + p) = 0" "2 < n \<Longrightarrow> m (2 + p) \<noteq> 0"
  using assms unfolding cstring_def by (fastforce simp: add.commute [of 2] dest: spec [of _ 0] spec [of _ 1] spec [of _ 2])+

lemma align_1:
  assumes "cstring (mem s) p n" "rd EAX s = p" "and 3 p = 3"
  shows "align_exit callee int80 s p n 1"
proof (cases "n = 0")
  case True
  show ?thesis
    by (rule align_exitI [where j = 2 and t = "fold exec (take 2 strlen_align @ [Cmpb_rm DH EAX]) s"])
      (use True assms string_bytes(1) [OF assms(1)] in \<open>simp_all add: strlen_align_def same_frame_def strlen_labels parity_low\<close>)
next
  case False
  show ?thesis
    by (rule align_exitI [where j = 1 and t = "fold exec (take 2 strlen_align @ [Cmpb_rm DH EAX, Inc EAX, Xor_rr EDX EDX]) s"])
      (use False assms string_bytes(2) [OF assms(1)] in \<open>simp_all add: strlen_align_def same_frame_def strlen_labels parity_low\<close>)
qed

definition byte_test :: "lbl insn list" where
  "byte_test = [Cmpb_rm DH EAX, Inc EAX]"

lemma align_2:
  assumes "cstring (mem s) p n" "rd EAX s = p" "and 3 p = 2"
  shows "align_exit callee int80 s p n 2"
proof -
  note eval = strlen_align_def same_frame_def strlen_labels parity_low byte_test_def
  note b = string_bytes [OF assms(1)]
  consider "n = 0" | "n = 1" | "2 \<le> n" by linarith
  then show ?thesis
  proof cases
    case 1
    show ?thesis
      by (rule align_exitI [where j = 1 and t = "fold exec (take 2 strlen_align @ [Cmpb_rm DH EAX]) s"])
        (use 1 assms b(1) in \<open>simp_all add: eval\<close>)
  next
    case 2
    show ?thesis
      by (rule align_exitI [where j = 1 and t = "fold exec (take 2 strlen_align @ byte_test @ [Cmpb_rm DH EAX]) s"])
        (use 2 assms b(2,3) in \<open>simp_all add: eval\<close>)
  next
    case 3
    show ?thesis
      by (rule align_exitI [where j = 1 and t = "fold exec (take 2 strlen_align @ byte_test @ byte_test @ [Xor_ir 2 EDX]) s"])
        (use 3 assms b(2,4) in \<open>simp_all add: eval\<close>)
  qed
qed

lemma align_3:
  assumes "cstring (mem s) p n" "rd EAX s = p" "and 3 p = 1"
  shows "align_exit callee int80 s p n 3"
proof -
  note eval = strlen_align_def same_frame_def strlen_labels parity_low byte_test_def
  note b = string_bytes [OF assms(1)]
  consider "n = 0" | "n = 1" | "n = 2" | "3 \<le> n" by linarith
  then show ?thesis
  proof cases
    case 1
    show ?thesis
      by (rule align_exitI [where j = 1 and t = "fold exec (take 2 strlen_align @ [Cmpb_rm DH EAX]) s"])
        (use 1 assms b(1) in \<open>simp_all add: eval\<close>)
  next
    case 2
    show ?thesis
      by (rule align_exitI [where j = 1 and t = "fold exec (take 2 strlen_align @ byte_test @ [Cmpb_rm DH EAX]) s"])
        (use 2 assms b(2,3) in \<open>simp_all add: eval\<close>)
  next
    case 3
    show ?thesis
      by (rule align_exitI [where j = 1 and
            t = "fold exec (take 2 strlen_align @ byte_test @ byte_test @ [Xor_ir 2 EDX, Cmpb_rm DH EAX]) s"])
        (use 3 assms b(2,4,5) in \<open>simp_all add: eval\<close>)
  next
    case 4
    show ?thesis
      by (rule align_exitI [where j = 0 and
            t = "fold exec (take 2 strlen_align @ byte_test @ byte_test @ [Xor_ir 2 EDX] @ byte_test @ [Xor_rr EDX EDX]) s"])
        (use 4 assms b(2,4,6) in \<open>simp_all add: eval\<close>)
  qed
qed

lemma align_reaches:
  assumes "cstring (mem s) p n" "rd EAX s = p"
  shows "align_exit callee int80 s p n (unaligned p)"
proof (rule low_bits_cases [of p])
  assume c: "and 3 p = 0" "unaligned p = 0"
  show ?thesis unfolding c(2) using assms c(1) by (rule align_0)
next
  assume c: "and 3 p = 1" "unaligned p = 3"
  show ?thesis unfolding c(2) using assms c(1) by (rule align_3)
next
  assume c: "and 3 p = 2" "unaligned p = 2"
  show ?thesis unfolding c(2) using assms c(1) by (rule align_2)
next
  assume c: "and 3 p = 3" "unaligned p = 1"
  show ?thesis unfolding c(2) using assms c(1) by (rule align_1)
qed

section \<open>The search\<close>

text \<open>Whether the test of byte \<open>i\<close> of the last word is reached.\<close>

definition zero_test :: "u32 \<Rightarrow> nat \<Rightarrow> nat \<Rightarrow> u32" where
  "zero_test p n i = of_bool (unaligned p \<le> n \<and> i \<le> (n - unaligned p) mod 4)"

lemma search_reaches:
  assumes "cstring (mem s) p n" "rd EAX s = p"
  obtains t where "strlen_reaches callee int80 (n + 4) strlen_begin s strlen_epilogue t"
    "rd EAX t = p + of_nat n" "mem t = mem s" "rd ESP t = rd ESP s" "rd EBX t = rd EBX s + zero_test p n 0"
    "rd ESI t = rd ESI s + zero_test p n 1" "rd EDI t = rd EDI s + zero_test p n 2"
    "rd EBP t = rd EBP s + zero_test p n 3"
proof (cases "n < unaligned p")
  case True
  then obtain t where "strlen_reaches callee int80 2 strlen_begin s strlen_epilogue t"
    "rd EAX t = p + of_nat n" "same_frame s t"
    using align_reaches [OF assms, of callee int80] unfolding align_exit_def by auto
  with True show thesis
    by (intro that [of t]) (auto simp: same_frame_def zero_test_def elim: reaches_mono)
next
  case False
  then obtain t where t: "strlen_reaches callee int80 2 strlen_begin s (unrolled 3) t"
    "rd EAX t = p + of_nat (unaligned p)" "rd EDX t = 0" "same_frame s t"
    using align_reaches [OF assms, of callee int80] unfolding align_exit_def by auto
  have m: "mem t = mem s" using t(4) by (simp add: same_frame_def)
  obtain u k where u: "strlen_reaches callee int80 (n - unaligned p + 1) (unrolled 3) t (at_label L3 strlen_code) u"
    "same_frame t u" "k \<le> n" "n < k + 4" "unaligned p \<le> k" "4 dvd k - unaligned p"
    "rd EAX u = p + of_nat k + 4" "rd ECX u = load32 (mem t) (p + of_nat k) + magic"
    using words_search [of t p n "unaligned p" 3 callee int80] assms(1) t(2,3) m False by auto
  have mu: "mem u = mem t" using u(2) by (simp add: same_frame_def)
  obtain v where v: "strlen_reaches callee int80 1 (at_label L3 strlen_code) u strlen_epilogue v"
    "rd EAX v = p + of_nat n" "mem v = mem u" "rd ESP v = rd ESP u" "rd EBX v = rd EBX u + 1"
    "rd ESI v = rd ESI u + of_bool (1 \<le> n - k)" "rd EDI v = rd EDI u + of_bool (2 \<le> n - k)"
    "rd EBP v = rd EBP u + of_bool (3 \<le> n - k)"
    by (rule find_byte [of u p n k callee int80]) (use assms(1) m mu u in simp_all)
  have "n - k = (n - unaligned p) mod 4"
  proof -
    obtain q where "k = unaligned p + 4 * q" using u(5,6) by (metis dvdE le_add_diff_inverse)
    then have "n - unaligned p = (n - k) + 4 * q" using u(3) by simp
    then have "(n - unaligned p) mod 4 = (n - k) mod 4" by (metis mod_mult_self2)
    then show ?thesis using u(3,4) by simp
  qed
  moreover have "strlen_reaches callee int80 (n + 4) strlen_begin s strlen_epilogue v"
    by (rule reaches_mono [OF reaches_trans [OF t(1) reaches_trans [OF u(1) v(1)]]]) (use False in arith)
  ultimately show thesis using v same_frame_trans [OF t(4) u(2)] False
    by (intro that [of v]) (simp_all add: same_frame_def zero_test_def)
qed

section \<open>Entry and exit\<close>

text \<open>The five words below the stack pointer that the routine may write.\<close>

definition scratch_words :: "u32 \<Rightarrow> u32 \<Rightarrow> bool" where
  "scratch_words e a \<longleftrightarrow> a - (e - 20) < 20"

lemma scratch_store:
  assumes "\<not> scratch_words e a" "c \<in> {4, 8, 12, 16, 20}"
  shows "store32 (e - c) w m a = m a"
proof (rule store32_outside)
  define d where "d = a - (e - 20)"
  have d: "20 \<le> unat d" using assms(1) by (simp add: scratch_words_def word_le_nat_alt not_less d_def)
  have e: "a - (e - c) = d - (20 - c)" by (simp add: algebra_simps d_def)
  have "unat (20 - c) \<le> 16" using assms(2) by (elim insertE emptyE; simp)
  moreover have "unat (d - x) = unat d - unat x" if "unat x \<le> 16" for x
    using d that by (simp add: unat_sub_if_size)
  ultimately show "4 \<le> a - (e - c)" unfolding e using d by (simp add: word_le_nat_alt)
qed

lemma cstring_cong:
  assumes "cstring m p n" "\<And>i. i \<le> n \<Longrightarrow> m' (p + of_nat i) = m (p + of_nat i)"
  shows "cstring m' p n"
  using assms unfolding cstring_def by simp

lemma load32_scratch:
  assumes "c \<in> {4, 8, 12, 16, 20}"
  shows "load32 (store32 (e - c) w m) (e + 4) = load32 m (e + 4)"
proof (rule load32_store32_other)
  have "e + 4 - (e - c) = 4 + c" "e - c - (e + 4) = - 4 - c" by (simp_all add: algebra_simps)
  moreover have "4 \<le> 4 + c" "4 \<le> - 4 - c" using assms by (elim insertE emptyE; simp)+
  ultimately show "4 \<le> e + 4 - (e - c)" "4 \<le> e - c - (e + 4)" by (simp_all only:)
qed

lemma load32_slots:
  assumes "c \<in> {4, 8, 12, 16, 20}" "c' \<in> {4, 8, 12, 16, 20}" "c \<noteq> c'"
  shows "load32 (store32 (e - c) w m) (e - c') = load32 m (e - c')"
proof (rule load32_store32_other)
  have "e - c' - (e - c) = c - c'" "e - c - (e - c') = c' - c" by (simp_all add: algebra_simps)
  moreover have "4 \<le> c - c'" "4 \<le> c' - c" using assms by (elim insertE emptyE; simp)+
  ultimately show "4 \<le> e - c' - (e - c)" "4 \<le> e - c - (e - c')" by (simp_all only:)
qed

lemma prologue_plain:
  assumes "rd EDI s \<noteq> 0xdeadd00d" "e = rd ESP s"
  obtains t where "strlen_reaches callee int80 1 strlen_code s strlen_begin t"
    "rd EAX t = load32 (mem s) (e + 4)" "rd ESP t = e - 20"
    "mem t = store32 (e - 20) 0 (store32 (e - 16) (rd EBP s) (store32 (e - 12) (rd EDI s)
       (store32 (e - 8) (rd ESI s) (store32 (e - 4) (rd EBX s) (mem s)))))"
proof -
  let ?t = "fold exec (filter (\<lambda>i. i \<noteq> J Z Strlen_instr) (take 8 strlen_prologue)) s"
  have "run (Suc f) callee int80 strlen_code strlen_code s = run f callee int80 strlen_code strlen_begin ?t" for f
    by (subst (2) strlen_code_3) (use assms in \<open>simp add: strlen_prologue_def strlen_labels\<close>)
  then have "strlen_reaches callee int80 1 strlen_code s strlen_begin ?t" by (intro reachesI [where j = 1]) simp_all
  then show thesis by (rule that) (simp_all add: strlen_prologue_def assms(2) STR_ARG_def)
qed

lemma prologue_instr:
  assumes "rd EDI s = 0xdeadd00d" "e = rd ESP s"
  obtains t where "strlen_reaches callee int80 1 strlen_code s strlen_begin t"
    "rd EAX t = load32 (mem s) (e + 4)" "rd ESP t = e - 4" "mem t = store32 (e - 4) 1 (mem s)"
    "rd EBX t = 0" "rd ESI t = 0" "rd EDI t = 0" "rd EBP t = 0"
proof -
  let ?t = "fold exec (take 2 strlen_prologue @ drop 10 strlen_prologue) s"
  have "run (Suc f) callee int80 strlen_code strlen_code s = run f callee int80 strlen_code strlen_begin ?t" for f
    by (subst (2) strlen_code_3) (use assms in \<open>simp add: strlen_prologue_def strlen_labels\<close>)
  then have "strlen_reaches callee int80 1 strlen_code s strlen_begin ?t" by (intro reachesI [where j = 1]) simp_all
  then show thesis by (rule that) (simp_all add: strlen_prologue_def assms(2) STR_ARG_def)
qed

lemma strlen_plain:
  assumes "rd EDI s \<noteq> 0xdeadd00d" "e = rd ESP s" "p = load32 (mem s) (e + 4)" "cstring (mem s) p n"
    "\<And>i. i \<le> n \<Longrightarrow> \<not> scratch_words e (p + of_nat i)" "n + 6 \<le> fuel"
  obtains r where "run fuel callee int80 strlen_code strlen_code s = Some r" "rd EAX r = of_nat n" "rd ESP r = e + 4"
    "rd EBX r = rd EBX s" "rd ESI r = rd ESI s" "rd EDI r = rd EDI s" "rd EBP r = rd EBP s"
    "\<And>a. \<not> scratch_words e a \<Longrightarrow> mem r a = mem s a"
proof -
  let ?m = "store32 (e - 20) 0 (store32 (e - 16) (rd EBP s) (store32 (e - 12) (rd EDI s)
       (store32 (e - 8) (rd ESI s) (store32 (e - 4) (rd EBX s) (mem s)))))"
  obtain t where t: "strlen_reaches callee int80 1 strlen_code s strlen_begin t"
    "rd EAX t = load32 (mem s) (e + 4)" "rd ESP t = e - 20" "mem t = ?m"
    using assms(1,2) by (rule prologue_plain)
  have keep: "?m a = mem s a" if "\<not> scratch_words e a" for a using that by (simp add: scratch_store)
  have str: "cstring (mem t) p n" unfolding t(4) using assms(4,5) keep by (blast intro: cstring_cong)
  have "rd EAX t = p" by (simp add: t(2) assms(3))
  with str obtain u where u: "strlen_reaches callee int80 (n + 4) strlen_begin t strlen_epilogue u"
    "rd EAX u = p + of_nat n" "mem u = mem t" "rd ESP u = rd ESP t"
    by (rule search_reaches)
  let ?r = "wr ESP (e + 4) (fold exec (filter (\<lambda>i. i \<noteq> J Z Done) (take 9 strlen_epilogue)) u)"
  have slots: "load32 ?m (e - 20) = 0" "load32 ?m (e - 16) = rd EBP s" "load32 ?m (e - 12) = rd EDI s"
    "load32 ?m (e - 8) = rd ESI s" "load32 ?m (e - 4) = rd EBX s" "load32 ?m (e + 4) = p"
    by (simp_all add: load32_slots load32_scratch assms(3))
  have "run (f + 0) callee int80 strlen_code strlen_epilogue u = Some ?r" for f
    using u(3,4) t(3,4) slots by (simp add: strlen_epilogue_def)
  then have "run fuel callee int80 strlen_code strlen_code s = Some ?r"
    by (rule reaches_result [OF reaches_trans [OF t(1) u(1)]]) (use assms(6) in simp)
  then show thesis
    by (rule that) (use u(2-4) t(3,4) slots keep in \<open>simp_all add: strlen_epilogue_def STR_ARG_def\<close>)
qed

lemma strlen_instr:
  assumes "rd EDI s = 0xdeadd00d" "e = rd ESP s" "p = load32 (mem s) (e + 4)" "cstring (mem s) p n"
    "\<And>i. i \<le> n \<Longrightarrow> \<not> scratch_words e (p + of_nat i)" "n + 6 \<le> fuel"
  obtains r where "run fuel callee int80 strlen_code strlen_code s = Some r" "rd EAX r = of_nat n" "rd ESP r = e + 4"
    "rd EBX r = zero_test p n 0" "rd ESI r = zero_test p n 1" "rd EDI r = zero_test p n 2" "rd EBP r = zero_test p n 3"
    "\<And>a. \<not> scratch_words e a \<Longrightarrow> mem r a = mem s a"
proof -
  let ?m = "store32 (e - 4) 1 (mem s)"
  obtain t where t: "strlen_reaches callee int80 1 strlen_code s strlen_begin t"
    "rd EAX t = load32 (mem s) (e + 4)" "rd ESP t = e - 4" "mem t = ?m"
    "rd EBX t = 0" "rd ESI t = 0" "rd EDI t = 0" "rd EBP t = 0"
    using assms(1,2) by (rule prologue_instr)
  have keep: "?m a = mem s a" if "\<not> scratch_words e a" for a using that by (simp add: scratch_store)
  have str: "cstring (mem t) p n" unfolding t(4) using assms(4,5) keep by (blast intro: cstring_cong)
  have "rd EAX t = p" by (simp add: t(2) assms(3))
  with str obtain u where u: "strlen_reaches callee int80 (n + 4) strlen_begin t strlen_epilogue u"
    "rd EAX u = p + of_nat n" "mem u = mem t" "rd ESP u = rd ESP t" "rd EBX u = rd EBX t + zero_test p n 0"
    "rd ESI u = rd ESI t + zero_test p n 1" "rd EDI u = rd EDI t + zero_test p n 2"
    "rd EBP u = rd EBP t + zero_test p n 3"
    by (rule search_reaches)
  let ?r = "wr ESP (e + 4) (fold exec ([Pop EDX, Cmp_ir 1 EDX, Sub_mr STR_ARG ESP EAX] :: lbl insn list) u)"
  have slots: "load32 ?m (e - 4) = 1" "load32 ?m (e + 4) = p" by (simp_all add: load32_scratch assms(3))
  have "run (f + 1) callee int80 strlen_code strlen_epilogue u = Some ?r" for f
    using u(3,4) t(3,4) slots by (simp add: strlen_epilogue_def strlen_labels)
  then have "run fuel callee int80 strlen_code strlen_code s = Some ?r"
    by (rule reaches_result [OF reaches_trans [OF t(1) u(1)]]) (use assms(6) in simp)
  then show thesis
    by (rule that) (use u(2-) t(3-) slots keep in \<open>simp_all add: STR_ARG_def\<close>)
qed

section \<open>Properties\<close>

text \<open>
  C12. The word-at-a-time routine returns, for a string anywhere in memory that the words it
  pushes do not overlap, exactly the number of bytes before the first zero byte,
  with the stack pointer above the return address and memory unchanged but for
  those words. A caller that does not ask for counters finds the registers that a
  callee has to save as they were. Every loop iteration moves on by a word, so that a
  budget of the length and six jumps is enough.
\<close>

theorem strlen_equals_length:
  assumes "cstring (mem s) (load32 (mem s) (rd ESP s + 4)) n"
    and "\<forall>i\<le>n. \<not> scratch_words (rd ESP s) (load32 (mem s) (rd ESP s + 4) + of_nat i)" and "n + 6 \<le> fuel"
  shows "\<exists>r. run fuel callee int80 strlen_code strlen_code s = Some r \<and> rd EAX r = of_nat n \<and> rd ESP r = rd ESP s + 4
    \<and> (\<forall>a. \<not> scratch_words (rd ESP s) a \<longrightarrow> mem r a = mem s a)
    \<and> (rd EDI s \<noteq> 0xdeadd00d \<longrightarrow> (\<forall>q\<in>{EBX, ESI, EDI, EBP}. rd q r = rd q s))"
proof (cases "rd EDI s = 0xdeadd00d")
  case True
  then show ?thesis
    by (rule strlen_instr [OF _ refl refl assms(1) _ assms(3)]) (use assms(2) True in auto)
next
  case False
  then show ?thesis
    by (rule strlen_plain [OF _ refl refl assms(1) _ assms(3)]) (use assms(2) False in auto)
qed

definition hello_cpu :: "u32 \<Rightarrow> cpu" where
  "hello_cpu edi = \<lparr>regs = (\<lambda>r. if r = ESP then 0x8000 else if r = EDI then edi else 7), cf = False, zf = False, pf = False,
     mem = (\<lambda>a. if a = 0x8005 then 2 else if a = 0x8004 then 1 else if a = 0x201 \<or> a = 0x202 then 65 else 0)\<rparr>"

lemma all_le_2: "(\<forall>i\<le>2::nat. P i) \<longleftrightarrow> P 0 \<and> P 1 \<and> P 2" "(\<forall>i<2::nat. P i) \<longleftrightarrow> P 0 \<and> P 1"
  by (auto simp: numeral_2_eq_2 le_Suc_eq less_Suc_eq)

lemma hello_cpu_eval:
  "rd ESP (hello_cpu edi) = 0x8000" "rd EDI (hello_cpu edi) = edi" "rd EBX (hello_cpu edi) = 7"
  "load32 (mem (hello_cpu edi)) 0x8004 = 0x201" "cstring (mem (hello_cpu edi)) 0x201 2"
  "\<forall>i\<le>2. \<not> scratch_words 0x8000 (0x201 + of_nat i)"
  unfolding cstring_def all_le_2
  by (simp_all add: hello_cpu_def rd_def load32_def scratch_words_def)

theorem strlen_equals_length_witness:
  "\<exists>r. run 8 (\<lambda>_ s. s) (\<lambda>s. s) strlen_code strlen_code (hello_cpu 0) = Some r \<and> rd EAX r = 2 \<and> rd EBX r = 7"
  using strlen_equals_length [of "hello_cpu 0" 2 8 "\<lambda>_ s. s" "\<lambda>s. s"] by (auto simp: hello_cpu_eval)

text \<open>
  A caller that passes the magic value in \<open>%edi\<close> receives in the four counters which of the
  zero tests of the last word the routine reached: none when the string ends before the
  first aligned word, otherwise those up to the byte of the last word that is zero.
\<close>

lemma strlen_counters:
  assumes "rd EDI s = 0xdeadd00d" and "p = load32 (mem s) (rd ESP s + 4)" and "cstring (mem s) p n"
    and "\<forall>i\<le>n. \<not> scratch_words (rd ESP s) (p + of_nat i)" and "n + 6 \<le> fuel"
  shows "\<exists>r. run fuel callee int80 strlen_code strlen_code s = Some r
    \<and> map (\<lambda>q. rd q r) [EBX, ESI, EDI, EBP] = map (\<lambda>i. of_bool (unaligned p \<le> n \<and> i \<le> (n - unaligned p) mod 4)) [0, 1, 2, 3]"
  by (rule strlen_instr [OF assms(1) refl assms(2,3) _ assms(5)]) (use assms(4) in \<open>auto simp: zero_test_def\<close>)

end
