(* ===== verification/Fputs.thy ===== *)
theory Fputs
  imports Strlen
begin

text \<open>
  The instrumented \<open>fputs\<close> (\<open>src/libc-libio-iofputs.c\<close>). Between two system calls that a
  tracer can stop at, it calls \<open>strlen\<close> with the magic value in \<open>%edi\<close>, so that the
  tracer finds the counters of \<open>strlen\<close> in the registers at the second one, and then goes on with the
  ordinary \<open>fputs\<close>. The body is assembly; the compiler adds the return. The stream
  operations of the C library are parameters.
\<close>

section \<open>The code\<close>

definition fputs_enter :: "unit insn list" where
  "fputs_enter = [Push EBP, Mov_rr ESP EBP, Mov_ir 0xe0 EAX]"

definition fputs_arm :: "unit insn list" where
  "fputs_arm = [Mov_mr 0x8 EBP EAX, Push EBX, Push ESI, Push EDI, Push EBP, Push EAX, Mov_ir 0xdeadd00d EDI]"

definition fputs_counted :: "unit insn list" where
  "fputs_counted = [Add_ir 0x4 ESP, Mov_ir 0x14 EAX]"

definition fputs_disarm :: "unit insn list" where
  "fputs_disarm = [Pop EBP, Pop EDI, Pop ESI, Pop EBX, Mov_mr 0xc EBP EAX, Push EAX, Mov_mr 0x8 EBP EAX, Push EAX]"

definition IO_fputs_code :: "u32 \<Rightarrow> u32 \<Rightarrow> unit insn list" where
  "IO_fputs_code strlen_wrapper_addr fputs_rest_addr =
     fputs_enter @ [Int80] @ fputs_arm @ [Call_i strlen_wrapper_addr] @ fputs_counted @ [Int80]
     @ fputs_disarm @ [Call_i fputs_rest_addr, Add_ir 0x8 ESP, Pop EBP, Ret]"

definition after_strlen :: "u32 \<Rightarrow> unit insn list" where
  "after_strlen fputs_rest_addr = [Int80] @ fputs_disarm @ [Call_i fputs_rest_addr, Add_ir 0x8 ESP, Pop EBP, Ret]"

text \<open>The wrapper calls \<open>strlen\<close> with its own argument; \<open>ret\<close> is the return address.\<close>

definition strlen_wrapper :: "nat \<Rightarrow> u32 \<Rightarrow> cpu \<Rightarrow> cpu" where
  "strlen_wrapper fuel ret s =
     (case run fuel (\<lambda>_ s. s) (\<lambda>s. s) strlen_code strlen_code (push ret s) of Some r \<Rightarrow> r | None \<Rightarrow> s)"

section \<open>The ordinary part\<close>

record 'w libio =
  io_check_file :: "u32 \<Rightarrow> 'w \<Rightarrow> bool"
  io_acquire_lock :: "u32 \<Rightarrow> 'w \<Rightarrow> 'w"
  io_release_lock :: "u32 \<Rightarrow> 'w \<Rightarrow> 'w"
  io_vtable_offset :: "u32 \<Rightarrow> 'w \<Rightarrow> int"
  io_fwide :: "u32 \<Rightarrow> int \<Rightarrow> 'w \<Rightarrow> int \<times> 'w"
  io_sputn :: "u32 \<Rightarrow> u32 \<Rightarrow> nat \<Rightarrow> 'w \<Rightarrow> nat \<times> 'w"

definition IO_fputs_rest :: "'w libio \<Rightarrow> nat \<Rightarrow> u32 \<Rightarrow> u32 \<Rightarrow> 'w \<Rightarrow> int \<times> 'w" where
  "IO_fputs_rest io len str fp w =
     (if \<not> io_check_file io fp w then (- 1, w)
      else let w1 = io_acquire_lock io fp w;
               (wide, w2) = (if io_vtable_offset io fp w1 \<noteq> 0 then (- 1, w1) else io_fwide io fp (- 1) w1);
               (result, w3) = (if wide = - 1
                  then let (k, w3) = io_sputn io fp str len w2 in (if k = len then 1 else - 1, w3)
                  else (- 1, w2))
           in (result, io_release_lock io fp w3))"

section \<open>What the code relies on\<close>

text \<open>The two system calls only change \<open>%eax\<close>; the rest of \<open>fputs\<close> follows the calling convention.\<close>

definition plain_syscall :: "(cpu \<Rightarrow> cpu) \<Rightarrow> bool" where
  "plain_syscall int80 \<longleftrightarrow> (\<forall>s. (\<forall>r. r \<noteq> EAX \<longrightarrow> rd r (int80 s) = rd r s) \<and> mem (int80 s) = mem s)"

definition cdecl2 :: "(u32 \<Rightarrow> u32 \<Rightarrow> u32) \<Rightarrow> (cpu \<Rightarrow> cpu) \<Rightarrow> bool" where
  "cdecl2 result f \<longleftrightarrow> (\<forall>s. (\<forall>r\<in>{EBX, ESI, EDI, EBP, ESP}. rd r (f s) = rd r s)
     \<and> rd EAX (f s) = result (load32 (mem s) (rd ESP s)) (load32 (mem s) (rd ESP s + 4))
     \<and> (\<forall>a. stack_above (rd ESP s + 8) a \<longrightarrow> mem (f s) a = mem s a))"

section \<open>The wrapper\<close>

lemma scratch_below:
  assumes "a - e < 2 ^ 30" "k \<le> 64"
  shows "\<not> scratch_words (e - k) a"
proof -
  have e: "a - (e - k - 20) = (a - e) + (k + 20)" by (simp add: algebra_simps)
  have u: "unat (a - e) < 2 ^ 30" "unat k \<le> 64" using assms by (simp_all add: word_less_nat_alt word_le_nat_alt)
  have "unat (k + 20) = unat k + 20" using unat_add_no_wrap [of k 20] u by simp
  then have "unat (a - e + (k + 20)) = unat (a - e) + (unat k + 20)"
    using unat_add_no_wrap [of "a - e" "k + 20"] u by simp
  then show ?thesis unfolding scratch_words_def e word_less_nat_alt by simp
qed

lemma strlen_wrapper_counts:
  assumes "rd EDI s = 0xdeadd00d" "e = rd ESP s" "p = load32 (mem s) e" "cstring (mem s) p n"
    "\<And>i. i \<le> n \<Longrightarrow> \<not> scratch_words (e - 4) (p + of_nat i)" "\<And>i. i \<le> n \<Longrightarrow> 4 \<le> p + of_nat i - (e - 4)" "n + 6 \<le> fuel"
  obtains r where "strlen_wrapper fuel ret s = r" "rd EAX r = of_nat n" "rd ESP r = e"
    "rd EBX r = zero_test p n 0" "rd ESI r = zero_test p n 1" "rd EDI r = zero_test p n 2" "rd EBP r = zero_test p n 3"
    "\<And>a. a - e < 2 ^ 30 \<Longrightarrow> mem r a = mem s a"
proof -
  let ?s = "push ret s"
  have esp: "e - 4 = rd ESP ?s" by (simp add: assms(2))
  have mem: "mem ?s = store32 (e - 4) ret (mem s)" by (simp add: assms(2))
  have p: "p = load32 (mem ?s) (e - 4 + 4)"
    unfolding mem assms(3) using load32_below [of 4 0 e ret "mem s"] by simp
  have str: "cstring (mem ?s) p n"
    by (rule cstring_cong [OF assms(4)]) (simp only: mem store32_outside assms(6))
  have edi: "rd EDI ?s = 0xdeadd00d" by (simp add: assms(1))
  obtain r where r: "run fuel (\<lambda>_ s. s) (\<lambda>s. s) strlen_code strlen_code ?s = Some r"
    "rd EAX r = of_nat n" "rd ESP r = e - 4 + 4"
    "rd EBX r = zero_test p n 0" "rd ESI r = zero_test p n 1" "rd EDI r = zero_test p n 2" "rd EBP r = zero_test p n 3"
    "\<And>a. \<not> scratch_words (e - 4) a \<Longrightarrow> mem r a = mem ?s a"
    by (rule strlen_instr [OF edi esp p str _ assms(7)], erule assms(5)) (rule that)
  have "mem r a = mem s a" if "a - e < 2 ^ 30" for a
  proof -
    have "mem r a = mem ?s a" using that by (intro r(8) scratch_below) simp_all
    also have "\<dots> = mem s a" unfolding mem using stack_above_shift [of a e 0] that by (simp add: store32_above)
    finally show ?thesis .
  qed
  moreover have "strlen_wrapper fuel ret s = r" by (simp add: strlen_wrapper_def r(1))
  ultimately show thesis using r(2-7) by (intro that [of r]) simp_all
qed

section \<open>The whole function\<close>

text \<open>The string at \<open>p\<close> does not overlap the stack below \<open>e\<close> that the function and \<open>strlen\<close> use.\<close>

definition off_stack :: "u32 \<Rightarrow> u32 \<Rightarrow> nat \<Rightarrow> bool" where
  "off_stack e p n \<longleftrightarrow> (\<forall>i\<le>n. 64 \<le> p + of_nat i - (e - 64))"

lemma off_stackD:
  assumes "off_stack e p n" "i \<le> n" "4 \<le> c" "c \<le> 64"
  shows "4 \<le> p + of_nat i - (e - c)"
proof -
  define d where "d = p + of_nat i - (e - 64)"
  have d: "64 \<le> unat d" using assms(1,2) by (simp add: off_stack_def d_def word_le_nat_alt)
  have c: "4 \<le> unat c" "unat c \<le> 64" using assms(3,4) by (simp_all add: word_le_nat_alt)
  have e: "p + of_nat i - (e - c) = d - (64 - c)" by (simp add: d_def algebra_simps)
  have "unat (64 - c) = 64 - unat c" using c by (simp add: unat_sub_if_size)
  then have "unat (d - (64 - c)) = unat d - (64 - unat c)" using d c by (simp add: unat_sub_if_size)
  then show ?thesis unfolding e word_le_nat_alt using d c by simp
qed

lemma off_stack_scratch:
  assumes "off_stack e p n" "i \<le> n" "c \<le> 44"
  shows "\<not> scratch_words (e - c) (p + of_nat i)"
proof -
  define d where "d = p + of_nat i - (e - 64)"
  have d: "64 \<le> unat d" using assms(1,2) by (simp add: off_stack_def d_def word_le_nat_alt)
  have c: "unat c \<le> 44" using assms(3) by (simp add: word_le_nat_alt)
  have e: "p + of_nat i - (e - c - 20) = d - (44 - c)" by (simp add: d_def algebra_simps)
  have "unat (44 - c) = 44 - unat c" using c by (simp add: unat_sub_if_size)
  then have "unat (d - (44 - c)) = unat d - (44 - unat c)" using d c by (simp add: unat_sub_if_size)
  then show ?thesis unfolding scratch_words_def e word_less_nat_alt using d c by simp
qed

definition fputs_callee :: "u32 \<Rightarrow> nat \<Rightarrow> u32 \<Rightarrow> (cpu \<Rightarrow> cpu) \<Rightarrow> u32 \<Rightarrow> cpu \<Rightarrow> cpu" where
  "fputs_callee strlen_addr fuel ret rest f = (if f = strlen_addr then strlen_wrapper fuel ret else rest)"

lemma near_shift:
  assumes "a - e < 2 ^ 29" "k \<le> 2 ^ 29"
  shows "a - (e - k) < (2 ^ 30 :: u32)"
proof -
  have e: "a - (e - k) = (a - e) + k" by (simp add: algebra_simps)
  have u: "unat (a - e) < 2 ^ 29" "unat k \<le> 2 ^ 29" using assms by (simp_all add: word_less_nat_alt word_le_nat_alt)
  then have "unat (a - e + k) < 2 ^ 30" using unat_add_no_wrap [of "a - e" k] by simp
  then show ?thesis unfolding e word_less_nat_alt by simp
qed

lemma load32_near:
  assumes "\<And>a. a - e < 2 ^ 30 \<Longrightarrow> m' a = m a" "k < 2 ^ 29"
  shows "load32 m' (e + k) = load32 m (e + k)"
proof (rule load32_cong)
  have "m' (e + k + j) = m (e + k + j)" if "j < 4" for j
  proof (rule assms(1))
    have "unat k < 2 ^ 29" "unat j < 4" using assms(2) that by (simp_all add: word_less_nat_alt)
    then have "unat (k + j) < 2 ^ 30" using unat_add_no_wrap [of k j] by simp
    then show "e + k + j - e < 2 ^ 30" by (simp add: word_less_nat_alt add.assoc)
  qed
  from this [of 0] this [of 1] this [of 2] this [of 3]
  show "m' (e + k) = m (e + k)" "m' (e + k + 1) = m (e + k + 1)" "m' (e + k + 2) = m (e + k + 2)"
    "m' (e + k + 3) = m (e + k + 3)" by simp_all
qed

text \<open>The words that the function has pushed when it calls \<open>strlen\<close>.\<close>

definition saved :: "u32 \<Rightarrow> u32 \<Rightarrow> cpu \<Rightarrow> u32 \<Rightarrow> byte" where
  "saved E p s = store32 (E - 24) p (store32 (E - 20) (E - 4) (store32 (E - 16) (rd EDI s) (store32 (E - 12) (rd ESI s)
    (store32 (E - 8) (rd EBX s) (store32 (E - 4) (rd EBP s) (mem s))))))"

lemma saved_slots:
  "load32 (saved E p s) (E - 24) = p" "load32 (saved E p s) (E - 20) = E - 4" "load32 (saved E p s) (E - 16) = rd EDI s"
  "load32 (saved E p s) (E - 12) = rd ESI s" "load32 (saved E p s) (E - 8) = rd EBX s" "load32 (saved E p s) (E - 4) = rd EBP s"
  by (simp_all add: saved_def load32_below)

lemma saved_above: "a - E < 2 ^ 30 \<Longrightarrow> saved E p s a = mem s a"
  using stack_above_shift [of a E 0] by (simp add: saved_def store32_above)

lemma saved_string: "cstring (mem s) p n \<Longrightarrow> off_stack E p n \<Longrightarrow> cstring (saved E p s) p n"
  unfolding saved_def by (erule cstring_cong) (simp add: store32_outside off_stackD)

lemma fputs_calls_strlen:
  assumes "plain_syscall int80" "E = rd ESP s" "p = load32 (mem s) (E + 4)"
  obtains b where "\<And>k callee. run k callee int80 code (IO_fputs_code sa ra) s
      = run k callee int80 code (after_strlen ra) (fold exec fputs_counted (callee sa b))"
    "mem b = saved E p s" "rd ESP b = E - 24" "rd EDI b = 0xdeadd00d"
proof -
  have i: "r \<noteq> EAX \<Longrightarrow> rd r (int80 x) = rd r x" "mem (int80 x) = mem x" for r x
    using assms(1) by (simp_all add: plain_syscall_def)
  define a where "a = int80 (fold exec fputs_enter s)"
  have a: "mem a = store32 (E - 4) (rd EBP s) (mem s)" "rd ESP a = E - 4" "rd EBP a = E - 4"
    "rd EBX a = rd EBX s" "rd ESI a = rd ESI s" "rd EDI a = rd EDI s"
    by (simp_all add: fputs_enter_def i a_def assms(2))
  let ?b = "fold exec fputs_arm a"
  have "load32 (store32 (E - 4) (rd EBP s) (mem s)) (4 + E) = p"
    unfolding add.commute [of 4 E] by (simp add: load32_scratch assms(3))
  then have b: "mem ?b = saved E p s" "rd ESP ?b = E - 24" "rd EDI ?b = 0xdeadd00d"
    by (simp_all add: fputs_arm_def saved_def a)
  have "list_all straight fputs_enter" "list_all straight fputs_arm" "list_all straight fputs_counted"
    by (simp_all add: fputs_enter_def fputs_arm_def fputs_counted_def)
  then have "run k callee int80 code (IO_fputs_code sa ra) s
      = run k callee int80 code (after_strlen ra) (fold exec fputs_counted (callee sa ?b))" for k callee
    by (simp add: IO_fputs_code_def run_straight after_strlen_def a_def)
  then show thesis using b by (rule that)
qed

lemma fputs_first_half:
  assumes "plain_syscall int80" "E = rd ESP s" "p = load32 (mem s) (E + 4)" "cstring (mem s) p n" "off_stack E p n" "n + 6 \<le> fuel"
  obtains u where "\<And>k. run k (fputs_callee sa fuel ret rest) int80 code (IO_fputs_code sa ra) s
      = run k (fputs_callee sa fuel ret rest) int80 code (after_strlen ra) u"
    "rd EAX u = 0x14" "rd EBX u = zero_test p n 0" "rd ESI u = zero_test p n 1" "rd EDI u = zero_test p n 2"
    "rd EBP u = zero_test p n 3" "rd ESP u = E - 20" "\<And>a. a - (E - 24) < 2 ^ 30 \<Longrightarrow> mem u a = saved E p s a"
proof -
  obtain b where b: "\<And>k callee. run k callee int80 code (IO_fputs_code sa ra) s
      = run k callee int80 code (after_strlen ra) (fold exec fputs_counted (callee sa b))"
    "mem b = saved E p s" "rd ESP b = E - 24" "rd EDI b = 0xdeadd00d"
    using assms(1-3) by (rule fputs_calls_strlen [where sa = sa and ra = ra and code = code]) (rule that)
  have str: "cstring (mem b) p n" unfolding b(2) using assms(4,5) by (rule saved_string)
  have p: "p = load32 (mem b) (E - 24)" by (simp add: b(2) saved_slots)
  obtain v where v: "strlen_wrapper fuel ret b = v" "rd EAX v = of_nat n" "rd ESP v = E - 24"
    "rd EBX v = zero_test p n 0" "rd ESI v = zero_test p n 1" "rd EDI v = zero_test p n 2" "rd EBP v = zero_test p n 3"
    "\<And>a. a - (E - 24) < 2 ^ 30 \<Longrightarrow> mem v a = mem b a"
  proof (rule strlen_wrapper_counts [OF b(4) b(3) [symmetric] p str _ _ assms(6)])
    have e: "E - 24 - 4 = E - 28" by simp
    show "\<not> scratch_words (E - 24 - 4) (p + of_nat i)" if "i \<le> n" for i
      unfolding e using assms(5) that by (rule off_stack_scratch) simp
    show "4 \<le> p + of_nat i - (E - 24 - 4)" if "i \<le> n" for i
      unfolding e using assms(5) that by (rule off_stackD) simp_all
  qed (rule that)
  let ?u = "fold exec fputs_counted v"
  have "run k (fputs_callee sa fuel ret rest) int80 code (IO_fputs_code sa ra) s
      = run k (fputs_callee sa fuel ret rest) int80 code (after_strlen ra) ?u" for k
    unfolding b(1) by (simp add: v(1) fputs_callee_def)
  moreover have "mem ?u a = saved E p s a" if "a - (E - 24) < 2 ^ 30" for a
    using v(8) [OF that] b(2) by (simp add: fputs_counted_def)
  moreover have "rd EAX ?u = 0x14" "rd EBX ?u = zero_test p n 0" "rd ESI ?u = zero_test p n 1" "rd EDI ?u = zero_test p n 2"
    "rd EBP ?u = zero_test p n 3" "rd ESP ?u = E - 20" using v(3-7) by (simp_all add: fputs_counted_def)
  ultimately show thesis by (intro that [of ?u])
qed
lemma saved_visible:
  assumes kept: "\<forall>a. a - (E - 24) < 2 ^ 30 \<longrightarrow> m a = saved E p s a"
  shows "load32 m (E - 20) = E - 4" "load32 m (E - 16) = rd EDI s" "load32 m (E - 12) = rd ESI s"
    "load32 m (E - 8) = rd EBX s" "load32 m (E - 4) = rd EBP s"
    "load32 m (E + 4) = load32 (mem s) (E + 4)" "load32 m (E + 8) = load32 (mem s) (E + 8)"
    "a - E < 2 ^ 29 \<Longrightarrow> m a = mem s a"
proof -
  have v: "load32 m (E - 24 + k) = load32 (saved E p s) (E - 24 + k)" if "k < 2 ^ 29" for k
    using kept that by (intro load32_near) blast+
  have e: "E - 24 + 4 = E - 20" "E - 24 + 8 = E - 16" "E - 24 + 12 = E - 12" "E - 24 + 16 = E - 8" "E - 24 + 20 = E - 4"
    "E - 24 + 28 = E + 4" "E - 24 + 32 = E + 8" by simp_all
  have up: "load32 (saved E p s) (E + k) = load32 (mem s) (E + k)" if "k < 2 ^ 29" for k
    using saved_above that by (rule load32_near)
  note vs = v [of 4, unfolded e] v [of 8, unfolded e] v [of 12, unfolded e] v [of 16, unfolded e] v [of 20, unfolded e]
    v [of 28, unfolded e] v [of 32, unfolded e] up [of 4] up [of 8]
  show "load32 m (E - 20) = E - 4" "load32 m (E - 16) = rd EDI s" "load32 m (E - 12) = rd ESI s"
    "load32 m (E - 8) = rd EBX s" "load32 m (E - 4) = rd EBP s"
    "load32 m (E + 4) = load32 (mem s) (E + 4)" "load32 m (E + 8) = load32 (mem s) (E + 8)"
    using vs by (simp_all add: saved_slots)
  show "m a = mem s a" if "a - E < 2 ^ 29"
    using kept near_shift [OF that, of 24] saved_above [of a E] near_shift [OF that, of 0] by simp
qed

lemma fputs_second_half:
  assumes "plain_syscall int80" "cdecl2 result rest" "rd ESP u = E - 20" "sa \<noteq> ra"
    "\<And>a. a - (E - 24) < 2 ^ 30 \<Longrightarrow> mem u a = saved E p s a"
  obtains r where "run k (fputs_callee sa fuel ret rest) int80 code (after_strlen ra) u = Some r"
    "rd EAX r = result (load32 (mem s) (E + 4)) (load32 (mem s) (E + 8))" "rd ESP r = E + 4"
    "\<And>q. q \<in> {EBX, ESI, EDI, EBP} \<Longrightarrow> rd q r = rd q s" "\<And>a. a - E < 2 ^ 29 \<Longrightarrow> mem r a = mem s a"
proof -
  have i: "r \<noteq> EAX \<Longrightarrow> rd r (int80 x) = rd r x" "mem (int80 x) = mem x" for r x
    using assms(1) by (simp_all add: plain_syscall_def)
  have "\<forall>a. a - (E - 24) < 2 ^ 30 \<longrightarrow> mem u a = saved E p s a" using assms(5) by blast
  note vis = saved_visible [OF this]
  let ?x = "fold exec fputs_disarm (int80 u)"
  let ?m = "store32 (E - 12) (load32 (mem s) (E + 4)) (store32 (E - 8) (load32 (mem s) (E + 8)) (mem u))"
  have w: "load32 (store32 (E - 8) x (mem u)) (4 + E) = load32 (mem s) (E + 4)" "load32 (mem u) (8 + E) = load32 (mem s) (E + 8)" for x
    unfolding add.commute [of _ E] by (simp_all add: load32_scratch vis)
  have x: "mem ?x = ?m" "rd ESP ?x = E - 12" "rd EBX ?x = rd EBX s" "rd ESI ?x = rd ESI s" "rd EDI ?x = rd EDI s"
    by (simp_all add: fputs_disarm_def i assms(3) vis w)
  define y where "y = rest ?x"
  have y: "rd ESP y = E - 12" "rd EBX y = rd EBX s" "rd ESI y = rd ESI s" "rd EDI y = rd EDI s"
    "rd EAX y = result (load32 (mem s) (E + 4)) (load32 (mem s) (E + 8))"
    "\<And>a. stack_above (E - 4) a \<Longrightarrow> mem y a = ?m a"
    using assms(2) x by (simp_all add: cdecl2_def y_def load32_below)
  have "load32 (mem y) (E - 4 + 0) = load32 ?m (E - 4 + 0)" using y(6) by (rule load32_above) simp_all
  then have ebp: "load32 (mem y) (E - 4) = rd EBP s" using vis(5) by (simp add: load32_below)
  have st: "list_all straight fputs_disarm" by (simp add: fputs_disarm_def)
  let ?r = "wr ESP (E + 4) (fold exec ([Add_ir 0x8 ESP, Pop EBP] :: unit insn list) y)"
  have res: "run k (fputs_callee sa fuel ret rest) int80 code (after_strlen ra) u = Some ?r"
    using y(1) assms(4) by (simp add: after_strlen_def run_straight [OF st] fputs_callee_def flip: y_def)
  have above: "mem ?r a = mem s a" if "a - E < 2 ^ 29" for a
  proof -
    have "stack_above (E - 4) a" "stack_above E a"
      using near_shift [OF that, of 4] near_shift [OF that, of 0] by (simp_all add: stack_above_def word_less_nat_alt)
    then show ?thesis using y(6) [of a] vis(8) [OF that] by (simp add: store32_above)
  qed
  have "rd q ?r = rd q s" if "q \<in> {EBX, ESI, EDI, EBP}" for q using that y(1-4) ebp by auto
  then show thesis using y(5) by (intro that [OF res _ _ _ above]) simp_all
qed

section \<open>Properties\<close>

text \<open>
  C14. At the second of its two system calls \<open>fputs\<close> holds in the registers the counters of the call of
  \<open>strlen\<close> on its string: which zero tests of the last word were reached. When it returns, the
  registers that it borrowed for this are restored, its value is that of the ordinary \<open>fputs\<close> on the same two
  arguments, and the caller's part of the stack is unchanged.
\<close>

theorem fputs_exposes_counters:
  assumes "plain_syscall int80" and "cdecl2 result rest" and "sa \<noteq> ra" and "p = load32 (mem s) (rd ESP s + 4)"
    and "cstring (mem s) p n" and "off_stack (rd ESP s) p n" and "n + 6 \<le> fuel"
  shows "\<exists>u r. reaches (fputs_callee sa fuel ret rest) int80 code 0 (IO_fputs_code sa ra) s (after_strlen ra) u
    \<and> rd EAX u = 0x14
    \<and> map (\<lambda>q. rd q u) [EBX, ESI, EDI, EBP] = map (\<lambda>i. of_bool (unaligned p \<le> n \<and> i \<le> (n - unaligned p) mod 4)) [0, 1, 2, 3]
    \<and> run k (fputs_callee sa fuel ret rest) int80 code (IO_fputs_code sa ra) s = Some r
    \<and> rd EAX r = result p (load32 (mem s) (rd ESP s + 8)) \<and> rd ESP r = rd ESP s + 4
    \<and> (\<forall>q\<in>{EBX, ESI, EDI, EBP}. rd q r = rd q s) \<and> (\<forall>a. a - rd ESP s < 2 ^ 29 \<longrightarrow> mem r a = mem s a)"
proof -
  obtain u where u: "\<And>k. run k (fputs_callee sa fuel ret rest) int80 code (IO_fputs_code sa ra) s
      = run k (fputs_callee sa fuel ret rest) int80 code (after_strlen ra) u"
    "rd EAX u = 0x14" "rd EBX u = zero_test p n 0" "rd ESI u = zero_test p n 1" "rd EDI u = zero_test p n 2"
    "rd EBP u = zero_test p n 3" "rd ESP u = rd ESP s - 20" "\<And>a. a - (rd ESP s - 24) < 2 ^ 30 \<Longrightarrow> mem u a = saved (rd ESP s) p s a"
    using assms(1) refl assms(4-7) by (rule fputs_first_half) (rule that)
  obtain r where r: "run k (fputs_callee sa fuel ret rest) int80 code (after_strlen ra) u = Some r"
    "rd EAX r = result (load32 (mem s) (rd ESP s + 4)) (load32 (mem s) (rd ESP s + 8))" "rd ESP r = rd ESP s + 4"
    "\<And>q. q \<in> {EBX, ESI, EDI, EBP} \<Longrightarrow> rd q r = rd q s" "\<And>a. a - rd ESP s < 2 ^ 29 \<Longrightarrow> mem r a = mem s a"
    by (rule fputs_second_half [OF assms(1,2) u(7) assms(3)], erule u(8)) (rule that)
  have "reaches (fputs_callee sa fuel ret rest) int80 code 0 (IO_fputs_code sa ra) s (after_strlen ra) u"
    by (rule reachesI [where j = 0]) (simp_all add: u(1))
  then show ?thesis using u(1-6) r assms(4) by (intro exI [of _ u] exI [of _ r]) (simp add: zero_test_def)
qed
theorem fputs_exposes_counters_witness:
  "\<exists>u r. reaches (fputs_callee 1 8 0 (wr EAX 7)) (\<lambda>s. s) [] 0 (IO_fputs_code 1 2) (hello_cpu 0) (after_strlen 2) u
    \<and> rd EBX u = 0
    \<and> run 0 (fputs_callee 1 8 0 (wr EAX 7)) (\<lambda>s. s) [] (IO_fputs_code 1 2) (hello_cpu 0) = Some r \<and> rd EAX r = 7 \<and> rd EBX r = 7"
proof -
  have "plain_syscall (\<lambda>s. s)" "cdecl2 (\<lambda>_ _. 7) (wr EAX 7)" by (simp_all add: plain_syscall_def cdecl2_def)
  moreover have "off_stack 0x8000 0x201 2" unfolding off_stack_def all_le_2 by simp
  ultimately show ?thesis
    using fputs_exposes_counters [of "\<lambda>s. s" "\<lambda>_ _. 7" "wr EAX 7" 1 2 "0x201" "hello_cpu 0" 2 8 0 "[]" 0]
    by (simp add: hello_cpu_eval unaligned_def) blast
qed

end
