(* ===== verification/Futex.thy ===== *)
theory Futex
  imports C_Text
begin

text \<open>
  The name of a futex command (\<open>src/strfutexcmd.c\<close>): the command below the two flag
  bits, printed with its flags. The command numbers and flags are those of \<open>linux/futex.h\<close>.
\<close>

definition FUTEX_PRIVATE_FLAG :: u32 where "FUTEX_PRIVATE_FLAG = 128"
definition FUTEX_CLOCK_REALTIME :: u32 where "FUTEX_CLOCK_REALTIME = 256"
definition FUTEX_CMD_MASK :: u32 where "FUTEX_CMD_MASK = not (or FUTEX_PRIVATE_FLAG FUTEX_CLOCK_REALTIME)"

definition strfutex :: "u32 \<Rightarrow> string" where
  "strfutex cmd =
     (if cmd = 0 then ''WAIT'' else if cmd = 1 then ''WAKE'' else if cmd = 2 then ''FD''
      else if cmd = 3 then ''REQUEUE'' else if cmd = 4 then ''CMP_REQUEUE'' else if cmd = 5 then ''WAKE_OP''
      else if cmd = 6 then ''LOCK_PI'' else if cmd = 7 then ''UNLOCK_PI'' else if cmd = 8 then ''TRYLOCK_PI''
      else if cmd = 9 then ''WAIT_BITSET'' else if cmd = 10 then ''WAKE_BITSET''
      else if cmd = 11 then ''WAIT_REQUEUE_PI'' else if cmd = 12 then ''CMP_REQUEUE_PI'' else ''???'')"

definition futex_line :: "u32 \<Rightarrow> string" where
  "futex_line cmd =
     (let private = and cmd FUTEX_PRIVATE_FLAG; clock_realtime = and cmd FUTEX_CLOCK_REALTIME
      in ''0x'' @ hex (unat cmd) @ '' = '' @ strfutex (and cmd FUTEX_CMD_MASK)
         @ (if private \<noteq> 0 then '' (private)'' else [])
         @ (if clock_realtime \<noteq> 0 then '' (clock_realtime)'' else []) @ newline)"

definition strfutexcmd_main :: "string list \<Rightarrow> int \<times> string" where
  "strfutexcmd_main argv = (0, concat (map (\<lambda>arg. futex_line (strtoul arg)) (tl argv)))"

section \<open>Commands and flags\<close>

text \<open>The commands in the order of their numbers.\<close>

definition futex_names :: "string list" where
  "futex_names = [''WAIT'', ''WAKE'', ''FD'', ''REQUEUE'', ''CMP_REQUEUE'', ''WAKE_OP'', ''LOCK_PI'', ''UNLOCK_PI'',
     ''TRYLOCK_PI'', ''WAIT_BITSET'', ''WAKE_BITSET'', ''WAIT_REQUEUE_PI'', ''CMP_REQUEUE_PI'']"

definition with_flags :: "u32 \<Rightarrow> bool \<Rightarrow> bool \<Rightarrow> u32" where
  "with_flags c private clock_realtime =
     or c (or (if private then FUTEX_PRIVATE_FLAG else 0) (if clock_realtime then FUTEX_CLOCK_REALTIME else 0))"

lemmas flag_defs = FUTEX_PRIVATE_FLAG_def FUTEX_CLOCK_REALTIME_def FUTEX_CMD_MASK_def

lemma below_13_cases:
  assumes "n < (13 :: nat)"
  obtains "n = 0" | "n = 1" | "n = 2" | "n = 3" | "n = 4" | "n = 5" | "n = 6" | "n = 7" | "n = 8" | "n = 9"
    | "n = 10" | "n = 11" | "n = 12"
  using assms by (auto simp: eval_nat_numeral less_Suc_eq)

lemma flags_of:
  assumes "n < 13"
  shows "and (with_flags (of_nat n) p r) FUTEX_CMD_MASK = of_nat n"
    "and (with_flags (of_nat n) p r) FUTEX_PRIVATE_FLAG \<noteq> 0 \<longleftrightarrow> p"
    "and (with_flags (of_nat n) p r) FUTEX_CLOCK_REALTIME \<noteq> 0 \<longleftrightarrow> r"
  using assms by (cases rule: below_13_cases; cases p; cases r; simp add: with_flags_def flag_defs)+

lemma strfutex_names:
  assumes "n < 13"
  shows "strfutex (of_nat n) = futex_names ! n"
  using assms by (cases rule: below_13_cases) (simp_all add: strfutex_def futex_names_def)

text \<open>
  C32. Every futex command, with or without the two flags, given in hexadecimal, is printed
  under its name and with exactly the flags it carries.
\<close>

theorem futex_command_printed:
  assumes "n < 13"
  shows "strfutexcmd_main [exe, ''0x'' @ hex (unat (with_flags (of_nat n) p r))] =
    (0, ''0x'' @ hex (unat (with_flags (of_nat n) p r)) @ '' = '' @ futex_names ! n
        @ (if p then '' (private)'' else []) @ (if r then '' (clock_realtime)'' else []) @ newline)"
proof -
  let ?w = "with_flags (of_nat n) p r"
  have "strtoul (''0x'' @ hex (unat ?w)) = ?w"
    using strtoul_hex [of "unat ?w"] unsigned_less [where 'a = nat, of ?w] by simp
  then show ?thesis
    using flags_of [OF assms, of p r] strfutex_names [OF assms]
    by (simp add: strfutexcmd_main_def futex_line_def Let_def)
qed

theorem futex_command_printed_witness:
  "strfutexcmd_main [''strfutexcmd'', ''0x189''] = (0, ''0x189 = WAIT_BITSET (private) (clock_realtime)'' @ newline)"
  using futex_command_printed [of 9 "''strfutexcmd''" True True]
  by (simp add: with_flags_def flag_defs futex_names_def render.simps digit_char_def char_of_def bit_0)

end
