(* ===== verification/Vdso.thy ===== *)
theory Vdso
  imports I386 C_Text
begin

text \<open>
  The replacement of the kernel's system call entry (\<open>src/vdso_monkeypatch.c\<close>): the
  bytes that are expected there, the patch that jumps to the trampoline, the trampoline as
  a program of \<open>I386\<close>, the hook it calls and the checks around the patching. The kernel
  and what the compiler makes of the hook are parameters. A call of the patched entry is
  followed from the first patched byte through the trampoline and the hook to the return.
\<close>

section \<open>Code bytes\<close>

definition vdso_start_addr :: u32 where "vdso_start_addr = 0xb7fff000"
definition vdso_num_bytes :: u32 where "vdso_num_bytes = 4096"
definition vsyscall_offset :: u32 where "vsyscall_offset = 0x414"

definition vsyscall_impl :: "byte list" where
  "vsyscall_impl =
    [0x51, 0x52, 0x55, 0x89, 0xe5, 0x0f, 0x34, 0x90, 0x90, 0x90, 0x90, 0x90, 0x90, 0x90,
     0xcd, 0x80, 0x5d, 0x5a, 0x59, 0xc3]"

definition vsyscall_monkeypatch :: "byte list" where
  "vsyscall_monkeypatch = [0x50, 0xb8, 0x00, 0x00, 0x00, 0x00, 0xff, 0xe0]"

text \<open>The template is a union of the bytes with a packed struct of two bytes and a pointer.\<close>

definition template_addr :: "byte list \<Rightarrow> u32" where
  "template_addr bs = load32 (\<lambda>a. bs ! unat a) 2"

definition set_template_addr :: "u32 \<Rightarrow> byte list \<Rightarrow> byte list" where
  "set_template_addr w bs = bs[2 := ucast w, 3 := ucast (drop_bit 8 w), 4 := ucast (drop_bit 16 w), 5 := ucast (drop_bit 24 w)]"

section \<open>The hook\<close>

record syscall_info =
  si_no :: u32
  si_args :: "u32 list"

text \<open>
  The kernel takes the number and six arguments. The hook loads five of them; the sixth register holds
  whatever the compiled function keeps in it.
\<close>

definition vsyscall_hook :: "(u32 \<Rightarrow> u32 list \<Rightarrow> u32) \<Rightarrow> u32 \<Rightarrow> syscall_info \<Rightarrow> u32" where
  "vsyscall_hook kernel_call ebp info =
     kernel_call (si_no info)
       [si_args info ! 0, si_args info ! 1, si_args info ! 2, si_args info ! 3, si_args info ! 4, ebp]"

definition read_info :: "(u32 \<Rightarrow> byte) \<Rightarrow> u32 \<Rightarrow> syscall_info" where
  "read_info m p = \<lparr>si_no = load32 m p, si_args = map (\<lambda>i. load32 m (p + 4 + 4 * i)) [0, 1, 2, 3, 4, 5]\<rparr>"

text \<open>The compiled hook: its argument is on top of the stack, \<open>clobber\<close> is what it does besides returning a value.\<close>

definition call_hook :: "(u32 \<Rightarrow> u32 list \<Rightarrow> u32) \<Rightarrow> u32 \<Rightarrow> (cpu \<Rightarrow> cpu) \<Rightarrow> cpu \<Rightarrow> cpu" where
  "call_hook kernel_call ebp clobber s =
     wr EAX (vsyscall_hook kernel_call ebp (read_info (mem s) (load32 (mem s) (rd ESP s)))) (clobber s)"

text \<open>The calling convention: a function keeps these registers and the memory above its argument.\<close>

definition cdecl_frame :: "(cpu \<Rightarrow> cpu) \<Rightarrow> bool" where
  "cdecl_frame f \<longleftrightarrow> (\<forall>s. (\<forall>r\<in>{EBX, ESI, EDI, EBP, ESP}. rd r (f s) = rd r s)
     \<and> (\<forall>a. stack_above (rd ESP s + 4) a \<longrightarrow> mem (f s) a = mem s a))"

section \<open>The trampoline\<close>

definition vsyscall_hook_trampoline :: "u32 \<Rightarrow> unit insn list" where
  "vsyscall_hook_trampoline hook =
    [Pop EAX,
     Push EBP, Push EDI, Push ESI, Push EDX, Push ECX, Push EBX, Push EAX,
     Mov_rr ESP ECX, Push ECX,
     Mov_ir hook EAX, Call_r EAX,
     Add_ir 8 ESP,
     Pop EBX, Pop ECX, Pop EDX, Pop ESI, Pop EDI, Pop EBP,
     Ret]"

section \<open>Patching\<close>

definition kernel_vsyscall_addr :: u32 where
  "kernel_vsyscall_addr = vdso_start_addr + vsyscall_offset"

fun copy_bytes :: "u32 \<Rightarrow> byte list \<Rightarrow> (u32 \<Rightarrow> byte) \<Rightarrow> u32 \<Rightarrow> byte" where
  "copy_bytes a [] m = m"
| "copy_bytes a (b # bs) m = copy_bytes (a + 1) bs (m(a := b))"

definition monkey_patch :: "u32 \<Rightarrow> u32 \<Rightarrow> u32 \<Rightarrow> (u32 \<Rightarrow> byte) \<Rightarrow> ((u32 \<Rightarrow> byte) \<times> string) res" where
  "monkey_patch trampoline hook vsyscall m =
     (let t = vsyscall_monkeypatch
      in if template_addr t \<noteq> 0 then Inl (Assert_Failed ''NULL == t.insns.vsyscall_hook_trampoline_addr'')
         else let t1 = set_template_addr trampoline t
              in Inr (copy_bytes vsyscall t1 m,
                      ''Successfully monkey-patched vdso to call 0x'' @ hex (unat hook) @ ''!'' @ newline))"

text \<open>The first byte that differs aborts the program.\<close>

fun verify_from :: "nat \<Rightarrow> byte list \<Rightarrow> u32 \<Rightarrow> (u32 \<Rightarrow> byte) \<Rightarrow> string res" where
  "verify_from i [] actual m = Inr (''All insns match!'' @ newline)"
| "verify_from i (b # bs) actual m =
     (if b \<noteq> m (actual + of_nat i)
      then Inl (Fatal (''Byte '' @ dec i @ '' of __kernel_vsyscall should be 0x'' @ hex (unat b) @ '', but is 0x''
                @ hex (unat (m (actual + of_nat i)))))
      else verify_from (Suc i) bs actual m)"

definition verify_vsyscall_insns :: "u32 \<Rightarrow> (u32 \<Rightarrow> byte) \<Rightarrow> string res" where
  "verify_vsyscall_insns vsyscall m = verify_from 0 vsyscall_impl vsyscall m"

text \<open>
  \<open>main\<close>. \<open>prot\<close> is the protection of the page. \<open>mprotect1\<close> and \<open>mprotect2\<close> are the kernel's answers to the two
  requests, the first with the text of \<open>errno\<close>; a request changes the protection only when it is granted, and
  a write to the page while it is not writable kills the program. \<open>maps\<close> is what the shell prints. The
  result holds the memory, the protection of the page at the end and the output.
\<close>

definition PROT_READ :: nat where "PROT_READ = 1"
definition PROT_WRITE :: nat where "PROT_WRITE = 2"
definition PROT_EXEC :: nat where "PROT_EXEC = 4"

definition mprotect :: "int \<Rightarrow> nat \<Rightarrow> nat \<Rightarrow> nat" where
  "mprotect answer request prot = (if answer = 0 then request else prot)"

definition vdso_main :: "int \<times> string \<Rightarrow> int \<Rightarrow> string \<Rightarrow> u32 \<Rightarrow> u32 \<Rightarrow> nat \<Rightarrow> (u32 \<Rightarrow> byte) \<Rightarrow>
    ((u32 \<Rightarrow> byte) \<times> nat \<times> string) res" where
  "vdso_main mprotect1 mprotect2 maps trampoline hook prot m =
     (let vsyscall = kernel_vsyscall_addr;
          out0 = ''vsyscall: 0x'' @ hex (unat vsyscall) @ newline
      in bind_res (verify_vsyscall_insns vsyscall m) (\<lambda>out1.
         let prot1 = mprotect (fst mprotect1) (PROT_READ + PROT_WRITE + PROT_EXEC) prot;
             out2 = ''mprotect(0x'' @ hex (unat vdso_start_addr) @ '', '' @ dec (unat vdso_num_bytes) @ '') -> ''
                @ (if fst mprotect1 < 0 then ''-'' @ dec (nat (- fst mprotect1)) else dec (nat (fst mprotect1)))
                @ '' ('' @ snd mprotect1 @ '')'' @ newline
         in bind_res (monkey_patch trampoline hook vsyscall m) (\<lambda>(m1, out3).
            if and prot1 PROT_WRITE = 0 then Inl Bad_Deref
            else Inr (m1, mprotect mprotect2 (PROT_READ + PROT_EXEC) prot1, out0 @ out1 @ out2 @ maps @ out3))))"

section \<open>The trampoline\<close>

lemma read_info_slots:
  "read_info m (e - 28) = \<lparr>si_no = load32 m (e - 28), si_args =
     [load32 m (e - 24), load32 m (e - 20), load32 m (e - 16), load32 m (e - 12), load32 m (e - 8), load32 m (e - 4)]\<rparr>"
  by (simp add: read_info_def)

lemma trampoline_run:
  assumes "cdecl_frame clobber" "e = rd ESP s + 4"
  obtains r where "run n (\<lambda>_. call_hook kernel_call ebp clobber) int80 code (vsyscall_hook_trampoline hook) s = Some r"
    "rd EAX r = vsyscall_hook kernel_call ebp
       \<lparr>si_no = load32 (mem s) (e - 4), si_args = [rd EBX s, rd ECX s, rd EDX s, rd ESI s, rd EDI s, rd EBP s]\<rparr>"
    "\<And>q. q \<in> {EBX, ECX, EDX, ESI, EDI, EBP} \<Longrightarrow> rd q r = rd q s" "rd ESP r = e + 4"
    "\<And>a. a - e < 2 ^ 30 \<Longrightarrow> mem r a = mem s a"
proof -
  let ?code = "vsyscall_hook_trampoline hook"
  let ?u = "fold exec (take 11 ?code) s"
  let ?v = "call_hook kernel_call ebp clobber ?u"
  let ?r = "wr ESP (e + 4) (fold exec (take 7 (drop 12 ?code)) ?v)"
  let ?m = "store32 (e - 32) (e - 28) (store32 (e - 28) (load32 (mem s) (e - 4)) (store32 (e - 24) (rd EBX s)
    (store32 (e - 20) (rd ECX s) (store32 (e - 16) (rd EDX s) (store32 (e - 12) (rd ESI s)
    (store32 (e - 8) (rd EDI s) (store32 (e - 4) (rd EBP s) (mem s))))))))"
  have esp: "rd ESP s = e - 4" using assms(2) by simp
  have u: "mem ?u = ?m" "rd ESP ?u = e - 32" by (simp_all add: vsyscall_hook_trampoline_def esp)
  note slots = load32_below
  have info: "read_info ?m (load32 ?m (e - 32)) =
      \<lparr>si_no = load32 (mem s) (e - 4), si_args = [rd EBX s, rd ECX s, rd EDX s, rd ESI s, rd EDI s, rd EBP s]\<rparr>"
    by (simp add: read_info_slots slots)
  have esp_v: "rd ESP ?v = e - 32" using assms(1) u(2) by (simp add: cdecl_frame_def call_hook_def)
  have keep: "mem ?v a = ?m a" if "stack_above (e - 28) a" for a
    using assms(1) u that by (simp add: cdecl_frame_def call_hook_def)
  have v: "load32 (mem ?v) (e - 28 + k) = load32 ?m (e - 28 + k)" if "k < 2 ^ 30" for k
    using keep that by (rule load32_above [where e = "e - 28"])
  have pops: "load32 (mem ?v) (e - 24) = rd EBX s" "load32 (mem ?v) (e - 20) = rd ECX s"
    "load32 (mem ?v) (e - 16) = rd EDX s" "load32 (mem ?v) (e - 12) = rd ESI s"
    "load32 (mem ?v) (e - 8) = rd EDI s" "load32 (mem ?v) (e - 4) = rd EBP s"
    using v [of 4] v [of 8] v [of 12] v [of 16] v [of 20] v [of 24] by (simp_all add: slots)
  have res: "run n (\<lambda>_. call_hook kernel_call ebp clobber) int80 code ?code s = Some ?r"
    using esp_v by (simp add: vsyscall_hook_trampoline_def)
  have "rd EAX ?r = rd EAX ?v" by (simp add: vsyscall_hook_trampoline_def)
  then have eax: "rd EAX ?r = vsyscall_hook kernel_call ebp
       \<lparr>si_no = load32 (mem s) (e - 4), si_args = [rd EBX s, rd ECX s, rd EDX s, rd ESI s, rd EDI s, rd EBP s]\<rparr>"
    by (simp only: call_hook_def u info rd_wr if_True refl)
  have others: "rd q ?r = rd q s" if "q \<in> {EBX, ECX, EDX, ESI, EDI, EBP}" for q
    using that pops esp_v by (auto simp: vsyscall_hook_trampoline_def)
  have "mem ?r a = mem s a" if "a - e < 2 ^ 30" for a
  proof -
    have "mem ?r a = mem ?v a" by (simp add: vsyscall_hook_trampoline_def)
    also have "\<dots> = ?m a" using that by (intro keep stack_above_shift) simp_all
    also have "\<dots> = mem s a" using stack_above_shift [of a e 0] that by (simp add: store32_above)
    finally show ?thesis .
  qed
  moreover have "rd ESP ?r = e + 4" by simp
  ultimately show thesis using that [OF res eax others] by blast
qed

section \<open>The patch\<close>

text \<open>The instructions of the entry and of the patch, decoded from their bytes.\<close>

datatype vinsn = V_push reg | V_pop reg | V_mov_esp_ebp | V_sysenter | V_nop | V_int80 | V_ret | V_mov_eax u32 | V_jmp_eax

definition decode :: "byte list \<Rightarrow> (vinsn \<times> nat) option" where
  "decode bs =
     (let b = bs ! 0; c = bs ! 1
      in if b = 0x50 then Some (V_push EAX, 1) else if b = 0x51 then Some (V_push ECX, 1)
         else if b = 0x52 then Some (V_push EDX, 1) else if b = 0x55 then Some (V_push EBP, 1)
         else if b = 0x59 then Some (V_pop ECX, 1) else if b = 0x5a then Some (V_pop EDX, 1)
         else if b = 0x5d then Some (V_pop EBP, 1) else if b = 0x90 then Some (V_nop, 1)
         else if b = 0xc3 then Some (V_ret, 1) else if b = 0x89 \<and> c = 0xe5 then Some (V_mov_esp_ebp, 2)
         else if b = 0x0f \<and> c = 0x34 then Some (V_sysenter, 2) else if b = 0xcd \<and> c = 0x80 then Some (V_int80, 2)
         else if b = 0xff \<and> c = 0xe0 then Some (V_jmp_eax, 2)
         else if b = 0xb8 then Some (V_mov_eax (load32 (\<lambda>a. bs ! unat a) 1), 5) else None)"

fun disassemble :: "byte list \<Rightarrow> vinsn list option" where
  "disassemble [] = Some []"
| "disassemble (b # bs) = (case decode (b # bs) of
     None \<Rightarrow> None | Some (i, k) \<Rightarrow> map_option (Cons i) (disassemble (drop (k - 1) bs)))"

text \<open>Executing from an address up to the indirect jump; every instruction is fetched when it is reached.\<close>

fun fetch_run :: "nat \<Rightarrow> u32 \<Rightarrow> cpu \<Rightarrow> (u32 \<times> cpu) option" where
  "fetch_run 0 pc s = None"
| "fetch_run (Suc n) pc s =
     (case decode (map (\<lambda>i. mem s (pc + i)) [0, 1, 2, 3, 4]) of
        Some (V_push r, k) \<Rightarrow> fetch_run n (pc + of_nat k) (push (rd r s) s)
      | Some (V_mov_eax i, k) \<Rightarrow> fetch_run n (pc + of_nat k) (wr EAX i s)
      | Some (V_jmp_eax, k) \<Rightarrow> Some (rd EAX s, s)
      | _ \<Rightarrow> None)"

definition patch_bytes :: "u32 \<Rightarrow> byte list" where
  "patch_bytes w = [0x50, 0xb8, ucast w, ucast (drop_bit 8 w), ucast (drop_bit 16 w), ucast (drop_bit 24 w), 0xff, 0xe0]"

lemma monkey_patch_bytes:
  "monkey_patch trampoline hook vsyscall m = Inr (copy_bytes vsyscall (patch_bytes trampoline) m,
     ''Successfully monkey-patched vdso to call 0x'' @ hex (unat hook) @ ''!'' @ newline)"
  by (simp add: monkey_patch_def vsyscall_monkeypatch_def template_addr_def load32_def set_template_addr_def patch_bytes_def Let_def)

lemma copy_bytes_outside: "of_nat (length bs) \<le> a - p \<Longrightarrow> length bs < 2 ^ 32 \<Longrightarrow> copy_bytes p bs m a = m a"
proof (induction bs arbitrary: p m)
  case (Cons b bs)
  let ?n = "of_nat (length bs) :: u32"
  have l: "unat (of_nat (Suc (length bs)) :: u32) = Suc (length bs)" "unat ?n = length bs"
    using Cons.prems(2) by (simp_all add: unsigned_of_nat take_bit_nat_eq_self del: of_nat_Suc)
  have d: "Suc (length bs) \<le> unat (a - p)" using Cons.prems(1) l by (simp add: word_le_nat_alt del: of_nat_Suc)
  then have "a \<noteq> p" by auto
  moreover have "unat (a - (p + 1)) = unat (a - p) - 1"
  proof -
    have e: "a - (p + 1) = (a - p) - 1" by (simp add: algebra_simps)
    have "unat (x - 1) = unat x - 1" if "1 \<le> unat x" for x :: u32 using that by (simp add: unat_sub_if_size)
    then show ?thesis unfolding e using d by simp
  qed
  then have "?n \<le> a - (p + 1)" using d l by (simp add: word_le_nat_alt)
  ultimately show ?case using Cons by simp
qed simp

lemma verify_from_ok:
  "verify_from i bs p m = Inr out \<Longrightarrow> out = ''All insns match!'' @ newline \<and> (\<forall>j<length bs. m (p + of_nat (i + j)) = bs ! j)"
proof (induction bs arbitrary: i)
  case (Cons b bs)
  from Cons.prems have b: "m (p + of_nat i) = b" "verify_from (Suc i) bs p m = Inr out"
    by (auto split: if_splits)
  note ih = Cons.IH [OF b(2)]
  have "m (p + of_nat (i + j)) = (b # bs) ! j" if "j < length (b # bs)" for j
    using ih that b(1) by (cases j) auto
  then show ?case using ih by blast
qed simp

lemma vdso_main_Inr:
  assumes "vdso_main mprotect1 mprotect2 maps trampoline hook prot m = Inr (m', prot', out)"
  shows "fst mprotect1 = 0 \<or> and prot PROT_WRITE \<noteq> 0" "m' = copy_bytes kernel_vsyscall_addr (patch_bytes trampoline) m"
    "\<forall>i<length vsyscall_impl. m (kernel_vsyscall_addr + of_nat i) = vsyscall_impl ! i"
    "prot' = (if mprotect2 = 0 then PROT_READ + PROT_EXEC else if fst mprotect1 = 0 then PROT_READ + PROT_WRITE + PROT_EXEC else prot)"
proof -
  obtain o1 where o1: "verify_vsyscall_insns kernel_vsyscall_addr m = Inr o1"
    using assms by (auto simp: vdso_main_def Let_def bind_res_eq_Inr)
  show "fst mprotect1 = 0 \<or> and prot PROT_WRITE \<noteq> 0" "m' = copy_bytes kernel_vsyscall_addr (patch_bytes trampoline) m"
    "prot' = (if mprotect2 = 0 then PROT_READ + PROT_EXEC else if fst mprotect1 = 0 then PROT_READ + PROT_WRITE + PROT_EXEC else prot)"
    using assms o1 by (auto simp: vdso_main_def Let_def monkey_patch_bytes mprotect_def split: if_splits)
  show "\<forall>i<length vsyscall_impl. m (kernel_vsyscall_addr + of_nat i) = vsyscall_impl ! i"
    using verify_from_ok [of 0] o1 by (fastforce simp: verify_vsyscall_insns_def)
qed

lemma copy_patch_bytes:
  "map (\<lambda>i. copy_bytes p (patch_bytes w) m (p + i)) [0, 1, 2, 3, 4, 5, 6, 7] = patch_bytes w"
  by (simp add: patch_bytes_def add.assoc)

lemma patch_mov: "load32 (\<lambda>a. [0xb8, ucast w, ucast (drop_bit 8 w), ucast (drop_bit 16 w), ucast (drop_bit 24 w)] ! unat a) 1 = w"
  using load32_bytes_of [of w] by (simp add: load32_def)

lemma patch_runs:
  assumes "\<And>i. i \<in> {0, 1, 2, 3, 4, 5, 6, 7} \<Longrightarrow> mem s (p + i) = patch_bytes w ! unat i"
    and "\<And>i. i \<in> {0, 1, 2, 3, 4, 5, 6, 7} \<Longrightarrow> 4 \<le> p + i - (rd ESP s - 4)"
  shows "fetch_run 3 p s = Some (w, wr EAX w (push (rd EAX s) s))"
proof -
  have k: "mem (push (rd EAX s) s) (p + i) = patch_bytes w ! unat i" if "i \<in> {0, 1, 2, 3, 4, 5, 6, 7}" for i
    using assms that by (simp add: store32_outside)
  let ?m = "store32 (rd ESP s - 4) (rd EAX s) (mem s)"
  have b: "mem s p = 0x50" "?m (p + 1) = 0xb8" "?m (p + 2) = ucast w" "?m (p + 3) = ucast (drop_bit 8 w)"
    "?m (p + 4) = ucast (drop_bit 16 w)" "?m (p + 5) = ucast (drop_bit 24 w)" "?m (p + 6) = 0xff" "?m (p + 7) = 0xe0"
    using assms(1) [of 0] k [of 1] k [of 2] k [of 3] k [of 4] k [of 5] k [of 6] k [of 7] by (simp_all add: patch_bytes_def)
  have one: "decode (map (\<lambda>i. mem s (p + i)) [0, 1, 2, 3, 4]) = Some (V_push EAX, 1)" by (simp add: decode_def b)
  have two: "decode (map (\<lambda>i. ?m (p + 1 + i)) [0, 1, 2, 3, 4]) = Some (V_mov_eax w, 5)"
    by (simp add: decode_def b add.assoc patch_mov)
  have three: "decode (map (\<lambda>i. ?m (p + 6 + i)) [0, 1, 2, 3, 4]) = Some (V_jmp_eax, 2)"
    by (simp add: decode_def b add.assoc)
  show ?thesis using one two three by (simp add: numeral_3_eq_3 add.assoc)
qed

lemma patched_mem:
  assumes "i \<in> {0, 1, 2, 3, 4, 5, 6, 7 :: u32}"
  shows "copy_bytes p (patch_bytes w) m (p + i) = patch_bytes w ! unat i"
proof -
  have "(map (\<lambda>i. copy_bytes p (patch_bytes w) m (p + i)) [0, 1, 2, 3, 4, 5, 6, 7]) ! unat i = copy_bytes p (patch_bytes w) m (p + i)"
    using assms by auto
  then show ?thesis unfolding copy_patch_bytes by simp
qed

section \<open>Properties\<close>

text \<open>
  C17. The program patches only what it recognises: when it succeeds, the page was writable, the
  twenty bytes at the entry were those of the expected implementation, exactly the first eight of
  them are replaced, by a push of \<open>%eax\<close> and a jump to the trampoline, and nothing else in
  memory changes. The page ends up without write permission when the second request is granted; when it is refused, which the
  program does not look at, the page stays as the first request left it. The sanity check of the template never fails.
\<close>

theorem patch_only_expected:
  assumes "vdso_main mprotect1 mprotect2 maps trampoline hook prot m = Inr (m', prot', out)"
  shows "(fst mprotect1 = 0 \<or> and prot PROT_WRITE \<noteq> 0)
    \<and> (\<forall>i<20. m (kernel_vsyscall_addr + of_nat i) = vsyscall_impl ! i)
    \<and> disassemble (map (\<lambda>i. m' (kernel_vsyscall_addr + i)) [0, 1, 2, 3, 4, 5, 6, 7]) = Some [V_push EAX, V_mov_eax trampoline, V_jmp_eax]
    \<and> (\<forall>a. 8 \<le> a - kernel_vsyscall_addr \<longrightarrow> m' a = m a)
    \<and> (and prot' PROT_WRITE = 0 \<longleftrightarrow> mprotect2 = 0)"
proof -
  note f = vdso_main_Inr [OF assms]
  have "length vsyscall_impl = 20" by (simp add: vsyscall_impl_def)
  moreover have "disassemble (patch_bytes trampoline) = Some [V_push EAX, V_mov_eax trampoline, V_jmp_eax]"
    using patch_mov [of trampoline] by (simp add: patch_bytes_def decode_def load32_def)
  moreover have "m' a = m a" if "8 \<le> a - kernel_vsyscall_addr" for a
    using copy_bytes_outside [of "patch_bytes trampoline" a kernel_vsyscall_addr m] that f(2) by (simp add: patch_bytes_def)
  moreover have "and prot' PROT_WRITE = 0 \<longleftrightarrow> mprotect2 = 0"
    using f(1) by (auto simp: f(4) PROT_READ_def PROT_WRITE_def PROT_EXEC_def)
  ultimately show ?thesis unfolding f(2) copy_patch_bytes using f(1,3) by simp
qed

definition vdso_page :: "u32 \<Rightarrow> byte" where
  "vdso_page a = (if a - kernel_vsyscall_addr < 20 then vsyscall_impl ! unat (a - kernel_vsyscall_addr) else 0)"

lemma vdso_page_runs:
  "\<exists>m' prot' out. vdso_main (0, ''Success'') ret [] trampoline hook 5 vdso_page = Inr (m', prot', out)"
proof -
  have "verify_vsyscall_insns kernel_vsyscall_addr vdso_page = Inr (''All insns match!'' @ newline)"
    by (simp add: verify_vsyscall_insns_def vsyscall_impl_def vdso_page_def)
  then show ?thesis by (simp add: vdso_main_def Let_def monkey_patch_bytes mprotect_def PROT_READ_def PROT_WRITE_def PROT_EXEC_def)
qed

theorem patch_only_expected_witness:
  "\<exists>m' prot' out. vdso_main (0, ''Success'') (- 1) [] 0x08048500 0x08048600 5 vdso_page = Inr (m', prot', out) \<and> and prot' PROT_WRITE \<noteq> 0
    \<and> disassemble (map (\<lambda>i. m' (kernel_vsyscall_addr + i)) [0, 1, 2, 3, 4, 5, 6, 7])
      = Some [V_push EAX, V_mov_eax 0x08048500, V_jmp_eax]"
proof -
  obtain m' prot' out where r: "vdso_main (0, ''Success'') (- 1) [] 0x08048500 0x08048600 5 vdso_page = Inr (m', prot', out)"
    using vdso_page_runs by blast
  from patch_only_expected [OF r] r show ?thesis by auto
qed

text \<open>
  C13. A system call made through the patched entry reaches the hook with the number and the six
  arguments that the caller had in its registers; its result is what the caller finds in \<open>%eax\<close>. All
  other registers come back unchanged, also those that a function may clobber, the stack pointer has
  popped only the return address, and the caller's part of the stack is as it was. The
  hook may be compiled to any code that follows the calling convention. To the kernel it passes the number and five of the arguments; the sixth is whatever
  the compiled hook has in \<open>%ebp\<close>, not what the caller had there.
\<close>

theorem patched_vsyscall_transparent:
  assumes "vdso_main mprotect1 mprotect2 maps trampoline hook prot m = Inr (m', prot', out)" and "mem s = m'"
    and "cdecl_frame clobber"
    and "\<forall>i\<in>{0, 1, 2, 3, 4, 5, 6, 7}. 4 \<le> kernel_vsyscall_addr + i - (rd ESP s - 4)"
  shows "\<exists>t r. fetch_run 3 kernel_vsyscall_addr s = Some (trampoline, t)
    \<and> run n (\<lambda>_. call_hook kernel_call ebp clobber) int80 code (vsyscall_hook_trampoline hook) t = Some r
    \<and> rd EAX r = vsyscall_hook kernel_call ebp
        \<lparr>si_no = rd EAX s, si_args = [rd EBX s, rd ECX s, rd EDX s, rd ESI s, rd EDI s, rd EBP s]\<rparr>
    \<and> rd EAX r = kernel_call (rd EAX s) [rd EBX s, rd ECX s, rd EDX s, rd ESI s, rd EDI s, ebp]
    \<and> (\<forall>q\<in>{EBX, ECX, EDX, ESI, EDI, EBP}. rd q r = rd q s) \<and> rd ESP r = rd ESP s + 4
    \<and> (\<forall>a. a - rd ESP s < 2 ^ 30 \<longrightarrow> mem r a = mem s a)"
proof -
  let ?t = "wr EAX trampoline (push (rd EAX s) s)"
  have m: "mem s = copy_bytes kernel_vsyscall_addr (patch_bytes trampoline) m"
    using assms(1,2) vdso_main_Inr(2) by blast
  have fetch: "fetch_run 3 kernel_vsyscall_addr s = Some (trampoline, ?t)"
    by (rule patch_runs, simp only: m patched_mem) (use assms(4) in blast)
  have esp: "rd ESP s = rd ESP ?t + 4" by simp
  obtain r where r: "run n (\<lambda>_. call_hook kernel_call ebp clobber) int80 code (vsyscall_hook_trampoline hook) ?t = Some r"
    "rd EAX r = vsyscall_hook kernel_call ebp
       \<lparr>si_no = load32 (mem ?t) (rd ESP s - 4), si_args = [rd EBX ?t, rd ECX ?t, rd EDX ?t, rd ESI ?t, rd EDI ?t, rd EBP ?t]\<rparr>"
    "\<And>q. q \<in> {EBX, ECX, EDX, ESI, EDI, EBP} \<Longrightarrow> rd q r = rd q ?t" "rd ESP r = rd ESP s + 4"
    "\<And>a. a - rd ESP s < 2 ^ 30 \<Longrightarrow> mem r a = mem ?t a"
    using assms(3) esp by (rule trampoline_run [where hook = hook and n = n and kernel_call = kernel_call and ebp = ebp and code = code]) (rule that)
  have "mem ?t a = mem s a" if "a - rd ESP s < 2 ^ 30" for a
    using stack_above_shift [of a "rd ESP s" 0] that by (simp add: store32_above)
  with r show ?thesis using fetch by (intro exI [of _ ?t] exI [of _ r]) (auto simp: vsyscall_hook_def)
qed

definition caller :: "(u32 \<Rightarrow> byte) \<Rightarrow> cpu" where
  "caller m = \<lparr>regs = (\<lambda>r. if r = ESP then 0x8000 else if r = EAX then 4 else 9), cf = False, zf = False, pf = False, mem = m\<rparr>"

lemma caller_eval:
  "rd EAX (caller m) = 4" "rd ECX (caller m) = 9" "mem (caller m) = m"
  "\<forall>i\<in>{0, 1, 2, 3, 4, 5, 6, 7}. 4 \<le> kernel_vsyscall_addr + i - (rd ESP (caller m) - 4)"
  by (simp_all add: caller_def rd_def kernel_vsyscall_addr_def vdso_start_addr_def vsyscall_offset_def)

theorem patched_vsyscall_transparent_witness:
  "\<exists>m' t r. fetch_run 3 kernel_vsyscall_addr (caller m') = Some (0x08048500, t)
    \<and> run 0 (\<lambda>_. call_hook (\<lambda>no args. no + args ! 1) 0 (\<lambda>s. s)) (\<lambda>s. s) [] (vsyscall_hook_trampoline 0x08048600) t = Some r
    \<and> rd EAX r = 13 \<and> rd ECX r = 9"
proof -
  obtain m' prot' out where m: "vdso_main (0, ''Success'') 0 [] 0x08048500 0x08048600 5 vdso_page = Inr (m', prot', out)"
    using vdso_page_runs by blast
  have c: "cdecl_frame (\<lambda>s. s)" by (simp add: cdecl_frame_def)
  from patched_vsyscall_transparent [OF m caller_eval(3) c caller_eval(4), of 0 "\<lambda>no args. no + args ! 1" 0 "\<lambda>s. s" "[]"]
  obtain t r where r: "fetch_run 3 kernel_vsyscall_addr (caller m') = Some (0x08048500, t)"
    "run 0 (\<lambda>_. call_hook (\<lambda>no args. no + args ! 1) 0 (\<lambda>s. s)) (\<lambda>s. s) [] (vsyscall_hook_trampoline 0x08048600) t = Some r"
    "rd EAX r = vsyscall_hook (\<lambda>no args. no + args ! 1) 0 \<lparr>si_no = rd EAX (caller m'), si_args =
       [rd EBX (caller m'), rd ECX (caller m'), rd EDX (caller m'), rd ESI (caller m'), rd EDI (caller m'), rd EBP (caller m')]\<rparr>"
    "rd ECX r = rd ECX (caller m')" by blast
  then have "rd EAX r = 13" "rd ECX r = 9" by (simp_all add: vsyscall_hook_def caller_eval)
  with r show ?thesis by blast
qed

end
