(* ===== verification/Wait_Status.thy ===== *)
theory Wait_Status
  imports C_Text
begin

text \<open>
  The status of a waited-for process. The macros are those of the C library on the
  32-bit status; \<open>src/status2text.c\<close> prints what a status means, and the three
  \<open>dump_status\<close> functions (\<open>src/notify_desched.c\<close>, \<open>src/rpc_syscall.c\<close>, \<open>src/sysemu.c\<close>) report
  it to a tracer, which goes on as long as they return 1. The locale \<open>status_report\<close> is
  what the tracers' loops rely on.
\<close>

section \<open>The macros\<close>

definition WEXITSTATUS :: "u32 \<Rightarrow> u32" where
  "WEXITSTATUS s = drop_bit 8 (and s 0xff00)"

definition WTERMSIG :: "u32 \<Rightarrow> u32" where
  "WTERMSIG s = and s 0x7f"

definition WSTOPSIG :: "u32 \<Rightarrow> u32" where
  "WSTOPSIG s = WEXITSTATUS s"

definition WIFEXITED :: "u32 \<Rightarrow> bool" where
  "WIFEXITED s \<longleftrightarrow> WTERMSIG s = 0"

text \<open>\<open>((signed char) ((status \& 0x7f) + 1) >> 1) > 0\<close>\<close>

definition WIFSIGNALED :: "u32 \<Rightarrow> bool" where
  "WIFSIGNALED s \<longleftrightarrow> 0 < sint (ucast (and s 0x7f + 1) :: byte) div 2"

definition WIFSTOPPED :: "u32 \<Rightarrow> bool" where
  "WIFSTOPPED s \<longleftrightarrow> and s 0xff = 0x7f"

definition WIFCONTINUED :: "u32 \<Rightarrow> bool" where
  "WIFCONTINUED s \<longleftrightarrow> s = 0xffff"

definition WCOREDUMP :: "u32 \<Rightarrow> bool" where
  "WCOREDUMP s \<longleftrightarrow> and s 0x80 \<noteq> 0"

definition PTRACE_EVENT :: "u32 \<Rightarrow> u32" where
  "PTRACE_EVENT s = drop_bit 16 (and 0xFF0000 s)"

section \<open>status2text\<close>

definition print_usage :: "string \<Rightarrow> string" where
  "print_usage exe = ''Usage: '' @ exe @ '' <waitpid-status>...'' @ newline"

definition describe_status :: "u32 \<Rightarrow> string" where
  "describe_status status =
     ''0x'' @ hex (unat status) @ '': ''
     @ (if WIFEXITED status then ''exited with code '' @ dec_int (WEXITSTATUS status) @ newline
        else if WIFSIGNALED status
        then ''terminated by signal '' @ dec_int (WTERMSIG status)
             @ (if WCOREDUMP status then '' (dumped core)'' else []) @ newline
        else if WIFSTOPPED status
        then let ptrace_event = PTRACE_EVENT status
             in ''stopped by signal '' @ dec_int (WSTOPSIG status)
                @ (if ptrace_event \<noteq> 0 then '' (ptrace event '' @ dec_int ptrace_event @ '')'' else []) @ newline
        else if WIFCONTINUED status then ''resumed by SIGCONT'' @ newline
        else ''unknown status'' @ newline)"

text \<open>The exit code, what is written to standard output and what to standard error.\<close>

definition status2text_main :: "string list \<Rightarrow> int \<times> string \<times> string" where
  "status2text_main argv =
     (if length argv < 2 then (1, [], print_usage (case argv of [] \<Rightarrow> ''(null)'' | exe # _ \<Rightarrow> exe))
      else (0, concat (map (\<lambda>arg. describe_status (strtoul arg)) (tl argv)), []))"

section \<open>dump_status\<close>

definition notify_dump_status :: "u32 \<Rightarrow> u32 \<Rightarrow> nat \<times> string" where
  "notify_dump_status p status =
     (if WIFSTOPPED status then (1, dec_int p @ '' stopped by signal '' @ dec_int (WSTOPSIG status) @ newline)
      else if WIFCONTINUED status then (1, dec_int p @ '' continued by SIGCONT'' @ newline)
      else if WIFEXITED status then (0, dec_int p @ '' exited with code '' @ dec_int (WEXITSTATUS status) @ newline)
      else if WIFSIGNALED status then (0, dec_int p @ '' terminated by signal '' @ dec_int (WTERMSIG status) @ newline)
      else (1, dec_int p @ '' seems to be running normally'' @ newline))"

definition rpc_dump_status :: "u32 \<Rightarrow> u32 \<Rightarrow> nat \<times> string" where
  "rpc_dump_status p status =
     (if WIFSTOPPED status then (1, dec_int p @ '' stopped by signal '' @ dec_int (WSTOPSIG status) @ newline)
      else if WIFCONTINUED status then (1, dec_int p @ '' continued by SIGCONT'' @ newline)
      else if WIFEXITED status then (0, dec_int p @ '' exited with code '' @ dec_int (WEXITSTATUS status) @ newline)
      else if WIFSIGNALED status then (0, dec_int p @ '' terminated by signal '' @ dec_int (WTERMSIG status) @ newline)
      else (1, dec_int p @ '' seems to be running normally'' @ newline))"

text \<open>The variant of \<open>sysemu.c\<close> also has a shell print the tracee's system call; \<open>cat\<close> is its output.\<close>

definition sysemu_dump_status :: "(string \<Rightarrow> string) \<Rightarrow> u32 \<Rightarrow> u32 \<Rightarrow> nat \<times> string" where
  "sysemu_dump_status system p status =
     (if WIFSTOPPED status
      then (1, dec_int p @ '' stopped by signal '' @ dec_int (WSTOPSIG status) @ newline
               @ system (''cat /proc/'' @ dec_int p @ ''/syscall''))
      else if WIFCONTINUED status then (1, dec_int p @ '' continued by SIGCONT'' @ newline)
      else if WIFEXITED status then (0, dec_int p @ '' exited with code '' @ dec_int (WEXITSTATUS status) @ newline)
      else if WIFSIGNALED status then (0, dec_int p @ '' terminated by signal '' @ dec_int (WTERMSIG status) @ newline)
      else (1, dec_int p @ '' seems to be running normally'' @ newline))"

section \<open>What a status means\<close>

datatype wait_kind = Exited nat | Signaled nat bool | Stopped nat nat | Continued | Other

text \<open>How the kernel composes a status: an exit code, a signal with the core flag, a stop signal with a ptrace event.\<close>

fun encode_status :: "wait_kind \<Rightarrow> u32" where
  "encode_status (Exited c) = of_nat (256 * c)"
| "encode_status (Signaled sig core) = of_nat (sig + 128 * of_bool core)"
| "encode_status (Stopped sig ev) = of_nat (65536 * ev + 256 * sig + 127)"
| "encode_status Continued = 0xffff"
| "encode_status Other = 0xff"

fun valid_kind :: "wait_kind \<Rightarrow> bool" where
  "valid_kind (Exited c) \<longleftrightarrow> c < 256"
| "valid_kind (Signaled sig core) \<longleftrightarrow> 0 < sig \<and> sig < 127"
| "valid_kind (Stopped sig ev) \<longleftrightarrow> sig < 256 \<and> ev < 256"
| "valid_kind Continued \<longleftrightarrow> True"
| "valid_kind Other \<longleftrightarrow> False"

definition kind_of :: "u32 \<Rightarrow> wait_kind" where
  "kind_of s =
     (if WIFEXITED s then Exited (unat (WEXITSTATUS s))
      else if WIFSIGNALED s then Signaled (unat (WTERMSIG s)) (WCOREDUMP s)
      else if WIFSTOPPED s then Stopped (unat (WSTOPSIG s)) (unat (PTRACE_EVENT s))
      else if WIFCONTINUED s then Continued else Other)"

section \<open>The macros as arithmetic\<close>

lemma unat_and_mask: "unat (and s (mask n :: u32)) = unat s mod 2 ^ n"
  by (simp only: take_bit_eq_mask [symmetric] unsigned_take_bit_eq) (simp add: take_bit_eq_mod)

lemma unat_drop: "unat (drop_bit n (s :: u32)) = unat s div 2 ^ n"
  by (simp only: unat_drop_bit_eq) (simp add: drop_bit_eq_div)

lemma unat_termsig: "unat (WTERMSIG s) = unat s mod 128"
  using unat_and_mask [of s 7] by (simp add: WTERMSIG_def mask_eq_exp_minus_1)

lemma and_field: "drop_bit m (and s (push_bit m (mask n))) = and (drop_bit m s) (mask n)" for s :: u32
  by (rule bit_word_eqI) (auto simp: bit_simps dest: bit_imp_le_length)

lemma unat_exitstatus: "unat (WEXITSTATUS s) = unat s div 256 mod 256"
  using and_field [of 8 s 8] unat_and_mask [of "drop_bit 8 s" 8] unat_drop [of 8 s]
  by (simp add: WEXITSTATUS_def mask_eq_exp_minus_1)

lemma unat_event: "unat (PTRACE_EVENT s) = unat s div 65536 mod 256"
  using and_field [of 16 s 8] unat_and_mask [of "drop_bit 16 s" 8] unat_drop [of 16 s]
  by (simp add: PTRACE_EVENT_def mask_eq_exp_minus_1 and.commute)


lemma exited_iff: "WIFEXITED s \<longleftrightarrow> unat s mod 128 = 0"
  unfolding WIFEXITED_def unat_eq_0 [symmetric] unat_termsig ..

lemma sint_byte: "sint (of_nat n :: byte) = (if n < 128 then int n else int n - 256)" if "n < 256"
proof -
  have "sint (of_nat n :: byte) = signed_take_bit 7 (int n)" by (simp add: signed_of_nat)
  also have "\<dots> = (if n < 128 then int n else int n - 256)"
  proof (cases "n < 128")
    case True
    then show ?thesis by (simp add: signed_take_bit_int_eq_self_iff)
  next
    case False
    then have "int n div 128 = 1" using that by simp
    then have "bit (int n) 7" by (simp add: bit_iff_odd)
    then show ?thesis using that False by (simp add: signed_take_bit_eq_take_bit_minus take_bit_eq_mod)
  qed
  finally show ?thesis .
qed

lemma signaled_iff: "WIFSIGNALED s \<longleftrightarrow> unat s mod 128 \<noteq> 0 \<and> unat s mod 128 \<noteq> 127"
proof -
  let ?t = "unat s mod 128"
  have t: "?t < 128" by simp
  have "and s 0x7f = of_nat (unat (WTERMSIG s))" by (simp add: WTERMSIG_def)
  then have "and s 0x7f = of_nat ?t" by (simp only: unat_termsig)
  then have "and s 0x7f + 1 = of_nat (Suc ?t)" by simp
  moreover have "(ucast (of_nat (Suc ?t) :: u32) :: byte) = of_nat (Suc ?t)"
    using t unfolding unsigned_of_nat by (simp add: take_bit_nat_eq_self)
  ultimately have "ucast (and s 0x7f + 1) = (of_nat (Suc ?t) :: byte)" by metis
  then show ?thesis using sint_byte [of "Suc ?t"] t by (auto simp: WIFSIGNALED_def)
qed

lemma stopped_iff: "WIFSTOPPED s \<longleftrightarrow> unat s mod 256 = 127"
  using unat_and_mask [of s 8] by (simp add: WIFSTOPPED_def mask_eq_exp_minus_1 word_unat_eq_iff)

lemma continued_iff: "WIFCONTINUED s \<longleftrightarrow> unat s = 65535"
  by (simp add: WIFCONTINUED_def word_unat_eq_iff)

lemma coredump_iff: "WCOREDUMP s \<longleftrightarrow> odd (unat s div 128)"
  using and_exp_eq_0_iff_not_bit [of s 7] bit_unsigned_iff [where 'a = nat, of s 7]
  by (simp add: WCOREDUMP_def bit_iff_odd possible_bit_def)

lemmas macro_iffs = exited_iff signaled_iff stopped_iff continued_iff coredump_iff

text \<open>The meanings exclude each other, so that the order of the tests does not matter.\<close>

lemma stopped_alive: "WIFSTOPPED s \<Longrightarrow> \<not> WIFEXITED s \<and> \<not> WIFSIGNALED s \<and> \<not> WIFCONTINUED s"
proof -
  assume "WIFSTOPPED s"
  then have "unat s mod 256 = 127" by (simp add: stopped_iff)
  moreover from this have "unat s mod 128 = 127" using mod_mod_cancel [of 128 256 "unat s"] by simp
  ultimately show ?thesis unfolding macro_iffs by auto
qed

lemma continued_alive: "WIFCONTINUED s \<Longrightarrow> \<not> WIFEXITED s \<and> \<not> WIFSIGNALED s \<and> \<not> WIFSTOPPED s"
  unfolding macro_iffs by simp

definition dead :: "u32 \<Rightarrow> bool" where
  "dead s \<longleftrightarrow> WIFEXITED s \<or> WIFSIGNALED s"

section \<open>What the tracers rely on\<close>

locale status_report =
  fixes report :: "u32 \<Rightarrow> u32 \<Rightarrow> nat \<times> string"
  assumes report_dead: "fst (report p s) = 0 \<longleftrightarrow> dead s"
begin

lemma report_stopped: "WIFSTOPPED s \<Longrightarrow> fst (report p s) \<noteq> 0"
  using stopped_alive by (auto simp: report_dead dead_def)

lemma stops_at_first_dead:
  "takeWhile (\<lambda>s. fst (report p s) \<noteq> 0) ss = takeWhile (\<lambda>s. \<not> dead s) ss"
  by (simp add: report_dead)

end

interpretation notify: status_report notify_dump_status
  using stopped_alive continued_alive by unfold_locales (auto simp: notify_dump_status_def dead_def)

interpretation rpc: status_report rpc_dump_status
  using stopped_alive continued_alive by unfold_locales (auto simp: rpc_dump_status_def dead_def)

interpretation sysemu: status_report "sysemu_dump_status system" for system
  using stopped_alive continued_alive by unfold_locales (auto simp: sysemu_dump_status_def dead_def)

section \<open>Properties\<close>

lemma kind_of_unat:
  "kind_of s =
     (if unat s mod 128 = 0 then Exited (unat s div 256 mod 256)
      else if unat s mod 128 \<noteq> 127 then Signaled (unat s mod 128) (odd (unat s div 128))
      else if unat s mod 256 = 127 then Stopped (unat s div 256 mod 256) (unat s div 65536 mod 256)
      else if unat s = 65535 then Continued else Other)"
  by (simp add: kind_of_def macro_iffs unat_exitstatus unat_termsig unat_event WSTOPSIG_def)

lemma kind_of_exited:
  assumes "c < 256"
  shows "kind_of (encode_status (Exited c)) = Exited c"
proof -
  have n: "unat (encode_status (Exited c)) = 256 * c"
    unfolding encode_status.simps using assms by (intro unat_of_nat_small) simp
  have "256 * c = 128 * (2 * c)" by simp
  then have "256 * c mod 128 = 0" by (simp only: mod_mult_self1_is_0)
  then show ?thesis using assms unfolding kind_of_unat n by simp
qed

lemma kind_of_signaled:
  assumes "0 < sig" "sig < 127"
  shows "kind_of (encode_status (Signaled sig core)) = Signaled sig core"
proof -
  have "unat (encode_status (Signaled sig core)) = sig + 128 * of_bool core"
    unfolding encode_status.simps using assms by (intro unat_of_nat_small) simp
  moreover have "(sig + 128) div 128 = 1" "(sig + 128) mod 128 = sig" using assms by simp_all
  ultimately show ?thesis using assms unfolding kind_of_unat by (cases core) simp_all
qed

lemma kind_of_stopped:
  assumes "sig < 256" "ev < 256"
  shows "kind_of (encode_status (Stopped sig ev)) = Stopped sig ev"
proof -
  let ?n = "65536 * ev + 256 * sig + 127" let ?x = "sig + 256 * ev"
  have n: "unat (encode_status (Stopped sig ev)) = ?n"
    unfolding encode_status.simps using assms by (intro unat_of_nat_small) simp
  have e: "?n = 127 + 256 * ?x" by simp
  have m: "(127 + 256 * x) mod 256 = 127" "(127 + 256 * x) div 256 = x" "(127 + 256 * x) mod 128 = 127" for x :: nat
  proof -
    show "(127 + 256 * x) mod 128 = 127" using mod_mult_self2 [of 127 128 "2 * x"] by simp
  qed simp_all
  have "?n mod 256 = 127" "?n div 256 = ?x" "?n mod 128 = 127" unfolding e by (rule m)+
  moreover have "?n div 65536 = ?n div 256 div 256" by (simp flip: div_mult2_eq)
  moreover have "?x mod 256 = sig" "?x div 256 = ev" using assms by simp_all
  ultimately have "?n mod 256 = 127" "?n mod 128 = 127" "?n div 256 mod 256 = sig" "?n div 65536 mod 256 = ev"
    using assms by (simp_all only: mod_less)
  then show ?thesis unfolding kind_of_unat n by simp
qed

lemma dec_int_small:
  assumes "unat w < 2 ^ 31"
  shows "dec_int w = dec (unat w)"
proof -
  have "sint (of_nat n :: u32) = int n" if "n < 2 ^ 31" for n
    unfolding signed_of_nat using that by (simp add: signed_take_bit_int_eq_self_iff)
  from this [OF assms] have "sint w = int (unat w)" by simp
  then show ?thesis by (simp add: dec_int_def)
qed

lemma dec_int_fields:
  "dec_int (WEXITSTATUS s) = dec (unat (WEXITSTATUS s))" "dec_int (WTERMSIG s) = dec (unat (WTERMSIG s))"
  "dec_int (WSTOPSIG s) = dec (unat (WSTOPSIG s))" "dec_int (PTRACE_EVENT s) = dec (unat (PTRACE_EVENT s))"
proof -
  have m: "n mod 256 < 2 ^ 31" "n mod 128 < 2 ^ 31" for n :: nat
    using mod_less_divisor [of 256 n] mod_less_divisor [of 128 n] by simp_all
  show "dec_int (WEXITSTATUS s) = dec (unat (WEXITSTATUS s))" "dec_int (WTERMSIG s) = dec (unat (WTERMSIG s))"
    "dec_int (WSTOPSIG s) = dec (unat (WSTOPSIG s))" "dec_int (PTRACE_EVENT s) = dec (unat (PTRACE_EVENT s))"
    by (rule dec_int_small, simp only: WSTOPSIG_def unat_exitstatus unat_termsig unat_event m)+
qed

fun kind_text :: "wait_kind \<Rightarrow> string" where
  "kind_text (Exited c) = ''exited with code '' @ dec c"
| "kind_text (Signaled sig core) = ''terminated by signal '' @ dec sig @ (if core then '' (dumped core)'' else [])"
| "kind_text (Stopped sig ev) = ''stopped by signal '' @ dec sig @ (if ev \<noteq> 0 then '' (ptrace event '' @ dec ev @ '')'' else [])"
| "kind_text Continued = ''resumed by SIGCONT''"
| "kind_text Other = ''unknown status''"

lemma describe_status_kind:
  "describe_status s = ''0x'' @ hex (unat s) @ '': '' @ kind_text (kind_of s) @ newline"
  unfolding describe_status_def kind_of_def dec_int_fields Let_def
  by (cases "WIFEXITED s"; cases "WIFSIGNALED s"; cases "WIFSTOPPED s"; cases "WIFCONTINUED s"; simp add: unat_eq_0)

lemma kind_of_encode: "valid_kind k \<Longrightarrow> kind_of (encode_status k) = k"
proof (cases k)
  case Continued
  then show ?thesis by (simp add: kind_of_unat)
qed (simp_all add: kind_of_exited kind_of_signaled kind_of_stopped del: encode_status.simps)

text \<open>
  C16. A status that the kernel composes for an exit, a fatal signal, a stop or a
  continuation, given to \<open>status2text\<close> in the hexadecimal form in which the programs
  print it, is printed as what happened: the code, the signal, the core flag and the
  ptrace event come out as they went in.
\<close>

theorem status2text_roundtrip:
  assumes "valid_kind k"
  shows "status2text_main [exe, ''0x'' @ hex (unat (encode_status k))] =
    (0, ''0x'' @ hex (unat (encode_status k)) @ '': '' @ kind_text k @ newline, [])"
proof -
  have "strtoul (''0x'' @ hex (unat (encode_status k))) = encode_status k"
    using strtoul_hex [of "unat (encode_status k)"] unsigned_less [where 'a = nat, of "encode_status k"] by simp
  then show ?thesis using kind_of_encode [OF assms] by (simp add: status2text_main_def describe_status_kind)
qed

theorem status2text_roundtrip_witness:
  "status2text_main [''status2text'', ''0x857f''] = (0, ''0x857f: stopped by signal 133'' @ newline, [])"
  using status2text_roundtrip [of "Stopped 133 0" "''status2text''"]
  by (simp add: render.simps digit_char_def char_of_def bit_0)

fun dump_text :: "wait_kind \<Rightarrow> string" where
  "dump_text (Exited c) = ''exited with code '' @ dec c"
| "dump_text (Signaled sig core) = ''terminated by signal '' @ dec sig"
| "dump_text (Stopped sig ev) = ''stopped by signal '' @ dec sig"
| "dump_text Continued = ''continued by SIGCONT''"
| "dump_text Other = ''seems to be running normally''"

fun gone :: "wait_kind \<Rightarrow> bool" where
  "gone (Exited c) = True"
| "gone (Signaled sig core) = True"
| "gone _ = False"

lemma dump_status_kind:
  "rpc_dump_status p s = (if gone (kind_of s) then 0 else 1, dec_int p @ '' '' @ dump_text (kind_of s) @ newline)"
  "notify_dump_status p s = (if gone (kind_of s) then 0 else 1, dec_int p @ '' '' @ dump_text (kind_of s) @ newline)"
  "sysemu_dump_status system p s = (if gone (kind_of s) then 0 else 1, dec_int p @ '' '' @ dump_text (kind_of s) @ newline
     @ (if WIFSTOPPED s then system (''cat /proc/'' @ dec_int p @ ''/syscall'') else []))"
  using stopped_alive [of s] continued_alive [of s]
  unfolding rpc_dump_status_def notify_dump_status_def sysemu_dump_status_def kind_of_def dec_int_fields
  by (cases "WIFSTOPPED s"; cases "WIFCONTINUED s"; cases "WIFEXITED s"; cases "WIFSIGNALED s"; simp)+

lemma stopped_kind: "WIFSTOPPED s \<longleftrightarrow> (\<exists>sig ev. kind_of s = Stopped sig ev)"
  using stopped_alive [of s] by (auto simp: kind_of_def)

text \<open>
  C33. For every status that the kernel composes for an exit, a fatal signal, a stop or a continuation, the three \<open>dump_status\<close> functions and
  \<open>status2text\<close> tell the same event: each prints its code or signal, the three functions return 0 exactly when the process is gone, and that of \<open>sysemu.c\<close> adds
  the tracee's system call exactly at a stop. They test the macros in different orders.
\<close>

theorem dump_status_agree:
  assumes "valid_kind k"
  shows "rpc_dump_status p (encode_status k) = (if gone k then 0 else 1, dec_int p @ '' '' @ dump_text k @ newline)
    \<and> notify_dump_status p (encode_status k) = (if gone k then 0 else 1, dec_int p @ '' '' @ dump_text k @ newline)
    \<and> sysemu_dump_status system p (encode_status k) = (if gone k then 0 else 1, dec_int p @ '' '' @ dump_text k @ newline
        @ (case k of Stopped sig ev \<Rightarrow> system (''cat /proc/'' @ dec_int p @ ''/syscall'') | _ \<Rightarrow> []))
    \<and> fst (snd (status2text_main [exe, ''0x'' @ hex (unat (encode_status k))])) = ''0x'' @ hex (unat (encode_status k)) @ '': ''
        @ (case k of
             Exited c \<Rightarrow> dump_text k
           | Signaled sig core \<Rightarrow> dump_text k @ (if core then '' (dumped core)'' else [])
           | Stopped sig ev \<Rightarrow> dump_text k @ (if ev \<noteq> 0 then '' (ptrace event '' @ dec ev @ '')'' else [])
           | _ \<Rightarrow> ''resumed by SIGCONT'') @ newline"
proof -
  let ?s = "encode_status k"
  have k: "kind_of ?s = k" using assms by (rule kind_of_encode)
  have "strtoul (''0x'' @ hex (unat ?s)) = ?s"
    using strtoul_hex [of "unat ?s"] unsigned_less [where 'a = nat, of ?s] by simp
  then have "fst (snd (status2text_main [exe, ''0x'' @ hex (unat ?s)])) = ''0x'' @ hex (unat ?s) @ '': '' @ kind_text k @ newline"
    using k by (simp add: status2text_main_def describe_status_kind)
  moreover have "k \<noteq> Other" using assms by (cases k) simp_all
  ultimately show ?thesis
    unfolding dump_status_kind k stopped_kind [of ?s] by (cases k) simp_all
qed

theorem dump_status_agree_witness:
  "sysemu_dump_status (\<lambda>cmd. cmd) 7 (encode_status (Stopped 5 0)) = (1, dec_int 7 @ '' stopped by signal '' @ dec 5 @ newline @ ''cat /proc/'' @ dec_int 7 @ ''/syscall'')"
  using dump_status_agree [of "Stopped 5 0" 7 "\<lambda>cmd. cmd"] by simp

end
