(* ===== verification/Ptrace.thy ===== *)
theory Ptrace
  imports Wait_Status
begin

text \<open>
  The side of a tracer. A tracer sends \<open>ptrace\<close> requests and waits; what the kernel answers
  (the results of \<open>waitpid\<close> and the registers of the tracee) is given from outside as the
  sequences that it will deliver, and the requests and the output are recorded in order. A wait for which
  nothing comes blocks. The tracers of the repository (\<open>src/rpc_syscall.c\<close>, \<open>src/regtrace.c\<close>,
  \<open>src/sysemu.c\<close>, \<open>src/notify_desched.c\<close>, \<open>src/watchpoint.c\<close>) are programs over it.
\<close>

definition SIGTRAP :: u32 where "SIGTRAP = 5"
definition SIGSTOP :: u32 where "SIGSTOP = 19"
definition SIGIO :: u32 where "SIGIO = 29"

record user_regs =
  r_eax :: u32
  r_ebx :: u32
  r_ecx :: u32
  r_edx :: u32
  r_esi :: u32
  r_edi :: u32
  r_ebp :: u32
  r_esp :: u32
  r_eip :: u32
  r_orig_eax :: u32

definition zero_regs :: user_regs where
  "zero_regs = \<lparr>r_eax = 0, r_ebx = 0, r_ecx = 0, r_edx = 0, r_esi = 0, r_edi = 0, r_ebp = 0, r_esp = 0, r_eip = 0, r_orig_eax = 0\<rparr>"

datatype ptrace_request =
    PTRACE_CONT | PTRACE_SYSCALL | PTRACE_SINGLESTEP u32 | PTRACE_SYSEMU | PTRACE_SYSEMU_SINGLESTEP
  | PTRACE_SETOPTIONS u32 | PTRACE_GETREGS | PTRACE_SETREGS user_regs | PTRACE_POKEUSER u32 u32
  | PTRACE_GETEVENTMSG | PTRACE_GETSIGINFO

record tracer =
  t_reqs :: "(u32 \<times> ptrace_request) list"
  t_waits :: "(u32 \<times> u32) list"
  t_regs :: "user_regs list"
  t_out :: string

definition ptrace :: "u32 \<Rightarrow> ptrace_request \<Rightarrow> tracer \<Rightarrow> tracer" where
  "ptrace tid req s = s\<lparr>t_reqs := t_reqs s @ [(tid, req)]\<rparr>"

definition say :: "string \<Rightarrow> tracer \<Rightarrow> tracer" where
  "say txt s = s\<lparr>t_out := t_out s @ txt\<rparr>"

text \<open>\<open>waitpid\<close> delivers a process and its status.\<close>

definition waitpid :: "tracer \<Rightarrow> ((u32 \<times> u32) \<times> tracer) res" where
  "waitpid s = (case t_waits s of [] \<Rightarrow> Inl Blocked | w # ws \<Rightarrow> Inr (w, s\<lparr>t_waits := ws\<rparr>))"

definition getregs :: "u32 \<Rightarrow> tracer \<Rightarrow> (user_regs \<times> tracer) res" where
  "getregs tid s = (case t_regs s of
     [] \<Rightarrow> Inl Blocked | r # rs \<Rightarrow> Inr (r, ptrace tid PTRACE_GETREGS (s\<lparr>t_regs := rs\<rparr>)))"

text \<open>A resumption and the wait for the next stop.\<close>

definition resume :: "u32 \<Rightarrow> ptrace_request \<Rightarrow> tracer \<Rightarrow> (u32 \<times> tracer) res" where
  "resume tid req s = bind_res (waitpid (ptrace tid req s)) (\<lambda>((_, status), s1). Inr (status, s1))"

section \<open>Rewrite rules\<close>

lemma ptrace_fields [simp, ptrace_simps]:
  "t_reqs (ptrace tid req s) = t_reqs s @ [(tid, req)]" "t_waits (ptrace tid req s) = t_waits s"
  "t_regs (ptrace tid req s) = t_regs s" "t_out (ptrace tid req s) = t_out s"
  by (simp_all add: ptrace_def)

lemma say_fields [simp, ptrace_simps]:
  "t_reqs (say txt s) = t_reqs s" "t_waits (say txt s) = t_waits s" "t_regs (say txt s) = t_regs s"
  "t_out (say txt s) = t_out s @ txt"
  by (simp_all add: say_def)

lemma waitpid_Inr: "waitpid s = Inr (w, s') \<longleftrightarrow> (\<exists>ws. t_waits s = w # ws \<and> s' = s\<lparr>t_waits := ws\<rparr>)"
  by (auto simp: waitpid_def split: list.splits)

lemma waitpid_eval [simp, ptrace_simps]:
  "t_waits s = [] \<Longrightarrow> waitpid s = Inl Blocked"
  "t_waits s = w # ws \<Longrightarrow> waitpid s = Inr (w, s\<lparr>t_waits := ws\<rparr>)"
  by (simp_all add: waitpid_def)

lemma getregs_eval [simp, ptrace_simps]:
  "t_regs s = [] \<Longrightarrow> getregs tid s = Inl Blocked"
  "t_regs s = r # rs \<Longrightarrow> getregs tid s = Inr (r, ptrace tid PTRACE_GETREGS (s\<lparr>t_regs := rs\<rparr>))"
  by (simp_all add: getregs_def)

lemma resume_eval [simp, ptrace_simps]:
  "t_waits s = [] \<Longrightarrow> resume tid req s = Inl Blocked"
  "t_waits s = (p, status) # ws \<Longrightarrow> resume tid req s = Inr (status, (ptrace tid req s)\<lparr>t_waits := ws\<rparr>)"
  by (simp_all add: resume_def)

lemma resume_waits: "resume tid req s = Inr (status, s') \<Longrightarrow> length (t_waits s') < length (t_waits s)"
  by (auto simp: resume_def bind_res_eq_Inr waitpid_Inr)

lemma waitpid_waits: "waitpid s = Inr (w, s') \<Longrightarrow> length (t_waits s') < length (t_waits s)"
  by (auto simp: waitpid_Inr)

lemma getregs_waits: "getregs tid s = Inr (r, s') \<Longrightarrow> t_waits s' = t_waits s"
  by (auto simp: getregs_def split: list.splits)

text \<open>A stop and an exit.\<close>

lemma stop_and_exit: "\<not> dead 0x57f" "dead 0"
  using stopped_alive [of "0x57f"] by (simp_all add: dead_def WIFSTOPPED_def WIFEXITED_def WTERMSIG_def)

end
