(* ===== verification/Tracee.thy ===== *)
theory Tracee
  imports Ptrace
begin

text \<open>
  The other side of the requests: a child that its parent traces, and what the kernel documents about a traced process. The
  child's own code and the results of its system calls are arguments, so that a tracer can be run against any child.
\<close>

section \<open>The child\<close>

text \<open>
  \<open>cc_next\<close> runs the child's code up to its next system call instruction and gives the registers there, the instruction pointer behind it,
  or the status with which the child ends; \<open>cc_step\<close> runs one instruction that is no system call; \<open>cc_sys\<close> is the result of a system call after the
  calls before it, or the status with which it ends the child.
\<close>

record child_code =
  cc_next :: "user_regs \<Rightarrow> u32 + user_regs"
  cc_step :: "user_regs \<Rightarrow> user_regs"
  cc_sys :: "user_regs list \<Rightarrow> user_regs \<Rightarrow> u32 + u32"

datatype child_phase = Unstopped | Outside | Entered | Skipped | Ended

text \<open>\<open>ch_calls\<close> are the system calls that were executed, with the registers at their entry; \<open>ch_seen\<close> are the registers that the tracer read last.\<close>

record traced_child =
  ch_phase :: child_phase
  ch_regs :: user_regs
  ch_seen :: user_regs
  ch_calls :: "user_regs list"

definition start_child :: "user_regs \<Rightarrow> child_phase \<Rightarrow> traced_child" where
  "start_child r ph = \<lparr>ch_phase = ph, ch_regs = r, ch_seen = r, ch_calls = []\<rparr>"

definition TRAP_STOP :: u32 where "TRAP_STOP = 0x57f"
definition SIGSTOP_STOP :: u32 where "SIGSTOP_STOP = 0x137f"
definition ENOSYS :: u32 where "ENOSYS = 38"

text \<open>At the entry the number of the call is in \<open>orig_eax\<close> and \<open>eax\<close> holds the result of an unknown call.\<close>

definition at_entry :: "user_regs \<Rightarrow> user_regs" where
  "at_entry r = r\<lparr>r_orig_eax := r_eax r, r_eax := - ENOSYS\<rparr>"

definition run_to_call :: "child_code \<Rightarrow> child_phase \<Rightarrow> traced_child \<Rightarrow> traced_child \<times> u32" where
  "run_to_call code ph ch = (case cc_next code (ch_regs ch) of
     Inl status \<Rightarrow> (ch\<lparr>ch_phase := Ended\<rparr>, status)
   | Inr r \<Rightarrow> (ch\<lparr>ch_phase := ph, ch_regs := at_entry r\<rparr>, TRAP_STOP))"

definition finish_call :: "child_code \<Rightarrow> traced_child \<Rightarrow> traced_child \<times> u32" where
  "finish_call code ch = (case cc_sys code (ch_calls ch) (ch_regs ch) of
     Inl status \<Rightarrow> (ch\<lparr>ch_phase := Ended, ch_calls := ch_calls ch @ [ch_regs ch]\<rparr>, status)
   | Inr v \<Rightarrow> (ch\<lparr>ch_phase := Outside, ch_regs := (ch_regs ch)\<lparr>r_eax := v\<rparr>, ch_calls := ch_calls ch @ [ch_regs ch]\<rparr>, TRAP_STOP))"

text \<open>
  A request to go on, and the status of the wait after it. A request that comes before the child has stopped itself fails, and the
  wait brings the stop by \<open>SIGSTOP\<close>. An emulated call is skipped. Requests that the
  tracers do not make of such a child are left out.
\<close>

fun resumed :: "child_code \<Rightarrow> traced_child \<Rightarrow> ptrace_request \<Rightarrow> (traced_child \<times> u32) option" where
  "resumed code ch req = (case ch_phase ch of
     Unstopped \<Rightarrow> Some (ch\<lparr>ch_phase := Outside\<rparr>, SIGSTOP_STOP)
   | Ended \<Rightarrow> None
   | Entered \<Rightarrow> (if req = PTRACE_SYSCALL then Some (finish_call code ch) else None)
   | _ \<Rightarrow>
       (if req = PTRACE_SYSCALL then Some (run_to_call code Entered ch)
        else if req = PTRACE_SYSEMU then Some (run_to_call code Skipped ch)
        else if req = PTRACE_SYSEMU_SINGLESTEP then Some (ch\<lparr>ch_phase := Outside, ch_regs := cc_step code (ch_regs ch)\<rparr>, TRAP_STOP)
        else None))"

declare resumed.simps [simp del]

text \<open>What a sequence of requests brings: the child afterwards, the statuses and the registers. Of a child that has ended no registers can be read.\<close>

fun answers :: "child_code \<Rightarrow> traced_child \<Rightarrow> ptrace_request list \<Rightarrow> (traced_child \<times> u32 list \<times> user_regs list) option" where
  "answers code ch [] = Some (ch, [], [])"
| "answers code ch (PTRACE_GETREGS # rs) =
     (let r = (if ch_phase ch = Ended then ch_seen ch else ch_regs ch)
      in map_option (\<lambda>(ch', ws, gs). (ch', ws, r # gs)) (answers code (ch\<lparr>ch_seen := r\<rparr>) rs))"
| "answers code ch (PTRACE_SETREGS r # rs) = answers code (ch\<lparr>ch_regs := r\<rparr>) rs"
| "answers code ch (req # rs) = (case resumed code ch req of
     None \<Rightarrow> None
   | Some (ch1, status) \<Rightarrow> map_option (\<lambda>(ch', ws, gs). (ch', status # ws, gs)) (answers code ch1 rs))"

section \<open>Sequences of requests\<close>

lemma answers_append:
  assumes "answers code ch rs = Some (ch1, ws, gs)"
  shows "answers code ch (rs @ rs') = map_option (\<lambda>(ch', ws', gs'). (ch', ws @ ws', gs @ gs')) (answers code ch1 rs')"
  using assms
proof (induction code ch rs arbitrary: ws gs rule: answers.induct)
  case (1 code ch)
  then show ?case by (cases "answers code ch rs'") auto
qed (auto simp: Let_def option.map_comp comp_def split: option.splits prod.splits intro!: option.map_cong0)

lemma answers_join:
  assumes "answers code ch rs = Some (ch1, ws, gs)" "answers code ch1 rs' = Some (ch2, ws', gs')"
  shows "answers code ch (rs @ rs') = Some (ch2, ws @ ws', gs @ gs')"
  using answers_append [OF assms(1), of rs'] assms(2) by simp

lemma answers_calls:
  "answers code ch rs = Some (ch', ws, gs) \<Longrightarrow> \<exists>rest. ch_calls ch' = ch_calls ch @ rest"
proof (induction code ch rs arbitrary: ws gs rule: answers.induct)
  case (1 code ch)
  then show ?case by simp
qed (fastforce simp: Let_def resumed.simps run_to_call_def finish_call_def split: option.splits child_phase.splits if_splits sum.splits prod.splits)+

text \<open>A child that ends after it was resumed \<open>n\<close> times more.\<close>

fun ends_after :: "child_code \<Rightarrow> nat \<Rightarrow> traced_child \<Rightarrow> bool" where
  "ends_after code 0 ch \<longleftrightarrow> False"
| "ends_after code (Suc n) ch = (case resumed code ch PTRACE_SYSCALL of
     None \<Rightarrow> False | Some (ch', status) \<Rightarrow> if ch_phase ch' = Ended then n = 0 \<and> dead status else \<not> dead status \<and> ends_after code n ch')"


lemma resumed_seen:
  "resumed code (ch\<lparr>ch_seen := r\<rparr>) req = map_option (\<lambda>(ch', st). (ch'\<lparr>ch_seen := r\<rparr>, st)) (resumed code ch req)"
  by (auto simp: resumed.simps run_to_call_def finish_call_def split: child_phase.splits sum.splits)

lemma ends_after_seen: "ends_after code n ch \<Longrightarrow> ends_after code n (ch\<lparr>ch_seen := r\<rparr>)"
  by (induction n arbitrary: ch) (auto simp: resumed_seen split: option.splits if_splits prod.splits)

abbreviation follow :: "nat \<Rightarrow> ptrace_request list" where
  "follow n \<equiv> concat (replicate n [PTRACE_SYSCALL, PTRACE_GETREGS])"

lemma follow_to_the_end:
  assumes "ends_after code (Suc n) ch"
  shows "\<exists>ch' ws d gs. answers code ch (follow (Suc n)) = Some (ch', ws @ [d], gs) \<and> ch_phase ch' = Ended
    \<and> length ws = n \<and> (\<forall>w\<in>set ws. \<not> dead w) \<and> dead d \<and> length gs = Suc n"
  using assms
proof (induction n arbitrary: ch)
  case 0
  then show ?case by (cases "resumed code ch PTRACE_SYSCALL") (auto simp: Let_def split: if_splits)
next
  case (Suc n)
  obtain ch1 st where r: "resumed code ch PTRACE_SYSCALL = Some (ch1, st)" "ch_phase ch1 \<noteq> Ended" "\<not> dead st" "ends_after code (Suc n) ch1"
    using Suc.prems by (cases "resumed code ch PTRACE_SYSCALL") (auto simp del: ends_after.simps(2) simp: ends_after.simps(2) [of code "Suc n" ch] split: if_splits)
  let ?ch = "ch1\<lparr>ch_seen := ch_regs ch1\<rparr>"
  have "ends_after code (Suc n) ?ch" using r(4) by (rule ends_after_seen)
  then obtain ch' ws d gs where "answers code ?ch (follow (Suc n)) = Some (ch', ws @ [d], gs)" "ch_phase ch' = Ended" "length ws = n"
    "\<forall>w\<in>set ws. \<not> dead w" "dead d" "length gs = Suc n" using Suc.IH by blast
  then show ?case using r by (intro exI [of _ ch'] exI [of _ "st # ws"] exI [of _ d] exI [of _ "ch_regs ch1 # gs"]) (simp add: Let_def)
qed

end
