(* ===== verification/Rpc_Syscall.thy ===== *)
theory Rpc_Syscall
  imports Tracee
begin

text \<open>
  A system call made on request (\<open>src/rpc_syscall.c\<close>): the child makes a system call with a
  number that does not exist and its wish in the argument registers, the parent lets it fail,
  has the child perform the wished-for \<open>write\<close> five times by setting its registers, and puts
  the registers back with a result of zero. Parent and child are also run against each other.
\<close>

definition SYS_rpc :: u32 where "SYS_rpc = - 42"
definition SYS_write :: u32 where "SYS_write = 4"
definition STDOUT_FILENO :: u32 where "STDOUT_FILENO = 1"

text \<open>The registers of the child when it stops at its request.\<close>

definition rpc_child_request :: "u32 \<Rightarrow> u32 \<Rightarrow> user_regs \<Rightarrow> user_regs" where
  "rpc_child_request str len r =
     r\<lparr>r_orig_eax := SYS_rpc, r_ebx := SYS_write, r_ecx := str, r_edx := len\<rparr>"

definition rpc_dump :: "u32 \<Rightarrow> u32 \<Rightarrow> tracer \<Rightarrow> tracer" where
  "rpc_dump c status s = say (snd (rpc_dump_status c status)) s"

definition puts_line :: "string \<Rightarrow> tracer \<Rightarrow> tracer" where
  "puts_line txt s = say (txt @ newline) s"

text \<open>The artificial system calls.\<close>

fun rpc_inject :: "nat \<Rightarrow> u32 \<Rightarrow> u32 \<Rightarrow> u32 \<Rightarrow> user_regs \<Rightarrow> user_regs \<Rightarrow> tracer \<Rightarrow> tracer res" where
  "rpc_inject 0 c str len regs callregs s = Inr s"
| "rpc_inject (Suc j) c str len regs callregs s =
     (let callregs1 = callregs\<lparr>r_eax := SYS_write, r_ebx := STDOUT_FILENO, r_ecx := str, r_edx := len\<rparr>;
          s1 = ptrace c (PTRACE_SETREGS callregs1) s;
          callregs2 = callregs1\<lparr>r_eip := r_eip regs\<rparr>;
          s2 = puts_line ''parent: entering artificial syscall ...'' s1
      in bind_res (resume c PTRACE_SYSCALL s2) (\<lambda>(status, s3).
         let s4 = puts_line ''parent: ... finishing syscall ...'' (rpc_dump c status s3)
         in bind_res (resume c PTRACE_SYSCALL s4) (\<lambda>(status, s5).
            rpc_inject j c str len regs callregs2 (rpc_dump c status s5))))"

definition rpc_request_msg :: "user_regs \<Rightarrow> string" where
  "rpc_request_msg r = ''parent: child requests rpc for syscall '' @ dec_int (r_ebx r) @ '' (write; str='' @ show_ptr (r_ecx r)
     @ '', len='' @ dec_int (r_edx r) @ '')''"

definition rpc_return_msg :: "user_regs \<Rightarrow> string" where
  "rpc_return_msg r = ''parent: setting ret=0 for ip '' @ show_ptr (r_eip r)"

definition rpc_serve :: "u32 \<Rightarrow> user_regs \<Rightarrow> tracer \<Rightarrow> tracer res" where
  "rpc_serve c request s =
     (let str = r_ecx request; len = r_edx request;
          s1 = puts_line (rpc_request_msg request) s;
          s2 = puts_line ''parent: advance to rpc exit'' s1
      in bind_res (resume c PTRACE_SYSCALL s2) (\<lambda>(status, s3).
         bind_res (getregs c (rpc_dump c status s3)) (\<lambda>(regs0, s4).
         let regs = regs0\<lparr>r_eax := 0\<rparr>;
             s5 = puts_line (rpc_return_msg regs) s4
         in bind_res (rpc_inject 5 c str len regs regs s5) (\<lambda>s6.
            let s7 = ptrace c (PTRACE_SETREGS regs) (puts_line ''parent: done, restoring regs from before phony syscall'' s6)
            in bind_res (resume c PTRACE_SYSCALL s7) (\<lambda>(_, s8).
               bind_res (resume c PTRACE_SYSCALL s8) (\<lambda>(_, s9). Inr s9))))))"

text \<open>The loop to the end of the child; every round takes one status.\<close>

function rpc_loop :: "u32 \<Rightarrow> tracer \<Rightarrow> tracer res" where
  "rpc_loop c s =
     bind_res (resume c PTRACE_SYSCALL s) (\<lambda>(status, s1).
     bind_res (getregs c s1) (\<lambda>(regs, s2).
     let s3 = say (''parent: child at/in syscall '' @ dec_int (r_orig_eax regs) @ newline) s2;
         s4 = rpc_dump c status s3
     in if fst (rpc_dump_status c status) \<noteq> 0 then rpc_loop c s4 else Inr s4))"
  by pat_completeness auto
termination
  by (relation "measure (\<lambda>(c, s). length (t_waits s))")
    (auto simp: rpc_dump_def dest!: resume_waits getregs_waits)

declare rpc_loop.simps [simp del]

definition rpc_parent :: "u32 \<Rightarrow> tracer \<Rightarrow> tracer res" where
  "rpc_parent c s =
     bind_res (resume c PTRACE_CONT s) (\<lambda>(_, s1).
     bind_res (resume c PTRACE_SYSCALL s1) (\<lambda>(status, s2).
     bind_res (getregs c (rpc_dump c status s2)) (\<lambda>(regs, s3).
     bind_res (if SYS_rpc = r_orig_eax regs then rpc_serve c regs s3 else Inr s3) (\<lambda>s4.
     rpc_loop c s4))))"

section \<open>The requests of the parent\<close>

abbreviation reqs :: "u32 \<Rightarrow> ptrace_request list \<Rightarrow> (u32 \<times> ptrace_request) list" where
  "reqs c \<equiv> map (Pair c)"

lemma dump_fields [simp]:
  "t_reqs (rpc_dump c st s) = t_reqs s" "t_waits (rpc_dump c st s) = t_waits s" "t_regs (rpc_dump c st s) = t_regs s"
  "t_reqs (puts_line txt s) = t_reqs s" "t_waits (puts_line txt s) = t_waits s" "t_regs (puts_line txt s) = t_regs s"
  by (simp_all add: rpc_dump_def puts_line_def)

text \<open>A loop that ends with the first dead status, after one request pair per status.\<close>

lemma rpc_loop_session:
  assumes "t_waits s = alive @ (p, d) # later" "\<And>w. w \<in> set alive \<Longrightarrow> \<not> dead (snd w)" "dead d"
    "Suc (length alive) \<le> length (t_regs s)"
  shows "\<exists>s'. rpc_loop c s = Inr s' \<and> t_waits s' = later
    \<and> t_reqs s' = t_reqs s @ concat (replicate (Suc (length alive)) (reqs c [PTRACE_SYSCALL, PTRACE_GETREGS]))"
  using assms
proof (induction alive arbitrary: s)
  case Nil
  then obtain r rs where "t_regs s = r # rs" by (cases "t_regs s") auto
  then show ?case using Nil rpc.report_dead [of c d] by (subst rpc_loop.simps) (simp add: Let_def)
next
  case (Cons w alive)
  obtain q st where w: "w = (q, st)" by (cases w)
  obtain r rs where r: "t_regs s = r # rs" using Cons.prems(4) by (cases "t_regs s") auto
  have st: "fst (rpc_dump_status c st) \<noteq> 0" using Cons.prems(2) [of w] rpc.report_dead [of c st] by (simp add: w)
  let ?s = "rpc_dump c st (say (''parent: child at/in syscall '' @ dec_int (r_orig_eax r) @ newline)
    (ptrace c PTRACE_GETREGS ((ptrace c PTRACE_SYSCALL s)\<lparr>t_waits := alive @ (p, d) # later, t_regs := rs\<rparr>)))"
  have "rpc_loop c s = rpc_loop c ?s"
    using Cons.prems(1) r st by (subst rpc_loop.simps) (simp add: Let_def w)
  moreover have "\<exists>s'. rpc_loop c ?s = Inr s' \<and> t_waits s' = later
    \<and> t_reqs s' = t_reqs ?s @ concat (replicate (Suc (length alive)) (reqs c [PTRACE_SYSCALL, PTRACE_GETREGS]))"
    using Cons.prems r by (intro Cons.IH) simp_all
  ultimately show ?case by simp
qed

definition write_regs :: "u32 \<Rightarrow> u32 \<Rightarrow> user_regs \<Rightarrow> user_regs" where
  "write_regs str len r = r\<lparr>r_eax := SYS_write, r_ebx := STDOUT_FILENO, r_ecx := str, r_edx := len\<rparr>"

lemma rpc_inject_session:
  assumes "t_waits s = pre @ later" "length pre = 2 * j" "r_eip callregs = r_eip regs"
  shows "\<exists>s'. rpc_inject j c str len regs callregs s = Inr s' \<and> t_waits s' = later \<and> t_regs s' = t_regs s
    \<and> t_reqs s' = t_reqs s @ concat (replicate j (reqs c [PTRACE_SETREGS (write_regs str len callregs), PTRACE_SYSCALL, PTRACE_SYSCALL]))"
  using assms
proof (induction j arbitrary: s pre callregs)
  case (Suc j)
  obtain a b c' d pre' where pre: "pre = (a, b) # (c', d) # pre'" and l: "length pre' = 2 * j"
    using Suc.prems(2) by (cases pre; cases "tl pre") auto
  let ?call = "write_regs str len callregs"
  have eip: "?call\<lparr>r_eip := r_eip regs\<rparr> = ?call" using Suc.prems(3) by (simp add: write_regs_def)
  define s2 where "s2 = puts_line ''parent: entering artificial syscall ...'' (ptrace c (PTRACE_SETREGS ?call) s)"
  define s4 where "s4 = puts_line ''parent: ... finishing syscall ...''
    (rpc_dump c b ((ptrace c PTRACE_SYSCALL s2)\<lparr>t_waits := (c', d) # pre' @ later\<rparr>))"
  define s6 where "s6 = rpc_dump c d ((ptrace c PTRACE_SYSCALL s4)\<lparr>t_waits := pre' @ later\<rparr>)"
  have w: "t_waits s2 = (a, b) # (c', d) # pre' @ later" "t_waits s4 = (c', d) # pre' @ later"
    using Suc.prems(1) pre by (simp_all add: s2_def s4_def)
  have "rpc_inject (Suc j) c str len regs callregs s = rpc_inject j c str len regs ?call s6"
    using w by (simp add: Let_def s6_def s4_def s2_def write_regs_def [symmetric] eip)
  moreover have "\<exists>s'. rpc_inject j c str len regs ?call s6 = Inr s' \<and> t_waits s' = later \<and> t_regs s' = t_regs s6
    \<and> t_reqs s' = t_reqs s6 @ concat (replicate j (reqs c [PTRACE_SETREGS (write_regs str len ?call), PTRACE_SYSCALL, PTRACE_SYSCALL]))"
    using l Suc.prems(3) by (intro Suc.IH [where pre = pre']) (simp_all add: s6_def write_regs_def)
  moreover have "write_regs str len ?call = ?call" by (simp add: write_regs_def)
  ultimately show ?case by (simp add: s6_def s4_def s2_def)
qed simp

lemma rpc_serve_session:
  assumes "t_waits s = (p0, w0) # pre @ (p1, w1) # (p2, w2) # later" "length pre = 10" "t_regs s = r # rs"
  shows "\<exists>s'. rpc_serve c request s = Inr s' \<and> t_waits s' = later \<and> t_regs s' = rs
    \<and> t_reqs s' = t_reqs s @ reqs c [PTRACE_SYSCALL, PTRACE_GETREGS]
        @ concat (replicate 5 (reqs c [PTRACE_SETREGS (write_regs (r_ecx request) (r_edx request) r), PTRACE_SYSCALL, PTRACE_SYSCALL]))
        @ reqs c [PTRACE_SETREGS (r\<lparr>r_eax := 0\<rparr>), PTRACE_SYSCALL, PTRACE_SYSCALL]"
proof -
  let ?regs = "r\<lparr>r_eax := 0\<rparr>"
  define s2 where "s2 = puts_line ''parent: advance to rpc exit''
    (puts_line (rpc_request_msg request) s)"
  define s5 where "s5 = puts_line (rpc_return_msg ?regs)
    (ptrace c PTRACE_GETREGS ((rpc_dump c w0 ((ptrace c PTRACE_SYSCALL s2)\<lparr>t_waits := pre @ (p1, w1) # (p2, w2) # later\<rparr>))\<lparr>t_regs := rs\<rparr>))"
  have s2: "t_waits s2 = (p0, w0) # pre @ (p1, w1) # (p2, w2) # later" "t_regs s2 = r # rs" "t_reqs s2 = t_reqs s"
    using assms by (simp_all add: s2_def)
  have s5: "t_waits s5 = pre @ (p1, w1) # (p2, w2) # later" "t_regs s5 = rs" by (simp_all add: s5_def)
  obtain s6 where s6: "rpc_inject 5 c (r_ecx request) (r_edx request) ?regs ?regs s5 = Inr s6"
    "t_waits s6 = (p1, w1) # (p2, w2) # later" "t_regs s6 = rs"
    "t_reqs s6 = t_reqs s5 @ concat (replicate 5 (reqs c [PTRACE_SETREGS (write_regs (r_ecx request) (r_edx request) ?regs), PTRACE_SYSCALL, PTRACE_SYSCALL]))"
    using rpc_inject_session [of s5 pre "(p1, w1) # (p2, w2) # later" 5 ?regs ?regs c "r_ecx request" "r_edx request"] s5 assms(2) by auto
  have "write_regs str len ?regs = write_regs str len r" for str len by (simp add: write_regs_def)
  then show ?thesis
    using s2 s6 unfolding rpc_serve_def Let_def s2_def [symmetric] by (simp flip: s5_def) (simp add: s5_def)
qed

text \<open>
  When the child stops with its request, the parent makes it perform five writes with the string and the length of the request and
  all other registers as they were at its return, gives it back the registers of the return with a result of zero, and follows it
  until the first status that says that it is gone.
\<close>

lemma rpc_parent_session:
  assumes "t_waits s = w0 # w1 # w2 # injected @ w3 # w4 # alive @ (p, d) # later" and "length injected = 10"
    and "\<forall>w\<in>set alive. \<not> dead (snd w)" and "dead d"
    and "t_regs s = rpc_child_request str len r0 # r1 # rs" and "length alive < length rs"
  shows "\<exists>s'. rpc_parent c s = Inr s' \<and> t_waits s' = later
    \<and> t_reqs s' = t_reqs s @ reqs c [PTRACE_CONT, PTRACE_SYSCALL, PTRACE_GETREGS, PTRACE_SYSCALL, PTRACE_GETREGS]
        @ concat (replicate 5 (reqs c [PTRACE_SETREGS (r1\<lparr>r_eax := SYS_write, r_ebx := STDOUT_FILENO, r_ecx := str, r_edx := len\<rparr>),
             PTRACE_SYSCALL, PTRACE_SYSCALL]))
        @ reqs c [PTRACE_SETREGS (r1\<lparr>r_eax := 0\<rparr>), PTRACE_SYSCALL, PTRACE_SYSCALL]
        @ concat (replicate (Suc (length alive)) (reqs c [PTRACE_SYSCALL, PTRACE_GETREGS]))"
proof -
  let ?req = "rpc_child_request str len r0"
  obtain p0 s0 p1 s1 p2 s2 p3 s3 p4 s4 where ws: "w0 = (p0, s0)" "w1 = (p1, s1)" "w2 = (p2, s2)" "w3 = (p3, s3)" "w4 = (p4, s4)"
    by (cases w0; cases w1; cases w2; cases w3; cases w4)
  define x1 where "x1 = (ptrace c PTRACE_CONT s)\<lparr>t_waits := w1 # w2 # injected @ w3 # w4 # alive @ (p, d) # later\<rparr>"
  define x2 where "x2 = rpc_dump c s1 ((ptrace c PTRACE_SYSCALL x1)\<lparr>t_waits := w2 # injected @ w3 # w4 # alive @ (p, d) # later\<rparr>)"
  define x3 where "x3 = ptrace c PTRACE_GETREGS (x2\<lparr>t_regs := r1 # rs\<rparr>)"
  have x: "t_waits x1 = w1 # w2 # injected @ w3 # w4 # alive @ (p, d) # later" "t_regs x2 = ?req # r1 # rs"
    "t_waits x3 = w2 # injected @ w3 # w4 # alive @ (p, d) # later" "t_regs x3 = r1 # rs"
    "t_reqs x3 = t_reqs s @ reqs c [PTRACE_CONT, PTRACE_SYSCALL, PTRACE_GETREGS]"
    using assms(5) by (simp_all add: x3_def x2_def x1_def)
  obtain x4 where x4: "rpc_serve c ?req x3 = Inr x4" "t_waits x4 = alive @ (p, d) # later" "t_regs x4 = rs"
    "t_reqs x4 = t_reqs x3 @ reqs c [PTRACE_SYSCALL, PTRACE_GETREGS]
        @ concat (replicate 5 (reqs c [PTRACE_SETREGS (write_regs str len r1), PTRACE_SYSCALL, PTRACE_SYSCALL]))
        @ reqs c [PTRACE_SETREGS (r1\<lparr>r_eax := 0\<rparr>), PTRACE_SYSCALL, PTRACE_SYSCALL]"
    using rpc_serve_session [of x3 p2 s2 injected p3 s3 p4 s4 _ r1 rs c ?req] x ws assms(2) by (auto simp: rpc_child_request_def)
  obtain s' where s': "rpc_loop c x4 = Inr s'" "t_waits s' = later"
    "t_reqs s' = t_reqs x4 @ concat (replicate (Suc (length alive)) (reqs c [PTRACE_SYSCALL, PTRACE_GETREGS]))"
    using rpc_loop_session [OF x4(2)] assms(3,4,6) x4(3) by auto
  have "r_orig_eax ?req = SYS_rpc" by (simp add: rpc_child_request_def)
  then have "rpc_parent c s = Inr s'"
    using assms(1,5) x4(1) s'(1) unfolding rpc_parent_def x3_def x2_def x1_def
    by (simp add: ws)
  then show ?thesis using s' x4(4) x(5) by (simp add: write_regs_def)
qed

section \<open>The child\<close>

text \<open>
  The child's code from its stop on: it makes its request for three bytes, and the instruction behind it is
  a second system call instruction, which uses the registers as they are. From there the child comes to its end.
\<close>

definition rpc_child :: "child_code \<Rightarrow> user_regs \<Rightarrow> u32 \<Rightarrow> bool" where
  "rpc_child code r str \<longleftrightarrow> (\<exists>q. cc_next code r = Inr q
     \<and> r_eax q = SYS_rpc \<and> r_ebx q = SYS_write \<and> r_ecx q = str \<and> r_edx q = of_nat (length (''hi'' @ newline))
     \<and> (\<forall>r'. r_eip r' = r_eip q \<longrightarrow> cc_next code r' = Inr (r'\<lparr>r_eip := r_eip q + 2\<rparr>))
     \<and> (\<forall>ch. ch_phase ch = Outside \<longrightarrow> r_eip (ch_regs ch) = r_eip q + 2 \<longrightarrow> (\<exists>n. ends_after code n ch)))"

text \<open>Unknown calls, writes and the call with the number zero return to the child.\<close>

definition rpc_kernel :: "child_code \<Rightarrow> bool" where
  "rpc_kernel code \<longleftrightarrow> (\<forall>cs r. r_orig_eax r \<in> {SYS_rpc, SYS_write, 0} \<longrightarrow> (\<exists>v. cc_sys code cs r = Inr v))"

definition call_args :: "user_regs \<Rightarrow> u32 \<times> u32 \<times> u32 \<times> u32" where
  "call_args r = (r_orig_eax r, r_ebx r, r_ecx r, r_edx r)"

lemma rpc_kernel_returns:
  assumes "rpc_kernel code" "r_eax r \<in> {SYS_rpc, SYS_write, 0}"
  obtains v where "cc_sys code cs (at_entry r) = Inr v"
proof -
  have "r_orig_eax (at_entry r) \<in> {SYS_rpc, SYS_write, 0}" using assms(2) by (simp add: at_entry_def)
  then show thesis using assms(1) that unfolding rpc_kernel_def by blast
qed

text \<open>One call that the parent has the child make at the second instruction.\<close>

lemma injected_call:
  assumes "ch_phase ch = Outside" "\<forall>r'. r_eip r' = ip \<longrightarrow> cc_next code r' = Inr (r'\<lparr>r_eip := ip + 2\<rparr>)"
    "rpc_kernel code" "r_eip r = ip" "r_eax r \<in> {SYS_write, 0}"
  shows "\<exists>ch'. answers code ch [PTRACE_SETREGS r, PTRACE_SYSCALL, PTRACE_SYSCALL] = Some (ch', [TRAP_STOP, TRAP_STOP], [])
    \<and> ch_phase ch' = Outside \<and> ch_calls ch' = ch_calls ch @ [at_entry (r\<lparr>r_eip := ip + 2\<rparr>)] \<and> r_eip (ch_regs ch') = ip + 2"
proof -
  have n: "cc_next code r = Inr (r\<lparr>r_eip := ip + 2\<rparr>)" using assms(2,4) by simp
  obtain v where "cc_sys code (ch_calls ch) (at_entry (r\<lparr>r_eip := ip + 2\<rparr>)) = Inr v"
    by (rule rpc_kernel_returns [OF assms(3), of "r\<lparr>r_eip := ip + 2\<rparr>"]) (use assms(5) in auto)
  then show ?thesis using assms(1) n by (simp add: resumed.simps run_to_call_def finish_call_def at_entry_def)
qed

lemma injected_calls:
  assumes "ch_phase ch = Outside" "\<forall>r'. r_eip r' = ip \<longrightarrow> cc_next code r' = Inr (r'\<lparr>r_eip := ip + 2\<rparr>)"
    "rpc_kernel code" "r_eip r = ip" "r_eax r \<in> {SYS_write, 0}"
  shows "\<exists>ch'. answers code ch (concat (replicate n [PTRACE_SETREGS r, PTRACE_SYSCALL, PTRACE_SYSCALL]))
      = Some (ch', replicate (2 * n) TRAP_STOP, [])
    \<and> ch_phase ch' = Outside \<and> ch_calls ch' = ch_calls ch @ replicate n (at_entry (r\<lparr>r_eip := ip + 2\<rparr>))"
  using assms(1)
proof (induction n arbitrary: ch)
  case (Suc n)
  obtain ch1 where c: "answers code ch [PTRACE_SETREGS r, PTRACE_SYSCALL, PTRACE_SYSCALL] = Some (ch1, [TRAP_STOP, TRAP_STOP], [])"
    "ch_phase ch1 = Outside" "ch_calls ch1 = ch_calls ch @ [at_entry (r\<lparr>r_eip := ip + 2\<rparr>)]"
    using injected_call [OF Suc.prems assms(2-)] by blast
  obtain ch' where "answers code ch1 (concat (replicate n [PTRACE_SETREGS r, PTRACE_SYSCALL, PTRACE_SYSCALL]))
      = Some (ch', replicate (2 * n) TRAP_STOP, [])"
    "ch_phase ch' = Outside" "ch_calls ch' = ch_calls ch1 @ replicate n (at_entry (r\<lparr>r_eip := ip + 2\<rparr>))"
    using Suc.IH [OF c(2)] by blast
  then show ?case using answers_join [OF c(1)] c(3) by (simp del: answers.simps)
qed simp

text \<open>The child stops itself, makes its request and returns from it.\<close>

lemma child_requests:
  assumes "cc_next code r = Inr q" "r_eax q = SYS_rpc" "rpc_kernel code"
  shows "\<exists>ch r1. answers code (start_child r Unstopped) [PTRACE_CONT, PTRACE_SYSCALL, PTRACE_GETREGS, PTRACE_SYSCALL, PTRACE_GETREGS]
      = Some (ch, [SIGSTOP_STOP, TRAP_STOP, TRAP_STOP], [at_entry q, r1])
    \<and> ch_phase ch = Outside \<and> ch_calls ch = [at_entry q] \<and> r_eip r1 = r_eip q
    \<and> r_ebx r1 = r_ebx q \<and> r_ecx r1 = r_ecx q \<and> r_edx r1 = r_edx q"
proof -
  obtain v where "cc_sys code [] (at_entry q) = Inr v"
    by (rule rpc_kernel_returns [OF assms(3), of q]) (use assms(2) in auto)
  then show ?thesis using assms(1)
    by (simp add: start_child_def resumed.simps run_to_call_def finish_call_def Let_def at_entry_def)
qed

lemma stops_alive: "\<not> dead TRAP_STOP" "\<not> dead SIGSTOP_STOP"
  using stop_and_exit stopped_alive [of "0x137f"] by (simp_all add: TRAP_STOP_def SIGSTOP_STOP_def WIFSTOPPED_def dead_def)

lemma map_snd_reqs: "map snd (reqs c xs) = xs" "map snd (concat (replicate n (reqs c xs))) = concat (replicate n xs)"
proof -
  show "map snd (reqs c xs) = xs" by (induction xs) simp_all
  then show "map snd (concat (replicate n (reqs c xs))) = concat (replicate n xs)" by (induction n) simp_all
qed

lemma is_request:
  assumes "r_eax q = SYS_rpc" "r_ebx q = SYS_write"
  shows "at_entry q = rpc_child_request (r_ecx q) (r_edx q) (at_entry q)"
  using assms by (cases q) (simp add: at_entry_def rpc_child_request_def)

text \<open>
  C15. The parent and its child together. When the child asks for its \<open>write\<close> and the parent comes to its first wait before the child has stopped, the two
  run to the end of the child: the child executes its request, which fails, then exactly five writes to standard output with the
  string and the length that it asked for, one call with the number zero at its second instruction, and only then the calls of its own code.
\<close>

theorem rpc_child_served:
  assumes "rpc_child code r str" and "rpc_kernel code"
  shows "\<exists>ws gs s' ch rest. rpc_parent c \<lparr>t_reqs = [], t_waits = map (Pair c) ws, t_regs = gs, t_out = []\<rparr> = Inr s'
    \<and> answers code (start_child r Unstopped) (map snd (t_reqs s')) = Some (ch, ws, gs) \<and> t_waits s' = [] \<and> ch_phase ch = Ended
    \<and> map call_args (ch_calls ch) = (SYS_rpc, SYS_write, str, 3) # replicate 5 (SYS_write, STDOUT_FILENO, str, 3)
        @ (0, SYS_write, str, 3) # rest"
proof -
  obtain q where q: "cc_next code r = Inr q" "r_eax q = SYS_rpc" "r_ebx q = SYS_write" "r_ecx q = str" "r_edx q = 3"
    "\<forall>r'. r_eip r' = r_eip q \<longrightarrow> cc_next code r' = Inr (r'\<lparr>r_eip := r_eip q + 2\<rparr>)"
    "\<forall>ch. ch_phase ch = Outside \<longrightarrow> r_eip (ch_regs ch) = r_eip q + 2 \<longrightarrow> (\<exists>n. ends_after code n ch)"
    using assms(1) by (auto simp: rpc_child_def newline_def)
  obtain ch1 r1 where 1: "answers code (start_child r Unstopped) [PTRACE_CONT, PTRACE_SYSCALL, PTRACE_GETREGS, PTRACE_SYSCALL, PTRACE_GETREGS]
      = Some (ch1, [SIGSTOP_STOP, TRAP_STOP, TRAP_STOP], [at_entry q, r1])"
    "ch_phase ch1 = Outside" "ch_calls ch1 = [at_entry q]" "r_eip r1 = r_eip q" "r_ebx r1 = SYS_write" "r_ecx r1 = str" "r_edx r1 = 3"
    using child_requests [OF q(1,2) assms(2)] q(3-5) by metis
  let ?w = "r1\<lparr>r_eax := SYS_write, r_ebx := STDOUT_FILENO, r_ecx := str, r_edx := 3\<rparr>"
  let ?z = "r1\<lparr>r_eax := 0\<rparr>"
  obtain ch2 where 2: "answers code ch1 (concat (replicate 5 [PTRACE_SETREGS ?w, PTRACE_SYSCALL, PTRACE_SYSCALL])) = Some (ch2, replicate 10 TRAP_STOP, [])"
    "ch_phase ch2 = Outside" "ch_calls ch2 = ch_calls ch1 @ replicate 5 (at_entry (?w\<lparr>r_eip := r_eip q + 2\<rparr>))"
    using injected_calls [OF 1(2) q(6) assms(2), of ?w 5] 1(4) by auto
  obtain ch3 where 3: "answers code ch2 [PTRACE_SETREGS ?z, PTRACE_SYSCALL, PTRACE_SYSCALL] = Some (ch3, [TRAP_STOP, TRAP_STOP], [])"
    "ch_phase ch3 = Outside" "ch_calls ch3 = ch_calls ch2 @ [at_entry (?z\<lparr>r_eip := r_eip q + 2\<rparr>)]" "r_eip (ch_regs ch3) = r_eip q + 2"
    using injected_call [OF 2(2) q(6) assms(2), of ?z] 1(4) by auto
  obtain n where n: "ends_after code (Suc n) ch3" using q(7) 3(2,4) by (metis ends_after.simps(1) not0_implies_Suc)
  obtain ch ws d gs where 4: "answers code ch3 (follow (Suc n)) = Some (ch, ws @ [d], gs)" "ch_phase ch = Ended" "length ws = n"
    "\<forall>w\<in>set ws. \<not> dead w" "dead d" "length gs = Suc n" using follow_to_the_end [OF n] by blast
  obtain rest where rest: "ch_calls ch = ch_calls ch3 @ rest" using answers_calls [OF 4(1)] by blast
  let ?ws = "[SIGSTOP_STOP, TRAP_STOP, TRAP_STOP] @ replicate 10 TRAP_STOP @ [TRAP_STOP, TRAP_STOP] @ ws @ [d]"
  let ?s = "\<lparr>t_reqs = [], t_waits = map (Pair c) ?ws, t_regs = at_entry q # r1 # gs, t_out = []\<rparr>"
  obtain s' where s': "rpc_parent c ?s = Inr s'" "t_waits s' = []"
    "t_reqs s' = reqs c [PTRACE_CONT, PTRACE_SYSCALL, PTRACE_GETREGS, PTRACE_SYSCALL, PTRACE_GETREGS]
        @ concat (replicate 5 (reqs c [PTRACE_SETREGS ?w, PTRACE_SYSCALL, PTRACE_SYSCALL]))
        @ reqs c [PTRACE_SETREGS ?z, PTRACE_SYSCALL, PTRACE_SYSCALL]
        @ concat (replicate (Suc (length (map (Pair c) ws))) (reqs c [PTRACE_SYSCALL, PTRACE_GETREGS]))"
    using rpc_parent_session [of ?s "(c, SIGSTOP_STOP)" "(c, TRAP_STOP)" "(c, TRAP_STOP)" "replicate 10 (c, TRAP_STOP)" "(c, TRAP_STOP)" "(c, TRAP_STOP)"
        "map (Pair c) ws" c d "[]" str 3 "at_entry q" r1 gs c] 4(3-6) is_request [OF q(2,3)] q(4,5) by auto
  have "answers code (start_child r Unstopped) (map snd (t_reqs s')) = Some (ch, ?ws, at_entry q # r1 # gs)"
    using answers_join [OF 1(1) answers_join [OF 2(1) answers_join [OF 3(1) 4(1)]]] unfolding s'(3)
    by (simp only: map_append map_snd_reqs length_map 4(3) append_assoc append_Cons append_Nil append_Nil2)
  moreover have "map call_args (ch_calls ch) = (SYS_rpc, SYS_write, str, 3) # replicate 5 (SYS_write, STDOUT_FILENO, str, 3)
      @ (0, SYS_write, str, 3) # map call_args rest"
    unfolding rest 3(3) 2(3) 1(3) using q(2-5) 1(5-7) by (simp add: call_args_def at_entry_def)
  ultimately show ?thesis using s'(1,2) 4(2)
    by (intro exI [of _ ?ws] exI [of _ "at_entry q # r1 # gs"] exI [of _ s'] exI [of _ ch] exI [of _ "map call_args rest"] conjI)
qed


definition small_child :: child_code where
  "small_child = \<lparr>cc_next = (\<lambda>r. if r_eip r = 0 then Inr (r\<lparr>r_eax := SYS_rpc, r_ebx := SYS_write, r_ecx := 0x8049000, r_edx := 3, r_eip := 2\<rparr>)
       else if r_eip r = 2 then Inr (r\<lparr>r_eip := 4\<rparr>) else Inl 0),
     cc_step = (\<lambda>r. r), cc_sys = (\<lambda>_ _. Inr (- ENOSYS))\<rparr>"

theorem rpc_child_served_witness:
  "\<exists>ws gs s' ch. rpc_parent 7 \<lparr>t_reqs = [], t_waits = map (Pair 7) ws, t_regs = gs, t_out = []\<rparr> = Inr s'
    \<and> answers small_child (start_child zero_regs Unstopped) (map snd (t_reqs s')) = Some (ch, ws, gs)
    \<and> take 6 (map call_args (ch_calls ch)) = (SYS_rpc, SYS_write, 0x8049000, 3) # replicate 5 (SYS_write, STDOUT_FILENO, 0x8049000, 3)"
proof -
  have "ends_after small_child (Suc 0) ch" if "ch_phase ch = Outside" "r_eip (ch_regs ch) = 4" for ch
    using that stop_and_exit by (simp add: resumed.simps run_to_call_def small_child_def)
  then have e: "\<forall>ch. ch_phase ch = Outside \<longrightarrow> r_eip (ch_regs ch) = 2 + 2 \<longrightarrow> (\<exists>n. ends_after small_child n ch)"
    by (intro allI impI exI [of _ "Suc 0"]) simp
  have n: "cc_next small_child zero_regs = Inr (zero_regs\<lparr>r_eax := SYS_rpc, r_ebx := SYS_write, r_ecx := 0x8049000, r_edx := 3, r_eip := 2\<rparr>)"
    "\<forall>r. r_eip r = 2 \<longrightarrow> cc_next small_child r = Inr (r\<lparr>r_eip := 2 + 2\<rparr>)"
    by (simp_all add: small_child_def zero_regs_def)
  have c: "rpc_child small_child zero_regs 0x8049000"
    unfolding rpc_child_def by (rule exI, rule conjI, rule n(1)) (use n(2) e in \<open>simp add: newline_def\<close>)
  have k: "rpc_kernel small_child" by (simp add: rpc_kernel_def small_child_def)
  obtain ws gs s' ch rest where
    "rpc_parent 7 \<lparr>t_reqs = [], t_waits = map (Pair 7) ws, t_regs = gs, t_out = []\<rparr> = Inr s'"
    "answers small_child (start_child zero_regs Unstopped) (map snd (t_reqs s')) = Some (ch, ws, gs)"
    "map call_args (ch_calls ch) = (SYS_rpc, SYS_write, 0x8049000, 3) # replicate 5 (SYS_write, STDOUT_FILENO, 0x8049000, 3)
        @ (0, SYS_write, 0x8049000, 3) # rest"
    using rpc_child_served [OF c k, of 7] by (elim exE conjE)
  then show ?thesis by (intro exI [of _ ws] exI [of _ gs] exI [of _ s'] exI [of _ ch]) simp
qed

end
