(* ===== verification/Regtrace.thy ===== *)
theory Regtrace
  imports Ptrace
begin

text \<open>
  The system call tracer (\<open>src/regtrace.c\<close>). Its loop resumes the tracee, waits, and keeps a state
  that says which stop comes next: the seccomp event before a call, the entry or the exit.
  The kernel's side of the protocol is the step relation \<open>tracee\<close>, with the phase in which the tracee really is;
  a \<open>session\<close> is what the two do together.
\<close>

section \<open>The tracer\<close>

definition SYSCALL_PSEUDOSIG :: u32 where "SYSCALL_PSEUDOSIG = or 0x80 5"
definition PTRACE_EVENT_EXEC :: u32 where "PTRACE_EVENT_EXEC = 4"

text \<open>TRACESYSGOOD, TRACEFORK, TRACEVFORK, TRACECLONE, TRACEEXEC, TRACEVFORKDONE, TRACEEXIT and TRACESECCOMP.\<close>

definition trace_options :: u32 where
  "trace_options = or 0x80 (or 0x01 (or 0x02 (or 0x04 (or 0x08 (or 0x10 (or 0x20 0x40))))))"

datatype trace_state = TRAPPING_SECCOMP | ENTERING_SYSCALL | EXITING_SYSCALL

definition use_filter :: bool where "use_filter = True"

definition start_state :: trace_state where
  "start_state = (if use_filter then TRAPPING_SECCOMP else ENTERING_SYSCALL)"

definition resume_line :: "bool \<Rightarrow> string" where
  "resume_line cont = (if cont then ''  --> CONT'' else ''  --> SYSCALL'') @ newline"

definition event_line :: "u32 \<Rightarrow> u32 \<Rightarrow> string" where
  "event_line event status = ''  (ptrace event '' @ dec_int event @ '' (status 0x'' @ hex (unat status) @ ''))'' @ newline"

definition exited_line :: "u32 \<Rightarrow> string" where
  "exited_line code = ''Exited normally with status '' @ dec_int code @ newline"

definition signaled_line :: "u32 \<Rightarrow> string" where
  "signaled_line sig = ''Terminated by signal '' @ dec_int sig @ newline"

definition signal_line :: "u32 \<Rightarrow> string" where
  "signal_line sig = ''(stopped by signal '' @ dec_int sig @ '')'' @ newline"

definition syscall_line :: "u32 \<Rightarrow> bool \<Rightarrow> u32 \<Rightarrow> user_regs \<Rightarrow> string" where
  "syscall_line tid entering status r =
     dec_int tid @ '': '' @ (if entering then ''entering'' else ''exiting'') @ '' syscall '' @ dec_int (r_orig_eax r)
     @ '' (status 0x'' @ hex (unat status) @ '')'' @ newline
     @ ''     eax:'' @ dec_int (r_eax r) @ '' ebx:0x'' @ hex (unat (r_ebx r)) @ '' ecx:0x'' @ hex (unat (r_ecx r))
     @ '' edx:0x'' @ hex (unat (r_edx r)) @ newline
     @ ''     esi:0x'' @ hex (unat (r_esi r)) @ '' edi:0x'' @ hex (unat (r_edi r)) @ '' ebp:0x'' @ hex (unat (r_ebp r))
     @ '' eip:'' @ show_ptr (r_eip r) @ newline"

definition resume_request :: "trace_state \<Rightarrow> ptrace_request" where
  "resume_request state = (if TRAPPING_SECCOMP = state then PTRACE_CONT else PTRACE_SYSCALL)"

definition event_state :: "u32 \<Rightarrow> trace_state" where
  "event_state event = (if PTRACE_EVENT_EXEC = event then EXITING_SYSCALL else ENTERING_SYSCALL)"

definition syscall_state :: "trace_state \<Rightarrow> trace_state" where
  "syscall_state state = (if ENTERING_SYSCALL = state then EXITING_SYSCALL else start_state)"

text \<open>What follows the wait: the next state, or the result of the program.\<close>

definition trace_stop :: "u32 \<Rightarrow> trace_state \<Rightarrow> u32 \<Rightarrow> tracer \<Rightarrow> ((trace_state + u32) \<times> tracer) res" where
  "trace_stop tid state status s =
     (let event = PTRACE_EVENT status in
      if event \<noteq> 0 then Inr (Inl (event_state event), say (event_line event status) s)
      else if WIFEXITED status then Inr (Inr (WEXITSTATUS status), say (exited_line (WEXITSTATUS status)) s)
      else if WIFSIGNALED status then Inr (Inr (WTERMSIG status), say (signaled_line (WTERMSIG status)) s)
      else if \<not> WIFSTOPPED status then Inl (Assert_Failed ''WIFSTOPPED(status)'')
      else let sig = WSTOPSIG status in
        if SYSCALL_PSEUDOSIG \<noteq> sig \<and> SIGTRAP \<noteq> sig
        then Inr (Inl state, ptrace tid (PTRACE_SINGLESTEP sig) (say (signal_line sig) s))
        else bind_res (getregs tid s) (\<lambda>(regs, s1).
          let s2 = say (syscall_line tid (ENTERING_SYSCALL = state) status regs) s1 in
          if SYSCALL_PSEUDOSIG = sig
          then if ENTERING_SYSCALL = state \<or> EXITING_SYSCALL = state then Inr (Inl (syscall_state state), s2)
               else Inl (Assert_Failed ''ENTERING_SYSCALL == state || EXITING_SYSCALL == state'')
          else Inr (Inl state, s2)))"

definition trace_step :: "u32 \<Rightarrow> trace_state \<Rightarrow> tracer \<Rightarrow> ((trace_state + u32) \<times> tracer) res" where
  "trace_step tid state s =
     bind_res (resume tid (resume_request state) (say (resume_line (TRAPPING_SECCOMP = state)) s)) (\<lambda>(status, s1).
     trace_stop tid state status s1)"

lemma trace_stop_waits: "trace_stop tid state status s = Inr (r, s') \<Longrightarrow> t_waits s' = t_waits s"
  by (auto simp: trace_stop_def Let_def bind_res_eq_Inr split: if_splits dest: getregs_waits)

lemma trace_step_waits: "trace_step tid state s = Inr (r, s') \<Longrightarrow> length (t_waits s') < length (t_waits s)"
  by (auto simp: trace_step_def bind_res_eq_Inr dest!: resume_waits trace_stop_waits)

text \<open>The loop: every round takes a status, so that it ends with the statuses at the latest.\<close>

function trace_loop :: "u32 \<Rightarrow> trace_state \<Rightarrow> tracer \<Rightarrow> (u32 \<times> tracer) res" where
  "trace_loop tid state s =
     bind_res (trace_step tid state s) (\<lambda>(r, s1).
     case r of Inl state' \<Rightarrow> trace_loop tid state' s1 | Inr code \<Rightarrow> Inr (code, s1))"
  by pat_completeness auto
termination
  by (relation "measure (\<lambda>(tid, state, s). length (t_waits s))") (auto dest: trace_step_waits)

declare trace_loop.simps [simp del]

definition trace :: "bool \<Rightarrow> u32 \<Rightarrow> tracer \<Rightarrow> (u32 \<times> tracer) res" where
  "trace options_fail tid s =
     bind_res (waitpid s) (\<lambda>((ret, status), s1).
     if \<not> (tid = ret \<and> WIFSTOPPED status \<and> SIGSTOP = WSTOPSIG status)
     then Inl (Assert_Failed ''tid == ret && WIFSTOPPED(status) && SIGSTOP == WSTOPSIG(status)'')
     else let s2 = ptrace tid (PTRACE_SETOPTIONS trace_options) s1 in
       if options_fail then Inl (Fatal ''Failed to set ptrace options'')
       else trace_loop tid start_state s2)"

section \<open>The tracee\<close>

text \<open>
  The phases of a tracee that has a filter which traces every call: at user code, stopped by the
  filter before a call, in a call, at its exit event, and gone. The rules are the stops that \<open>ptrace\<close>
  documents for the kernels up to 4.7, where the event of the filter comes before the stop of the entry.
  The tracer delivers a signal with a single step; the request with which it then resumes the tracee is refused while the step runs, and the
  next stop is the trap of the step.
\<close>

datatype tracee_phase = User | Trapped | Inside | Dying | Gone

definition death :: "u32 \<Rightarrow> bool" where
  "death s \<longleftrightarrow> unat s < 65536 \<and> dead s"

inductive tracee :: "tracee_phase \<Rightarrow> ptrace_request \<Rightarrow> u32 \<Rightarrow> tracee_phase \<Rightarrow> bool" where
  filter_event: "kind_of s = Stopped 5 7 \<Longrightarrow> tracee User PTRACE_CONT s Trapped"
| enter_stop: "kind_of s = Stopped 133 0 \<Longrightarrow> tracee Trapped PTRACE_SYSCALL s Inside"
| exit_stop: "kind_of s = Stopped 133 0 \<Longrightarrow> tracee Inside PTRACE_SYSCALL s User"
| exec_unfiltered: "kind_of s = Stopped 5 4 \<Longrightarrow> tracee User PTRACE_CONT s Inside"
| exec_filtered: "kind_of s = Stopped 5 4 \<Longrightarrow> tracee Inside PTRACE_SYSCALL s Inside"
| fork_event: "kind_of s = Stopped 5 ev \<Longrightarrow> ev \<in> {1, 2, 3, 5} \<Longrightarrow> tracee Inside PTRACE_SYSCALL s Inside"
| signal_stop: "kind_of s = Stopped sig 0 \<Longrightarrow> sig \<notin> {5, 133} \<Longrightarrow> tracee User PTRACE_CONT s User"
| step_trap: "kind_of s = Stopped 5 0 \<Longrightarrow> tracee User PTRACE_CONT s User"
| exit_event: "kind_of s = Stopped 5 6 \<Longrightarrow> ph \<noteq> Gone \<Longrightarrow> tracee ph req s Dying"
| died: "death s \<Longrightarrow> ph \<noteq> Gone \<Longrightarrow> tracee ph req s Gone"

inductive_cases tracee_GoneE: "tracee Gone req s ph"

text \<open>The state of the tracer after a status that does not end it.\<close>

definition next_state :: "trace_state \<Rightarrow> u32 \<Rightarrow> trace_state" where
  "next_state state s =
     (if PTRACE_EVENT s \<noteq> 0 then event_state (PTRACE_EVENT s)
      else if WSTOPSIG s = SYSCALL_PSEUDOSIG then syscall_state state else state)"

text \<open>The statuses that the tracee answers to the requests of the tracer, each with the phase before it, up to its death.\<close>

inductive session :: "trace_state \<Rightarrow> tracee_phase \<Rightarrow> (tracee_phase \<times> u32) list \<Rightarrow> bool" where
  session_end: "session state Gone []"
| session_step: "tracee ph (resume_request state) s ph' \<Longrightarrow> session (next_state state s) ph' xs
    \<Longrightarrow> session state ph ((ph, s) # xs)"

inductive_simps session_Nil: "session state ph []"
inductive_simps session_Cons: "session state ph (x # xs)"

text \<open>
  What a stop is: the phase of the tracee decides whether a stop at a system call is its entry or its exit. A \<open>SIGTRAP\<close> at user code is
  neither: it is the stop of the single step with which the tracer delivers a signal.
\<close>

datatype stop_sort = Call_Entry | Call_Exit | Step_Trap | Signal nat | Event nat | Ended_By wait_kind

definition stop_sort :: "tracee_phase \<Rightarrow> u32 \<Rightarrow> stop_sort" where
  "stop_sort ph s =
     (case kind_of s of
        Stopped sig ev \<Rightarrow>
          if ev \<noteq> 0 then Event ev
          else if sig = 133 then if ph = Trapped then Call_Entry else Call_Exit
          else if sig = 5 then Step_Trap
          else Signal sig
      | k \<Rightarrow> Ended_By k)"

text \<open>What the tracer is to print of it. It has no words of its own for the trap of a step, for which it uses those of an exit.\<close>

definition step_line :: "u32 \<Rightarrow> u32 \<Rightarrow> user_regs \<Rightarrow> string" where
  "step_line tid s r = syscall_line tid False s r"

fun stop_log :: "u32 \<Rightarrow> tracee_phase \<Rightarrow> u32 \<Rightarrow> user_regs list \<Rightarrow> string \<times> user_regs list" where
  "stop_log tid ph s regs =
     (case stop_sort ph s of
        Call_Entry \<Rightarrow> (syscall_line tid True s (hd regs), tl regs)
      | Call_Exit \<Rightarrow> (syscall_line tid False s (hd regs), tl regs)
      | Step_Trap \<Rightarrow> (step_line tid s (hd regs), tl regs)
      | Signal sig \<Rightarrow> (signal_line (of_nat sig), regs)
      | Event ev \<Rightarrow> (event_line (of_nat ev) s, regs)
      | Ended_By (Exited c) \<Rightarrow> (exited_line (of_nat c), regs)
      | Ended_By (Signaled sig _) \<Rightarrow> (signaled_line (of_nat sig), regs)
      | _ \<Rightarrow> ([], regs))"

fun session_log :: "u32 \<Rightarrow> (tracee_phase \<times> u32) list \<Rightarrow> user_regs list \<Rightarrow> string" where
  "session_log tid [] regs = []"
| "session_log tid ((ph, s) # xs) regs =
     resume_line (ph = User) @ fst (stop_log tid ph s regs) @ session_log tid xs (snd (stop_log tid ph s regs))"

definition exit_code :: "u32 \<Rightarrow> u32" where
  "exit_code s = (if WIFEXITED s then WEXITSTATUS s else WTERMSIG s)"

section \<open>Statuses\<close>

lemma stopped_macros:
  assumes "kind_of s = Stopped sig ev"
  shows "WIFSTOPPED s" "\<not> WIFEXITED s" "\<not> WIFSIGNALED s" "WSTOPSIG s = of_nat sig" "PTRACE_EVENT s = of_nat ev"
  using assms by (auto simp: kind_of_def split: if_splits)

lemma stopped_fields: "kind_of s = Stopped sig ev \<Longrightarrow> WSTOPSIG s = of_nat sig \<and> PTRACE_EVENT s = of_nat ev"
  by (simp add: stopped_macros)

lemma death_macros:
  assumes "death s"
  shows "PTRACE_EVENT s = 0" "WIFEXITED s \<or> WIFSIGNALED s"
  using assms unat_event [of s] by (simp_all add: death_def dead_def word_unat_eq_iff)

lemma death_kind: "death s \<Longrightarrow> WIFEXITED s \<Longrightarrow> kind_of s = Exited (unat (WEXITSTATUS s))"
  "death s \<Longrightarrow> \<not> WIFEXITED s \<Longrightarrow> kind_of s = Signaled (unat (WTERMSIG s)) (WCOREDUMP s)"
  by (auto simp: kind_of_def death_def dead_def)

section \<open>Tracer and tracee together\<close>

text \<open>The state is the phase, as long as no event of a fork comes.\<close>

fun matches :: "trace_state \<Rightarrow> tracee_phase \<Rightarrow> bool" where
  "matches state User \<longleftrightarrow> state = TRAPPING_SECCOMP"
| "matches state Trapped \<longleftrightarrow> state = ENTERING_SYSCALL"
| "matches state Inside \<longleftrightarrow> state = EXITING_SYSCALL"
| "matches state Dying \<longleftrightarrow> state = ENTERING_SYSCALL"
| "matches state Gone \<longleftrightarrow> True"

definition forks :: "u32 \<Rightarrow> bool" where
  "forks s \<longleftrightarrow> PTRACE_EVENT s \<in> {1, 2, 3, 5}"

lemmas trace_consts = SYSCALL_PSEUDOSIG_def SIGTRAP_def PTRACE_EVENT_EXEC_def start_state_def use_filter_def
  event_state_def syscall_state_def

lemma small_signals:
  assumes "kind_of s = Stopped sig 0" "sig \<notin> {5, 133}"
  shows "WSTOPSIG s \<noteq> 5" "WSTOPSIG s \<noteq> 133"
  using assms by (auto simp: kind_of_def split: if_splits)

lemma matches_step:
  assumes "tracee ph (resume_request state) s ph'" "matches state ph" "\<not> forks s"
  shows "matches (next_state state s) ph'"
  using assms
proof (cases rule: tracee.cases)
  case (signal_stop sig)
  then show ?thesis using assms(2) small_signals [OF signal_stop(4,5)] stopped_macros [OF signal_stop(4)]
    by (simp add: next_state_def trace_consts)
next
  case (fork_event ev)
  then show ?thesis using assms(3) stopped_macros [OF fork_event(4)] by (auto simp: forks_def)
qed (use assms(2) in \<open>auto simp: next_state_def trace_consts dest!: stopped_fields\<close>)

lemma trace_stop_step:
  assumes "tracee ph (resume_request state) s ph'" "matches state ph" "ph' \<noteq> Gone" "t_regs x \<noteq> []"
  shows "\<exists>x'. trace_stop tid state s x = Inr (Inl (next_state state s), x') \<and> t_waits x' = t_waits x
    \<and> t_out x' = t_out x @ fst (stop_log tid ph s (t_regs x)) \<and> t_regs x' = snd (stop_log tid ph s (t_regs x))"
proof -
  obtain r rs where r: "t_regs x = r # rs" using assms(4) by (cases "t_regs x") auto
  obtain sig ev where k: "kind_of s = Stopped sig ev" using assms(1,3) by (cases rule: tracee.cases) auto
  note m = stopped_macros [OF k]
  have ev: "ev = 0 \<longleftrightarrow> PTRACE_EVENT s = 0" using k by (auto simp: kind_of_def unat_eq_0 split: if_splits)
  have sig: "sig = 5 \<longleftrightarrow> WSTOPSIG s = 5" "sig = 133 \<longleftrightarrow> WSTOPSIG s = 133"
    using k by (auto simp: kind_of_def word_unat_eq_iff split: if_splits)
  have ps: "SYSCALL_PSEUDOSIG = 133" by (simp add: trace_consts)
  have phase: "WSTOPSIG s = 133 \<Longrightarrow> PTRACE_EVENT s = 0 \<Longrightarrow> state \<noteq> TRAPPING_SECCOMP"
    using assms(1-3) k sig ev by (cases rule: tracee.cases) auto
  have entering: "state = ENTERING_SYSCALL \<longleftrightarrow> ph = Trapped" if "sig = 133" "ev = 0"
    using assms(1-3) k that by (cases rule: tracee.cases) auto
  have step: "state \<noteq> ENTERING_SYSCALL" if "sig = 5" "ev = 0"
    using assms(1-3) k that by (cases rule: tracee.cases) auto
  consider "PTRACE_EVENT s \<noteq> 0" | "PTRACE_EVENT s = 0" "sig \<in> {5, 133}" | "PTRACE_EVENT s = 0" "sig \<notin> {5, 133}" by blast
  then show ?thesis
  proof cases
    case 1
    then show ?thesis using m k ev by (auto simp: trace_stop_def next_state_def Let_def stop_sort_def)
  next
    case 2
    have "state \<noteq> TRAPPING_SECCOMP \<longrightarrow> state = ENTERING_SYSCALL \<or> state = EXITING_SYSCALL" by (cases state) auto
    with 2 show ?thesis using m k ev sig entering step phase r
      by (auto simp: trace_stop_def next_state_def Let_def ps trace_consts(2) stop_sort_def step_line_def)
  next
    case 3
    then show ?thesis using m k ev sig by (auto simp: trace_stop_def next_state_def Let_def ps trace_consts(2) stop_sort_def)
  qed
qed

lemma trace_stop_death:
  assumes "death s"
  shows "\<exists>x'. trace_stop tid state s x = Inr (Inr (exit_code s), x') \<and> t_waits x' = t_waits x
    \<and> t_out x' = t_out x @ fst (stop_log tid ph s (t_regs x))"
  using death_macros [OF assms] death_kind [OF assms]
  by (auto simp: trace_stop_def exit_code_def Let_def stop_sort_def)

lemma stop_log_regs: "length (snd (stop_log tid ph s regs)) + 1 \<ge> length regs"
  by (auto split: stop_sort.splits wait_kind.splits)

declare stop_log.simps [simp del]

lemma matches_cont: "matches state ph \<Longrightarrow> ph \<noteq> Gone \<Longrightarrow> state = TRAPPING_SECCOMP \<longleftrightarrow> ph = User"
  by (cases ph) auto

lemma trace_loop_session:
  assumes "session state ph xs" "matches state ph" "xs \<noteq> []" "\<forall>(ph, s) \<in> set xs. \<not> forks s"
    "length xs \<le> length (t_regs x)" "t_waits x = map (\<lambda>(ph, s). (tid, s)) xs @ later"
  shows "\<exists>x'. trace_loop tid state x = Inr (exit_code (snd (last xs)), x')
    \<and> t_out x' = t_out x @ session_log tid xs (t_regs x) \<and> t_waits x' = later"
  using assms
proof (induction arbitrary: x rule: session.induct)
  case (session_end state)
  then show ?case by simp
next
  case (session_step ph state s ph' xs)
  define y where "y = (ptrace tid (resume_request state) (say (resume_line (TRAPPING_SECCOMP = state)) x))
    \<lparr>t_waits := map (\<lambda>(ph, s). (tid, s)) xs @ later\<rparr>"
  have alive: "ph \<noteq> Gone" using session_step.hyps(1) by (auto elim: tracee_GoneE)
  have y: "trace_step tid state x = trace_stop tid state s y" "t_regs y = t_regs x" "t_waits y = map (\<lambda>(ph, s). (tid, s)) xs @ later"
    "t_out y = t_out x @ resume_line (ph = User)"
    using session_step.prems matches_cont [OF session_step.prems(1) alive] by (simp_all add: y_def trace_step_def eq_commute)
  show ?case
  proof (cases "ph' = Gone")
    case True
    have xs: "xs = []" using session_step.hyps(2) True by (auto elim: session.cases tracee_GoneE)
    have "death s" using session_step.hyps(1) True by (cases rule: tracee.cases) auto
    then show ?thesis
      using trace_stop_death [of s tid state y ph] y xs by (subst trace_loop.simps) auto
  next
    case False
    have "t_regs y \<noteq> []" using session_step.prems(4) y(2) by auto
    then obtain x1 where x1: "trace_stop tid state s y = Inr (Inl (next_state state s), x1)" "t_waits x1 = t_waits y"
      "t_out x1 = t_out y @ fst (stop_log tid ph s (t_regs y))" "t_regs x1 = snd (stop_log tid ph s (t_regs y))"
      using trace_stop_step [OF session_step.hyps(1) session_step.prems(1) False, of y tid] by auto
    have xs: "xs \<noteq> []" using session_step.hyps(2) False by (auto simp: session_Nil)
    have "\<exists>x'. trace_loop tid (next_state state s) x1 = Inr (exit_code (snd (last xs)), x')
      \<and> t_out x' = t_out x1 @ session_log tid xs (t_regs x1) \<and> t_waits x' = later"
      using session_step.prems matches_step [OF session_step.hyps(1) session_step.prems(1)] xs x1(2,4) y(2,3)
        stop_log_regs [where regs = "t_regs x" and tid = tid and ph = ph and s = s]
      by (intro session_step.IH) auto
    then show ?thesis using x1 y xs by (subst trace_loop.simps) auto
  qed
qed

text \<open>The event of a fork comes inside the call, but the tracer expects an entry after it: it takes the exit for an entry.\<close>

lemma fork_event_confuses:
  assumes "kind_of s = Stopped 5 ev" "ev \<in> {1, 2, 3, 5}"
  shows "tracee Inside (resume_request EXITING_SYSCALL) s Inside" "\<not> matches (next_state EXITING_SYSCALL s) Inside"
  using assms stopped_fields [OF assms(1)]
  by (auto simp: next_state_def resume_request_def trace_consts tracee.simps)

section \<open>Properties\<close>

text \<open>
  C18. On a tracee that makes system calls, executes other programs, receives signals and finally dies, but
  does not fork, the tracer fails none of its assertions, lets the tracee run freely exactly when it is at user code, labels
  every stop at a system call as the entry or the exit that it is, and ends with the exit
  code or the signal of the tracee. The trap of a single step, which is no system call, it reports with the words of an exit.
\<close>

theorem trace_labels_calls:
  assumes "session TRAPPING_SECCOMP User xs" and "\<forall>(ph, s) \<in> set xs. \<not> forks s"
    and "t_waits x = (tid, stop) # map (\<lambda>(ph, s). (tid, s)) xs @ later" and "kind_of stop = Stopped 19 0"
    and "length xs \<le> length (t_regs x)"
  shows "\<exists>x'. trace False tid x = Inr (exit_code (snd (last xs)), x')
    \<and> t_out x' = t_out x @ session_log tid xs (t_regs x) \<and> t_waits x' = later"
proof -
  let ?y = "ptrace tid (PTRACE_SETOPTIONS trace_options) (x\<lparr>t_waits := map (\<lambda>(ph, s). (tid, s)) xs @ later\<rparr>)"
  have "xs \<noteq> []" using assms(1) by (auto simp: session_Nil)
  then have "\<exists>x'. trace_loop tid TRAPPING_SECCOMP ?y = Inr (exit_code (snd (last xs)), x')
    \<and> t_out x' = t_out ?y @ session_log tid xs (t_regs ?y) \<and> t_waits x' = later"
    using assms by (intro trace_loop_session [OF assms(1)]) auto
  moreover have "start_state = TRAPPING_SECCOMP" by (simp add: trace_consts)
  ultimately show ?thesis
    using assms(3) stopped_macros [OF assms(4)] by (simp add: trace_def SIGSTOP_def)
qed

definition getpid_session :: "(tracee_phase \<times> u32) list" where
  "getpid_session = [(User, 0x7057f), (Trapped, 0x857f), (Inside, 0x857f), (User, 0x300)]"

lemma getpid_session_runs: "session TRAPPING_SECCOMP User getpid_session"
  "\<forall>(ph, s) \<in> set getpid_session. \<not> forks s" "kind_of 0x137f = Stopped 19 0"
proof -
  have k: "kind_of 0x7057f = Stopped 5 7" "kind_of 0x857f = Stopped 133 0" "kind_of 0x137f = Stopped 19 0" "death 0x300"
    by (simp_all add: kind_of_unat death_def dead_def macro_iffs)
  have e: "PTRACE_EVENT 0x7057f = 7" "PTRACE_EVENT 0x857f = 0" "PTRACE_EVENT 0x300 = 0" by (simp_all add: PTRACE_EVENT_def)
  have w: "WSTOPSIG 0x857f = 133" using stopped_macros(4) [OF k(2)] by simp
  show "kind_of 0x137f = Stopped 19 0" by (rule k)
  show "\<forall>(ph, s) \<in> set getpid_session. \<not> forks s" by (simp add: getpid_session_def forks_def e)
  show "session TRAPPING_SECCOMP User getpid_session" unfolding getpid_session_def
    by (rule session_step [OF _ session_step [OF _ session_step [OF _ session_step [OF _ session_end]]]])
      (use k e w in \<open>simp_all add: next_state_def resume_request_def trace_consts tracee.simps\<close>)
qed

theorem trace_labels_calls_witness:
  "\<exists>x'. trace False 7 \<lparr>t_reqs = [], t_waits = [(7, 0x137f), (7, 0x7057f), (7, 0x857f), (7, 0x857f), (7, 0x300)],
      t_regs = replicate 4 zero_regs, t_out = []\<rparr> = Inr (3, x')
    \<and> t_out x' = session_log 7 getpid_session (replicate 4 zero_regs)"
  using trace_labels_calls [OF getpid_session_runs(1,2) _ getpid_session_runs(3), of
    "\<lparr>t_reqs = [], t_waits = [(7, 0x137f), (7, 0x7057f), (7, 0x857f), (7, 0x857f), (7, 0x300)], t_regs = replicate 4 zero_regs, t_out = []\<rparr>"
    7 "[]"]
  by (auto simp: getpid_session_def exit_code_def WIFEXITED_def WTERMSIG_def WEXITSTATUS_def)

end
