(* ===== verification/Watchpoint.thy ===== *)
theory Watchpoint
  imports Ptrace
begin

text \<open>
  Hardware watchpoints (\<open>src/watchpoint.c\<close>): the bit fields of the debug control register, \<open>watch\<close>, which sets the
  debug registers of a task through the tracer, and \<open>main\<close>, which watches a variable in a child and
  in a thread of the child. The meaning of the registers is that of the processor manual.
\<close>

section \<open>Debug registers\<close>

definition USER_WORD_DR :: "u32 \<Rightarrow> u32" where "USER_WORD_DR x = 252 + 4 * x"

datatype WatchType = TRAP_EXEC | TRAP_WRITE | TRAP_READWRITE

fun watch_type :: "WatchType \<Rightarrow> u32" where
  "watch_type TRAP_EXEC = 0x00"
| "watch_type TRAP_WRITE = 0x01"
| "watch_type TRAP_READWRITE = 0x03"

datatype WatchBytes = BYTES_1 | BYTES_2 | BYTES_4 | BYTES_8

fun watch_bytes :: "WatchBytes \<Rightarrow> u32" where
  "watch_bytes BYTES_1 = 0x00"
| "watch_bytes BYTES_2 = 0x01"
| "watch_bytes BYTES_4 = 0x03"
| "watch_bytes BYTES_8 = 0x02"

record DebugControl =
  dr0_local :: u32
  dr0_global :: u32
  dr1_local :: u32
  dr1_global :: u32
  dr2_local :: u32
  dr2_global :: u32
  dr3_local :: u32
  dr3_global :: u32
  ignored :: u32
  dr0_type :: u32
  dr0_len :: u32
  dr1_type :: u32
  dr1_len :: u32
  dr2_type :: u32
  dr2_len :: u32
  dr3_type :: u32
  dr3_len :: u32

text \<open>The compiler allots the bit fields from the lowest bit on; a field takes its width from a value.\<close>

fun pack :: "(nat \<times> u32) list \<Rightarrow> u32" where
  "pack [] = 0"
| "pack ((n, w) # fs) = or (take_bit n w) (push_bit n (pack fs))"

fun unpack :: "nat list \<Rightarrow> u32 \<Rightarrow> u32 list" where
  "unpack [] w = []"
| "unpack (n # ns) w = take_bit n w # unpack ns (drop_bit n w)"

definition control_widths :: "nat list" where
  "control_widths = [1, 1, 1, 1, 1, 1, 1, 1, 8, 2, 2, 2, 2, 2, 2, 2, 2]"

definition control_fields :: "DebugControl \<Rightarrow> u32 list" where
  "control_fields ctl =
     [dr0_local ctl, dr0_global ctl, dr1_local ctl, dr1_global ctl, dr2_local ctl, dr2_global ctl, dr3_local ctl, dr3_global ctl,
      ignored ctl, dr0_type ctl, dr0_len ctl, dr1_type ctl, dr1_len ctl, dr2_type ctl, dr2_len ctl, dr3_type ctl, dr3_len ctl]"

definition control_word :: "DebugControl \<Rightarrow> u32" where
  "control_word ctl = pack (zip control_widths (control_fields ctl))"

definition zero_control :: DebugControl where
  "zero_control = \<lparr>dr0_local = 0, dr0_global = 0, dr1_local = 0, dr1_global = 0, dr2_local = 0, dr2_global = 0, dr3_local = 0, dr3_global = 0,
     ignored = 0, dr0_type = 0, dr0_len = 0, dr1_type = 0, dr1_len = 0, dr2_type = 0, dr2_len = 0, dr3_type = 0, dr3_len = 0\<rparr>"

text \<open>\<open>PTRACE_POKEUSER\<close> of a word; \<open>fails\<close> says which requests the kernel refuses.\<close>

definition pokeuser :: "(u32 \<Rightarrow> u32 \<Rightarrow> u32 \<Rightarrow> bool) \<Rightarrow> string \<Rightarrow> u32 \<Rightarrow> u32 \<Rightarrow> u32 \<Rightarrow> tracer \<Rightarrow> tracer res" where
  "pokeuser fails msg tid off w s =
     (if fails tid off w then Inl (Fatal msg) else Inr (ptrace tid (PTRACE_POKEUSER off w) s))"

definition watch :: "(u32 \<Rightarrow> u32 \<Rightarrow> u32 \<Rightarrow> bool) \<Rightarrow> u32 \<Rightarrow> u32 \<Rightarrow> WatchType \<Rightarrow> WatchBytes \<Rightarrow> tracer \<Rightarrow> tracer res" where
  "watch fails tid addr what len s =
     bind_res (pokeuser fails ''Reset debug status'' tid (USER_WORD_DR 6) 0 s) (\<lambda>s1.
     bind_res (pokeuser fails ''Set debug reg 0'' tid (USER_WORD_DR 0) addr s1) (\<lambda>s2.
     let ctl = zero_control\<lparr>dr0_local := 1, dr0_type := watch_type what, dr0_len := watch_bytes len\<rparr>
     in pokeuser fails ''Set debug ctl reg'' tid (USER_WORD_DR 7) (control_word ctl) s2))"

section \<open>The program\<close>

definition watch_options :: u32 where "watch_options = or 0x8 0x1"

definition stopped_line :: "u32 \<Rightarrow> u32 \<Rightarrow> string" where
  "stopped_line ret status = ''task '' @ dec_int ret @ '' stopped with status '' @ show_hex status @ newline"

definition check :: "bool \<Rightarrow> string \<Rightarrow> tracer \<Rightarrow> tracer res" where
  "check b msg s = (if b then Inr s else Inl (Assert_Failed msg))"

text \<open>A wait, its report and the program counter at a stop that must be a trap.\<close>

definition wait_report :: "tracer \<Rightarrow> ((u32 \<times> u32) \<times> tracer) res" where
  "wait_report s = bind_res (waitpid s) (\<lambda>((ret, status), s1). Inr ((ret, status), say (stopped_line ret status) s1))"

definition trap_ip :: "u32 \<Rightarrow> string \<Rightarrow> tracer \<Rightarrow> (u32 \<times> tracer) res" where
  "trap_ip tid kind s =
     bind_res (wait_report s) (\<lambda>((ret, status), s1).
     bind_res (check (tid = ret \<and> WIFSTOPPED status \<and> SIGTRAP = WSTOPSIG status) 
       ''tid == ret && WIFSTOPPED(status) && SIGTRAP == WSTOPSIG(status)'' s1) (\<lambda>s2.
     bind_res (getregs tid s2) (\<lambda>(regs, s3).
     Inr (r_eip regs, say ('' -> hit '' @ kind @ '' watchpoint at '' @ show_ptr (r_eip regs) @ newline) s3))))"

text \<open>The first half watches the child alone, the second half the child and its new thread.\<close>

definition watch_child :: "(u32 \<Rightarrow> u32 \<Rightarrow> u32 \<Rightarrow> bool) \<Rightarrow> u32 \<Rightarrow> u32 \<Rightarrow> u32 \<Rightarrow> u32 \<Rightarrow> tracer \<Rightarrow> tracer res" where
  "watch_child fails mut read_mut_fn write_mut_fn c s =
     bind_res (waitpid s) (\<lambda>((ret, status), s1).
     bind_res (check (c = ret \<and> WIFSTOPPED status \<and> SIGSTOP = WSTOPSIG status)
       ''c == ret && WIFSTOPPED(status) && SIGSTOP == WSTOPSIG(status)'' s1) (\<lambda>s2.
     bind_res (watch fails c mut TRAP_WRITE BYTES_4 (ptrace c (PTRACE_SETOPTIONS watch_options) s2)) (\<lambda>s3.
     bind_res (trap_ip c ''write'' (ptrace c PTRACE_SYSCALL s3)) (\<lambda>(ip, s4).
     check (read_mut_fn < write_mut_fn \<and> write_mut_fn \<le> ip) ''read_mut_fn < write_mut_fn && write_mut_fn <= ip'' s4))))"

definition watch_thread ::
    "(u32 \<Rightarrow> u32 \<Rightarrow> u32 \<Rightarrow> bool) \<Rightarrow> (u32 \<Rightarrow> u32) \<Rightarrow> u32 \<Rightarrow> u32 \<Rightarrow> u32 \<Rightarrow> u32 \<Rightarrow> tracer \<Rightarrow> tracer res" where
  "watch_thread fails eventmsg mut read_mut_fn write_mut_fn c s =
     bind_res (wait_report (ptrace c PTRACE_CONT s)) (\<lambda>((ret, status), s1).
     bind_res (check (c = ret \<and> 0x3057f = status) ''c == ret && 0x3057f == status'' s1) (\<lambda>s2.
     let t = eventmsg c; s3 = ptrace c PTRACE_GETEVENTMSG s2 in
     bind_res (wait_report s3) (\<lambda>(_, s4).
     bind_res (watch fails c mut TRAP_READWRITE BYTES_4 s4) (\<lambda>s5.
     bind_res (watch fails t mut TRAP_READWRITE BYTES_4 s5) (\<lambda>s6.
     bind_res (trap_ip t ''read/write'' (ptrace t PTRACE_CONT (ptrace c PTRACE_CONT s6))) (\<lambda>(ip, s7).
     check (read_mut_fn \<le> ip \<and> read_mut_fn < write_mut_fn) ''read_mut_fn <= ip && read_mut_fn < write_mut_fn'' s7))))))"

definition watchpoint_main ::
    "(u32 \<Rightarrow> u32 \<Rightarrow> u32 \<Rightarrow> bool) \<Rightarrow> (u32 \<Rightarrow> u32) \<Rightarrow> u32 \<Rightarrow> u32 \<Rightarrow> u32 \<Rightarrow> u32 \<Rightarrow> tracer \<Rightarrow> tracer res" where
  "watchpoint_main fails eventmsg mut read_mut_fn write_mut_fn c s =
     bind_res (watch_child fails mut read_mut_fn write_mut_fn c s)
       (watch_thread fails eventmsg mut read_mut_fn write_mut_fn c)"

section \<open>What the processor does with the registers\<close>

datatype access_kind = Fetch | Read | Write

text \<open>The control register of the processor: enable bits, and for each address register the kind and the length.\<close>

definition dr_enabled :: "u32 \<Rightarrow> nat \<Rightarrow> bool" where
  "dr_enabled dr7 n \<longleftrightarrow> bit dr7 (2 * n) \<or> bit dr7 (2 * n + 1)"

definition dr_kind_field :: "u32 \<Rightarrow> nat \<Rightarrow> u32" where
  "dr_kind_field dr7 n = take_bit 2 (drop_bit (16 + 4 * n) dr7)"

definition dr_length_field :: "u32 \<Rightarrow> nat \<Rightarrow> u32" where
  "dr_length_field dr7 n = take_bit 2 (drop_bit (18 + 4 * n) dr7)"

definition dr_kinds :: "u32 \<Rightarrow> nat \<Rightarrow> access_kind set" where
  "dr_kinds dr7 n = (let k = dr_kind_field dr7 n in
     if k = 0 then {Fetch} else if k = 1 then {Write} else if k = 3 then {Read, Write} else {})"

definition dr_length :: "u32 \<Rightarrow> nat \<Rightarrow> nat" where
  "dr_length dr7 n = (let k = dr_length_field dr7 n in
     if k = 0 then 1 else if k = 1 then 2 else if k = 3 then 4 else 8)"

text \<open>The breakpoint registers that an access to a byte hits.\<close>

definition dr_hits :: "(nat \<Rightarrow> u32) \<Rightarrow> u32 \<Rightarrow> access_kind \<Rightarrow> u32 \<Rightarrow> nat set" where
  "dr_hits dr dr7 k a = {n. n < 4 \<and> dr_enabled dr7 n \<and> k \<in> dr_kinds dr7 n \<and> unat (a - dr n) < dr_length dr7 n}"

text \<open>The debug registers of a task after a sequence of requests: what was written there last.\<close>

fun debug_regs :: "u32 \<Rightarrow> (u32 \<times> ptrace_request) list \<Rightarrow> (u32 \<Rightarrow> u32) \<Rightarrow> u32 \<Rightarrow> u32" where
  "debug_regs tid [] dr = dr"
| "debug_regs tid ((q, PTRACE_POKEUSER off w) # rs) dr =
     debug_regs tid rs (\<lambda>x. if q = tid \<and> off = USER_WORD_DR x then w else dr x)"
| "debug_regs tid (_ # rs) dr = debug_regs tid rs dr"

fun kinds_of :: "WatchType \<Rightarrow> access_kind set" where
  "kinds_of TRAP_EXEC = {Fetch}"
| "kinds_of TRAP_WRITE = {Write}"
| "kinds_of TRAP_READWRITE = {Read, Write}"

fun bytes_of :: "WatchBytes \<Rightarrow> nat" where
  "bytes_of BYTES_1 = 1"
| "bytes_of BYTES_2 = 2"
| "bytes_of BYTES_4 = 4"
| "bytes_of BYTES_8 = 8"

text \<open>A task that traps on exactly the watched accesses, through register 0.\<close>

definition watches :: "(u32 \<Rightarrow> u32) \<Rightarrow> u32 \<Rightarrow> WatchType \<Rightarrow> WatchBytes \<Rightarrow> bool" where
  "watches dr addr what len \<longleftrightarrow>
     (\<forall>k a. dr_hits (\<lambda>n. dr (of_nat n)) (dr 7) k a = (if k \<in> kinds_of what \<and> unat (a - addr) < bytes_of len then {0} else {}))"

section \<open>The child\<close>

text \<open>The accesses of the child and of its thread to the variable at \<open>mut\<close>, a write with its value, and the first of them that traps.\<close>

type_synonym mut_access = "access_kind \<times> u32 \<times> u32 option"

definition read_mut :: "u32 \<Rightarrow> mut_access list" where
  "read_mut mut = [(Read, mut, None)]"

definition write_mut :: "u32 \<Rightarrow> u32 \<Rightarrow> mut_access list" where
  "write_mut mut x = [(Write, mut, Some x)]"

definition watched_thread :: "u32 \<Rightarrow> mut_access list" where
  "watched_thread mut = read_mut mut @ write_mut mut 24"

definition watched_child :: "u32 \<Rightarrow> mut_access list" where
  "watched_child mut = read_mut mut @ write_mut mut 42"

definition first_trap :: "(u32 \<Rightarrow> u32) \<Rightarrow> mut_access list \<Rightarrow> mut_access option" where
  "first_trap dr accesses = find (\<lambda>(k, a, _). dr_hits (\<lambda>n. dr (of_nat n)) (dr 7) k a \<noteq> {}) accesses"

lemma first_traps:
  "watches dr mut TRAP_WRITE BYTES_4 \<Longrightarrow> first_trap dr (watched_child mut) = Some (Write, mut, Some 42)"
  "watches dr mut TRAP_READWRITE BYTES_4 \<Longrightarrow> first_trap dr (watched_thread mut) = Some (Read, mut, None)"
  by (simp_all add: first_trap_def watched_child_def watched_thread_def read_mut_def write_mut_def watches_def)

section \<open>Packing\<close>

lemma pack_bound: "bit (pack fs) i \<Longrightarrow> i < sum_list (map fst fs)"
proof (induction fs arbitrary: i rule: pack.induct)
  case (2 n w fs)
  then show ?case by (auto simp: bit_simps) (metis add.commute le_add_diff_inverse2 add_less_cancel_right add_less_cancel_left)
qed simp

lemma unpack_pack:
  assumes "length fs = length ns" "sum_list ns \<le> 32"
  shows "unpack ns (pack (zip ns fs)) = map2 take_bit ns fs"
  using assms
proof (induction ns fs rule: list_induct2')
  case (4 n ns f fs)
  let ?p = "pack (zip ns fs)"
  have "bit ?p i \<Longrightarrow> i + n < LENGTH(32)" for i
    using pack_bound [of "zip ns fs" i] "4.prems" by (simp add: map_fst_zip)
  then have "drop_bit n (or (take_bit n f) (push_bit n ?p)) = ?p"
    by (intro bit_word_eqI) (auto simp: bit_simps add.commute)
  moreover have "take_bit n (or (take_bit n f) (push_bit n ?p)) = take_bit n f"
    by (rule bit_word_eqI) (auto simp: bit_simps)
  ultimately show ?case using 4 by simp
qed simp_all

lemma watch_control:
  "control_word (zero_control\<lparr>dr0_local := 1, dr0_type := watch_type what, dr0_len := watch_bytes len\<rparr>)
   = or 1 (or (push_bit 16 (watch_type what)) (push_bit 18 (watch_bytes len)))"
  by (cases what; cases len) (simp_all add: control_word_def control_widths_def control_fields_def zero_control_def)

lemma four_regs: "n < 4 \<Longrightarrow> n = 0 \<or> n = 1 \<or> n = 2 \<or> n = 3" for n :: nat
  by linarith

lemma control_watches:
  assumes "dr 7 = or 1 (or (push_bit 16 (watch_type what)) (push_bit 18 (watch_bytes len)))" "dr 0 = addr"
  shows "watches dr addr what len"
proof -
  have "dr_enabled (dr 7) n \<longleftrightarrow> n = 0" if "n < 4" for n
    using four_regs [OF that] by (elim disjE) (cases what; cases len; simp add: assms(1) dr_enabled_def bit_simps)+
  moreover have "dr_kinds (dr 7) 0 = kinds_of what" "dr_length (dr 7) 0 = bytes_of len"
    by (cases what; cases len; simp add: assms(1) dr_kinds_def dr_length_def dr_kind_field_def dr_length_field_def)+
  ultimately show ?thesis using assms(2) by (auto simp: watches_def dr_hits_def)
qed

lemma debug_regs_append [simp]: "debug_regs tid (xs @ ys) dr = debug_regs tid ys (debug_regs tid xs dr)"
  by (induction tid xs dr rule: debug_regs.induct) simp_all

lemma dr_distinct [simp]: "USER_WORD_DR 7 \<noteq> USER_WORD_DR 0" "USER_WORD_DR 0 \<noteq> USER_WORD_DR 7"
  by (simp_all add: USER_WORD_DR_def)

text \<open>\<open>watch\<close> arms the task it is called for, whatever its debug registers held, and no other.\<close>

lemma watch_arms:
  assumes "watch fails tid addr what len s = Inr s'"
  shows "watches (debug_regs tid (t_reqs s') dr) addr what len"
    and "q \<noteq> tid \<Longrightarrow> debug_regs q (t_reqs s') dr = debug_regs q (t_reqs s) dr"
    and "t_waits s' = t_waits s" "t_regs s' = t_regs s" "\<exists>ps. t_reqs s' = t_reqs s @ ps"
  using assms
  by (auto simp: watch_def pokeuser_def bind_res_eq_Inr watch_control Let_def split: if_splits
      intro!: control_watches)

lemma check_Inr: "check b msg s = Inr s' \<longleftrightarrow> b \<and> s' = s"
  by (auto simp: check_def)

lemma wait_report_Inr:
  assumes "wait_report s = Inr (w, s')"
  shows "t_reqs s' = t_reqs s" "t_regs s' = t_regs s"
  using assms by (auto simp: wait_report_def bind_res_eq_Inr waitpid_Inr)

lemma trap_ip_Inr:
  assumes "trap_ip tid kind s = Inr (ip, s')"
  shows "t_reqs s' = t_reqs s @ [(tid, PTRACE_GETREGS)]" "t_regs s = hd (t_regs s) # t_regs s'" "ip = r_eip (hd (t_regs s))"
proof -
  obtain ret status s1 where 1: "wait_report s = Inr ((ret, status), s1)"
    "bind_res (getregs tid s1) (\<lambda>(regs, s3).
     Inr (r_eip regs, say ('' -> hit '' @ kind @ '' watchpoint at '' @ show_ptr (r_eip regs) @ newline) s3)) = Inr (ip, s')"
    using assms unfolding trap_ip_def check_def by (auto elim!: bind_res_InrE split: if_splits)
  then show "t_reqs s' = t_reqs s @ [(tid, PTRACE_GETREGS)]" "t_regs s = hd (t_regs s) # t_regs s'" "ip = r_eip (hd (t_regs s))"
    using wait_report_Inr [OF 1(1)] by (auto simp: getregs_def split: list.splits)
qed

lemma watch_child_Inr:
  assumes "watch_child fails mut read_mut_fn write_mut_fn c s = Inr s'"
  obtains pre where "t_reqs s' = t_reqs s @ pre @ [(c, PTRACE_SYSCALL), (c, PTRACE_GETREGS)]"
    "\<And>dr. watches (debug_regs c (t_reqs s @ pre) dr) mut TRAP_WRITE BYTES_4"
    "read_mut_fn < write_mut_fn" "write_mut_fn \<le> r_eip (hd (t_regs s))" "t_regs s = hd (t_regs s) # t_regs s'"
proof -
  obtain w s1 s3 ip where 1: "waitpid s = Inr (w, s1)" "watch fails c mut TRAP_WRITE BYTES_4 (ptrace c (PTRACE_SETOPTIONS watch_options) s1) = Inr s3"
    "trap_ip c ''write'' (ptrace c PTRACE_SYSCALL s3) = Inr (ip, s')" "read_mut_fn < write_mut_fn" "write_mut_fn \<le> ip"
    using assms unfolding watch_child_def
    by (auto elim!: bind_res_InrE simp: check_Inr)
  have 0: "t_reqs s1 = t_reqs s" "t_regs s1 = t_regs s" using 1(1) by (auto simp: waitpid_Inr)
  note w = watch_arms [OF 1(2)] and t = trap_ip_Inr [OF 1(3)]
  obtain ps where "t_reqs s3 = t_reqs s @ (c, PTRACE_SETOPTIONS watch_options) # ps" using w(5) 0 by auto
  then show thesis using w(1,4) t 1(4,5) 0
    by (intro that [of "(c, PTRACE_SETOPTIONS watch_options) # ps"]) simp_all
qed

lemma watch_thread_Inr:
  assumes "watch_thread fails eventmsg mut read_mut_fn write_mut_fn c s = Inr s'"
  obtains mid where "t_reqs s' = t_reqs s @ mid @ [(c, PTRACE_CONT), (eventmsg c, PTRACE_CONT), (eventmsg c, PTRACE_GETREGS)]"
    "read_mut_fn \<le> r_eip (hd (t_regs s))" "t_regs s \<noteq> []"
    "\<And>dr q. q \<in> {c, eventmsg c} \<Longrightarrow> watches (debug_regs q (t_reqs s @ mid) dr) mut TRAP_READWRITE BYTES_4"
proof -
  let ?t = "eventmsg c"
  obtain w s1 w' s4 s5 s6 ip where 1: "wait_report (ptrace c PTRACE_CONT s) = Inr (w, s1)"
    "wait_report (ptrace c PTRACE_GETEVENTMSG s1) = Inr (w', s4)" "watch fails c mut TRAP_READWRITE BYTES_4 s4 = Inr s5"
    "watch fails ?t mut TRAP_READWRITE BYTES_4 s5 = Inr s6"
    "trap_ip ?t ''read/write'' (ptrace ?t PTRACE_CONT (ptrace c PTRACE_CONT s6)) = Inr (ip, s')" "read_mut_fn \<le> ip"
    using assms unfolding watch_thread_def Let_def
    by (auto elim!: bind_res_InrE simp: check_Inr)
  note r = wait_report_Inr [OF 1(1)] wait_report_Inr [OF 1(2)] and t = trap_ip_Inr [OF 1(5)]
  note w1 = watch_arms [OF 1(3)] and w2 = watch_arms [OF 1(4)]
  obtain mid where m: "t_reqs s6 = t_reqs s @ mid" using r w1(5) w2(5) by auto
  have "watches (debug_regs q (t_reqs s @ mid) dr) mut TRAP_READWRITE BYTES_4" if "q \<in> {c, ?t}" for dr q
    using that w1(1) w2(1,2) by (cases "q = ?t") (auto simp flip: m)
  moreover have "t_regs s = t_regs s6" using r w1(4) w2(4) by simp
  moreover from this have "t_regs s \<noteq> []" using t(2) by (metis list.distinct(1) ptrace_fields(3))
  ultimately show thesis using t(1,3) 1(6) m that [of mid] by auto
qed

section \<open>The layout\<close>

lemma unpack_nth: "i < length ns \<Longrightarrow> unpack ns w ! i = take_bit (ns ! i) (drop_bit (sum_list (take i ns)) w)"
  by (induction ns w arbitrary: i rule: unpack.induct) (auto simp: nth_Cons add.commute split: nat.split)

lemma control_word_field:
  assumes "i < length control_widths"
  shows "take_bit (control_widths ! i) (drop_bit (sum_list (take i control_widths)) (control_word ctl)) = take_bit (control_widths ! i) (control_fields ctl ! i)"
proof -
  have l: "length (control_fields ctl) = length control_widths" by (simp add: control_widths_def control_fields_def)
  have "unpack control_widths (control_word ctl) = map2 take_bit control_widths (control_fields ctl)"
    unfolding control_word_def by (rule unpack_pack) (simp_all add: control_widths_def control_fields_def)
  then show ?thesis using unpack_nth [OF assms, of "control_word ctl"] assms l by simp
qed

lemma control_word_bit:
  assumes "i < 8"
  shows "bit (control_word ctl) i \<longleftrightarrow> odd (control_fields ctl ! i)"
proof -
  have "i \<in> set [0, 1, 2, 3, 4, 5, 6, 7]" using assms by auto
  then have "control_widths ! i = 1" "sum_list (take i control_widths) = i" "i < length control_widths" by (auto simp: control_widths_def)
  then have "take_bit 1 (drop_bit i (control_word ctl)) = take_bit 1 (control_fields ctl ! i)" using control_word_field [of i ctl] by simp
  then have "odd (take_bit 1 (drop_bit i (control_word ctl))) = odd (take_bit 1 (control_fields ctl ! i))" by simp
  then show ?thesis by (simp add: bit_iff_odd_drop_bit even_take_bit_eq)
qed

section \<open>Properties\<close>

text \<open>
  C39. The control word has the layout of the processor's manual: for each of the four address registers the word that is built from the
  bit fields enables it exactly when one of its two enable fields is set, and the processor reads the kind and the length of the
  accesses from its two fields; the eight bits between are those of the field \<open>ignored\<close>.
\<close>

theorem control_word_layout:
  assumes "n < 4"
  shows "(dr_enabled (control_word ctl) n \<longleftrightarrow>
      odd ([dr0_local ctl, dr1_local ctl, dr2_local ctl, dr3_local ctl] ! n) \<or> odd ([dr0_global ctl, dr1_global ctl, dr2_global ctl, dr3_global ctl] ! n))
    \<and> dr_kind_field (control_word ctl) n = take_bit 2 ([dr0_type ctl, dr1_type ctl, dr2_type ctl, dr3_type ctl] ! n)
    \<and> dr_length_field (control_word ctl) n = take_bit 2 ([dr0_len ctl, dr1_len ctl, dr2_len ctl, dr3_len ctl] ! n)
    \<and> take_bit 8 (drop_bit 8 (control_word ctl)) = take_bit 8 (ignored ctl)"
proof -
  let ?w = "control_word ctl"
  note f = control_word_field [of _ ctl, unfolded control_widths_def control_fields_def]
  note b = control_word_bit [of _ ctl, unfolded control_fields_def]
  have "bit ?w 0 = odd (dr0_local ctl)" "bit ?w 1 = odd (dr0_global ctl)" "bit ?w 2 = odd (dr1_local ctl)" "bit ?w 3 = odd (dr1_global ctl)"
    "bit ?w 4 = odd (dr2_local ctl)" "bit ?w 5 = odd (dr2_global ctl)" "bit ?w 6 = odd (dr3_local ctl)" "bit ?w 7 = odd (dr3_global ctl)"
    by (simp_all add: b)
  moreover have "take_bit 8 (drop_bit 8 ?w) = take_bit 8 (ignored ctl)" using f [of 8] by (simp add: eval_nat_numeral)
  moreover have "take_bit 2 (drop_bit 16 ?w) = take_bit 2 (dr0_type ctl)" "take_bit 2 (drop_bit 18 ?w) = take_bit 2 (dr0_len ctl)"
    "take_bit 2 (drop_bit 20 ?w) = take_bit 2 (dr1_type ctl)" "take_bit 2 (drop_bit 22 ?w) = take_bit 2 (dr1_len ctl)"
    "take_bit 2 (drop_bit 24 ?w) = take_bit 2 (dr2_type ctl)" "take_bit 2 (drop_bit 26 ?w) = take_bit 2 (dr2_len ctl)"
    "take_bit 2 (drop_bit 28 ?w) = take_bit 2 (dr3_type ctl)" "take_bit 2 (drop_bit 30 ?w) = take_bit 2 (dr3_len ctl)"
    using f [of 9] f [of 10] f [of 11] f [of 12] f [of 13] f [of 14] f [of 15] f [of 16] by simp_all
  ultimately show ?thesis
    using four_regs [OF assms] by (elim disjE) (simp_all add: dr_enabled_def dr_kind_field_def dr_length_field_def)
qed

theorem control_word_layout_witness:
  "dr_kind_field (control_word (zero_control\<lparr>dr2_type := 3, dr2_len := 1\<rparr>)) 2 = 3 \<and> dr_length_field (control_word (zero_control\<lparr>dr2_type := 3, dr2_len := 1\<rparr>)) 2 = 1"
  using control_word_layout [of 2 "zero_control\<lparr>dr2_type := 3, dr2_len := 1\<rparr>"] by simp

text \<open>
  C21. When the program ends without a failed check, the child was resumed with a watch on
  exactly the writes to the four bytes of the variable, and stopped behind the start of the writing function; later
  both the child and the thread were resumed with a watch on exactly the reads and writes of those bytes,
  and the thread stopped behind the start of the reading function. Of the child's accesses the first to trap is its write, of the
  thread's it is already the read.
\<close>

theorem watchpoint_main_watches:
  assumes "watchpoint_main fails eventmsg mut read_mut_fn write_mut_fn c s = Inr s'"
  shows "\<exists>pre mid. t_reqs s' = t_reqs s @ pre @ [(c, PTRACE_SYSCALL), (c, PTRACE_GETREGS)]
        @ mid @ [(c, PTRACE_CONT), (eventmsg c, PTRACE_CONT), (eventmsg c, PTRACE_GETREGS)]
    \<and> (\<forall>dr. let armed = debug_regs c (t_reqs s @ pre) dr
         in watches armed mut TRAP_WRITE BYTES_4 \<and> first_trap armed (watched_child mut) = Some (Write, mut, Some 42))
    \<and> (\<forall>dr. \<forall>q\<in>{c, eventmsg c}. let armed = debug_regs q (t_reqs s @ pre @ [(c, PTRACE_SYSCALL), (c, PTRACE_GETREGS)] @ mid) dr
         in watches armed mut TRAP_READWRITE BYTES_4 \<and> first_trap armed (watched_thread mut) = Some (Read, mut, None))
    \<and> read_mut_fn < write_mut_fn \<and> write_mut_fn \<le> r_eip (t_regs s ! 0) \<and> read_mut_fn \<le> r_eip (t_regs s ! 1)"
proof -
  obtain s1 where 1: "watch_child fails mut read_mut_fn write_mut_fn c s = Inr s1"
    "watch_thread fails eventmsg mut read_mut_fn write_mut_fn c s1 = Inr s'"
    using assms unfolding watchpoint_main_def by (rule bind_res_InrE)
  obtain pre where p: "t_reqs s1 = t_reqs s @ pre @ [(c, PTRACE_SYSCALL), (c, PTRACE_GETREGS)]"
    "\<And>dr. watches (debug_regs c (t_reqs s @ pre) dr) mut TRAP_WRITE BYTES_4"
    "read_mut_fn < write_mut_fn" "write_mut_fn \<le> r_eip (hd (t_regs s))" "t_regs s = hd (t_regs s) # t_regs s1"
    by (rule watch_child_Inr [OF 1(1)]) (rule that)
  obtain mid where q: "t_reqs s' = t_reqs s1 @ mid @ [(c, PTRACE_CONT), (eventmsg c, PTRACE_CONT), (eventmsg c, PTRACE_GETREGS)]"
    "read_mut_fn \<le> r_eip (hd (t_regs s1))" "t_regs s1 \<noteq> []"
    "\<And>dr q. q \<in> {c, eventmsg c} \<Longrightarrow> watches (debug_regs q (t_reqs s1 @ mid) dr) mut TRAP_READWRITE BYTES_4"
    by (rule watch_thread_Inr [OF 1(2)]) (rule that)
  have "t_regs s ! 0 = hd (t_regs s)" "t_regs s ! 1 = hd (t_regs s1)"
    using p(5) q(3) by (metis nth_Cons_0, metis One_nat_def hd_conv_nth nth_Cons_Suc)
  moreover have "watches (debug_regs r (t_reqs s @ pre @ [(c, PTRACE_SYSCALL), (c, PTRACE_GETREGS)] @ mid) dr) mut TRAP_READWRITE BYTES_4"
    if "r \<in> {c, eventmsg c}" for dr r using q(4) [OF that] p(1) by simp
  ultimately show ?thesis
    using p q(1,2) by (intro exI [of _ pre] exI [of _ mid]) (simp add: first_traps Let_def)
qed

definition watched_session :: tracer where
  "watched_session = \<lparr>t_reqs = [], t_waits = [(7, 0x137f), (7, 0x57f), (7, 0x3057f), (8, 0x137f), (8, 0x57f)],
     t_regs = [zero_regs\<lparr>r_eip := 0x2010\<rparr>, zero_regs\<lparr>r_eip := 0x1008\<rparr>], t_out = []\<rparr>"

lemma watched_session_runs: "\<exists>s'. watchpoint_main (\<lambda>_ _ _. False) (\<lambda>_. 8) 0x4000 0x1000 0x2000 7 watched_session = Inr s'"
proof -
  have "WIFSTOPPED 0x137f" "WSTOPSIG 0x137f = SIGSTOP" "WIFSTOPPED 0x57f" "WSTOPSIG 0x57f = SIGTRAP"
    by (simp_all add: WIFSTOPPED_def WSTOPSIG_def WEXITSTATUS_def SIGSTOP_def SIGTRAP_def)
  then show ?thesis
    by (simp add: watched_session_def watchpoint_main_def watch_child_def watch_thread_def Let_def
        watch_def pokeuser_def trap_ip_def wait_report_def check_def)
qed

theorem watchpoint_main_watches_witness:
  "\<exists>s' mid. watchpoint_main (\<lambda>_ _ _. False) (\<lambda>_. 8) 0x4000 0x1000 0x2000 7 watched_session = Inr s'
    \<and> t_reqs s' = mid @ [(7, PTRACE_CONT), (8, PTRACE_CONT), (8, PTRACE_GETREGS)]
    \<and> watches (debug_regs 8 mid (\<lambda>_. 0)) 0x4000 TRAP_READWRITE BYTES_4"
proof -
  obtain s' where s': "watchpoint_main (\<lambda>_ _ _. False) (\<lambda>_. 8) 0x4000 0x1000 0x2000 7 watched_session = Inr s'"
    using watched_session_runs by blast
  obtain pre mid where m: "t_reqs s' = t_reqs watched_session @ pre @ [(7, PTRACE_SYSCALL), (7, PTRACE_GETREGS)]
        @ mid @ [(7, PTRACE_CONT), (8, PTRACE_CONT), (8, PTRACE_GETREGS)]"
    "\<forall>dr. \<forall>q\<in>{7, 8}. let armed = debug_regs q (t_reqs watched_session @ pre @ [(7, PTRACE_SYSCALL), (7, PTRACE_GETREGS)] @ mid) dr
         in watches armed 0x4000 TRAP_READWRITE BYTES_4 \<and> first_trap armed (watched_thread 0x4000) = Some (Read, 0x4000, None)"
    using watchpoint_main_watches [OF s'] by (elim exE conjE)
  show ?thesis using s' m
    by (intro exI [of _ s'] exI [of _ "t_reqs watched_session @ pre @ [(7, PTRACE_SYSCALL), (7, PTRACE_GETREGS)] @ mid"]) (simp add: Let_def del: debug_regs_append)
qed

end
