(* ===== verification/Notify_Desched.thy ===== *)
theory Notify_Desched
  imports Ptrace
begin

text \<open>
  Notification of context switches (\<open>src/notify_desched.c\<close>). A child opens a counter of its context switches that raises
  \<open>SIGIO\<close>, sends the descriptor of the counter over a socket and does its work with the counter armed; the parent receives the
  descriptor, follows the child and stops the counter at every signal.
  The messages on the socket are modelled down to the bytes of their control part; the kernel that passes them is a parameter. The
  other system calls that the child makes are recorded in their order.
\<close>

section \<open>Descriptors over sockets\<close>

definition SOL_SOCKET :: u32 where "SOL_SOCKET = 1"
definition SCM_RIGHTS :: u32 where "SCM_RIGHTS = 1"

text \<open>Words in a buffer, lowest byte first.\<close>

definition u32_bytes :: "u32 \<Rightarrow> byte list" where
  "u32_bytes v = [ucast v, ucast (drop_bit 8 v), ucast (drop_bit 16 v), ucast (drop_bit 24 v)]"

definition u32_at :: "nat \<Rightarrow> byte list \<Rightarrow> u32" where
  "u32_at off bs = foldr (\<lambda>b v. or (ucast b) (push_bit 8 v)) (take 4 (drop off bs)) 0"

definition put_u32 :: "nat \<Rightarrow> u32 \<Rightarrow> byte list \<Rightarrow> byte list" where
  "put_u32 off v bs = take off bs @ u32_bytes v @ drop (off + 4) bs"

text \<open>
  The message header with the buffers that it points to: one data buffer, and the control buffer with the length that counts. A control
  message is a header of three words (length, level, type), aligned to words, and then its data; \<open>CMSG_FIRSTHDR\<close> is the start of
  the control buffer when that is long enough for a header, and null otherwise.
\<close>

record msghdr =
  iov_data :: "byte list"
  msg_control :: "byte list"
  msg_controllen :: nat

definition CMSG_ALIGN :: "nat \<Rightarrow> nat" where "CMSG_ALIGN n = (n + 3) div 4 * 4"
definition CMSG_SPACE :: "nat \<Rightarrow> nat" where "CMSG_SPACE n = CMSG_ALIGN n + CMSG_ALIGN 12"
definition CMSG_LEN :: "nat \<Rightarrow> nat" where "CMSG_LEN n = CMSG_ALIGN 12 + n"

definition CMSG_FIRSTHDR :: "msghdr \<Rightarrow> nat option" where
  "CMSG_FIRSTHDR msg = (if 12 \<le> msg_controllen msg then Some 0 else None)"

definition CMSG_DATA :: "nat \<Rightarrow> nat" where "CMSG_DATA cmsg = cmsg + 12"

text \<open>
  \<open>sendmsg\<close> and \<open>recvmsg\<close> are parameters: they return a count or a negative number and change the state of the system; \<open>recvmsg\<close> also
  fills the buffers and sets the length of the control part. The control buffer of the sender starts with arbitrary bytes.
\<close>

type_synonym 'w send_call = "u32 \<Rightarrow> msghdr \<Rightarrow> 'w \<Rightarrow> int \<times> 'w"
type_synonym 'w recv_call = "u32 \<Rightarrow> msghdr \<Rightarrow> 'w \<Rightarrow> int \<times> msghdr \<times> 'w"

definition send_fd :: "'w send_call \<Rightarrow> byte list \<Rightarrow> u32 \<Rightarrow> u32 \<Rightarrow> 'w \<Rightarrow> (string \<times> 'w) res" where
  "send_fd sendmsg cmsgbuf fd socket w =
     (let msg = \<lparr>iov_data = u32_bytes fd, msg_control = cmsgbuf, msg_controllen = CMSG_LEN 4\<rparr> in
      case CMSG_FIRSTHDR msg of
        None \<Rightarrow> Inl Bad_Deref
      | Some cmsg \<Rightarrow>
          (let control = put_u32 (CMSG_DATA cmsg) fd (put_u32 (cmsg + 8) SCM_RIGHTS (put_u32 (cmsg + 4) SOL_SOCKET
                 (put_u32 cmsg (of_nat (CMSG_LEN 4)) (msg_control msg))));
               (nr, w') = sendmsg socket (msg\<lparr>msg_control := control\<rparr>) w in
           if nr \<le> 0 then Inl (Fatal (''sendmsg(fd='' @ dec_int fd @ '')''))
           else Inr (''sending fd '' @ dec_int fd @ newline, w')))"

text \<open>The socket that it reads is the global one, whatever its argument; \<open>fdno\<close> is what the result variable held before.\<close>

definition recv_fd :: "'w recv_call \<Rightarrow> byte list \<Rightarrow> u32 \<Rightarrow> u32 \<Rightarrow> u32 \<Rightarrow> 'w \<Rightarrow> (u32 \<times> u32 \<times> string \<times> 'w) res" where
  "recv_fd recvmsg cmsgbuf parent_socket socket fdno w =
     (let msg = \<lparr>iov_data = u32_bytes fdno, msg_control = cmsgbuf, msg_controllen = CMSG_SPACE 4\<rparr>;
          (nr, msg', w') = recvmsg parent_socket msg w in
      if nr \<le> 0 then Inl (Fatal ''recvmsg(fd)'')
      else case CMSG_FIRSTHDR msg' of
        None \<Rightarrow> Inl Bad_Deref
      | Some cmsg \<Rightarrow>
          if u32_at (cmsg + 4) (msg_control msg') = SOL_SOCKET \<and> u32_at (cmsg + 8) (msg_control msg') = SCM_RIGHTS
          then let fd = u32_at (CMSG_DATA cmsg) (msg_control msg'); fdno' = u32_at 0 (iov_data msg') in
               Inr (fd, fdno', ''received fdno='' @ dec_int fdno' @ '' as fd '' @ dec_int fd @ newline, w')
          else Inl (Assert_Failed ''cmsg->cmsg_level == SOL_SOCKET && cmsg->cmsg_type  == SCM_RIGHTS''))"

section \<open>The child\<close>

datatype work = CPU | IO

definition which :: work where "which = IO"
definition nr_switches :: u32 where "nr_switches = 1"
definition cpu_ticks :: u32 where "cpu_ticks = push_bit 25 1"
definition io_ticks :: u32 where "io_ticks = 10"

text \<open>The system calls of the child, in the order in which it makes them.\<close>

record perf_event_attr =
  pe_type :: u32
  pe_config :: u32
  pe_disabled :: bool
  pe_sample_period :: u32

datatype call =
    Perf_Event_Open perf_event_attr | Fcntl_Async u32 | Fcntl_Owner u32 u32 | Fcntl_Sig u32 u32
  | Ioctl_Enable u32 | Ioctl_Disable u32 | Gettimeofday | Open string | Write u32 string | Close u32
  | Traceme | Raise u32 | Exit u32

text \<open>A system call that fails where \<open>fails\<close> says so; the calls made so far are recorded.\<close>

definition sys :: "(call \<Rightarrow> bool) \<Rightarrow> string \<Rightarrow> call \<Rightarrow> call list \<Rightarrow> call list res" where
  "sys fails msg k tr = (if fails k then Inl (Fatal msg) else Inr (tr @ [k]))"

definition enable_counter :: "(call \<Rightarrow> bool) \<Rightarrow> u32 \<Rightarrow> call list \<Rightarrow> call list res" where
  "enable_counter fails fd = sys fails ''ioctl(PERF_EVENT_ENABLE)'' (Ioctl_Enable fd)"

definition disable_counter :: "(call \<Rightarrow> bool) \<Rightarrow> u32 \<Rightarrow> call list \<Rightarrow> call list res" where
  "disable_counter fails fd = sys fails ''ioctl(PERF_EVENT_DISABLE)'' (Ioctl_Disable fd)"

definition open_counter :: "(call \<Rightarrow> bool) \<Rightarrow> u32 \<Rightarrow> u32 \<Rightarrow> u32 \<Rightarrow> call list \<Rightarrow> (u32 \<times> call list) res" where
  "open_counter fails perf_fd tid nr tr =
     (let attr = \<lparr>pe_type = 1, pe_config = 3, pe_disabled = True, pe_sample_period = nr\<rparr>; fd = perf_fd in
      if fd <s 0 then Inl (Fatal (''perf_event_open(cs, period='' @ dec (unat nr) @ '')''))
      else bind_res (sys fails ''fcntl(O_ASYNC)'' (Fcntl_Async fd) (tr @ [Perf_Event_Open attr])) (\<lambda>tr1.
           bind_res (sys fails ''fcntl(SETOWN_EX)'' (Fcntl_Owner fd tid) tr1) (\<lambda>tr2.
           bind_res (sys fails ''fcntl(SETSIG, SIGIO)'' (Fcntl_Sig fd SIGIO) tr2) (\<lambda>tr3. Inr (fd, tr3)))))"

definition arm_desched_notification :: "(call \<Rightarrow> bool) \<Rightarrow> u32 \<Rightarrow> call list \<Rightarrow> call list res" where
  "arm_desched_notification fails counter_fd = enable_counter fails counter_fd"

definition disarm_desched_notification :: "(call \<Rightarrow> bool) \<Rightarrow> u32 \<Rightarrow> call list \<Rightarrow> call list res" where
  "disarm_desched_notification fails counter_fd = disable_counter fails counter_fd"

text \<open>The loop of \<open>chew_cpu\<close>: an unsigned count upwards; only every tenth round makes a system call.\<close>

lemma unat_inc: "i < t \<Longrightarrow> unat (i + 1) = Suc (unat i)" for i t :: u32
  by (metis add.commute add_eq_0_iff2 unatSuc word_not_simps(3))

function chew_loop :: "u32 \<Rightarrow> u32 \<Rightarrow> call list \<Rightarrow> call list" where
  "chew_loop ticks i tr =
     (if i < ticks then chew_loop ticks (i + 1) (if i mod 10 = 0 then tr @ [Gettimeofday] else tr) else tr)"
  by pat_completeness auto
termination
  by (relation "measure (\<lambda>(ticks, i, tr). unat ticks - unat i)") (auto simp: unat_inc word_less_nat_alt)

declare chew_loop.simps [simp del]

definition chew_cpu :: "(call \<Rightarrow> bool) \<Rightarrow> u32 \<Rightarrow> u32 \<Rightarrow> call list \<Rightarrow> call list res" where
  "chew_cpu fails counter_fd ticks tr =
     bind_res (arm_desched_notification fails counter_fd tr) (\<lambda>tr1.
     disarm_desched_notification fails counter_fd (chew_loop ticks 0 tr1))"

text \<open>The loop of \<open>spam_io\<close>: a signed count downwards.\<close>

lemma sint_dec: "0 \<le> sint i \<Longrightarrow> sint (i - 1) = sint i - 1" for i :: u32
  using sint_lt [of i] by (simp add: sint_word_ariths(2) signed_take_bit_int_eq_self)

function spam_loop :: "(call \<Rightarrow> bool) \<Rightarrow> u32 \<Rightarrow> u32 \<Rightarrow> call list \<Rightarrow> call list res" where
  "spam_loop fails counter_fd i tr =
     (if 0 \<le> sint i
      then bind_res (arm_desched_notification fails counter_fd tr) (\<lambda>tr1.
           bind_res (disarm_desched_notification fails counter_fd (tr1 @ [Write 1 (if i \<noteq> 0 then ''.'' else newline)])) (\<lambda>tr2.
           spam_loop fails counter_fd (i - 1) tr2))
      else Inr tr)"
  by pat_completeness auto
termination
  by (relation "measure (\<lambda>(fails, counter_fd, i, tr). nat (sint i + 1))") (auto simp: sint_dec)

declare spam_loop.simps [simp del]

definition spam_io :: "(call \<Rightarrow> bool) \<Rightarrow> u32 \<Rightarrow> u32 \<Rightarrow> u32 \<Rightarrow> call list \<Rightarrow> call list res" where
  "spam_io fails null_fd counter_fd ticks tr =
     bind_res (spam_loop fails counter_fd (ticks - 1) (tr @ [Open ''/dev/null''])) (\<lambda>tr1.
     Inr (tr1 @ [Close null_fd]))"

definition child_info :: "u32 \<Rightarrow> u32 \<Rightarrow> string" where
  "child_info child_fn work_fn =
     ''child: execution info:'' @ newline @ ''  child() = '' @ show_ptr child_fn @ newline
     @ ''  nr_switches = '' @ dec (unat nr_switches) @ newline
     @ (if IO = which then ''  spam_io() = '' @ show_ptr work_fn @ '', '' @ dec (unat io_ticks) @ '' ticks''
        else ''  chew_cpu() = '' @ show_ptr work_fn @ '', '' @ dec (unat cpu_ticks) @ '' ticks'') @ newline"

text \<open>The whole child, with the descriptors that the kernel gives it.\<close>

definition child ::
    "(call \<Rightarrow> bool) \<Rightarrow> u32 \<Rightarrow> u32 \<Rightarrow> u32 \<Rightarrow> u32 \<Rightarrow> u32 \<Rightarrow> 'w send_call \<Rightarrow> byte list \<Rightarrow> u32 \<Rightarrow> 'w \<Rightarrow> (string \<times> 'w \<times> call list) res" where
  "child fails perf_fd null_fd tid child_fn work_fn sendmsg cmsgbuf child_socket w =
     bind_res (open_counter fails perf_fd tid nr_switches []) (\<lambda>(counter_fd, tr1).
     bind_res (send_fd sendmsg cmsgbuf counter_fd child_socket w) (\<lambda>(out, w1).
     let tr2 = tr1 @ [Traceme, Raise SIGSTOP] in
     bind_res (case which of CPU \<Rightarrow> chew_cpu fails counter_fd cpu_ticks tr2
                 | IO \<Rightarrow> spam_io fails null_fd counter_fd io_ticks tr2) (\<lambda>tr3.
     Inr (child_info child_fn work_fn @ out @ ''child accepting ptrace'' @ newline, w1, tr3 @ [Exit 0]))))"

section \<open>The parent\<close>

record siginfo =
  si_signo :: u32
  si_code :: u32
  si_fd :: u32

text \<open>What the kernel will tell the parent besides statuses and registers: the values of the counter, where a short
  read has none, and the details of the signals. The last component records the calls on the counter.\<close>

record desched =
  d_reads :: "64 word option list"
  d_infos :: "siginfo list"
  d_calls :: "call list"

definition siginfo_regs_line :: "string \<Rightarrow> u32 \<Rightarrow> u32 \<Rightarrow> siginfo \<Rightarrow> user_regs \<Rightarrow> string" where
  "siginfo_regs_line pfx tid status si r =
     pfx @ dec_int tid @ '': stopped at '' @ show_ptr (r_eip r) @ '' (status 0x'' @ hex (unat status) @ '')'' @ newline
     @ ''    sig:'' @ dec_int (si_signo si) @ '' (code:'' @ dec_int (si_code si) @ ''; fd:'' @ dec_int (si_fd si) @ '')'' @ newline
     @ ''    eax:'' @ hex (unat (r_eax r)) @ '' ebx:'' @ hex (unat (r_ebx r)) @ '' ecx:'' @ hex (unat (r_ecx r))
     @ '' edx:'' @ hex (unat (r_edx r)) @ newline
     @ ''    esi:'' @ hex (unat (r_esi r)) @ '' edi:'' @ hex (unat (r_edi r)) @ newline
     @ ''    orig_eax:'' @ dec_int (r_orig_eax r) @ newline
     @ ''    ebp:'' @ hex (unat (r_ebp r)) @ '' esp:'' @ hex (unat (r_esp r)) @ newline
     @ ''    eip:'' @ hex (unat (r_eip r)) @ newline"

definition dump_siginfo_regs :: "string \<Rightarrow> u32 \<Rightarrow> u32 \<Rightarrow> tracer \<times> desched \<Rightarrow> (tracer \<times> desched) res" where
  "dump_siginfo_regs pfx tid status = (\<lambda>(s, d).
     case d_infos d of
       [] \<Rightarrow> Inl Blocked
     | si # rest \<Rightarrow>
         bind_res (getregs tid (ptrace tid PTRACE_GETSIGINFO s)) (\<lambda>(regs, s1).
         Inr (say (siginfo_regs_line pfx tid status si regs) s1, d\<lparr>d_infos := rest\<rparr>)))"

text \<open>A request, the wait and the report of the stop.\<close>

definition step_and_dump :: "string \<Rightarrow> ptrace_request \<Rightarrow> (u32 \<Rightarrow> bool) \<Rightarrow> u32 \<Rightarrow> tracer \<times> desched \<Rightarrow> (tracer \<times> desched) res" where
  "step_and_dump txt req ok p = (\<lambda>(s, d).
     bind_res (resume p req (say (txt @ newline) s)) (\<lambda>(status, s1).
     if ok status then dump_siginfo_regs ''  after: '' p status (s1, d)
     else Inl (Assert_Failed ''WIFSTOPPED(status) && SIGIO == WSTOPSIG(status)'')))"

definition sigio_stop :: "u32 \<Rightarrow> bool" where
  "sigio_stop status \<longleftrightarrow> WIFSTOPPED status \<and> SIGIO = WSTOPSIG status"

definition observe_line :: "64 word \<Rightarrow> u32 \<Rightarrow> string" where
  "observe_line nr_desched nr_observed = ''  desched '' @ dec (unat nr_desched) @ ''; observed '' @ dec_int nr_observed @ newline"

definition handle_desched :: "(call \<Rightarrow> bool) \<Rightarrow> u32 \<Rightarrow> u32 \<Rightarrow> u32 \<Rightarrow> u32 \<Rightarrow> tracer \<times> desched \<Rightarrow> (u32 \<times> (tracer \<times> desched)) res" where
  "handle_desched fails child_counter p status nr_observed = (\<lambda>(s, d).
     case d_reads d of
       [] \<Rightarrow> Inl Blocked
     | None # _ \<Rightarrow> Inl (Fatal ''read(child_counter)'')
     | Some nr_desched # rest \<Rightarrow>
         bind_res (disable_counter fails child_counter (d_calls d)) (\<lambda>calls.
         let nr = nr_observed + 1; s1 = say (observe_line nr_desched nr) s in
         bind_res (dump_siginfo_regs ''  at first SIGIO: '' p status (s1, d\<lparr>d_reads := rest, d_calls := calls\<rparr>)) (\<lambda>sd2.
         bind_res (step_and_dump ''skip SIGIO:'' PTRACE_CONT sigio_stop p sd2) (\<lambda>sd3.
         bind_res (step_and_dump (newline @ ''syscall:'') PTRACE_SYSCALL (\<lambda>_. True) p sd3) (\<lambda>sd4.
         bind_res (step_and_dump (newline @ ''finish syscall:'') PTRACE_SYSCALL (\<lambda>_. True) p sd4) (\<lambda>sd5.
         Inr (nr, sd5)))))))"

lemma dump_siginfo_waits: "dump_siginfo_regs pfx tid status sd = Inr sd' \<Longrightarrow> t_waits (fst sd') = t_waits (fst sd)"
  by (auto simp: dump_siginfo_regs_def bind_res_eq_Inr split: prod.splits list.splits dest!: getregs_waits)

lemma step_and_dump_waits:
  "step_and_dump txt req ok p sd = Inr sd' \<Longrightarrow> length (t_waits (fst sd')) < length (t_waits (fst sd))"
  by (auto simp: step_and_dump_def bind_res_eq_Inr split: prod.splits if_splits dest!: resume_waits dump_siginfo_waits)

lemma handle_desched_waits:
  "handle_desched fails child_counter p status nr sd = Inr (nr', sd') \<Longrightarrow> length (t_waits (fst sd')) < length (t_waits (fst sd))"
  by (cases sd) (fastforce simp: handle_desched_def Let_def split: list.splits option.splits
      elim!: bind_res_InrE dest!: dump_siginfo_waits step_and_dump_waits)

text \<open>The loop: every round takes a status.\<close>

function parent_loop :: "(call \<Rightarrow> bool) \<Rightarrow> u32 \<Rightarrow> u32 \<Rightarrow> u32 \<Rightarrow> tracer \<times> desched \<Rightarrow> (u32 \<times> (tracer \<times> desched)) res" where
  "parent_loop fails child_counter p nr_observed sd =
     bind_res (resume p PTRACE_CONT (say (dec_int p @ '' continue'' @ newline) (fst sd))) (\<lambda>(status, s1).
     let s2 = say (snd (notify_dump_status p status)) s1 in
     if fst (notify_dump_status p status) = 0 then Inr (nr_observed, (s2, snd sd))
     else if sigio_stop status
     then bind_res (handle_desched fails child_counter p status nr_observed (s2, snd sd)) (\<lambda>(nr, sd').
          parent_loop fails child_counter p nr sd')
     else parent_loop fails child_counter p nr_observed (s2, snd sd))"
  by pat_completeness auto
termination
  by (relation "measure (\<lambda>(fails, child_counter, p, nr, sd). length (t_waits (fst sd)))")
    (auto dest!: resume_waits handle_desched_waits)

declare parent_loop.simps [simp del]

definition finish_line :: "u32 \<Rightarrow> string" where
  "finish_line nr = ''child finished; observed '' @ dec_int nr @ '' descheds'' @ newline"

definition parent ::
    "(call \<Rightarrow> bool) \<Rightarrow> bool \<Rightarrow> 'w recv_call \<Rightarrow> byte list \<Rightarrow> u32 \<Rightarrow> u32 \<Rightarrow> 'w \<Rightarrow> tracer \<times> desched \<Rightarrow> ('w \<times> (tracer \<times> desched)) res" where
  "parent fails options_fail recvmsg cmsgbuf parent_socket p w sd =
     bind_res (recv_fd recvmsg cmsgbuf parent_socket parent_socket 0 w) (\<lambda>(child_counter, child_counter_fdno, out, w1).
     bind_res (waitpid (say out (fst sd))) (\<lambda>(_, s1).
     let s2 = ptrace p (PTRACE_SETOPTIONS 1) s1 in
     if options_fail then Inl (Fatal ''ptrace(SETOPTIONS)'')
     else bind_res (parent_loop fails child_counter p 0 (s2, snd sd)) (\<lambda>(nr, (s3, d3)).
          Inr (w1, (say (finish_line nr) s3, d3)))))"

section \<open>The work of the child\<close>

lemma sys_ok [simp]: "\<not> fails k \<Longrightarrow> sys fails msg k tr = Inr (tr @ [k])"
  by (simp add: sys_def)

lemma sys_Inr: "sys fails msg k tr = Inr tr' \<longleftrightarrow> \<not> fails k \<and> tr' = tr @ [k]"
  by (auto simp: sys_def)

text \<open>One round of the loop: the counter counts during the write and only then.\<close>

definition spam_round :: "u32 \<Rightarrow> nat \<Rightarrow> call list" where
  "spam_round fd i = [Ioctl_Enable fd, Write 1 (if i \<noteq> 0 then ''.'' else newline), Ioctl_Disable fd]"

lemma sint_of_nat: "n < 2 ^ 31 \<Longrightarrow> sint (of_nat n :: u32) = int n"
  by (simp add: signed_of_nat signed_take_bit_int_eq_self)

lemma spam_loop_trace:
  assumes "\<not> fails (Ioctl_Enable fd)" "\<not> fails (Ioctl_Disable fd)" "n < 2 ^ 31"
  shows "spam_loop fails fd (of_nat n - 1) tr = Inr (tr @ concat (map (spam_round fd) (rev [0..<n])))"
  using assms(3)
proof (induction n arbitrary: tr)
  case 0
  then show ?case by (subst spam_loop.simps) simp
next
  case (Suc n)
  have "(of_nat n :: u32) \<noteq> 0 \<longleftrightarrow> n \<noteq> 0" using Suc.prems sint_of_nat [of n] by (cases n) auto
  moreover have "of_nat (Suc n) - 1 = (of_nat n :: u32)" by simp
  ultimately show ?case
    using Suc.IH [of "tr @ spam_round fd n"] Suc.prems assms(1,2) sint_of_nat [of n]
    by (subst spam_loop.simps)
      (simp add: arm_desched_notification_def disarm_desched_notification_def enable_counter_def disable_counter_def spam_round_def [abs_def])
qed

text \<open>The loop of \<open>chew_cpu\<close> looks at the clock once in ten rounds.\<close>

lemma chew_loop_trace:
  assumes "unat i \<le> unat ticks"
  shows "chew_loop ticks i tr = tr @ replicate (length (filter (\<lambda>k. k mod 10 = 0) [unat i..<unat ticks])) Gettimeofday"
  using assms
proof (induction ticks i tr rule: chew_loop.induct)
  case (1 ticks i tr)
  show ?case
  proof (cases "i < ticks")
    case True
    then have "i mod 10 = 0 \<longleftrightarrow> unat i mod 10 = 0" by (simp add: word_unat_eq_iff unat_mod)
    moreover have "[unat i..<unat ticks] = unat i # [Suc (unat i)..<unat ticks]"
      using True by (simp add: upt_conv_Cons word_less_nat_alt)
    ultimately show ?thesis
      using True 1 by (subst chew_loop.simps) (auto simp: unat_inc word_less_nat_alt)
  next
    case False
    then show ?thesis using "1.prems" by (subst chew_loop.simps) (simp add: word_less_nat_alt)
  qed
qed

section \<open>The rounds of the parent\<close>

text \<open>What the parent sees of the child: a stop that does not concern it, or a switch, with the four stops that it then goes through.\<close>

datatype round = Plain u32 | Desched u32 u32 u32 u32

fun round_statuses :: "round \<Rightarrow> u32 list" where
  "round_statuses (Plain a) = [a]"
| "round_statuses (Desched a b c d) = [a, b, c, d]"

fun valid_round :: "round \<Rightarrow> bool" where
  "valid_round (Plain a) \<longleftrightarrow> \<not> dead a \<and> \<not> sigio_stop a"
| "valid_round (Desched a b c d) \<longleftrightarrow> sigio_stop a \<and> sigio_stop b"

fun switches :: "round list \<Rightarrow> nat" where
  "switches [] = 0"
| "switches (Plain _ # rs) = switches rs"
| "switches (Desched _ _ _ _ # rs) = Suc (switches rs)"

text \<open>Enough answers of the kernel for a number of switches.\<close>

definition supplied :: "nat \<Rightarrow> tracer \<times> desched \<Rightarrow> bool" where
  "supplied n sd \<longleftrightarrow> n \<le> length (d_reads (snd sd)) \<and> None \<notin> set (d_reads (snd sd))
     \<and> 4 * n \<le> length (d_infos (snd sd)) \<and> 4 * n \<le> length (t_regs (fst sd))"

lemma dump_siginfo_eval:
  assumes "d_infos d = si # is" "t_regs s = r # rs"
  shows "\<exists>s'. dump_siginfo_regs pfx tid status (s, d) = Inr (s', d\<lparr>d_infos := is\<rparr>) \<and> t_regs s' = rs \<and> t_waits s' = t_waits s"
  using assms by (simp add: dump_siginfo_regs_def)

lemma step_and_dump_eval:
  assumes "d_infos d = si # is" "t_regs s = r # rs" "t_waits s = (q, st) # ws" "ok st"
  shows "\<exists>s'. step_and_dump txt req ok p (s, d) = Inr (s', d\<lparr>d_infos := is\<rparr>) \<and> t_regs s' = rs \<and> t_waits s' = ws"
  using assms dump_siginfo_eval [of d si "is" "(ptrace p req (say (txt @ newline) s))\<lparr>t_waits := ws\<rparr>" r rs]
  by (simp add: step_and_dump_def)

lemma take_four: "4 * Suc n \<le> length xs \<Longrightarrow> \<exists>a b c d ys. xs = a # b # c # d # ys \<and> 4 * n \<le> length ys"
  by (auto simp: Suc_le_length_iff numeral_eq_Suc)

lemma handle_desched_eval:
  assumes "supplied (Suc n) (s, d)" "t_waits s = map (Pair p) [b, c, e] @ ws" "sigio_stop b" "\<not> fails (Ioctl_Disable fd)"
  shows "\<exists>s' d'. handle_desched fails fd p a nr (s, d) = Inr (nr + 1, (s', d')) \<and> supplied n (s', d') \<and> t_waits s' = ws
    \<and> d_calls d' = d_calls d @ [Ioctl_Disable fd]"
proof -
  obtain v vs where v: "d_reads d = Some v # vs" "n \<le> length vs" "None \<notin> set vs"
    using assms(1) by (cases "d_reads d"; cases "hd (d_reads d)") (auto simp: supplied_def)
  obtain i1 i2 i3 i4 "is" where i: "d_infos d = i1 # i2 # i3 # i4 # is" "4 * n \<le> length is"
    using assms(1) take_four [of n "d_infos d"] by (auto simp: supplied_def)
  obtain r1 r2 r3 r4 rs where r: "t_regs s = r1 # r2 # r3 # r4 # rs" "4 * n \<le> length rs"
    using assms(1) take_four [of n "t_regs s"] by (auto simp: supplied_def)
  define d1 where "d1 = d\<lparr>d_reads := vs, d_calls := d_calls d @ [Ioctl_Disable fd]\<rparr>"
  define s1 where "s1 = say (observe_line v (nr + 1)) s"
  obtain s2 where 2: "dump_siginfo_regs ''  at first SIGIO: '' p a (s1, d1) = Inr (s2, d1\<lparr>d_infos := i2 # i3 # i4 # is\<rparr>)"
    "t_regs s2 = r2 # r3 # r4 # rs" "t_waits s2 = map (Pair p) [b, c, e] @ ws"
    using dump_siginfo_eval [of d1 i1 "i2 # i3 # i4 # is" s1 r1 "r2 # r3 # r4 # rs" "''  at first SIGIO: ''" p a] i r assms(2) by (auto simp: d1_def s1_def)
  obtain s3 where 3: "step_and_dump ''skip SIGIO:'' PTRACE_CONT sigio_stop p (s2, d1\<lparr>d_infos := i2 # i3 # i4 # is\<rparr>)
      = Inr (s3, d1\<lparr>d_infos := i3 # i4 # is\<rparr>)" "t_regs s3 = r3 # r4 # rs" "t_waits s3 = map (Pair p) [c, e] @ ws"
    using step_and_dump_eval [of "d1\<lparr>d_infos := i2 # i3 # i4 # is\<rparr>" i2 "i3 # i4 # is" s2 r2 "r3 # r4 # rs" p b "map (Pair p) [c, e] @ ws" sigio_stop
      "''skip SIGIO:''" PTRACE_CONT p] 2 assms(3) by auto
  obtain s4 where 4: "step_and_dump (newline @ ''syscall:'') PTRACE_SYSCALL (\<lambda>_. True) p (s3, d1\<lparr>d_infos := i3 # i4 # is\<rparr>)
      = Inr (s4, d1\<lparr>d_infos := i4 # is\<rparr>)" "t_regs s4 = r4 # rs" "t_waits s4 = (p, e) # ws"
    using step_and_dump_eval [of "d1\<lparr>d_infos := i3 # i4 # is\<rparr>" i3 "i4 # is" s3 r3 "r4 # rs" p c "(p, e) # ws" "\<lambda>_. True"
      "newline @ ''syscall:''" PTRACE_SYSCALL p] 3 by auto
  obtain s5 where 5: "step_and_dump (newline @ ''finish syscall:'') PTRACE_SYSCALL (\<lambda>_. True) p (s4, d1\<lparr>d_infos := i4 # is\<rparr>)
      = Inr (s5, d1\<lparr>d_infos := is\<rparr>)" "t_regs s5 = rs" "t_waits s5 = ws"
    using step_and_dump_eval [of "d1\<lparr>d_infos := i4 # is\<rparr>" i4 "is" s4 r4 rs p e ws "\<lambda>_. True"
      "newline @ ''finish syscall:''" PTRACE_SYSCALL p] 4 by auto
  have "handle_desched fails fd p a nr (s, d) = Inr (nr + 1, (s5, d1\<lparr>d_infos := is\<rparr>))"
    using v(1) assms(4) 2(1) 3(1) 4(1) 5(1)
    by (simp add: handle_desched_def disable_counter_def Let_def d1_def [symmetric] s1_def [symmetric])
  then show ?thesis using v i(2) r(2) 5 by (simp add: d1_def supplied_def)
qed

lemma sigio_alive: "sigio_stop a \<Longrightarrow> \<not> dead a"
  using stopped_alive [of a] by (auto simp: sigio_stop_def dead_def)

lemma parent_loop_rounds:
  assumes "\<forall>r\<in>set rs. valid_round r" "dead z" "supplied (switches rs) (s, d)" "\<not> fails (Ioctl_Disable fd)"
    "t_waits s = map (Pair p) (concat (map round_statuses rs)) @ (p, z) # ws"
  shows "\<exists>s' d'. parent_loop fails fd p nr (s, d) = Inr (nr + of_nat (switches rs), (s', d')) \<and> t_waits s' = ws
    \<and> d_calls d' = d_calls d @ replicate (switches rs) (Ioctl_Disable fd)"
  using assms
proof (induction rs arbitrary: s d nr)
  case Nil
  then show ?case using notify.report_dead [of p z] by (subst parent_loop.simps) (simp add: Let_def)
next
  case (Cons r rs)
  let ?rest = "map (Pair p) (concat (map round_statuses rs)) @ (p, z) # ws"
  show ?case
  proof (cases r)
    case (Plain a)
    let ?s = "say (snd (notify_dump_status p a)) ((ptrace p PTRACE_CONT (say (dec_int p @ '' continue'' @ newline) s))\<lparr>t_waits := ?rest\<rparr>)"
    have "parent_loop fails fd p nr (s, d) = parent_loop fails fd p nr (?s, d)"
      using Cons.prems Plain notify.report_dead [of p a] by (subst parent_loop.simps) (simp add: Let_def)
    then show ?thesis using Cons.IH [of ?s d nr] Cons.prems Plain by (simp add: supplied_def)
  next
    case (Desched a b c e)
    let ?s = "say (snd (notify_dump_status p a)) ((ptrace p PTRACE_CONT (say (dec_int p @ '' continue'' @ newline) s))
      \<lparr>t_waits := map (Pair p) [b, c, e] @ ?rest\<rparr>)"
    obtain s' d' where h: "handle_desched fails fd p a nr (?s, d) = Inr (nr + 1, (s', d'))" "supplied (switches rs) (s', d')"
      "t_waits s' = ?rest" "d_calls d' = d_calls d @ [Ioctl_Disable fd]"
      using handle_desched_eval [of "switches rs" ?s d p b c e ?rest fails fd a nr] Cons.prems Desched by (auto simp: supplied_def)
    have "parent_loop fails fd p nr (s, d) = parent_loop fails fd p (nr + 1) (s', d')"
      using Cons.prems Desched notify.report_dead [of p a] sigio_alive [of a] h(1) by (subst parent_loop.simps) (simp add: Let_def)
    then show ?thesis using Cons.IH [of s' d' "nr + 1"] Cons.prems h Desched by (simp add: algebra_simps)
  qed
qed

section \<open>Messages\<close>

lemma u32_of_bytes: "or (ucast (ucast v :: byte)) (push_bit 8 (or (ucast (ucast (drop_bit 8 v) :: byte)) (push_bit 8
    (or (ucast (ucast (drop_bit 16 v) :: byte)) (push_bit 8 (ucast (ucast (drop_bit 24 v) :: byte))))))) = v" for v :: u32
proof (rule bit_word_eqI)
  fix n
  assume "n < LENGTH(32)"
  then consider "n < 8" | "8 \<le> n" "n < 16" | "16 \<le> n" "n < 24" | "24 \<le> n" "n < 32" by fastforce
  then show "bit (or (ucast (ucast v :: byte)) (push_bit 8 (or (ucast (ucast (drop_bit 8 v) :: byte)) (push_bit 8
    (or (ucast (ucast (drop_bit 16 v) :: byte)) (push_bit 8 (ucast (ucast (drop_bit 24 v) :: byte))))))) :: u32) n = bit v n"
    by cases (auto simp: bit_simps)
qed

lemma u32_bytes_length [simp]: "length (u32_bytes v) = 4"
  by (simp add: u32_bytes_def)

lemma u32_at_bytes: "length pre = off \<Longrightarrow> u32_at off (pre @ u32_bytes v @ post) = v"
  using u32_of_bytes [of v] by (simp add: u32_at_def u32_bytes_def)

lemma CMSG_values [simp]: "CMSG_LEN 4 = 16" "CMSG_SPACE 4 = 16"
  by (simp_all add: CMSG_LEN_def CMSG_SPACE_def CMSG_ALIGN_def)

text \<open>
  The descriptor that a message passes, as \<open>cmsg(3)\<close> and \<open>unix(7)\<close> describe it: one control message of the level \<open>SOL_SOCKET\<close> and the type
  \<open>SCM_RIGHTS\<close>, whose own length and that of the control part are those of one descriptor.
\<close>

definition rights_of :: "msghdr \<Rightarrow> u32 option" where
  "rights_of m =
     (if msg_controllen m = 16 \<and> 16 \<le> length (msg_control m) \<and> u32_at 0 (msg_control m) = 16
         \<and> u32_at 4 (msg_control m) = SOL_SOCKET \<and> u32_at 8 (msg_control m) = SCM_RIGHTS
      then Some (u32_at 12 (msg_control m)) else None)"

text \<open>
  What the manual pages say of a connected pair of sockets on which nothing is under way: a message with data that passes an open descriptor is
  accepted, and it is received, when the buffers have room for it, as a message with the same data that passes a descriptor of the receiver for the
  same open file; the descriptors of the sender stay as they are.
\<close>

definition passes_rights ::
    "'w send_call \<Rightarrow> 'w recv_call \<Rightarrow> ('w \<Rightarrow> u32 \<rightharpoonup> nat) \<Rightarrow> ('w \<Rightarrow> u32 \<rightharpoonup> nat) \<Rightarrow> u32 \<Rightarrow> u32 \<Rightarrow> 'w \<Rightarrow> bool" where
  "passes_rights sendmsg recvmsg sender receiver sender_socket receiver_socket w \<longleftrightarrow>
     (\<forall>msg fd file. rights_of msg = Some fd \<and> sender w fd = Some file \<and> iov_data msg \<noteq> [] \<longrightarrow>
        (\<exists>w1. sendmsg sender_socket msg w = (int (length (iov_data msg)), w1) \<and> sender w1 = sender w
           \<and> (\<forall>buf. length (iov_data buf) = length (iov_data msg) \<and> msg_controllen buf = 16 \<and> length (msg_control buf) = 16 \<longrightarrow>
                (\<exists>msg' fd' w2. recvmsg receiver_socket buf w1 = (int (length (iov_data msg)), msg', w2) \<and> iov_data msg' = iov_data msg
                   \<and> rights_of msg' = Some fd' \<and> receiver w2 fd' = Some file \<and> sender w2 = sender w))))"

text \<open>The message that \<open>send_fd\<close> puts together, whatever its buffer held before.\<close>

lemma sent_control:
  assumes "length cmsgbuf = 16"
  shows "put_u32 12 fd (put_u32 8 SCM_RIGHTS (put_u32 4 SOL_SOCKET (put_u32 0 16 cmsgbuf)))
    = u32_bytes 16 @ u32_bytes SOL_SOCKET @ u32_bytes SCM_RIGHTS @ u32_bytes fd"
  using assms by (simp add: put_u32_def u32_bytes_def)

lemma rights_message:
  "rights_of \<lparr>iov_data = d, msg_control = u32_bytes 16 @ u32_bytes SOL_SOCKET @ u32_bytes SCM_RIGHTS @ u32_bytes fd, msg_controllen = 16\<rparr> = Some fd"
proof -
  let ?c = "u32_bytes 16 @ u32_bytes SOL_SOCKET @ u32_bytes SCM_RIGHTS @ u32_bytes fd"
  have "u32_at 0 ?c = 16" using u32_at_bytes [of "[]" 0 16] by simp
  moreover have "u32_at 4 ?c = SOL_SOCKET" by (rule u32_at_bytes) simp
  moreover have "u32_at 8 ?c = SCM_RIGHTS" using u32_at_bytes [of "u32_bytes 16 @ u32_bytes SOL_SOCKET" 8 SCM_RIGHTS] by simp
  moreover have "u32_at 12 ?c = fd"
    using u32_at_bytes [of "u32_bytes 16 @ u32_bytes SOL_SOCKET @ u32_bytes SCM_RIGHTS" 12 fd "[]"] by simp
  ultimately show ?thesis by (simp add: rights_of_def)
qed

lemma send_fd_accepted:
  assumes "passes_rights sendmsg recvmsg sender receiver child_socket parent_socket w" and "sender w fd = Some file" and "length cmsgbuf = 16"
  shows "\<exists>w1. send_fd sendmsg cmsgbuf fd child_socket w = Inr (''sending fd '' @ dec_int fd @ newline, w1) \<and> sender w1 = sender w
    \<and> (\<forall>buf. length (iov_data buf) = 4 \<and> msg_controllen buf = 16 \<and> length (msg_control buf) = 16 \<longrightarrow>
         (\<exists>msg' fd' w2. recvmsg parent_socket buf w1 = (4, msg', w2) \<and> iov_data msg' = u32_bytes fd
            \<and> rights_of msg' = Some fd' \<and> receiver w2 fd' = Some file \<and> sender w2 = sender w))"
proof -
  let ?m = "\<lparr>iov_data = u32_bytes fd, msg_control = u32_bytes 16 @ u32_bytes SOL_SOCKET @ u32_bytes SCM_RIGHTS @ u32_bytes fd, msg_controllen = 16\<rparr>"
  have "iov_data ?m \<noteq> []" by (simp add: u32_bytes_def)
  with assms(1)[unfolded passes_rights_def, THEN spec, of ?m, THEN spec, of fd, THEN spec, of "file"] rights_message [of "u32_bytes fd" fd] assms(2)
  obtain w1 where "sendmsg child_socket ?m w = (4, w1)" "sender w1 = sender w"
    "\<forall>buf. length (iov_data buf) = 4 \<and> msg_controllen buf = 16 \<and> length (msg_control buf) = 16 \<longrightarrow>
       (\<exists>msg' fd' w2. recvmsg parent_socket buf w1 = (4, msg', w2) \<and> iov_data msg' = u32_bytes fd
          \<and> rights_of msg' = Some fd' \<and> receiver w2 fd' = Some file \<and> sender w2 = sender w)"
    by auto
  then show ?thesis
    using sent_control [OF assms(3), of fd] by (simp add: send_fd_def CMSG_FIRSTHDR_def CMSG_DATA_def Let_def)
qed

lemma recv_fd_rights:
  assumes "recvmsg parent_socket \<lparr>iov_data = u32_bytes fdno, msg_control = cmsgbuf, msg_controllen = 16\<rparr> w = (4, msg', w')"
    and "iov_data msg' = u32_bytes n" and "rights_of msg' = Some fd"
  shows "recv_fd recvmsg cmsgbuf parent_socket socket fdno w
    = Inr (fd, n, ''received fdno='' @ dec_int n @ '' as fd '' @ dec_int fd @ newline, w')"
  using assms u32_at_bytes [of "[]" 0 n "[]"]
  by (auto simp: recv_fd_def CMSG_FIRSTHDR_def CMSG_DATA_def rights_of_def Let_def split: if_splits)

section \<open>Properties\<close>

text \<open>
  C38. On sockets that pass descriptors as documented, a descriptor that the child sends arrives: \<open>send_fd\<close> puts a well-formed control message
  together, whatever its uninitialised buffer holds, the checks of \<open>recv_fd\<close> hold, and the parent gets a descriptor of its own
  for the same open file and learns the number that it has in the child, whatever socket argument it passes.
\<close>

theorem fd_arrives:
  assumes "passes_rights sendmsg recvmsg sender receiver child_socket parent_socket w" and "sender w fd = Some file"
    and "length cmsgbuf = CMSG_SPACE 4" and "length cmsgbuf' = CMSG_SPACE 4"
  shows "\<exists>w1 fd' w2. send_fd sendmsg cmsgbuf fd child_socket w = Inr (''sending fd '' @ dec_int fd @ newline, w1)
    \<and> recv_fd recvmsg cmsgbuf' parent_socket socket fdno w1
        = Inr (fd', fd, ''received fdno='' @ dec_int fd @ '' as fd '' @ dec_int fd' @ newline, w2)
    \<and> receiver w2 fd' = Some file \<and> sender w2 fd = Some file"
proof -
  have b: "length cmsgbuf = 16" "length cmsgbuf' = 16" using assms(3,4) by simp_all
  let ?buf = "\<lparr>iov_data = u32_bytes fdno, msg_control = cmsgbuf', msg_controllen = 16\<rparr>"
  obtain w1 where w1: "send_fd sendmsg cmsgbuf fd child_socket w = Inr (''sending fd '' @ dec_int fd @ newline, w1)"
    and rest: "\<forall>buf. length (iov_data buf) = 4 \<and> msg_controllen buf = 16 \<and> length (msg_control buf) = 16 \<longrightarrow>
         (\<exists>msg' fd' w2. recvmsg parent_socket buf w1 = (4, msg', w2) \<and> iov_data msg' = u32_bytes fd
            \<and> rights_of msg' = Some fd' \<and> receiver w2 fd' = Some file \<and> sender w2 = sender w)"
    using send_fd_accepted [OF assms(1,2) b(1)] by (elim exE conjE)
  from rest[rule_format, of ?buf] b(2)
  obtain msg' fd' w2 where "recvmsg parent_socket ?buf w1 = (4, msg', w2)" "iov_data msg' = u32_bytes fd"
    "rights_of msg' = Some fd'" "receiver w2 fd' = Some file" "sender w2 = sender w"
    by (auto simp: u32_bytes_def)
  then show ?thesis using w1 recv_fd_rights [of recvmsg parent_socket fdno cmsgbuf' w1 msg' w2 fd fd' socket] assms(2)
    by (intro exI [of _ w1] exI [of _ fd'] exI [of _ w2] conjI) simp_all
qed

text \<open>Two processes with a connected pair of sockets: a message waits with its data and the file that it passes.\<close>

record two_processes =
  os_child :: "u32 \<rightharpoonup> nat"
  os_parent :: "u32 \<rightharpoonup> nat"
  os_queue :: "(byte list \<times> nat) list"

definition pair_sendmsg :: "two_processes send_call" where
  "pair_sendmsg socket msg w =
     (case rights_of msg of
        None \<Rightarrow> (- 1, w)
      | Some fd \<Rightarrow>
          (case os_child w fd of
             None \<Rightarrow> (- 1, w)
           | Some file \<Rightarrow> (int (length (iov_data msg)), w\<lparr>os_queue := os_queue w @ [(iov_data msg, file)]\<rparr>)))"

definition pair_recvmsg :: "two_processes recv_call" where
  "pair_recvmsg socket buf w =
     (case os_queue w of
        [] \<Rightarrow> (- 1, buf, w)
      | (data, file) # q \<Rightarrow>
          (int (length data),
           \<lparr>iov_data = data, msg_control = u32_bytes 16 @ u32_bytes SOL_SOCKET @ u32_bytes SCM_RIGHTS @ u32_bytes 4, msg_controllen = 16\<rparr>,
           w\<lparr>os_queue := q, os_parent := (os_parent w)(4 \<mapsto> file)\<rparr>))"

definition fresh_pair :: two_processes where
  "fresh_pair = \<lparr>os_child = [3 \<mapsto> 1, 5 \<mapsto> 9], os_parent = [3 \<mapsto> 0], os_queue = []\<rparr>"

lemma fresh_pair_passes: "passes_rights pair_sendmsg pair_recvmsg os_child os_parent 3 3 fresh_pair"
  by (auto simp: passes_rights_def pair_sendmsg_def pair_recvmsg_def fresh_pair_def rights_message split: if_splits)

theorem fd_arrives_witness:
  "\<exists>w1 fd' w2. send_fd pair_sendmsg (replicate 16 0xaa) 5 3 fresh_pair = Inr (''sending fd '' @ dec_int 5 @ newline, w1)
    \<and> recv_fd pair_recvmsg (replicate 16 0x55) 3 99 0 w1
        = Inr (fd', 5, ''received fdno='' @ dec_int 5 @ '' as fd '' @ dec_int fd' @ newline, w2)
    \<and> os_parent w2 fd' = Some 9 \<and> os_child w2 5 = Some 9"
  by (rule fd_arrives [OF fresh_pair_passes]) (simp_all add: fresh_pair_def)

text \<open>
  C20. A child whose system calls succeed opens the counter disabled, with its own thread as the owner of \<open>SIGIO\<close>, offers itself
  for tracing, and then makes ten writes, nine dots and a newline. The counter is enabled exactly
  during each of the writes; in particular it is disabled when the child exits.
\<close>

theorem child_arms_writes:
  assumes "\<forall>k. \<not> fails k" and "0 \<le> sint perf_fd" and "passes_rights sendmsg recvmsg sender receiver child_socket parent_socket w" and "sender w perf_fd = Some file"
    and "length cmsgbuf = CMSG_SPACE 4"
  shows "\<exists>out w'. child fails perf_fd null_fd tid child_fn work_fn sendmsg cmsgbuf child_socket w = Inr (out, w',
     [Perf_Event_Open \<lparr>pe_type = 1, pe_config = 3, pe_disabled = True, pe_sample_period = 1\<rparr>, Fcntl_Async perf_fd,
      Fcntl_Owner perf_fd tid, Fcntl_Sig perf_fd SIGIO, Traceme, Raise SIGSTOP, Open ''/dev/null'']
     @ concat (map (\<lambda>i. [Ioctl_Enable perf_fd, Write 1 (if i \<noteq> 0 then ''.'' else newline), Ioctl_Disable perf_fd]) (rev [0..<10]))
     @ [Close null_fd, Exit 0])"
proof -
  have "length cmsgbuf = 16" using assms(5) by simp
  then have "\<exists>out w'. send_fd sendmsg cmsgbuf perf_fd child_socket w = Inr (out, w')"
    using send_fd_accepted [OF assms(3,4)] by blast
  moreover have "spam_io fails null_fd perf_fd 10 tr = Inr (tr @ [Open ''/dev/null''] @ concat (map (spam_round perf_fd) (rev [0..<10])) @ [Close null_fd])" for tr
    using spam_loop_trace [of fails perf_fd 10] assms(1) by (simp add: spam_io_def)
  ultimately show ?thesis
    using assms(1,2)
    by (auto simp: child_def open_counter_def word_sless_alt which_def io_ticks_def nr_switches_def Let_def spam_round_def [abs_def])
qed

theorem child_arms_writes_witness:
  "\<exists>out w' tr. child (\<lambda>_. False) 5 6 7 0x8048000 0x8048100 pair_sendmsg (replicate 16 0xaa) 3 fresh_pair = Inr (out, w', tr) \<and> length tr = 39"
  using child_arms_writes [OF _ _ fresh_pair_passes, of "\<lambda>_. False" 5 9 "replicate 16 0xaa" 6 7 "0x8048000" "0x8048100"]
  by (auto simp: fresh_pair_def upt_rec)

text \<open>
  C19. The parent follows the child through any mixture of switches and other stops to its death, returns, and
  reports as many switches as there were; it stopped the counter that it received exactly once for each.
\<close>

theorem parent_counts_switches:
  assumes "recv_fd recvmsg cmsgbuf parent_socket parent_socket 0 w = Inr (counter, fdno, out, w1)"
    and "\<forall>r\<in>set rs. valid_round r" and "dead z" and "supplied (switches rs) (s, d)" and "\<not> fails (Ioctl_Disable counter)"
    and "t_waits s = (p, st) # map (Pair p) (concat (map round_statuses rs)) @ (p, z) # ws"
  shows "\<exists>s' d' log. parent fails False recvmsg cmsgbuf parent_socket p w (s, d) = Inr (w1, (s', d'))
    \<and> d_calls d' = d_calls d @ replicate (switches rs) (Ioctl_Disable counter)
    \<and> t_out s' = log @ finish_line (of_nat (switches rs)) \<and> t_waits s' = ws"
proof -
  let ?s = "ptrace p (PTRACE_SETOPTIONS 1) ((say out s)\<lparr>t_waits := map (Pair p) (concat (map round_statuses rs)) @ (p, z) # ws\<rparr>)"
  obtain s' d' where "parent_loop fails counter p 0 (?s, d) = Inr (of_nat (switches rs), (s', d'))" "t_waits s' = ws"
    "d_calls d' = d_calls d @ replicate (switches rs) (Ioctl_Disable counter)"
    using parent_loop_rounds [of rs z ?s d fails counter p ws 0] assms(2-5) by (auto simp: supplied_def)
  then show ?thesis using assms(1,6) by (simp add: parent_def)
qed

definition switched_session :: "tracer \<times> desched" where
  "switched_session = (\<lparr>t_reqs = [], t_waits = map (Pair 7) ([0x137f] @ [0x57f] @ [0x1d7f, 0x1d7f, 0x857f, 0x857f]) @ [(7, 0)],
     t_regs = replicate 4 zero_regs, t_out = []\<rparr>,
   \<lparr>d_reads = [Some 1], d_infos = replicate 4 \<lparr>si_signo = 29, si_code = 6, si_fd = 5\<rparr>, d_calls = []\<rparr>)"

theorem parent_counts_switches_witness:
  "\<exists>s' d' log w1. parent (\<lambda>_. False) False pair_recvmsg (replicate 16 0x55) 3 7 (fresh_pair\<lparr>os_queue := [(u32_bytes 5, 9)]\<rparr>)
      switched_session = Inr (w1, (s', d')) \<and> d_calls d' = [Ioctl_Disable 4] \<and> t_out s' = log @ finish_line 1"
proof -
  let ?w = "fresh_pair\<lparr>os_queue := [(u32_bytes 5, 9)]\<rparr>"
  have "pair_recvmsg 3 buf ?w = (4, \<lparr>iov_data = u32_bytes 5, msg_control = u32_bytes 16 @ u32_bytes SOL_SOCKET @ u32_bytes SCM_RIGHTS @ u32_bytes 4,
      msg_controllen = 16\<rparr>, ?w\<lparr>os_queue := [], os_parent := (os_parent ?w)(4 \<mapsto> 9)\<rparr>)" for buf
    by (simp add: pair_recvmsg_def u32_bytes_def)
  then obtain out w1 where r: "recv_fd pair_recvmsg (replicate 16 0x55) 3 3 0 ?w = Inr (4, 5, out, w1)"
    using recv_fd_rights [OF _ _ rights_message] by fastforce
  have "sigio_stop 0x1d7f" by (simp add: sigio_stop_def WIFSTOPPED_def WSTOPSIG_def WEXITSTATUS_def SIGIO_def)
  moreover have "\<not> sigio_stop 0x57f" by (simp add: sigio_stop_def WSTOPSIG_def WEXITSTATUS_def SIGIO_def)
  ultimately show ?thesis
    using parent_counts_switches [OF r, of "[Plain 0x57f, Desched 0x1d7f 0x1d7f 0x857f 0x857f]" 0 "fst switched_session" "snd switched_session"
      "\<lambda>_. False" 7 "0x137f" "[]"] stop_and_exit
    by (auto simp: switched_session_def supplied_def)
qed

end
