(* ===== verification/Sysemu.thy ===== *)
theory Sysemu
  imports Tracee
begin

text \<open>
  Emulated system calls and their processes' ends: the tracer of \<open>src/sysemu.c\<close>, which stops its child at system calls that the
  kernel then does not execute, and \<open>src/launch.c\<close>, which starts a program and prints the status of its end in the form
  that \<open>src/status2text.c\<close> reads.
\<close>

section \<open>sysemu\<close>

definition sysemu_dump :: "(string \<Rightarrow> string) \<Rightarrow> u32 \<Rightarrow> u32 \<Rightarrow> tracer \<Rightarrow> tracer" where
  "sysemu_dump system c status s = say (snd (sysemu_dump_status system c status)) s"

definition orig_eax_line :: "user_regs \<Rightarrow> string" where
  "orig_eax_line r = ''  orig_eax: '' @ dec_int (r_orig_eax r) @ newline"

definition ip_line :: "user_regs \<Rightarrow> string" where
  "ip_line r = ''  ip:'' @ show_hex (r_eip r) @ ''; orig_eax:'' @ dec_int (r_orig_eax r) @ newline"

text \<open>A stop: its report and the registers.\<close>

definition sysemu_report :: "(string \<Rightarrow> string) \<Rightarrow> (user_regs \<Rightarrow> string) \<Rightarrow> u32 \<Rightarrow> u32 \<Rightarrow> tracer \<Rightarrow> tracer res" where
  "sysemu_report system line c status s =
     bind_res (getregs c (sysemu_dump system c status s)) (\<lambda>(regs, s1). Inr (say (line regs) s1))"

definition sysemu_step :: "(string \<Rightarrow> string) \<Rightarrow> ptrace_request \<Rightarrow> (user_regs \<Rightarrow> string) \<Rightarrow> u32 \<Rightarrow> tracer \<Rightarrow> tracer res" where
  "sysemu_step system req line c s =
     bind_res (resume c req s) (\<lambda>(status, s1). sysemu_report system line c status s1)"

definition sysemu_parent :: "(string \<Rightarrow> string) \<Rightarrow> u32 \<Rightarrow> tracer \<Rightarrow> tracer res" where
  "sysemu_parent system c s =
     bind_res (waitpid s) (\<lambda>((_, status), s1).
     bind_res (sysemu_report system orig_eax_line c status s1) (\<lambda>s2.
     bind_res (sysemu_step system PTRACE_SYSEMU orig_eax_line c s2) (\<lambda>s3.
     bind_res (sysemu_step system PTRACE_SYSEMU ip_line c s3) (\<lambda>s4.
     bind_res (sysemu_step system PTRACE_SYSEMU_SINGLESTEP ip_line c s4) (\<lambda>s5.
     sysemu_step system PTRACE_SYSEMU orig_eax_line c s5)))))"

section \<open>launch\<close>

definition launch_fatal :: "string \<times> u32 \<Rightarrow> string \<Rightarrow> string" where
  "launch_fatal err msg = ''Fatal: '' @ fst err @ ''('' @ dec_int (snd err) @ '')'' @ msg @ newline"

text \<open>The parent: the exit code, standard output and standard error. \<open>run\<close> is the status with which the program that is started ends.\<close>

definition launch_main :: "u32 \<Rightarrow> string \<times> u32 \<Rightarrow> (string list \<Rightarrow> u32) \<Rightarrow> string list \<Rightarrow> nat \<times> string \<times> string" where
  "launch_main tod err run argv =
     (let out = ''tod: '' @ dec_int tod @ newline in
      if length argv < 2 then (1, out, launch_fatal err (''Usage: '' @ (case argv of [] \<Rightarrow> ''(null)'' | exe # _ \<Rightarrow> exe) @ '' <exe-image> <args...>''))
      else (0, out @ ''Child exited with status 0x'' @ hex (unat (run (tl argv))) @ newline, []))"

text \<open>The child: the program, or an exit with code 1 when it cannot be executed.\<close>

definition launch_child :: "string \<times> u32 \<Rightarrow> (string list \<Rightarrow> u32 option) \<Rightarrow> string list \<Rightarrow> u32 \<times> string" where
  "launch_child err exec argv =
     (case exec (tl argv) of Some status \<Rightarrow> (status, []) | None \<Rightarrow> (encode_status (Exited 1), launch_fatal err ''exec() failed''))"

section \<open>Properties\<close>

text \<open>What the tracer prints of a stop by a signal: the line and what the kernel tells of the child's call.\<close>

definition stop_report :: "(string \<Rightarrow> string) \<Rightarrow> u32 \<Rightarrow> u32 \<Rightarrow> string" where
  "stop_report system c sig = dec_int c @ '' stopped by signal '' @ dec_int sig @ newline @ system (''cat /proc/'' @ dec_int c @ ''/syscall'')"

lemma stop_reported:
  "snd (sysemu_dump_status system c TRAP_STOP) = stop_report system c 5"
  "snd (sysemu_dump_status system c SIGSTOP_STOP) = stop_report system c 19"
  by (simp_all add: sysemu_dump_status_def stop_report_def TRAP_STOP_def SIGSTOP_STOP_def WIFSTOPPED_def WSTOPSIG_def WEXITSTATUS_def)

lemma sysemu_parent_session:
  "\<exists>s'. sysemu_parent system c \<lparr>t_reqs = [], t_waits = [(c, a0), (c, a1), (c, a2), (c, a3), (c, a4)], t_regs = [r0, r1, r2, r3, r4], t_out = []\<rparr> = Inr s'
    \<and> map snd (t_reqs s') = [PTRACE_GETREGS, PTRACE_SYSEMU, PTRACE_GETREGS, PTRACE_SYSEMU, PTRACE_GETREGS,
        PTRACE_SYSEMU_SINGLESTEP, PTRACE_GETREGS, PTRACE_SYSEMU, PTRACE_GETREGS]
    \<and> t_out s' = snd (sysemu_dump_status system c a0) @ orig_eax_line r0 @ snd (sysemu_dump_status system c a1) @ orig_eax_line r1
        @ snd (sysemu_dump_status system c a2) @ ip_line r2 @ snd (sysemu_dump_status system c a3) @ ip_line r3
        @ snd (sysemu_dump_status system c a4) @ orig_eax_line r4"
  by (simp add: sysemu_parent_def sysemu_step_def sysemu_report_def sysemu_dump_def)

text \<open>
  C36. The tracer and its child together. The tracer sees the child stop itself, then at its next two system calls, after a single step and at
  a third call, and prints the numbers of these calls; none of the calls is executed.
\<close>

theorem sysemu_emulates:
  assumes "cc_next code r = Inr q1" and "cc_next code (at_entry q1) = Inr q2" and "cc_next code (cc_step code (at_entry q2)) = Inr q3"
  shows "\<exists>s' ch gs. sysemu_parent system c \<lparr>t_reqs = [], t_waits = (c, SIGSTOP_STOP) # replicate 4 (c, TRAP_STOP), t_regs = gs, t_out = []\<rparr> = Inr s'
    \<and> answers code (start_child r Outside) (map snd (t_reqs s')) = Some (ch, replicate 4 TRAP_STOP, gs)
    \<and> ch_calls ch = [] \<and> ch_phase ch = Skipped
    \<and> t_out s' = stop_report system c 19 @ orig_eax_line r
        @ stop_report system c 5 @ ''  orig_eax: '' @ dec_int (r_eax q1) @ newline
        @ stop_report system c 5 @ ''  ip:'' @ show_hex (r_eip q2) @ ''; orig_eax:'' @ dec_int (r_eax q2) @ newline
        @ stop_report system c 5 @ ip_line (cc_step code (at_entry q2))
        @ stop_report system c 5 @ ''  orig_eax: '' @ dec_int (r_eax q3) @ newline"
proof -
  let ?gs = "[r, at_entry q1, at_entry q2, cc_step code (at_entry q2), at_entry q3]"
  have w: "replicate 4 x = [x, x, x, x]" for x :: 'b by (simp add: numeral_eq_Suc)
  obtain s' where s': "sysemu_parent system c \<lparr>t_reqs = [], t_waits = (c, SIGSTOP_STOP) # replicate 4 (c, TRAP_STOP), t_regs = ?gs, t_out = []\<rparr> = Inr s'"
    "map snd (t_reqs s') = [PTRACE_GETREGS, PTRACE_SYSEMU, PTRACE_GETREGS, PTRACE_SYSEMU, PTRACE_GETREGS,
        PTRACE_SYSEMU_SINGLESTEP, PTRACE_GETREGS, PTRACE_SYSEMU, PTRACE_GETREGS]"
    "t_out s' = snd (sysemu_dump_status system c SIGSTOP_STOP) @ orig_eax_line r @ snd (sysemu_dump_status system c TRAP_STOP) @ orig_eax_line (at_entry q1)
        @ snd (sysemu_dump_status system c TRAP_STOP) @ ip_line (at_entry q2) @ snd (sysemu_dump_status system c TRAP_STOP) @ ip_line (cc_step code (at_entry q2))
        @ snd (sysemu_dump_status system c TRAP_STOP) @ orig_eax_line (at_entry q3)"
    unfolding w using sysemu_parent_session [of system c SIGSTOP_STOP TRAP_STOP TRAP_STOP TRAP_STOP TRAP_STOP r "at_entry q1" "at_entry q2"
        "cc_step code (at_entry q2)" "at_entry q3"] by (elim exE conjE)
  have "answers code (start_child r Outside) (map snd (t_reqs s')) =
      Some (start_child r Outside\<lparr>ch_phase := Skipped, ch_regs := at_entry q3, ch_seen := at_entry q3\<rparr>, replicate 4 TRAP_STOP, ?gs)"
    unfolding s'(2) w by (simp add: assms resumed.simps run_to_call_def start_child_def Let_def)
  moreover have "t_out s' = stop_report system c 19 @ orig_eax_line r
        @ stop_report system c 5 @ ''  orig_eax: '' @ dec_int (r_eax q1) @ newline
        @ stop_report system c 5 @ ''  ip:'' @ show_hex (r_eip q2) @ ''; orig_eax:'' @ dec_int (r_eax q2) @ newline
        @ stop_report system c 5 @ ip_line (cc_step code (at_entry q2))
        @ stop_report system c 5 @ ''  orig_eax: '' @ dec_int (r_eax q3) @ newline"
    unfolding s'(3) stop_reported by (simp add: orig_eax_line_def ip_line_def at_entry_def)
  ultimately show ?thesis using s'(1) by (intro exI conjI) (auto simp: start_child_def)
qed

definition calling_child :: child_code where
  "calling_child = \<lparr>cc_next = (\<lambda>r. Inr (r\<lparr>r_eax := (if r_eip r = 0 then 78 else if r_eip r = 2 then 265 else 252), r_eip := r_eip r + 2\<rparr>)),
     cc_step = (\<lambda>r. r\<lparr>r_eip := r_eip r + 1\<rparr>), cc_sys = (\<lambda>_ _. Inr 0)\<rparr>"

theorem sysemu_emulates_witness:
  "\<exists>s' ch gs. sysemu_parent (\<lambda>_. []) 7 \<lparr>t_reqs = [], t_waits = (7, SIGSTOP_STOP) # replicate 4 (7, TRAP_STOP), t_regs = gs, t_out = []\<rparr> = Inr s'
    \<and> answers calling_child (start_child zero_regs Outside) (map snd (t_reqs s')) = Some (ch, replicate 4 TRAP_STOP, gs) \<and> ch_calls ch = []"
proof -
  let ?q1 = "zero_regs\<lparr>r_eax := 78, r_eip := 2\<rparr>"
  let ?q2 = "(at_entry ?q1)\<lparr>r_eax := 265, r_eip := 4\<rparr>"
  let ?q3 = "(at_entry ?q2)\<lparr>r_eax := 252, r_eip := 7\<rparr>"
  have "cc_next calling_child zero_regs = Inr ?q1" "cc_next calling_child (at_entry ?q1) = Inr ?q2"
    "cc_next calling_child (cc_step calling_child (at_entry ?q2)) = Inr ?q3"
    by (simp_all add: calling_child_def zero_regs_def at_entry_def)
  from sysemu_emulates [OF this, of "\<lambda>_. []" 7] show ?thesis by (elim exE conjE) (intro exI conjI)
qed

end
