(* ===== verification/Lcmp.thy ===== *)
theory Lcmp
  imports C_Text
begin

text \<open>
  The line-by-line comparison of two files (\<open>src/lcmp.c\<close>). A stream of the C library is the text that is left, the
  end-of-file flag, and whether reading it fails; \<open>fgets\<close> reads a line, or what fits into the buffer. The loop runs until both flags are set, so
  it takes fuel: it ends for files that can be read, and does not end for one that cannot.
\<close>

section \<open>Streams\<close>

record stream =
  st_text :: string
  st_eof :: bool
  st_bad :: bool

abbreviation nl :: char where "nl \<equiv> CHR 0x0A"

text \<open>The number of characters that \<open>fgets\<close> takes: to the end of the line, of the file or of the buffer.\<close>

definition chunk_len :: "nat \<Rightarrow> string \<Rightarrow> nat" where
  "chunk_len sz t = (let n = length (takeWhile (\<lambda>c. c \<noteq> nl) t) in min (sz - 1) (if n < length t then Suc n else n))"

definition fgets :: "nat \<Rightarrow> stream \<Rightarrow> string option \<times> stream" where
  "fgets sz f =
     (if st_bad f then (None, f)
      else if st_text f = [] then (None, f\<lparr>st_eof := True\<rparr>)
      else let k = chunk_len sz (st_text f); line = take k (st_text f) in
        (Some line, f\<lparr>st_text := drop k (st_text f),
           st_eof := st_eof f \<or> (k = length (st_text f) \<and> k < sz - 1 \<and> nl \<notin> set line)\<rparr>))"

definition fopen :: "string \<Rightarrow> stream" where
  "fopen text = \<lparr>st_text = text, st_eof = False, st_bad = False\<rparr>"

section \<open>The program\<close>

definition MAX_LINE_LEN :: nat where "MAX_LINE_LEN = 4096"

definition usage :: "string \<Rightarrow> string" where
  "usage exe = ''Usage: '' @ exe @ '' <file1> <file2>'' @ newline"

definition fatal_line :: "string \<times> u32 \<Rightarrow> string \<Rightarrow> string" where
  "fatal_line err msg = ''Fatal error: '' @ fst err @ '' ('' @ dec_int (snd err) @ ''): '' @ msg @ newline"

text \<open>What a round prints; \<open>printf\<close> and \<open>strcmp\<close> stop at a zero byte.\<close>

definition lcmp_round :: "string option \<Rightarrow> string option \<Rightarrow> string" where
  "lcmp_round s1 s2 =
     (case (s1, s2) of
        (None, None) \<Rightarrow> []
      | (None, Some b) \<Rightarrow> ''+'' @ cstr b
      | (Some a, None) \<Rightarrow> ''-'' @ cstr a
      | (Some a, Some b) \<Rightarrow> if cstr a \<noteq> cstr b then ''-'' @ cstr a @ ''+'' @ cstr b else [])"

fun lcmp_loop :: "nat \<Rightarrow> stream \<Rightarrow> stream \<Rightarrow> string \<Rightarrow> string res" where
  "lcmp_loop 0 f1 f2 out = Inl Out_Of_Fuel"
| "lcmp_loop (Suc n) f1 f2 out =
     (if \<not> st_eof f1 \<or> \<not> st_eof f2
      then let (s1, g1) = fgets MAX_LINE_LEN f1; (s2, g2) = fgets MAX_LINE_LEN f2
           in lcmp_loop n g1 g2 (out @ lcmp_round s1 s2)
      else Inr out)"

text \<open>The exit code, standard output and standard error; \<open>open_file\<close> gives the stream of a path or the error.\<close>

definition lcmp_header :: "string \<Rightarrow> string \<Rightarrow> string \<Rightarrow> string" where
  "lcmp_header exe path1 path2 = exe @ '' '' @ path1 @ '' '' @ path2 @ newline @ ''--- '' @ path1 @ newline @ ''+++ '' @ path2 @ newline"

definition lcmp_main :: "nat \<Rightarrow> (string \<Rightarrow> (string \<times> u32) + stream) \<Rightarrow> string list \<Rightarrow> (nat \<times> string \<times> string) res" where
  "lcmp_main n open_file argv =
     (case argv of
        [exe, path1, path2] \<Rightarrow>
          (case open_file path1 of
             Inl err \<Rightarrow> Inr (1, [], fatal_line err (''fopen('' @ path1 @ '')''))
           | Inr f1 \<Rightarrow>
               (case open_file path2 of
                  Inl err \<Rightarrow> Inr (1, [], fatal_line err (''fopen('' @ path2 @ '')''))
                | Inr f2 \<Rightarrow> bind_res (lcmp_loop n f1 f2 (lcmp_header exe path1 path2)) (\<lambda>out. Inr (0, out, []))))
      | _ \<Rightarrow> Inr (1, [], usage (case argv of [] \<Rightarrow> ''(null)'' | exe # _ \<Rightarrow> exe)))"

section \<open>The reference\<close>

text \<open>The lines of a text, cut at the length of the buffer, and their comparison one by one.\<close>

lemma chunk_len_pos: "2 \<le> sz \<Longrightarrow> t \<noteq> [] \<Longrightarrow> 0 < chunk_len sz t"
  by (cases t) (auto simp: chunk_len_def Let_def)

function chunks :: "string \<Rightarrow> string list" where
  "chunks t = (if t = [] then [] else take (chunk_len MAX_LINE_LEN t) t # chunks (drop (chunk_len MAX_LINE_LEN t) t))"
  by pat_completeness auto
termination
  by (relation "measure length") (auto simp: MAX_LINE_LEN_def chunk_len_pos)

declare chunks.simps [simp del]

fun diff_lines :: "string list \<Rightarrow> string list \<Rightarrow> string" where
  "diff_lines [] [] = []"
| "diff_lines [] (b # bs) = lcmp_round None (Some b) @ diff_lines [] bs"
| "diff_lines (a # as) [] = lcmp_round (Some a) None @ diff_lines as []"
| "diff_lines (a # as) (b # bs) = lcmp_round (Some a) (Some b) @ diff_lines as bs"

lemma chunks_Nil [simp]: "chunks [] = []"
  by (simp add: chunks.simps)

lemma concat_chunks: "concat (chunks t) = t"
  by (induction t rule: chunks.induct) (subst chunks.simps, simp)

section \<open>Reading to the end\<close>

text \<open>A readable stream whose flag is set has nothing left.\<close>

definition readable :: "stream \<Rightarrow> bool" where
  "readable f \<longleftrightarrow> \<not> st_bad f \<and> (st_eof f \<longrightarrow> st_text f = [])"

definition to_read :: "stream \<Rightarrow> nat" where
  "to_read f = length (chunks (st_text f)) + of_bool (\<not> st_eof f)"

lemma fgets_empty: "readable f \<Longrightarrow> st_text f = [] \<Longrightarrow> fgets sz f = (None, f\<lparr>st_eof := True\<rparr>)"
  by (simp add: fgets_def readable_def)

definition head :: "'a list \<Rightarrow> 'a option" where
  "head xs = (case xs of [] \<Rightarrow> None | x # _ \<Rightarrow> Some x)"

lemma head_simps [simp]: "head [] = None" "head (x # xs) = Some x"
  by (simp_all add: head_def)

lemma fgets_chunks:
  assumes "readable f"
  shows "\<exists>g. fgets MAX_LINE_LEN f = (head (chunks (st_text f)), g) \<and> readable g \<and> chunks (st_text g) = tl (chunks (st_text f))"
proof (cases "st_text f = []")
  case True
  then show ?thesis using assms by (simp add: fgets_def readable_def)
next
  case False
  then have "\<not> st_eof f" using assms by (simp add: readable_def)
  then show ?thesis using assms False by (simp add: fgets_def Let_def chunks.simps [of "st_text f"] readable_def)
qed

lemma eof_no_chunks: "readable f \<Longrightarrow> st_eof f \<Longrightarrow> chunks (st_text f) = []"
  by (simp add: readable_def)

lemma diff_lines_step:
  "as \<noteq> [] \<or> bs \<noteq> [] \<Longrightarrow> diff_lines as bs = lcmp_round (head as) (head bs) @ diff_lines (tl as) (tl bs)"
  by (cases as; cases bs) simp_all

text \<open>Both streams move on together; when both are read, a last round sets the flags.\<close>

lemma lcmp_loop_end:
  assumes "readable f1" "readable f2" "max (length (chunks (st_text f1))) (length (chunks (st_text f2))) = m" "m + 2 \<le> n"
  shows "lcmp_loop n f1 f2 out = Inr (out @ diff_lines (chunks (st_text f1)) (chunks (st_text f2)))"
  using assms
proof (induction m arbitrary: f1 f2 n out)
  case 0
  then have c: "chunks (st_text f1) = []" "chunks (st_text f2) = []" by auto
  then have t: "st_text f1 = []" "st_text f2 = []" using concat_chunks by (metis concat.simps(1))+
  obtain k where n: "n = Suc (Suc k)" using "0.prems"(4) by (cases n; cases "n - 1") auto
  show ?case using fgets_empty [OF "0.prems"(1) t(1)] fgets_empty [OF "0.prems"(2) t(2)] by (simp add: n c lcmp_round_def)
next
  case (Suc m)
  let ?a = "chunks (st_text f1)" and ?b = "chunks (st_text f2)"
  obtain k where n: "n = Suc k" using Suc.prems(4) by (cases n) auto
  obtain g1 where g1: "fgets MAX_LINE_LEN f1 = (head ?a, g1)" "readable g1" "chunks (st_text g1) = tl ?a"
    using fgets_chunks [OF Suc.prems(1)] by blast
  obtain g2 where g2: "fgets MAX_LINE_LEN f2 = (head ?b, g2)" "readable g2" "chunks (st_text g2) = tl ?b"
    using fgets_chunks [OF Suc.prems(2)] by blast
  have ne: "?a \<noteq> [] \<or> ?b \<noteq> []" using Suc.prems(3) by auto
  then have "\<not> st_eof f1 \<or> \<not> st_eof f2" using eof_no_chunks Suc.prems(1,2) by blast
  then have "lcmp_loop n f1 f2 out = lcmp_loop k g1 g2 (out @ lcmp_round (head ?a) (head ?b))" using g1(1) g2(1) by (simp add: n)
  also have "\<dots> = Inr ((out @ lcmp_round (head ?a) (head ?b)) @ diff_lines (tl ?a) (tl ?b))"
    using Suc.IH [of g1 g2 k] g1 g2 Suc.prems(3,4) n by auto
  finally show ?case using diff_lines_step [OF ne] by simp
qed

section \<open>Comparing\<close>

lemma diff_lines_empty: "diff_lines as bs = [] \<longleftrightarrow> map cstr as = map cstr bs"
  by (induction as bs rule: diff_lines.induct) (auto simp: lcmp_round_def)

lemma cstr_id: "CHR 0x00 \<notin> set s \<Longrightarrow> cstr s = s"
  by (auto simp: cstr_def takeWhile_eq_all_conv)

lemma chunks_text: "CHR 0x00 \<notin> set t \<Longrightarrow> map cstr (chunks t) = chunks t"
  using concat_chunks [of t] by (intro map_idI cstr_id) (metis UN_I set_concat)

lemma chunks_inject: "chunks t1 = chunks t2 \<longleftrightarrow> t1 = t2"
  by (metis concat_chunks)

text \<open>A file that cannot be read, a directory for example, never sets its flag: the loop does not end.\<close>

lemma lcmp_bad:
  assumes "st_bad f1" "\<not> st_eof f1"
  shows "lcmp_loop n f1 f2 out = Inl Out_Of_Fuel"
  using assms
proof (induction n arbitrary: f2 out)
  case (Suc n)
  then show ?case by (simp add: fgets_def [of MAX_LINE_LEN f1] split: prod.splits)
qed simp

section \<open>Properties\<close>

text \<open>
  C34. On two files that can be read the program ends and prints the comparison of their lines one by one, where
  lines longer than the buffer count as several; when the files hold no zero bytes it prints nothing
  after its header exactly if they are equal. The number of rounds is at most that of the lines of the longer file and two.
\<close>

theorem lcmp_compares:
  assumes "open_file path1 = Inr (fopen t1)" and "open_file path2 = Inr (fopen t2)"
    and "max (length (chunks t1)) (length (chunks t2)) + 2 \<le> n"
  shows "lcmp_main n open_file [exe, path1, path2]
      = Inr (0, lcmp_header exe path1 path2 @ diff_lines (chunks t1) (chunks t2), [])
    \<and> (CHR 0x00 \<notin> set t1 \<union> set t2 \<longrightarrow> (diff_lines (chunks t1) (chunks t2) = [] \<longleftrightarrow> t1 = t2))"
proof -
  have "readable (fopen t1)" "readable (fopen t2)" by (simp_all add: readable_def fopen_def)
  then have "lcmp_loop n (fopen t1) (fopen t2) out = Inr (out @ diff_lines (chunks t1) (chunks t2))" for out
    using lcmp_loop_end [of "fopen t1" "fopen t2" _ n out] assms(3) by (simp add: fopen_def)
  moreover have "diff_lines (chunks t1) (chunks t2) = [] \<longleftrightarrow> t1 = t2" if "CHR 0x00 \<notin> set t1 \<union> set t2"
    using that chunks_inject [of t1 t2] by (simp add: diff_lines_empty chunks_text)
  ultimately show ?thesis using assms(1,2) by (auto simp: lcmp_main_def)
qed

definition two_files :: "string \<Rightarrow> (string \<times> u32) + stream" where
  "two_files path = Inr (fopen (if path = ''a'' then ''x'' @ newline @ ''y'' else ''x'' @ newline @ ''z''))"

lemma two_files_chunks: "chunks (''x'' @ newline @ y) = [''x'' @ newline] @ chunks y"
  by (subst chunks.simps) (simp add: newline_def chunk_len_def MAX_LINE_LEN_def)

lemma one_line_chunks: "chunks ''y'' = [''y'']" "chunks ''z'' = [''z'']"
  by (subst chunks.simps, simp add: chunk_len_def MAX_LINE_LEN_def)+

theorem lcmp_compares_witness:
  "lcmp_main 4 two_files [''lcmp'', ''a'', ''b''] = Inr (0, lcmp_header ''lcmp'' ''a'' ''b'' @ ''-y+z'', [])"
proof -
  have c: "chunks (''x'' @ newline @ ''y'') = [''x'' @ newline, ''y'']" "chunks (''x'' @ newline @ ''z'') = [''x'' @ newline, ''z'']"
    using two_files_chunks [of "''y''"] two_files_chunks [of "''z''"] one_line_chunks by simp_all
  show ?thesis
    using lcmp_compares [of two_files "''a''" "''x'' @ newline @ ''y''" "''b''" "''x'' @ newline @ ''z''" 4 "''lcmp''"]
    unfolding c by (simp add: two_files_def lcmp_round_def cstr_def)
qed

end
