(* ===== verification/Rrmon.thy ===== *)
theory Rrmon
  imports C_Text
begin

text \<open>
  The monitor that reports the resource usage of a process at its end (\<open>src/rrmon.c\<close>): a constructor installs signal handlers, the
  handlers and a destructor print a line. What \<open>getrusage\<close> and the process' \<open>comm\<close> file deliver is given; \<open>None\<close> stands for a failing call.
\<close>

section \<open>The statistics\<close>

record rusage =
  ru_nvcsw :: u32
  ru_nivcsw :: u32
  ru_nsignals :: u32
  ru_majflt :: u32

record process_stats =
  ps_usage :: rusage
  ps_name :: string

text \<open>All zero: the array of 32 characters and the usage.\<close>

definition zero_stats :: process_stats where
  "zero_stats = \<lparr>ps_usage = \<lparr>ru_nvcsw = 0, ru_nivcsw = 0, ru_nsignals = 0, ru_majflt = 0\<rparr>, ps_name = replicate 32 (CHR 0x00)\<rparr>"

text \<open>\<open>read\<close> delivers at most the size of the array less one; the last byte is overwritten.\<close>

definition get_process_name :: "string option \<Rightarrow> process_stats \<Rightarrow> process_stats res" where
  "get_process_name comm stats =
     (case comm of
        None \<Rightarrow> Inl (Fatal ''open(comm_path)'')
      | Some bytes \<Rightarrow>
          let got = take (length (ps_name stats) - 1) bytes; len = length got in
          if len \<le> 1 then Inl (Fatal ''read(comm_path)'')
          else Inr (stats\<lparr>ps_name := (got @ drop len (ps_name stats))[len - 1 := CHR 0x00]\<rparr>))"

definition get_process_stats :: "rusage option \<Rightarrow> string option \<Rightarrow> process_stats \<Rightarrow> process_stats res" where
  "get_process_stats usage comm stats =
     (case usage of
        None \<Rightarrow> Inl (Fatal ''getrusage(RUSAGE_SELF)'')
      | Some u \<Rightarrow> get_process_name comm (stats\<lparr>ps_usage := u\<rparr>))"

definition stats_line :: "u32 \<Rightarrow> string \<Rightarrow> rusage \<Rightarrow> string" where
  "stats_line pid name u =
     ''RRMON['' @ dec_int pid @ ''][''  @ name @ '']: vol: '' @ dec_int (ru_nvcsw u) @ ''; nonvol: '' @ dec_int (ru_nivcsw u)
     @ ''; sig: '' @ dec_int (ru_nsignals u) @ ''; hard-fault: '' @ dec_int (ru_majflt u) @ newline"

definition dump_process_stats :: "u32 \<Rightarrow> rusage option \<Rightarrow> string option \<Rightarrow> string res" where
  "dump_process_stats pid usage comm =
     bind_res (get_process_stats usage comm zero_stats) (\<lambda>stats. Inr (stats_line pid (cstr (ps_name stats)) (ps_usage stats)))"

section \<open>Handlers\<close>

datatype disposition = Default | Sighandler

definition SIGABRT :: u32 where "SIGABRT = 6"
definition SIGSEGV :: u32 where "SIGSEGV = 11"

definition rrmon_init :: "(u32 \<Rightarrow> disposition) \<Rightarrow> u32 \<Rightarrow> disposition" where
  "rrmon_init h = fold (\<lambda>s h. h(s := Sighandler)) [SIGABRT, SIGSEGV] h"

definition sighandler :: "u32 \<Rightarrow> rusage option \<Rightarrow> string option \<Rightarrow> u32 \<Rightarrow> string res" where
  "sighandler pid usage comm signo = dump_process_stats pid usage comm"

definition deinit :: "u32 \<Rightarrow> rusage option \<Rightarrow> string option \<Rightarrow> string res" where
  "deinit pid usage comm = dump_process_stats pid usage comm"

text \<open>The delivery of a signal: what is written, and whether a handler was run. What the process does when the handler has returned is not part of it.\<close>

definition deliver :: "(u32 \<Rightarrow> disposition) \<Rightarrow> u32 \<Rightarrow> rusage option \<Rightarrow> string option \<Rightarrow> u32 \<Rightarrow> (string \<times> bool) res" where
  "deliver h pid usage comm signo =
     (case h signo of Default \<Rightarrow> Inr ([], False)
      | Sighandler \<Rightarrow> bind_res (sighandler pid usage comm signo) (\<lambda>out. Inr (out, True)))"

section \<open>Names\<close>

lemma cstr_append: "CHR 0x00 \<notin> set xs \<Longrightarrow> cstr (xs @ CHR 0x00 # ys) = xs"
  by (induction xs) (auto simp: cstr_def)

lemma stored_name:
  assumes "CHR 0x00 \<notin> set nm" "nm \<noteq> []" "ps_name stats = replicate 32 (CHR 0x00)"
  shows "\<exists>stats'. get_process_name (Some (nm @ newline)) stats = Inr stats' \<and> cstr (ps_name stats') = take 30 nm
    \<and> length (ps_name stats') = 32 \<and> ps_usage stats' = ps_usage stats"
proof (cases "length nm \<le> 30")
  case True
  then have "get_process_name (Some (nm @ newline)) stats
      = Inr (stats\<lparr>ps_name := (nm @ newline @ replicate (31 - length nm) (CHR 0x00))[length nm := CHR 0x00]\<rparr>)"
    using assms(2,3) by (simp add: get_process_name_def newline_def Let_def)
  moreover have "(nm @ newline @ zs)[length nm := CHR 0x00] = nm @ CHR 0x00 # zs" for zs
    by (simp add: newline_def list_update_append)
  ultimately show ?thesis using True assms(1) cstr_append by simp
next
  case False
  have "take 31 nm = take 30 nm @ [nm ! 30]" using False take_Suc_conv_app_nth [of 30 nm] by simp
  then have "(take 31 nm @ zs)[30 := CHR 0x00] = take 30 nm @ CHR 0x00 # zs" for zs
    using False by (simp add: list_update_append)
  moreover have "get_process_name (Some (nm @ newline)) stats = Inr (stats\<lparr>ps_name := (take 31 nm @ [CHR 0x00])[30 := CHR 0x00]\<rparr>)"
    using False assms(3) by (simp add: get_process_name_def newline_def Let_def)
  moreover have "CHR 0x00 \<notin> set (take 30 nm)" using assms(1) by (meson in_set_takeD)
  ultimately show ?thesis using False cstr_append by simp
qed

section \<open>Properties\<close>

text \<open>
  C35. At the normal end of a process and at a fatal signal the monitor prints one line with the process' name without its newline, or the
  first thirty characters of a longer one, and its usage; the name stays inside its array. The two signals of the monitor do not end the
  process any more, all others are left as they were.
\<close>

theorem rrmon_reports:
  assumes "CHR 0x00 \<notin> set nm" and "nm \<noteq> []"
  shows "deinit pid (Some u) (Some (nm @ newline)) = Inr (stats_line pid (take 30 nm) u)
    \<and> deliver (rrmon_init h) pid (Some u) (Some (nm @ newline)) signo
      = (if signo \<in> {SIGABRT, SIGSEGV} then Inr (stats_line pid (take 30 nm) u, True)
         else deliver h pid (Some u) (Some (nm @ newline)) signo)"
proof -
  have "dump_process_stats pid (Some u) (Some (nm @ newline)) = Inr (stats_line pid (take 30 nm) u)"
    using stored_name [OF assms, of "zero_stats\<lparr>ps_usage := u\<rparr>"]
    by (auto simp: dump_process_stats_def get_process_stats_def zero_stats_def)
  then show ?thesis by (simp add: deinit_def deliver_def rrmon_init_def sighandler_def)
qed

theorem rrmon_reports_witness:
  "deinit 7 (Some \<lparr>ru_nvcsw = 1, ru_nivcsw = 2, ru_nsignals = 0, ru_majflt = 3\<rparr>) (Some (''xpcshell'' @ newline))
    = Inr (stats_line 7 ''xpcshell'' \<lparr>ru_nvcsw = 1, ru_nivcsw = 2, ru_nsignals = 0, ru_majflt = 3\<rparr>)"
  using rrmon_reports [of "''xpcshell''" 7 "\<lparr>ru_nvcsw = 1, ru_nivcsw = 2, ru_nsignals = 0, ru_majflt = 3\<rparr>"] by simp

end
