(* ===== verification/Pwrite64.thy ===== *)
theory Pwrite64
  imports C_Text
begin

text \<open>
  The test of positioned writes (\<open>src/pwrite64_testcase.c\<close>). The kernel is a parameter: every call returns a count or fails, and what a call
  does to the open file is stated as the manual pages have it. The positioned write is made with \<open>int $0x80\<close>, so that its
  operands are registers and the 64-bit offset comes in two of them.
\<close>

section \<open>The test\<close>

record syscall_regs =
  s_eax :: u32
  s_ebx :: u32
  s_ecx :: u32
  s_edx :: u32
  s_esi :: u32
  s_edi :: u32

record 'w file_calls =
  k_open :: "string \<Rightarrow> 'w \<Rightarrow> u32 \<times> 'w"
  k_write :: "u32 \<Rightarrow> string \<Rightarrow> 'w \<Rightarrow> u32 \<times> 'w"
  k_int80 :: "syscall_regs \<Rightarrow> (u32 \<Rightarrow> char) \<Rightarrow> 'w \<Rightarrow> u32 \<times> 'w"
  k_pread :: "u32 \<Rightarrow> nat \<Rightarrow> u64 \<Rightarrow> 'w \<Rightarrow> u32 \<times> string \<times> 'w"
  k_close :: "u32 \<Rightarrow> 'w \<Rightarrow> 'w"
  k_unlink :: "string \<Rightarrow> 'w \<Rightarrow> 'w"

definition SYS_pwrite64 :: u32 where "SYS_pwrite64 = 181"

definition TEST_FILE :: string where "TEST_FILE = ''prw.txt''"

text \<open>The content with its final zero byte, and the memory of the process around it.\<close>

definition content :: string where
  "content = ''01234567890'' @ newline @ ''hello there'' @ newline @ [CHR 0x00]"

definition with_content :: "u32 \<Rightarrow> (u32 \<Rightarrow> char) \<Rightarrow> u32 \<Rightarrow> char" where
  "with_content addr m a = (if unat (a - addr) < length content then content ! unat (a - addr) else m a)"

definition test_assert :: "bool \<Rightarrow> 'a \<Rightarrow> 'a res" where
  "test_assert cond s = (if cond then Inr s else Inl (Assert_Failed ''FAILED if not: ''))"

definition pwrite64_regs :: "u32 \<Rightarrow> u32 \<Rightarrow> syscall_regs" where
  "pwrite64_regs fd content_addr =
     \<lparr>s_eax = SYS_pwrite64, s_ebx = fd, s_ecx = content_addr, s_edx = of_nat (length content), s_esi = 10, s_edi = 0\<rparr>"

definition quoted :: "string \<Rightarrow> string \<Rightarrow> string" where
  "quoted verb text = verb @ '' ```'' @ cstr text @ [CHR 0x27, CHR 0x27, CHR 0x27] @ newline"

definition pwrite64_main :: "'w file_calls \<Rightarrow> u32 \<Rightarrow> (u32 \<Rightarrow> char) \<Rightarrow> 'w \<Rightarrow> (string \<times> 'w) res" where
  "pwrite64_main K content_addr m w =
     (let (fd, w0) = k_open K TEST_FILE w;
          buf = replicate (length content) CHR ''?'';
          (nr, w1) = k_write K fd buf w0 in
      bind_res (test_assert (nr = of_nat (length buf)) w1) (\<lambda>w1.
      let (nr, w2) = k_write K fd (take 10 buf) w1 in
      bind_res (test_assert (nr = 10) w2) (\<lambda>w2.
      let (nr, w3) = k_int80 K (pwrite64_regs fd content_addr) (with_content content_addr m) w2 in
      bind_res (test_assert (nr = of_nat (length content)) w3) (\<lambda>w3.
      let (nr, xs, w4) = k_pread K fd (length buf) 10 w3 in
      bind_res (test_assert (nr = of_nat (length content)) w4) (\<lambda>w4.
      Inr (quoted ''Wrote'' content @ quoted ''Read'' (xs @ drop (length xs) buf) @ ''EXIT-SUCCESS'' @ newline,
        k_unlink K TEST_FILE (k_close K fd w4)))))))"

section \<open>What the manual pages say\<close>

record os_file =
  f_bytes :: string
  f_offset :: nat

text \<open>Bytes put at an offset; a gap is filled with zero bytes.\<close>

definition put_at :: "nat \<Rightarrow> string \<Rightarrow> string \<Rightarrow> string" where
  "put_at off xs bytes = take off (bytes @ replicate (off - length bytes) (CHR 0x00)) @ xs @ drop (off + length xs) bytes"

text \<open>A count that is returned: minus one or another negative number for a failure, or at most as much as was asked for.\<close>

definition moved :: "u32 \<Rightarrow> nat \<Rightarrow> bool" where
  "moved r n \<longleftrightarrow> 0 \<le> sint r \<and> unat r \<le> n"

text \<open>The 64-bit offset of the system call on this machine: the low half in \<open>esi\<close>, the high half in \<open>edi\<close>.\<close>

definition regs_offset :: "syscall_regs \<Rightarrow> nat" where
  "regs_offset s = unat (or (push_bit 32 (ucast (s_edi s))) (ucast (s_esi s)) :: u64)"

definition memory_bytes :: "(u32 \<Rightarrow> char) \<Rightarrow> u32 \<Rightarrow> nat \<Rightarrow> string" where
  "memory_bytes m a n = map (\<lambda>i. m (a + of_nat i)) [0..<n]"

definition posix_open :: "'w file_calls \<Rightarrow> ('w \<Rightarrow> u32 \<rightharpoonup> os_file) \<Rightarrow> bool" where
  "posix_open K files \<longleftrightarrow> (\<forall>name w fd w'. k_open K name w = (fd, w') \<longrightarrow>
     fd = - 1 \<and> files w' fd = None \<or> 0 \<le> sint fd \<and> (\<exists>f. files w' fd = Some f \<and> f_offset f = 0))"

definition posix_write :: "'w file_calls \<Rightarrow> ('w \<Rightarrow> u32 \<rightharpoonup> os_file) \<Rightarrow> bool" where
  "posix_write K files \<longleftrightarrow> (\<forall>fd xs w r w'. k_write K fd xs w = (r, w') \<longrightarrow>
     (case files w fd of
        None \<Rightarrow> r = - 1
      | Some f \<Rightarrow> sint r < 0 \<or> moved r (length xs) \<and> files w' fd
          = Some (f\<lparr>f_bytes := put_at (f_offset f) (take (unat r) xs) (f_bytes f), f_offset := f_offset f + unat r\<rparr>)))"

definition posix_pwrite64 :: "'w file_calls \<Rightarrow> ('w \<Rightarrow> u32 \<rightharpoonup> os_file) \<Rightarrow> bool" where
  "posix_pwrite64 K files \<longleftrightarrow> (\<forall>s m w r w'. s_eax s = 181 \<and> k_int80 K s m w = (r, w') \<longrightarrow>
     (case files w (s_ebx s) of
        None \<Rightarrow> sint r < 0
      | Some f \<Rightarrow> sint r < 0 \<or> moved r (unat (s_edx s)) \<and> files w' (s_ebx s)
          = Some (f\<lparr>f_bytes := put_at (regs_offset s) (memory_bytes m (s_ecx s) (unat r)) (f_bytes f)\<rparr>)))"

definition posix_pread :: "'w file_calls \<Rightarrow> ('w \<Rightarrow> u32 \<rightharpoonup> os_file) \<Rightarrow> bool" where
  "posix_pread K files \<longleftrightarrow> (\<forall>fd n off w r xs w'. k_pread K fd n off w = (r, xs, w') \<longrightarrow>
     (case files w fd of
        None \<Rightarrow> r = - 1 \<and> xs = []
      | Some f \<Rightarrow> sint r < 0 \<or> moved r n \<and> unat r = length xs \<and> xs = take (unat r) (drop (unat off) (f_bytes f)) \<and> files w' fd = Some f))"

definition posix_files :: "'w file_calls \<Rightarrow> ('w \<Rightarrow> u32 \<rightharpoonup> os_file) \<Rightarrow> bool" where
  "posix_files K files \<longleftrightarrow> posix_open K files \<and> posix_write K files \<and> posix_pwrite64 K files \<and> posix_pread K files"

text \<open>A system that opens the file and moves as many bytes at once as there are.\<close>

definition whole_transfers :: "'w file_calls \<Rightarrow> ('w \<Rightarrow> u32 \<rightharpoonup> os_file) \<Rightarrow> bool" where
  "whole_transfers K files \<longleftrightarrow>
     (\<forall>name w. fst (k_open K name w) \<noteq> - 1)
     \<and> (\<forall>fd xs w f. files w fd = Some f \<and> length xs < 2 ^ 31 \<longrightarrow> fst (k_write K fd xs w) = of_nat (length xs))
     \<and> (\<forall>s m w f. s_eax s = 181 \<and> files w (s_ebx s) = Some f \<and> 0 \<le> sint (s_edx s) \<longrightarrow> fst (k_int80 K s m w) = s_edx s)
     \<and> (\<forall>fd n off w f. files w fd = Some f \<and> n < 2 ^ 31 \<longrightarrow>
          fst (k_pread K fd n off w) = of_nat (min n (length (f_bytes f) - unat off)))"

section \<open>Positioned writes\<close>

lemma put_at_length: "length (put_at off xs bytes) = max (off + length xs) (length bytes)"
  by (simp add: put_at_def)

lemma take_drop_put_at: "take (length xs) (drop off (put_at off xs bytes)) = xs"
  by (simp add: put_at_def)

lemma take_put_at: "take off (put_at off xs bytes) = take off (bytes @ replicate (off - length bytes) (CHR 0x00))"
  by (simp add: put_at_def)

lemma content_length [simp]: "length content = 25"
  by (simp add: content_def newline_def)

lemma memory_content: "memory_bytes (with_content a m) a 25 = content"
  by (rule nth_equalityI) (simp_all add: memory_bytes_def with_content_def unat_of_nat)

lemma regs_offset_ten: "regs_offset (pwrite64_regs fd a) = 10"
  by (simp add: regs_offset_def pwrite64_regs_def)

text \<open>The file after the two ordinary writes and the positioned one.\<close>

definition test_file :: "string \<Rightarrow> os_file" where
  "test_file old = \<lparr>f_bytes = put_at 10 content (put_at 25 (replicate 10 CHR ''?'') (put_at 0 (replicate 25 CHR ''?'') old)), f_offset = 35\<rparr>"

lemma test_file_bytes:
  "take 10 (f_bytes (test_file old)) = replicate 10 CHR ''?''" "take 25 (drop 10 (f_bytes (test_file old))) = content"
  "drop 35 (f_bytes (test_file old)) = drop 35 old"
  using take_drop_put_at [of content 10] by (simp_all add: test_file_def take_put_at) (simp_all add: put_at_def)

text \<open>A call that moves all its bytes.\<close>

lemma write_all:
  assumes "posix_write K files" and "k_write K fd xs w = (of_nat (length xs), w')" and "length xs < 2 ^ 31" and "files w fd = Some f"
  shows "files w' fd = Some (f\<lparr>f_bytes := put_at (f_offset f) xs (f_bytes f), f_offset := f_offset f + length xs\<rparr>)"
proof -
  have n: "unat (of_nat (length xs) :: u32) = length xs" "0 \<le> sint (of_nat (length xs) :: u32)"
    using assms(3) by (simp_all add: unat_of_nat signed_of_nat signed_take_bit_int_eq_self)
  show ?thesis
    using assms(1)[unfolded posix_write_def, rule_format, OF assms(2)] assms(4) n by simp
qed

lemma pwrite64_all:
  assumes "posix_pwrite64 K files" and "k_int80 K (pwrite64_regs fd a) (with_content a m) w = (25, w')" and "files w fd = Some f"
  shows "files w' fd = Some (f\<lparr>f_bytes := put_at 10 content (f_bytes f)\<rparr>)"
  using assms(1)[unfolded posix_pwrite64_def, rule_format, of "pwrite64_regs fd a", OF conjI, OF _ assms(2)] assms(3)
    memory_content [of a m] regs_offset_ten [of fd a]
  by (simp add: pwrite64_regs_def SYS_pwrite64_def)

lemma pread_all:
  assumes "posix_pread K files" and "k_pread K fd n off w = (25, xs, w')" and "files w fd = Some f"
  shows "xs = take 25 (drop (unat off) (f_bytes f)) \<and> length xs = 25 \<and> files w' fd = Some f"
  using assms(1)[unfolded posix_pread_def, rule_format, OF assms(2)] assms(3) by auto

lemma first_write:
  assumes "posix_files K files" and "k_write K fd (replicate 25 CHR ''?'') w0 = (25, w1)" and "files w0 fd = Some f" and "f_offset f = 0"
  shows "files w1 fd = Some (f\<lparr>f_bytes := put_at 0 (replicate 25 CHR ''?'') (f_bytes f), f_offset := 25\<rparr>)"
  using write_all [of K files fd "replicate 25 CHR ''?''" w0 w1 f] assms by (simp add: posix_files_def)

lemma second_write:
  assumes "posix_files K files" and "k_write K fd (replicate 25 CHR ''?'') w0 = (25, w1)" and "files w0 fd = Some f" and "f_offset f = 0"
    and "k_write K fd (replicate 10 CHR ''?'') w1 = (10, w2)"
  shows "files w2 fd = Some \<lparr>f_bytes = put_at 25 (replicate 10 CHR ''?'') (put_at 0 (replicate 25 CHR ''?'') (f_bytes f)), f_offset = 35\<rparr>"
  using write_all [of K files fd "replicate 10 CHR ''?''" w1 w2, OF _ _ _ first_write [OF assms(1-4)]] assms(1,5)
  by (cases f) (simp add: posix_files_def)

lemma third_write:
  assumes "posix_files K files" and "k_write K fd (replicate 25 CHR ''?'') w0 = (25, w1)" and "files w0 fd = Some f" and "f_offset f = 0"
    and "k_write K fd (replicate 10 CHR ''?'') w1 = (10, w2)" and "k_int80 K (pwrite64_regs fd a) (with_content a m) w2 = (25, w3)"
  shows "files w3 fd = Some (test_file (f_bytes f))"
  using pwrite64_all [of K files, OF _ assms(6) second_write [OF assms(1-5)]] assms(1) by (simp add: posix_files_def test_file_def)

text \<open>A run that passes makes the five calls with whole counts, and a failed one fails an assertion.\<close>

lemma pwrite64_main_Inr:
  "pwrite64_main K a m w = Inr (out, w') \<longleftrightarrow>
     (\<exists>fd w0 w1 w2 w3 xs w4. k_open K TEST_FILE w = (fd, w0) \<and> k_write K fd (replicate 25 CHR ''?'') w0 = (25, w1)
        \<and> k_write K fd (replicate 10 CHR ''?'') w1 = (10, w2) \<and> k_int80 K (pwrite64_regs fd a) (with_content a m) w2 = (25, w3)
        \<and> k_pread K fd 25 10 w3 = (25, xs, w4) \<and> w' = k_unlink K TEST_FILE (k_close K fd w4)
        \<and> out = quoted ''Wrote'' content @ quoted ''Read'' (xs @ drop (length xs) (replicate 25 CHR ''?'')) @ ''EXIT-SUCCESS'' @ newline)"
  by (auto simp: pwrite64_main_def test_assert_def Let_def bind_res_eq_Inr split: prod.splits if_splits)

lemma open_result:
  assumes "posix_files K files" and "k_open K name w = (fd, w0)"
  obtains (failed) "fd = - 1" and "files w0 fd = None" | (opened) f where "fd \<noteq> - 1" and "files w0 fd = Some f" and "f_offset f = 0"
proof -
  have "posix_open K files" using assms(1) by (simp add: posix_files_def)
  from this[unfolded posix_open_def, rule_format, OF assms(2)] show thesis using failed opened [of _] by (cases "fd = - 1") auto
qed

lemma unopened_write:
  assumes "posix_files K files" and "k_open K TEST_FILE w = (fd, w0)" and "files w0 fd = None"
  shows "fst (k_write K fd xs w0) = - 1"
proof (cases "k_write K fd xs w0")
  case (Pair r w1)
  have "posix_write K files" using assms(1) by (simp add: posix_files_def)
  from this[unfolded posix_write_def, rule_format, OF Pair] assms(3) show ?thesis by (simp add: Pair)
qed

lemma opened_file:
  assumes "posix_files K files" and "k_open K TEST_FILE w = (fd, w0)" and "k_write K fd xs w0 = (25, w1)"
  obtains f where "files w0 fd = Some f" and "f_offset f = 0"
  using unopened_write [OF assms(1,2), of xs] assms(3) that by (cases rule: open_result [OF assms(1,2)]) simp_all

lemma unopened_fails:
  assumes "posix_files K files" and "fst (k_open K TEST_FILE w) = - 1"
  shows "\<exists>msg. pwrite64_main K a m w = Inl (Assert_Failed msg)"
proof -
  obtain w0 where o: "k_open K TEST_FILE w = (- 1, w0)" using assms(2) by (cases "k_open K TEST_FILE w") simp
  then have "files w0 (- 1) = None" by (cases rule: open_result [OF assms(1) o]) simp_all
  then show ?thesis
    using unopened_write [OF assms(1) o, of "replicate 25 CHR ''?''"] o
    by (cases "k_write K (- 1) (replicate 25 CHR ''?'') w0") (simp add: pwrite64_main_def test_assert_def)
qed

lemma whole_passes:
  assumes "posix_files K files" and "whole_transfers K files"
  shows "\<exists>out w'. pwrite64_main K a m w = Inr (out, w')"
proof -
  obtain fd w0 where op: "k_open K TEST_FILE w = (fd, w0)" by fastforce
  have "fst (k_open K TEST_FILE w) \<noteq> - 1" using assms(2) by (simp add: whole_transfers_def)
  then obtain old where old: "files w0 fd = Some old" "f_offset old = 0" using op by (cases rule: open_result [OF assms(1) op]) simp_all
  have wr: "\<exists>w'. k_write K fd xs w = (of_nat (length xs), w')" if "files w fd = Some f" "length xs < 2 ^ 31" for xs w f
  proof -
    have "fst (k_write K fd xs w) = of_nat (length xs)" using assms(2) that unfolding whole_transfers_def by blast
    then show ?thesis by (cases "k_write K fd xs w") simp
  qed
  obtain w1 where w1: "k_write K fd (replicate 25 CHR ''?'') w0 = (25, w1)"
    using wr [OF old(1), of "replicate 25 CHR ''?''"] by auto
  obtain w2 where w2: "k_write K fd (replicate 10 CHR ''?'') w1 = (10, w2)"
    using wr [OF first_write [OF assms(1) w1 old], of "replicate 10 CHR ''?''"] by auto
  have "fst (k_int80 K (pwrite64_regs fd a) (with_content a m) w2) = 25"
    using assms(2) second_write [OF assms(1) w1 old w2] by (simp add: whole_transfers_def pwrite64_regs_def SYS_pwrite64_def)
  then obtain w3 where w3: "k_int80 K (pwrite64_regs fd a) (with_content a m) w2 = (25, w3)"
    by (cases "k_int80 K (pwrite64_regs fd a) (with_content a m) w2") simp
  have "35 \<le> length (f_bytes (test_file (f_bytes old)))" by (simp add: test_file_def put_at_length)
  then have "fst (k_pread K fd 25 10 w3) = 25"
    using assms(2) third_write [OF assms(1) w1 old w2 w3] by (simp add: whole_transfers_def)
  then obtain xs w4 where "k_pread K fd 25 10 w3 = (25, xs, w4)" by (cases "k_pread K fd 25 10 w3") simp
  then show ?thesis unfolding pwrite64_main_Inr using op w1 w2 w3 by blast
qed

section \<open>Properties\<close>

text \<open>
  C37. On files as the manual pages describe them, with short writes and failures allowed: a run that passes has read at the offset what
  the positioned write put there, and has left the file offset where the two ordinary writes put it, their bytes before the positioned
  write and what the file held before behind it; a file that cannot be opened fails an assertion; and on a system
  that moves all bytes at once the test passes.
\<close>

theorem pwrite64_passes:
  assumes "posix_files K files"
  shows "(\<forall>out w'. pwrite64_main K content_addr m w = Inr (out, w') \<longrightarrow>
      out = ''Wrote ```'' @ cstr content @ [CHR 0x27, CHR 0x27, CHR 0x27] @ newline
        @ ''Read ```'' @ cstr content @ [CHR 0x27, CHR 0x27, CHR 0x27] @ newline @ ''EXIT-SUCCESS'' @ newline
      \<and> (\<exists>fd w0 old f w4. k_open K TEST_FILE w = (fd, w0) \<and> files w0 fd = Some old \<and> w' = k_unlink K TEST_FILE (k_close K fd w4)
         \<and> files w4 fd = Some f \<and> f_offset f = 35 \<and> take 10 (f_bytes f) = replicate 10 CHR ''?''
         \<and> take 25 (drop 10 (f_bytes f)) = content \<and> drop 35 (f_bytes f) = drop 35 (f_bytes old)))
    \<and> (fst (k_open K TEST_FILE w) = - 1 \<longrightarrow> (\<exists>msg. pwrite64_main K content_addr m w = Inl (Assert_Failed msg)))
    \<and> (whole_transfers K files \<longrightarrow> (\<exists>out w'. pwrite64_main K content_addr m w = Inr (out, w')))"
proof (intro conjI allI impI)
  fix out w'
  assume "pwrite64_main K content_addr m w = Inr (out, w')"
  then obtain fd w0 w1 w2 w3 xs w4 where r: "k_open K TEST_FILE w = (fd, w0)" "k_write K fd (replicate 25 CHR ''?'') w0 = (25, w1)"
    "k_write K fd (replicate 10 CHR ''?'') w1 = (10, w2)" "k_int80 K (pwrite64_regs fd content_addr) (with_content content_addr m) w2 = (25, w3)"
    "k_pread K fd 25 10 w3 = (25, xs, w4)" "w' = k_unlink K TEST_FILE (k_close K fd w4)"
    "out = quoted ''Wrote'' content @ quoted ''Read'' (xs @ drop (length xs) (replicate 25 CHR ''?'')) @ ''EXIT-SUCCESS'' @ newline"
    unfolding pwrite64_main_Inr by blast
  obtain old where old: "files w0 fd = Some old" "f_offset old = 0" by (rule opened_file [OF assms r(1,2)])
  have "files w3 fd = Some (test_file (f_bytes old))" by (rule third_write [OF assms r(2) old r(3,4)])
  then have p: "xs = take 25 (drop (unat (10 :: u64)) (f_bytes (test_file (f_bytes old)))) \<and> length xs = 25
      \<and> files w4 fd = Some (test_file (f_bytes old))"
    using assms by (intro pread_all [OF _ r(5)]) (simp_all add: posix_files_def)
  then show "out = ''Wrote ```'' @ cstr content @ [CHR 0x27, CHR 0x27, CHR 0x27] @ newline
        @ ''Read ```'' @ cstr content @ [CHR 0x27, CHR 0x27, CHR 0x27] @ newline @ ''EXIT-SUCCESS'' @ newline"
    using r(7) by (simp add: quoted_def test_file_bytes)
  show "\<exists>fd w0 old f w4. k_open K TEST_FILE w = (fd, w0) \<and> files w0 fd = Some old \<and> w' = k_unlink K TEST_FILE (k_close K fd w4)
         \<and> files w4 fd = Some f \<and> f_offset f = 35 \<and> take 10 (f_bytes f) = replicate 10 CHR ''?''
         \<and> take 25 (drop 10 (f_bytes f)) = content \<and> drop 35 (f_bytes f) = drop 35 (f_bytes old)"
    using p r(1,6) old(1) test_file_bytes [of "f_bytes old"]
    by (intro exI [of _ fd] exI [of _ w0] exI [of _ old] exI [of _ "test_file (f_bytes old)"] exI [of _ w4]) (simp add: test_file_def)
next
  assume "fst (k_open K TEST_FILE w) = - 1"
  then show "\<exists>msg. pwrite64_main K content_addr m w = Inl (Assert_Failed msg)" by (rule unopened_fails [OF assms])
next
  assume "whole_transfers K files"
  then show "\<exists>out w'. pwrite64_main K content_addr m w = Inr (out, w')" by (rule whole_passes [OF assms])
qed

text \<open>A kernel with one file, which is open at the descriptor 3; it moves all bytes at once.\<close>

definition one_open :: "os_file option \<Rightarrow> u32 \<rightharpoonup> os_file" where
  "one_open w fd = (if fd = 3 then w else None)"

definition one_file :: "os_file option file_calls" where
  "one_file = \<lparr>
     k_open = (\<lambda>_ w. (3, Some \<lparr>f_bytes = (case w of None \<Rightarrow> [] | Some f \<Rightarrow> f_bytes f), f_offset = 0\<rparr>)),
     k_write = (\<lambda>fd xs w. case one_open w fd of
        None \<Rightarrow> (- 1, w)
      | Some f \<Rightarrow> if length xs < 2 ^ 31
          then (of_nat (length xs), Some (f\<lparr>f_bytes := put_at (f_offset f) xs (f_bytes f), f_offset := f_offset f + length xs\<rparr>)) else (- 1, w)),
     k_int80 = (\<lambda>s m w. case one_open w (s_ebx s) of
        None \<Rightarrow> (- 9, w)
      | Some f \<Rightarrow> if 0 \<le> sint (s_edx s)
          then (s_edx s, Some (f\<lparr>f_bytes := put_at (regs_offset s) (memory_bytes m (s_ecx s) (unat (s_edx s))) (f_bytes f)\<rparr>)) else (- 14, w)),
     k_pread = (\<lambda>fd n off w. case one_open w fd of
        None \<Rightarrow> (- 1, [], w)
      | Some f \<Rightarrow> let xs = take n (drop (unat off) (f_bytes f)) in
          if length xs < 2 ^ 31 then (of_nat (length xs), xs, w) else (- 1, [], w)),
     k_close = (\<lambda>_ w. w), k_unlink = (\<lambda>_ _. None)\<rparr>"

lemma small_count: "n < 2 ^ 31 \<Longrightarrow> 0 \<le> sint (of_nat n :: u32) \<and> unat (of_nat n :: u32) = n"
  by (simp add: unat_of_nat signed_of_nat signed_take_bit_int_eq_self)

lemma one_file_write: "posix_write one_file one_open"
proof -
  have "case one_open w fd of None \<Rightarrow> r = - 1 | Some f \<Rightarrow> sint r < 0 \<or> moved r (length xs) \<and> one_open w' fd
      = Some (f\<lparr>f_bytes := put_at (f_offset f) (take (unat r) xs) (f_bytes f), f_offset := f_offset f + unat r\<rparr>)"
    if "k_write one_file fd xs w = (r, w')" for fd xs w r w'
    using that small_count [of "length xs"]
    by (cases "fd = 3"; cases w) (auto simp: one_file_def one_open_def moved_def split: if_splits)
  then show ?thesis unfolding posix_write_def by blast
qed

lemma one_file_pwrite64: "posix_pwrite64 one_file one_open"
  by (auto simp: posix_pwrite64_def one_file_def one_open_def moved_def split: if_splits option.splits)

lemma take_min_rest: "take (min (length bytes - off) n) (drop off bytes) = take n (drop off bytes)"
  by (simp add: min_def)

lemma one_file_pread: "posix_pread one_file one_open"
proof -
  have "case one_open w fd of None \<Rightarrow> r = - 1 \<and> xs = []
      | Some f \<Rightarrow> sint r < 0 \<or> moved r n \<and> unat r = length xs \<and> xs = take (unat r) (drop (unat off) (f_bytes f)) \<and> one_open w' fd = Some f"
    if "k_pread one_file fd n off w = (r, xs, w')" for fd n off w r xs w'
    using that small_count [of "length xs"]
    by (cases "fd = 3"; cases w) (auto simp: one_file_def one_open_def moved_def Let_def take_min_rest split: if_splits)
  then show ?thesis unfolding posix_pread_def by blast
qed

lemma one_file_posix: "posix_files one_file one_open"
  using one_file_write one_file_pwrite64 one_file_pread
  by (simp add: posix_files_def posix_open_def) (simp add: one_file_def one_open_def)

lemma one_file_whole: "whole_transfers one_file one_open"
  by (auto simp: whole_transfers_def one_file_def one_open_def Let_def min.commute split: option.splits if_splits)

theorem pwrite64_passes_witness:
  "\<exists>w'. pwrite64_main one_file 0xbf000000 (\<lambda>_. CHR 0x00) (Some \<lparr>f_bytes = ''old text'', f_offset = 4\<rparr>)
     = Inr (''Wrote ```'' @ cstr content @ [CHR 0x27, CHR 0x27, CHR 0x27] @ newline
        @ ''Read ```'' @ cstr content @ [CHR 0x27, CHR 0x27, CHR 0x27] @ newline @ ''EXIT-SUCCESS'' @ newline, w')"
  using pwrite64_passes [OF one_file_posix, of "0xbf000000" "\<lambda>_. CHR 0x00" "Some \<lparr>f_bytes = ''old text'', f_offset = 4\<rparr>"] one_file_whole
  by fast

end
