(* ===== verification/Paths.thy ===== *)
theory Paths
  imports C_Text
begin

text \<open>
  The workload of \<open>src/paths.c\<close>: nine threads call a function with two paths over and over, on one file. A state holds how many
  rounds each thread still has, and the lines written so far; the scheduler picks any thread that has rounds left, and \<open>fputs\<close> writes a line at once.
\<close>

definition NUM_ITS :: nat where "NUM_ITS = 2 ^ 20"
definition NUM_THREADS :: nat where "NUM_THREADS = 8"

definition paths :: "u32 \<Rightarrow> string" where
  "paths nonce = (if sint nonce < 2 then ''path: nonce < 2'' @ newline else ''path: nonce >= 2'' @ newline)"

record workload =
  w_left :: "nat list"
  w_file :: "string list"

text \<open>After the threads are created: the first entry is the main thread.\<close>

definition paths_start :: workload where
  "paths_start = \<lparr>w_left = replicate (Suc NUM_THREADS) NUM_ITS, w_file = []\<rparr>"

definition paths_round :: "u32 \<Rightarrow> nat \<Rightarrow> workload \<Rightarrow> workload" where
  "paths_round argc i w = w\<lparr>w_left := (w_left w)[i := w_left w ! i - 1], w_file := w_file w @ [paths argc]\<rparr>"

inductive paths_step :: "u32 \<Rightarrow> workload \<Rightarrow> workload \<Rightarrow> bool" for argc where
  thread_round: "i < length (w_left w) \<Longrightarrow> 0 < w_left w ! i \<Longrightarrow> paths_step argc w (paths_round argc i w)"

inductive paths_run :: "u32 \<Rightarrow> workload \<Rightarrow> workload \<Rightarrow> bool" for argc where
  run_done: "(\<forall>n\<in>set (w_left w). n = 0) \<Longrightarrow> paths_run argc w w"
| run_step: "paths_step argc w w1 \<Longrightarrow> paths_run argc w1 w2 \<Longrightarrow> paths_run argc w w2"

lemma step_total:
  assumes "paths_step argc w w1"
  shows "sum_list (w_left w) = Suc (sum_list (w_left w1))" "w_file w1 = w_file w @ [paths argc]"
  using assms
proof (induction rule: paths_step.induct)
  case (thread_round i w)
  {
    case 1
    have "w_left w ! i \<le> sum_list (w_left w)" using thread_round(1) by (simp add: member_le_sum_list)
    then show ?case using thread_round by (simp add: paths_round_def sum_list_update)
  next
    case 2
    show ?case by (simp add: paths_round_def)
  }
qed

text \<open>Whatever the schedule, the joins are reached with the same file: one line for each round of each thread.\<close>

lemma run_file: "paths_run argc w w' \<Longrightarrow> w_file w' = w_file w @ replicate (sum_list (w_left w)) (paths argc)"
  by (induction rule: paths_run.induct) (auto simp: step_total)

lemma paths_any_schedule:
  assumes "paths_run argc paths_start w"
  shows "w_file w = replicate (9 * 2 ^ 20) (paths argc)"
  using run_file [OF assms] by (simp add: paths_start_def NUM_ITS_def NUM_THREADS_def sum_list_replicate)

lemma paths_run_ends: "\<exists>w'. paths_run argc w w'"
proof (induction "sum_list (w_left w)" arbitrary: w)
  case 0
  then show ?case by (auto intro: run_done)
next
  case (Suc n)
  then obtain i where i: "i < length (w_left w)" "0 < w_left w ! i"
    by (metis gr0I in_set_conv_nth nat.distinct(1) sum_list_eq_0_iff)
  note s = thread_round [OF i, of argc]
  show ?case using Suc step_total(1) [OF s] s run_step by (metis nat.inject)
qed

end
