(* ===== verification/Histogram.thy ===== *)
theory Histogram
  imports C_Text "HOL-Library.AList" "HOL-Library.Log_Nat" "HOL-Library.Multiset"
begin

text \<open>
  The histograms of a trace (\<open>src/histogram-trace\<close>), a Python program: the scanner for the lines that \<open>rr dump\<close> prints,
  the accumulators, the names of what is counted and the printed table. A dictionary is an association list; the order in
  which Python goes through it is an argument, as are the files and the header with the system call numbers. An exception ends the program
  with what it has printed so far.
\<close>

section \<open>Scanning a trace\<close>

definition is_digit :: "char \<Rightarrow> bool" where
  "is_digit c \<longleftrightarrow> digit_val c < 10"

text \<open>One group of the regular expression: white space, an optional minus, digits.\<close>

definition scan_int :: "string \<Rightarrow> (int \<times> string) option" where
  "scan_int s =
     (let t = dropWhile is_space s;
          neg = (t \<noteq> [] \<and> hd t = CHR ''-'');
          u = (if neg then tl t else t);
          ds = takeWhile is_digit u
      in if t = s \<or> ds = [] then None
         else Some (if neg then - int (read_digits 10 ds) else int (read_digits 10 ds), dropWhile is_digit u))"

fun make_int_scanner :: "nat \<Rightarrow> string \<Rightarrow> int list option" where
  "make_int_scanner 0 s = Some []"
| "make_int_scanner (Suc n) s = (case scan_int s of None \<Rightarrow> None | Some (i, r) \<Rightarrow>
     (case make_int_scanner n r of None \<Rightarrow> None | Some is \<Rightarrow> Some (i # is)))"

text \<open>The fields in the order of \<open>TRACE_FIELDS\<close>; a synthetic event has the first four and \<open>-1\<close> for the others.\<close>

record event =
  ev_global_time :: int
  ev_thread_time :: int
  ev_tid :: int
  ev_reason :: int
  ev_entry_exit :: int
  ev_hw_ints :: int
  ev_page_faults :: int
  ev_rbc :: int
  ev_insns :: int
  ev_eax :: int
  ev_ebx :: int
  ev_ecx :: int
  ev_edx :: int
  ev_esi :: int
  ev_edi :: int
  ev_ebp :: int
  ev_orig_eax :: int

definition event_of :: "int list \<Rightarrow> event" where
  "event_of vs = (let v = (\<lambda>i. if i < length vs then vs ! i else - 1)
     in \<lparr>ev_global_time = v 0, ev_thread_time = v 1, ev_tid = v 2, ev_reason = v 3, ev_entry_exit = v 4,
         ev_hw_ints = v 5, ev_page_faults = v 6, ev_rbc = v 7, ev_insns = v 8, ev_eax = v 9, ev_ebx = v 10,
         ev_ecx = v 11, ev_edx = v 12, ev_esi = v 13, ev_edi = v 14, ev_ebp = v 15, ev_orig_eax = v 16\<rparr>)"

definition scan_event :: "string \<Rightarrow> event option" where
  "scan_event line = (case make_int_scanner 17 line of
     Some vs \<Rightarrow> Some (event_of vs)
   | None \<Rightarrow> (case make_int_scanner 4 line of Some vs \<Rightarrow> Some (event_of vs) | None \<Rightarrow> None))"

definition iterevents :: "string list \<Rightarrow> event list" where
  "iterevents lns = List.map_filter scan_event lns"

section \<open>Accumulators\<close>

type_synonym histogram = "(int \<times> nat) list"

definition hist_get :: "histogram \<Rightarrow> int \<Rightarrow> nat" where
  "hist_get hist item = (case map_of hist item of None \<Rightarrow> 0 | Some c \<Rightarrow> c)"

definition incr_histogram_item :: "histogram \<Rightarrow> int \<Rightarrow> histogram" where
  "incr_histogram_item hist item = AList.update item (hist_get hist item + 1) hist"

definition SIG_SEGV_RDTSC :: int where "SIG_SEGV_RDTSC = - 1022"
definition USR_SCHED :: int where "USR_SCHED = - 1020"
definition FLUSH_EVENT :: int where "FLUSH_EVENT = - 1018"
definition SYS_socketcall :: int where "SYS_socketcall = 102"
definition SYS_futex :: int where "SYS_futex = 240"
definition SYS_fcntl :: int where "SYS_fcntl = 55"
definition SYS_fcntl64 :: int where "SYS_fcntl64 = 221"
definition PY_FUTEX_PRIVATE_FLAG :: int where "PY_FUTEX_PRIVATE_FLAG = 128"
definition PY_FUTEX_CLOCK_REALTIME :: int where "PY_FUTEX_CLOCK_REALTIME = 256"
definition PY_FUTEX_CMD_MASK :: int where "PY_FUTEX_CMD_MASK = not (or PY_FUTEX_PRIVATE_FLAG PY_FUTEX_CLOCK_REALTIME)"

definition is_syscall_entry :: "event \<Rightarrow> bool" where
  "is_syscall_entry ev \<longleftrightarrow> ev_entry_exit ev = 0 \<and> (0 \<le> ev_reason ev \<or> USR_SCHED = ev_reason ev \<or> SIG_SEGV_RDTSC = ev_reason ev)"

definition accum_syscall_histogram :: "string list \<Rightarrow> histogram \<Rightarrow> histogram" where
  "accum_syscall_histogram lns hist = fold (\<lambda>ev hist.
     if is_syscall_entry ev then incr_histogram_item hist (ev_reason ev) else hist) (iterevents lns) hist"

definition accum_insn_histogram :: "string list \<Rightarrow> histogram \<Rightarrow> histogram" where
  "accum_insn_histogram lns hist = fold (\<lambda>ev hist.
     if ev_insns ev \<le> 0 \<or> ev_rbc ev \<le> 0 then hist
     else incr_histogram_item hist (ev_insns ev div ev_rbc ev)) (iterevents lns) hist"

datatype py_error = Key_Error int | Name_Error | Type_Error | Assertion_Error | Io_Error | System_Exit nat

fun flush_loop :: "bool \<Rightarrow> event list \<Rightarrow> histogram \<Rightarrow> py_error + histogram" where
  "flush_loop flushed [] hist = Inr hist"
| "flush_loop flushed (ev # evs) hist =
     (if ev_reason ev = FLUSH_EVENT then if flushed then Inl Assertion_Error else flush_loop True evs hist
      else if flushed then flush_loop False evs (incr_histogram_item hist (ev_reason ev))
      else flush_loop False evs hist)"

definition accum_flush_histogram :: "string list \<Rightarrow> histogram \<Rightarrow> py_error + histogram" where
  "accum_flush_histogram lns hist = flush_loop False (iterevents lns) hist"

definition accum_socketcall_histogram :: "string list \<Rightarrow> histogram \<Rightarrow> histogram" where
  "accum_socketcall_histogram lns hist = fold (\<lambda>ev hist.
     if is_syscall_entry ev \<and> SYS_socketcall = ev_reason ev then incr_histogram_item hist (ev_ebx ev) else hist) (iterevents lns) hist"

definition accum_futex_histogram :: "string list \<Rightarrow> histogram \<Rightarrow> histogram" where
  "accum_futex_histogram lns hist = fold (\<lambda>ev hist.
     if is_syscall_entry ev \<and> SYS_futex = ev_reason ev
     then incr_histogram_item hist (and (ev_ecx ev) PY_FUTEX_CMD_MASK) else hist) (iterevents lns) hist"

definition accum_fcntl_histogram :: "string list \<Rightarrow> histogram \<Rightarrow> histogram" where
  "accum_fcntl_histogram lns hist = fold (\<lambda>ev hist.
     if is_syscall_entry ev \<and> (SYS_fcntl = ev_reason ev \<or> SYS_fcntl64 = ev_reason ev)
     then incr_histogram_item hist (ev_ecx ev) else hist) (iterevents lns) hist"

section \<open>Names\<close>

definition scan_define :: "string \<Rightarrow> (int \<times> string) option" where
  "scan_define line =
     (let prefix = ''#define __NR_''; r = drop (length prefix) line;
          name = takeWhile (\<lambda>c. c \<noteq> CHR '' '') r; r2 = dropWhile (\<lambda>c. c \<noteq> CHR '' '') r;
          ds = takeWhile is_digit (tl r2)
      in if take (length prefix) line = prefix \<and> name \<noteq> [] \<and> r2 \<noteq> [] \<and> ds \<noteq> [] then Some (int (read_digits 10 ds), name) else None)"

definition read_syscalls :: "string list \<Rightarrow> (int \<times> string) list" where
  "read_syscalls lines = fold (\<lambda>line t. case scan_define line of None \<Rightarrow> t | Some (n, name) \<Rightarrow> AList.update n name t) lines []"

definition stringify_syscall :: "(int \<times> string) list \<Rightarrow> int \<Rightarrow> py_error + string" where
  "stringify_syscall SYSCALL_TABLE no = Inr
     (if USR_SCHED = no then ''USR_SCHED''
      else if SIG_SEGV_RDTSC = no then ''SIG_SEGV_RDTSC''
      else if 442 = no then ''rrcall_init_buf''
      else if 443 = no then ''rrcall_monkeypatch_vdso''
      else (case map_of SYSCALL_TABLE no of None \<Rightarrow> ''???'' | Some name \<Rightarrow> name))"

definition py_lookup :: "(int \<times> string) list \<Rightarrow> int \<Rightarrow> py_error + string" where
  "py_lookup t k = (case map_of t k of None \<Rightarrow> Inl (Key_Error k) | Some v \<Rightarrow> Inr v)"

definition stringify_futex :: "int \<Rightarrow> py_error + string" where
  "stringify_futex op =
     (let private = (if and op PY_FUTEX_PRIVATE_FLAG \<noteq> 0 then '' (private)'' else []);
          rt = (if and op PY_FUTEX_CLOCK_REALTIME \<noteq> 0 then '' (rt)'' else [])
      in case py_lookup
           [(0, ''FUTEX_WAIT''), (1, ''FUTEX_WAKE''), (2, ''FUTEX_FD''), (3, ''FUTEX_REQUEUE''), (4, ''FUTEX_CMP_REQUEUE''),
            (5, ''FUTEX_WAKE_OP''), (6, ''FUTEX_LOCK_PI''), (7, ''FUTEX_UNLOCK_PI''), (8, ''FUTEX_TRYLOCK_PI''),
            (9, ''FUTEX_WAIT_BITSET''), (10, ''FUTEX_WAKE_BITSET''), (11, ''FUTEX_WAIT_REQUEUE_PI''),
            (12, ''FUTEX_CMP_REQUEUE_PI'')] (and op PY_FUTEX_CMD_MASK) of
           Inl e \<Rightarrow> Inl e | Inr strop \<Rightarrow> Inr (strop @ private @ rt))"

definition stringify_socketcall :: "int \<Rightarrow> py_error + string" where
  "stringify_socketcall op = py_lookup
     [(1, ''SYS_SOCKET''), (2, ''SYS_BIND''), (3, ''SYS_CONNECT''), (4, ''SYS_LISTEN''), (5, ''SYS_ACCEPT''),
      (6, ''SYS_GETSOCKNAME''), (7, ''SYS_GETPEERNAME''), (8, ''SYS_SOCKETPAIR''), (9, ''SYS_SEND''), (10, ''SYS_RECV''),
      (11, ''SYS_SENDTO''), (12, ''SYS_RECVFROM''), (13, ''SYS_SHUTDOWN''), (14, ''SYS_SETSOCKOPT''), (15, ''SYS_GETSOCKOPT''),
      (16, ''SYS_SENDMSG''), (17, ''SYS_RECVMSG''), (18, ''SYS_ACCEPT4''), (19, ''SYS_RECVMMSG''), (20, ''SYS_SENDMMSG'')] op"

definition stringify_fcntl :: "int \<Rightarrow> py_error + string" where
  "stringify_fcntl which = Inr (case map_of
     [(4, ''F_SETFL''), (5, ''F_GETLK''), (6, ''F_SETLK''), (7, ''F_SETLKW''), (10, ''F_SETSIG''), (12, ''F_GETLK64''),
      (13, ''F_SETLK64''), (14, ''F_SETLKW64''), (15, ''F_SETOWN_EX'')] which of
     None \<Rightarrow> ''???'' | Some name \<Rightarrow> name)"

section \<open>Printing\<close>

text \<open>
  Doubles: a result is rounded to 53 significant bits, and \<open>%.2f\<close> rounds the exact value of a double to hundredths, both
  to the nearest and to the even one of two nearest. The numbers here are far from the limits of the exponent.
\<close>

definition round_half_even :: "rat \<Rightarrow> int" where
  "round_half_even q = (let f = \<lfloor>q\<rfloor>; r = q - of_int f
     in if r < 1 / 2 then f else if 1 / 2 < r then f + 1 else if even f then f else f + 1)"

definition double_div :: "nat \<Rightarrow> nat \<Rightarrow> rat" where
  "double_div a b =
     (if a = 0 then 0
      else let t = int (floorlog 2 a) - int (floorlog 2 b) - 53;
               scale = (\<lambda>e. if 0 \<le> e then 2 ^ nat e else 1 / 2 ^ nat (- e)) :: int \<Rightarrow> rat;
               q = of_nat a / of_nat b;
               e = (if q / scale t < 2 ^ 53 then t else t + 1)
           in of_int (round_half_even (q / scale e)) * scale e)"

definition pad_left :: "nat \<Rightarrow> string \<Rightarrow> string" where
  "pad_left n s = replicate (n - length s) (CHR '' '') @ s"

definition format_6u :: "nat \<Rightarrow> string" where
  "format_6u n = pad_left 6 (dec n)"

definition format_6_2f :: "rat \<Rightarrow> string" where
  "format_6_2f q = (let c = nat (round_half_even (100 * q))
     in pad_left 6 (dec (c div 100) @ ''.'' @ dec (c mod 100 div 10) @ dec (c mod 10)))"

definition format_d :: "int \<Rightarrow> string" where
  "format_d i = (if 0 \<le> i then dec (nat i) else CHR ''-'' # dec (nat (- i)))"

definition tab :: string where
  "tab = [CHR 0x09]"

definition hist_row :: "nat \<Rightarrow> nat \<Rightarrow> string \<Rightarrow> string" where
  "hist_row c tot label = format_6u c @ tab @ format_6_2f (double_div (100 * c) tot) @ ''% .... '' @ label"

fun print_rows :: "(int \<Rightarrow> py_error + string) \<Rightarrow> histogram \<Rightarrow> nat \<Rightarrow> int list \<Rightarrow> string \<times> py_error option" where
  "print_rows stringify hist tot [] = ([], None)"
| "print_rows stringify hist tot (k # ks) =
     (case stringify k of
        Inl e \<Rightarrow> ([], Some e)
      | Inr name \<Rightarrow>
          let (out, e) = print_rows stringify hist tot ks
          in (hist_row (hist_get hist k) tot (name @ '' ('' @ format_d k @ '')'') @ newline @ out, e))"

text \<open>\<open>sorted\<close> is stable and \<open>reverse\<close> keeps the order of equal elements.\<close>

definition hist_head :: "string \<Rightarrow> string" where
  "hist_head label = ''count'' @ tab @ ''     %  .... '' @ label @ newline @ ''-----'' @ tab @ ''-------'' @ newline"

definition hist_foot :: "nat \<Rightarrow> string" where
  "hist_foot tot = ''-------'' @ newline @ format_6u tot @ tab @ format_6_2f 100 @ ''% .... Total'' @ newline"

definition print_histogram :: "(int list \<Rightarrow> int list) \<Rightarrow> string \<Rightarrow> histogram \<Rightarrow> (int \<Rightarrow> py_error + string) \<Rightarrow> string \<times> py_error option" where
  "print_histogram order label hist stringify =
     (let tot = sum_list (map snd hist);
          (rows, e) = print_rows stringify hist tot (sort_key (\<lambda>k. - int (hist_get hist k)) (order (map fst hist)))
      in case e of
           Some err \<Rightarrow> (hist_head label @ rows, Some err)
         | None \<Rightarrow> (hist_head label @ rows @ hist_foot tot, None))"

section \<open>The program\<close>

text \<open>The name \<open>argv\<close> does not exist in \<open>lookup_accum_stringify\<close>; \<open>None\<close> cannot be called.\<close>

type_synonym accumulator = "string list \<Rightarrow> histogram \<Rightarrow> py_error + histogram"

definition no_stringify :: "int \<Rightarrow> py_error + string" where
  "no_stringify k = Inl Type_Error"

definition lookup_accum_stringify :: "(int \<times> string) list \<Rightarrow> string \<Rightarrow> py_error + accumulator \<times> (int \<Rightarrow> py_error + string)" where
  "lookup_accum_stringify table which =
     (if which = ''syscall'' then Inr (\<lambda>lns hist. Inr (accum_syscall_histogram lns hist), stringify_syscall table)
      else if which = ''insns/rcb'' then Inr (\<lambda>lns hist. Inr (accum_insn_histogram lns hist), no_stringify)
      else if which = ''flush'' then Inr (accum_flush_histogram, stringify_syscall table)
      else if which = ''socketcall'' then Inr (\<lambda>lns hist. Inr (accum_socketcall_histogram lns hist), stringify_socketcall)
      else if which = ''futex'' then Inr (\<lambda>lns hist. Inr (accum_futex_histogram lns hist), stringify_futex)
      else if which = ''fcntl'' then Inr (\<lambda>lns hist. Inr (accum_fcntl_histogram lns hist), stringify_fcntl)
      else Inl Name_Error)"

fun accum_files :: "accumulator \<Rightarrow> string list option list \<Rightarrow> histogram \<Rightarrow> py_error + histogram" where
  "accum_files accum_hist [] hist = Inr hist"
| "accum_files accum_hist (None # fs) hist = Inl Io_Error"
| "accum_files accum_hist (Some lns # fs) hist =
     (case accum_hist lns hist of Inl e \<Rightarrow> Inl e | Inr hist' \<Rightarrow> accum_files accum_hist fs hist')"

definition histogram_main :: "(string \<Rightarrow> string list option) \<Rightarrow> string list \<Rightarrow> (int list \<Rightarrow> int list) \<Rightarrow> string list \<Rightarrow> string \<times> py_error option" where
  "histogram_main files stdin order argv =
     (case files ''/usr/include/asm/unistd_32.h'' of
        None \<Rightarrow> ([], Some Io_Error)
      | Some header \<Rightarrow>
          (case argv of
             exe # which # fs \<Rightarrow>
               (case lookup_accum_stringify (read_syscalls header) which of
                  Inl e \<Rightarrow> ([], Some e)
                | Inr (accum_hist, stringify) \<Rightarrow>
                    (case accum_files accum_hist (if fs = [] then [Some stdin] else map (\<lambda>f. files (f @ ''/trace_0'')) fs) [] of
                       Inl e \<Rightarrow> ([], Some e)
                     | Inr hist \<Rightarrow> print_histogram order which hist stringify))
           | _ \<Rightarrow> ([], Some (System_Exit 1))))"

section \<open>Tallies\<close>

definition tally :: "int list \<Rightarrow> histogram \<Rightarrow> histogram" where
  "tally ks hist = fold (\<lambda>k hist. incr_histogram_item hist k) ks hist"

lemma tally_simps [simp]:
  "tally [] hist = hist" "tally (k # ks) hist = tally ks (incr_histogram_item hist k)" "tally (ks @ ls) hist = tally ls (tally ks hist)"
  by (simp_all add: tally_def)

lemma fold_tally:
  "fold (\<lambda>ev hist. if P ev then incr_histogram_item hist (f ev) else hist) evs hist = tally (map f (filter P evs)) hist"
  by (induction evs arbitrary: hist) simp_all

lemma hist_get_incr: "hist_get (incr_histogram_item hist i) k = hist_get hist k + (if i = k then 1 else 0)"
  by (simp add: incr_histogram_item_def hist_get_def update_conv)

lemma hist_get_tally: "hist_get (tally ks hist) k = hist_get hist k + count_list ks k"
  by (induction ks arbitrary: hist) (simp_all add: hist_get_incr)

lemma keys_tally: "fst ` set (tally ks hist) = set ks \<union> fst ` set hist"
  by (induction ks arbitrary: hist) (auto simp: incr_histogram_item_def dom_update)

lemma distinct_tally: "distinct (map fst hist) \<Longrightarrow> distinct (map fst (tally ks hist))"
  by (induction ks arbitrary: hist) (simp_all add: incr_histogram_item_def distinct_update)

lemma sum_update:
  "distinct (map fst hist) \<Longrightarrow> sum_list (map snd (AList.update i (hist_get hist i + 1) hist)) = sum_list (map snd hist) + (1 :: nat)"
  by (induction hist) (auto simp: hist_get_def split: option.split)

lemma total_tally: "distinct (map fst hist) \<Longrightarrow> sum_list (map snd (tally ks hist)) = sum_list (map snd hist) + length ks"
proof (induction ks arbitrary: hist)
  case (Cons k ks)
  have "distinct (map fst (incr_histogram_item hist k))" using Cons.prems by (simp add: incr_histogram_item_def distinct_update)
  then show ?case using Cons.IH Cons.prems sum_update [of hist k] by (simp add: incr_histogram_item_def)
qed simp

text \<open>What each histogram counts in a trace.\<close>

fun after_flush :: "bool \<Rightarrow> event list \<Rightarrow> int list option" where
  "after_flush flushed [] = Some []"
| "after_flush flushed (ev # evs) =
     (if ev_reason ev = FLUSH_EVENT then if flushed then None else after_flush True evs
      else map_option (\<lambda>ks. if flushed then ev_reason ev # ks else ks) (after_flush False evs))"

definition counted :: "string \<Rightarrow> string list \<Rightarrow> int list option" where
  "counted which lns =
     (let evs = iterevents lns; calls = (\<lambda>P. filter (\<lambda>ev. is_syscall_entry ev \<and> P (ev_reason ev)) evs)
      in if which = ''syscall'' then Some (map ev_reason (calls (\<lambda>r. True)))
         else if which = ''insns/rcb'' then Some (map (\<lambda>ev. ev_insns ev div ev_rbc ev) (filter (\<lambda>ev. 0 < ev_insns ev \<and> 0 < ev_rbc ev) evs))
         else if which = ''flush'' then after_flush False evs
         else if which = ''socketcall'' then Some (map ev_ebx (calls (\<lambda>r. r = SYS_socketcall)))
         else if which = ''futex'' then Some (map (\<lambda>ev. and (ev_ecx ev) PY_FUTEX_CMD_MASK) (calls (\<lambda>r. r = SYS_futex)))
         else Some (map ev_ecx (calls (\<lambda>r. r = SYS_fcntl \<or> r = SYS_fcntl64))))"

lemma flush_loop_tally:
  "flush_loop flushed evs hist = (case after_flush flushed evs of None \<Rightarrow> Inl Assertion_Error | Some ks \<Rightarrow> Inr (tally ks hist))"
  by (induction flushed evs hist rule: flush_loop.induct) (auto split: option.split)

lemma lookup_counts:
  assumes "lookup_accum_stringify table which = Inr (accum, stringify)"
  shows "accum lns hist = (case counted which lns of None \<Rightarrow> Inl Assertion_Error | Some ks \<Rightarrow> Inr (tally ks hist))"
proof -
  have "accum_insn_histogram lns hist = fold (\<lambda>ev hist. if 0 < ev_insns ev \<and> 0 < ev_rbc ev
      then incr_histogram_item hist (ev_insns ev div ev_rbc ev) else hist) (iterevents lns) hist"
    unfolding accum_insn_histogram_def by (rule fold_cong) (auto simp: not_less)
  note a = accum_syscall_histogram_def accum_flush_histogram_def accum_socketcall_histogram_def accum_futex_histogram_def
    accum_fcntl_histogram_def this fold_tally flush_loop_tally
  show ?thesis
    using assms unfolding lookup_accum_stringify_def counted_def Let_def
    by (auto simp: a eq_commute [of SYS_socketcall] eq_commute [of SYS_futex] eq_commute [of SYS_fcntl] eq_commute [of SYS_fcntl64]
        split: if_splits)
qed

lemma accum_files_tally:
  assumes "lookup_accum_stringify table which = Inr (accum, stringify)"
  shows "\<forall>f\<in>set fs. \<exists>lns. files f = Some lns \<and> counted which lns = Some (keys f) \<Longrightarrow>
    accum_files accum (map files fs) hist = Inr (tally (concat (map keys fs)) hist)"
  by (induction fs arbitrary: hist) (auto simp: lookup_counts [OF assms])

lemma print_rows_all:
  "\<forall>k\<in>set ks. stringify k = Inr (name k) \<Longrightarrow> print_rows stringify hist n ks
    = (concat (map (\<lambda>k. hist_row (hist_get hist k) n (name k @ '' ('' @ format_d k @ '')'') @ newline) ks), None)"
  by (induction ks) simp_all

section \<open>The printed table\<close>

lemma sorted_wrt_sort_key: "sorted_wrt (\<lambda>i j. f j \<le> f i) (sort_key (\<lambda>k. - int (f k)) ks)"
proof -
  have "sorted_wrt (\<lambda>i j. - int (f i) \<le> - int (f j)) (sort_key (\<lambda>k. - int (f k)) ks)"
    using sorted_sort_key [of "\<lambda>k. - int (f k)" ks] by (simp add: sorted_map)
  then show ?thesis by (simp add: sorted_wrt_iff_nth_less)
qed

lemma printed_order:
  fixes items :: "int list"
  assumes "\<forall>xs. mset (order xs) = mset xs"
  defines "ks \<equiv> sort_key (\<lambda>k. - int (hist_get (tally items []) k)) (order (map fst (tally items [])))"
  shows "distinct ks" "set ks = set items" "sorted_wrt (\<lambda>i j. count_list items j \<le> count_list items i) ks"
proof -
  have m: "mset ks = mset (map fst (tally items []))" using assms(1) by (simp add: ks_def)
  have "distinct (map fst (tally items []))" by (rule distinct_tally) simp
  then show "distinct ks" using mset_eq_imp_distinct_iff [OF m] by simp
  have "set ks = fst ` set (tally items [])" using m by (metis set_map set_mset_mset)
  then show "set ks = set items" by (simp add: keys_tally)
  have "hist_get (tally items []) = count_list items" by (simp add: fun_eq_iff hist_get_tally) (simp add: hist_get_def)
  then show "sorted_wrt (\<lambda>i j. count_list items j \<le> count_list items i) ks" unfolding ks_def by (simp add: sorted_wrt_sort_key)
qed

text \<open>
  C27. The program prints, over all the traces it is given, each counted item once, under its name, with the number of times it occurs
  and its share of all occurrences, the most frequent first and with the right total, whatever order the dictionary has.
\<close>

theorem histogram_main_counts:
  assumes "files ''/usr/include/asm/unistd_32.h'' = Some header" and "\<forall>xs. mset (order xs) = mset xs"
    and "lookup_accum_stringify (read_syscalls header) which = Inr (accum, stringify)" and "fs \<noteq> []"
    and "\<forall>f\<in>set fs. \<exists>lns. files (f @ ''/trace_0'') = Some lns \<and> counted which lns = Some (keys f)"
    and "\<forall>f\<in>set fs. \<forall>k\<in>set (keys f). stringify k = Inr (name k)"
  shows "\<exists>ks. distinct ks \<and> set ks = set (concat (map keys fs))
    \<and> sorted_wrt (\<lambda>i j. count_list (concat (map keys fs)) j \<le> count_list (concat (map keys fs)) i) ks
    \<and> histogram_main files stdin order (exe # which # fs) =
        (hist_head which
         @ concat (map (\<lambda>k. hist_row (count_list (concat (map keys fs)) k) (length (concat (map keys fs)))
                      (name k @ '' ('' @ format_d k @ '')'') @ newline) ks)
         @ hist_foot (length (concat (map keys fs))), None)"
proof -
  let ?all = "concat (map keys fs)"
  let ?h = "tally ?all []"
  let ?ks = "sort_key (\<lambda>k. - int (hist_get ?h k)) (order (map fst ?h))"
  note o = printed_order [OF assms(2), of ?all]
  have f: "accum_files accum (map (\<lambda>f. files (f @ ''/trace_0'')) fs) [] = Inr ?h"
    using accum_files_tally [OF assms(3), of fs "\<lambda>f. files (f @ ''/trace_0'')" keys "[]"] assms(5) by simp
  have n: "\<forall>k\<in>set ?ks. stringify k = Inr (name k)" unfolding o(2) using assms(6) by auto
  have c: "hist_get ?h = count_list ?all" by (simp add: fun_eq_iff hist_get_tally) (simp add: hist_get_def)
  have t: "sum_list (map snd ?h) = length ?all" using total_tally [of "[]" ?all] by simp
  have "histogram_main files stdin order (exe # which # fs) = print_histogram order which ?h stringify"
    using assms(1,3,4) f by (simp add: histogram_main_def)
  also have "\<dots> = (hist_head which
         @ concat (map (\<lambda>k. hist_row (count_list ?all k) (length ?all) (name k @ '' ('' @ format_d k @ '')'') @ newline) ?ks)
         @ hist_foot (length ?all), None)"
    using print_rows_all [OF n, of ?h "length ?all"] unfolding print_histogram_def Let_def t c by simp
  finally show ?thesis using o by blast
qed




section \<open>Printed traces\<close>

text \<open>
  A line of numbers, each behind a blank, is read back. The lines of \<open>rr dump\<close> have the twenty fields that the program's comment lists, and those of synthetic
  events only the first; the scanner takes the fields that it knows and leaves the others.
\<close>

definition dump_line :: "int list \<Rightarrow> string" where
  "dump_line vs = concat (map (\<lambda>v. '' '' @ format_d v) vs)"

lemma is_digit_dec: "c \<in> set (dec n) \<Longrightarrow> is_digit c"
  using render_valid [of 10 c n] by (simp add: is_digit_def)

lemma scan_int_printed:
  assumes "\<forall>c\<in>set (take 1 r). \<not> is_digit c"
  shows "scan_int ('' '' @ format_d v @ r) = Some (v, r)"
proof -
  have tw: "takeWhile is_digit (dec n @ r) = dec n" "dropWhile is_digit (dec n @ r) = r" for n
    using is_digit_dec assms by (cases r; simp add: takeWhile_append2 dropWhile_append2)+
  have rd: "read_digits 10 (dec n) = n" for n using read_render [of 10 "[]" n] by simp
  obtain c cs where d: "dec (nat v) = c # cs" using render_nonempty [of 10 "nat v"] by (cases "dec (nat v)") auto
  have "is_digit c" using is_digit_dec [of c "nat v"] d by simp
  then have c: "\<not> is_space c" "c \<noteq> CHR ''-''" by (auto simp: is_digit_def is_space_def digit_val_def Let_def split: if_splits)
  have sp: "is_space (CHR '' '')" "\<not> is_space (CHR ''-'')" by (simp_all add: is_space_def Let_def)
  show ?thesis
  proof (cases "0 \<le> v")
    case True
    have dw: "dropWhile is_space (CHR '' '' # dec (nat v) @ r) = dec (nat v) @ r" using sp c by (simp add: d)
    then show ?thesis
      using True tw [of "nat v"] rd [of "nat v"] c by (simp add: scan_int_def format_d_def Let_def d)
  next
    case False
    then show ?thesis using tw [of "nat (- v)"] rd [of "nat (- v)"] sp by (simp add: scan_int_def format_d_def Let_def)
  qed
qed

lemma scan_printed: "\<forall>c\<in>set (take 1 r). \<not> is_digit c \<Longrightarrow> make_int_scanner (length vs) (dump_line vs @ r) = Some vs"
proof (induction vs)
  case (Cons v vs)
  have "\<forall>c\<in>set (take 1 (dump_line vs @ r)). \<not> is_digit c"
    using Cons.prems by (cases vs) (simp_all add: dump_line_def is_digit_def digit_val_def)
  from scan_int_printed [OF this, of v] Cons show ?case by (simp add: dump_line_def)
qed simp

lemma scan_prefix:
  assumes "n \<le> length vs"
  shows "make_int_scanner n (dump_line vs) = Some (take n vs)"
proof -
  have "\<forall>c\<in>set (take 1 (dump_line (drop n vs))). \<not> is_digit c"
    by (cases "drop n vs") (simp_all add: dump_line_def is_digit_def digit_val_def)
  moreover have "dump_line vs = dump_line (take n vs) @ dump_line (drop n vs)"
    unfolding dump_line_def concat_append [symmetric] map_append [symmetric] append_take_drop_id ..
  ultimately show ?thesis using scan_printed [of "dump_line (drop n vs)" "take n vs"] assms by simp
qed

lemma scan_event_printed: "17 \<le> length vs \<Longrightarrow> scan_event (dump_line vs) = Some (event_of (take 17 vs))"
  by (simp add: scan_event_def scan_prefix)

definition small_files :: "string \<Rightarrow> string list option" where
  "small_files f =
     (if f = ''/usr/include/asm/unistd_32.h'' then Some [''#define __NR_read 3'']
      else Some (map dump_line [[1, 1, 7, 3, 0, 0, 0, 50, 200, 0, 0, 0, 0, 0, 0, 0, 3, 99, 98, 97], [2, 2, 7, 3, 1, 0, 0, 0, 0, 0, 0, 0, 0, 0, 0, 0, 3, 99, 98, 97],
        [3, 3, 7, 4, 0, 0, 0, 0, 0, 0, 0, 0, 0, 0, 0, 0, 4, 99, 98, 97], [4, 4, 7, 3, 0, 0, 0, 0, 0, 0, 0, 0, 0, 0, 0, 0, 3, 99, 98, 97]]))"

lemma iterevents_printed [simp]:
  "17 \<le> length vs \<Longrightarrow> iterevents (dump_line vs # lns) = event_of (take 17 vs) # iterevents lns" "iterevents [] = []"
  by (simp_all add: iterevents_def List.map_filter_simps scan_event_printed)

lemma small_counted:
  "counted ''syscall'' (the (small_files ''t/trace_0'')) = Some [3, 4, 3]"
  "counted ''insns/rcb'' (the (small_files ''t/trace_0'')) = Some [4]"
  by (simp_all add: small_files_def counted_def Let_def event_of_def is_syscall_entry_def)

theorem histogram_main_counts_witness:
  "histogram_main small_files [] rev [''histogram-trace'', ''syscall'', ''t''] =
    (hist_head ''syscall'' @ hist_row 2 3 ''read (3)'' @ newline @ hist_row 1 3 ''??? (4)'' @ newline @ hist_foot 3, None)"
proof -
  let ?name = "\<lambda>k. if k = 3 then ''read'' else ''???''"
  have h: "small_files ''/usr/include/asm/unistd_32.h'' = Some [''#define __NR_read 3'']" by (simp add: small_files_def)
  have t: "read_syscalls [''#define __NR_read 3''] = [(3, ''read'')]"
    by (simp add: read_syscalls_def scan_define_def is_digit_def digit_val_def read_digits_def Let_def)
  have l: "lookup_accum_stringify (read_syscalls [''#define __NR_read 3'']) ''syscall'' =
      Inr (\<lambda>lns hist. Inr (accum_syscall_histogram lns hist), stringify_syscall [(3, ''read'')])"
    by (simp add: lookup_accum_stringify_def t)
  have c: "\<forall>f\<in>set [''t'']. \<exists>lns. small_files (f @ ''/trace_0'') = Some lns \<and> counted ''syscall'' lns = Some [3, 4, 3]"
    using small_counted(1) by (simp add: small_files_def)
  have n: "\<forall>f\<in>set [''t'']. \<forall>k\<in>set [3, 4, 3]. stringify_syscall [(3, ''read'')] k = Inr (?name k)"
    by (simp add: stringify_syscall_def USR_SCHED_def SIG_SEGV_RDTSC_def)
  let ?all = "concat (map (\<lambda>f. [3, 4, 3]) [''t''])"
  have all: "?all = [3, 4, 3]" "length [3 :: int, 4, 3] = 3" by simp_all
  have r: "\<forall>xs. mset (rev xs) = mset xs" by simp
  have ne: "[''t''] \<noteq> []" by simp
  note x = histogram_main_counts [where files = small_files and order = rev and fs = "[''t'']" and keys = "\<lambda>f. [3, 4, 3]" and name = ?name
    and which = "''syscall''" and header = "[''#define __NR_read 3'']" and stdin = "[]" and exe = "''histogram-trace''", OF h r l ne c n]
  obtain ks where k: "distinct ks" "set ks = set [3, 4, 3]" "sorted_wrt (\<lambda>i j. count_list [3, 4, 3] j \<le> count_list [3, 4, 3] i) ks"
    "histogram_main small_files [] rev [''histogram-trace'', ''syscall'', ''t''] =
      (hist_head ''syscall'' @ concat (map (\<lambda>k. hist_row (count_list [3, 4, 3] k) 3 (?name k @ '' ('' @ format_d k @ '')'') @ newline) ks) @ hist_foot 3, None)"
    using x [unfolded all] by (elim exE conjE)
  have s: "set ks = {3, 4}" using k(2) by auto
  then have "length ks = 2" using distinct_card [OF k(1)] by simp
  then obtain a b where "ks = [a, b]" by (auto simp: length_Suc_conv numeral_2_eq_2)
  then have "ks = [3, 4]" using k(3) s by (auto simp: doubleton_eq_iff)
  moreover have "format_d 3 = ''3''" "format_d 4 = ''4''"
    by (simp_all add: format_d_def render.simps [of 10 3] render.simps [of 10 4] digit_char_def char_of_def bit_0)
  ultimately show ?thesis using k(4) by (simp add: numeral_2_eq_2)
qed


end
