(* ===== verification/Count_Syscalls.thy ===== *)
theory Count_Syscalls
  imports Histogram
begin

text \<open>
  The number of times a system call occurs in a trace (\<open>src/count-syscalls\<close>): a shell script around a pipeline that takes the fourth field of
  every line, keeps those that match the number and counts them. The files, \<open>grep\<close> and the shell's expansion of a name into
  file names are arguments. The section at the end compares it with the histogram of system calls.
\<close>

section \<open>The script\<close>

definition is_blank :: "char \<Rightarrow> bool" where
  "is_blank c \<longleftrightarrow> c = CHR '' '' \<or> c = CHR 0x09"

primrec awk_field :: "nat \<Rightarrow> string \<Rightarrow> string" where
  "awk_field 0 s = takeWhile (\<lambda>c. \<not> is_blank c) (dropWhile is_blank s)"
| "awk_field (Suc n) s = awk_field n (dropWhile (\<lambda>c. \<not> is_blank c) (dropWhile is_blank s))"

definition count_usage :: "string \<Rightarrow> string" where
  "count_usage exe = ''Usage:'' @ newline @ ''  '' @ exe @ '' trace-file syscall-num'' @ newline"

text \<open>\<open>exe\<close> is the base name of the script; the results are the exit code, the output and the messages.\<close>

definition count_syscalls :: "(string \<Rightarrow> string list option) \<Rightarrow> (string \<Rightarrow> string \<Rightarrow> bool) \<Rightarrow> (string \<Rightarrow> string list) \<Rightarrow> string \<Rightarrow> string list
    \<Rightarrow> nat \<times> string \<times> string" where
  "count_syscalls files grep expand exe args =
     (case args of
        [dir, syscallnum] \<Rightarrow>
          (let trace = dir @ ''/trace_0'' in
           case files trace of
             None \<Rightarrow> (1, [], ''Error: '' @ trace @ '' isn't a file'' @ newline)
           | Some _ \<Rightarrow>
               (let lns = concat (map (\<lambda>f. case files f of None \<Rightarrow> [] | Some lns \<Rightarrow> lns) (expand trace));
                    hits = filter (grep (''^'' @ syscallnum @ ''$'')) (map (awk_field 3) lns)
                in (0, dec (length hits) @ newline, [])))
      | _ \<Rightarrow> (1, [], count_usage exe))"

section \<open>Fields of a printed line\<close>

lemma format_d_chars: "c \<in> set (format_d v) \<Longrightarrow> \<not> is_blank c"
proof
  assume "c \<in> set (format_d v)" "is_blank c"
  moreover have "\<not> is_blank (CHR ''-'')" "\<not> is_digit (CHR '' '')" "\<not> is_digit (CHR 0x09)"
    by (simp_all add: is_blank_def is_digit_def digit_val_def)
  ultimately have "is_digit c" "\<not> is_digit c"
    using is_digit_dec [of c] by (auto simp: format_d_def is_blank_def split: if_splits)
  then show False by simp
qed

lemma format_d_inj: "format_d v = format_d w \<longleftrightarrow> v = w"
proof
  assume "format_d v = format_d w"
  then show "v = w" using scan_int_printed [of "[]" v] scan_int_printed [of "[]" w] by simp
qed simp

lemma field_of_dump:
  "dropWhile is_blank (dump_line (v # vs)) = format_d v @ dump_line vs"
  "takeWhile (\<lambda>c. \<not> is_blank c) (format_d v @ dump_line vs) = format_d v"
  "dropWhile (\<lambda>c. \<not> is_blank c) (format_d v @ dump_line vs) = dump_line vs"
proof -
  have ne: "format_d v \<noteq> []" using render_nonempty [of 10 "nat v"] by (auto simp: format_d_def)
  then obtain c cs where c: "format_d v = c # cs" by (cases "format_d v") auto
  have b: "is_blank (CHR '' '')" by (simp add: is_blank_def)
  show "dropWhile is_blank (dump_line (v # vs)) = format_d v @ dump_line vs"
    using format_d_chars [of c v] b by (simp add: dump_line_def c)
  have r: "takeWhile (\<lambda>c. \<not> is_blank c) (dump_line vs) = []" "dropWhile (\<lambda>c. \<not> is_blank c) (dump_line vs) = dump_line vs"
    using b by (cases vs; simp add: dump_line_def)+
  show "takeWhile (\<lambda>c. \<not> is_blank c) (format_d v @ dump_line vs) = format_d v"
    using format_d_chars [of _ v] r(1) by (simp add: takeWhile_append2)
  show "dropWhile (\<lambda>c. \<not> is_blank c) (format_d v @ dump_line vs) = dump_line vs"
    using format_d_chars [of _ v] r(2) by (simp add: dropWhile_append2)
qed

lemma fourth_field: "4 \<le> length vs \<Longrightarrow> awk_field 3 (dump_line vs) = format_d (vs ! 3)"
proof -
  assume "4 \<le> length vs"
  then obtain a b c d r where v: "vs = a # b # c # d # r" by (auto simp: numeral_eq_Suc Suc_le_length_iff)
  show "awk_field 3 (dump_line vs) = format_d (vs ! 3)" by (simp add: v field_of_dump numeral_3_eq_3)
qed

lemma scan_short: "make_int_scanner n [] = (if n = 0 then Some [] else None)"
  by (cases n) (simp_all add: scan_int_def)

lemma scan_too_many: "length vs < n \<Longrightarrow> make_int_scanner n (dump_line vs) = None"
proof (induction vs arbitrary: n)
  case Nil
  then show ?case by (simp add: scan_short dump_line_def)
next
  case (Cons v vs)
  have "\<forall>c\<in>set (take 1 (dump_line vs)). \<not> is_digit c"
    by (cases vs) (simp_all add: dump_line_def is_digit_def digit_val_def)
  then have "scan_int (dump_line (v # vs)) = Some (v, dump_line vs)" using scan_int_printed [of "dump_line vs" v] by (simp add: dump_line_def)
  then show ?case using Cons by (cases n) simp_all
qed

lemma scan_event_reason:
  assumes "4 \<le> length vs"
  shows "\<exists>ev. scan_event (dump_line vs) = Some ev \<and> ev_reason ev = vs ! 3"
proof (cases "17 \<le> length vs")
  case True
  then show ?thesis by (simp add: scan_event_printed event_of_def Let_def)
next
  case False
  then show ?thesis using assms scan_too_many [of vs 17] scan_prefix [of 4 vs] by (simp add: scan_event_def event_of_def Let_def)
qed

lemma reasons_of_dump:
  assumes "\<forall>vs\<in>set vss. 4 \<le> length vs"
  shows "map ev_reason (iterevents (map dump_line vss)) = map (\<lambda>vs. vs ! 3) vss"
  using assms
proof (induction vss)
  case (Cons vs vss)
  then show ?case using scan_event_reason [of vs] by (auto simp: iterevents_def List.map_filter_simps)
qed (simp add: iterevents_def)

section \<open>Against the histogram\<close>

text \<open>
  C29. On a trace of lines of at least four numbers, events with all their fields and synthetic ones alike, the script gives the number of events with the system call's number, entries, exits and all others, so
  that it is greater than the number in the histogram of system calls by the events that are no entries.
\<close>

theorem count_syscalls_counts:
  assumes "files (dir @ ''/trace_0'') = Some (map dump_line vss)" and "\<forall>vs\<in>set vss. 4 \<le> length vs"
    and "expand (dir @ ''/trace_0'') = [dir @ ''/trace_0'']"
    and "\<forall>l. grep (''^'' @ format_d n @ ''$'') l \<longleftrightarrow> l = format_d n"
  shows "\<exists>ks. counted ''syscall'' (map dump_line vss) = Some ks \<and>
    count_syscalls files grep expand exe [dir, format_d n] =
      (0, dec (count_list ks n + length (filter (\<lambda>ev. ev_reason ev = n \<and> \<not> is_syscall_entry ev) (iterevents (map dump_line vss)))) @ newline, [])"
proof -
  let ?evs = "iterevents (map dump_line vss)"
  have f: "length (filter (grep (''^'' @ format_d n @ ''$'')) (map (awk_field 3) (map dump_line vss))) = count_list (map (\<lambda>vs. vs ! 3) vss) n"
    using assms(2,4) by (induction vss) (auto simp: fourth_field format_d_inj)
  have c: "count_list (map ev_reason evs) n = count_list (map ev_reason (filter is_syscall_entry evs)) n
      + length (filter (\<lambda>ev. ev_reason ev = n \<and> \<not> is_syscall_entry ev) evs)" for evs
    by (induction evs) auto
  show ?thesis
    using assms(1,3) f c [of ?evs] reasons_of_dump [OF assms(2)] by (simp add: count_syscalls_def counted_def Let_def comp_assoc)
qed

theorem count_syscalls_counts_witness:
  "count_syscalls small_files (\<lambda>p l. p = ''^'' @ l @ ''$'') (\<lambda>f. [f]) ''count-syscalls'' [''t'', ''3''] = (0, ''3'' @ newline, [])"
proof -
  let ?vss = "[[1, 1, 7, 3, 0, 0, 0, 50, 200, 0, 0, 0, 0, 0, 0, 0, 3, 99, 98, 97], [2, 2, 7, 3, 1, 0, 0, 0, 0, 0, 0, 0, 0, 0, 0, 0, 3, 99, 98, 97],
        [3, 3, 7, 4, 0, 0, 0, 0, 0, 0, 0, 0, 0, 0, 0, 0, 4, 99, 98, 97], [4, 4, 7, 3, 0, 0, 0, 0, 0, 0, 0, 0, 0, 0, 0, 0, 3, 99, 98, 97]] :: int list list"
  have f: "small_files (''t'' @ ''/trace_0'') = Some (map dump_line ?vss)" by (simp add: small_files_def)
  have d: "format_d 3 = ''3''" by (simp add: format_d_def render.simps [of 10 3] digit_char_def char_of_def bit_0)
  have l: "\<forall>vs\<in>set ?vss. 4 \<le> length vs" by simp
  have g: "\<forall>l. (''^'' @ format_d 3 @ ''$'' = ''^'' @ l @ ''$'') = (l = format_d 3)" by auto
  obtain ks where ks: "counted ''syscall'' (map dump_line ?vss) = Some ks"
    "count_syscalls small_files (\<lambda>p l. p = ''^'' @ l @ ''$'') (\<lambda>f. [f]) ''count-syscalls'' [''t'', format_d 3] =
      (0, dec (count_list ks 3 + length (filter (\<lambda>ev. ev_reason ev = 3 \<and> \<not> is_syscall_entry ev) (iterevents (map dump_line ?vss)))) @ newline, [])"
    using count_syscalls_counts [where files = small_files and grep = "\<lambda>p l. p = ''^'' @ l @ ''$''" and expand = "\<lambda>f. [f]" and n = 3
      and exe = "''count-syscalls''", OF f l refl g] by (elim exE conjE)
  have "ks = [3, 4, 3]" using small_counted(1) ks(1) f by simp
  moreover have "dec (Suc (Suc (Suc 0))) = ''3''" using d by (simp add: format_d_def numeral_3_eq_3)
  ultimately show ?thesis using ks(2) d by (simp add: event_of_def is_syscall_entry_def Let_def)
qed

end
