(* ===== verification/Prof_Helpers.thy ===== *)
theory Prof_Helpers
  imports RRW_Prelude
begin

text \<open>
  The helpers at the head of \<open>src/PathLogging.cpp\<close>, which instrument a module with a call at the start of \<open>main\<close>, with counters in blocks and with
  a call at its end, and \<open>getInsertionPoint\<close>. A block is the list of its instructions; LLVM's choice of the first
  position at which a block takes new instructions is an argument.
\<close>

section \<open>Functions and blocks\<close>

datatype ir_type = IntTy nat | PointerTy ir_type | ArrayTy nat ir_type | OtherTy nat

datatype operand =
    Argument nat
  | Result nat
  | NullValue ir_type
  | Constant32 u32
  | ElementPtr nat "u32 list"

datatype opcode = AllocaOp | LoadOp | AddOp | StoreOp | CallOp string | CastOp ir_type | OtherOp nat

record instruction =
  in_id :: nat
  in_op :: opcode
  in_args :: "operand list"

type_synonym basic_block = "instruction list"

text \<open>A function is its arguments' types, its entry block and its other blocks; \<open>fn_next\<close> is an unused number for an instruction.\<close>

record ir_function =
  fn_args :: "ir_type list"
  fn_entry :: basic_block
  fn_blocks :: "basic_block list"
  fn_next :: nat

definition insert_at :: "nat \<Rightarrow> instruction list \<Rightarrow> basic_block \<Rightarrow> basic_block" where
  "insert_at pos new block = take pos block @ new @ drop pos block"

text \<open>An iterator that points at an alloca is moved on.\<close>

definition skip_allocas :: "nat \<Rightarrow> basic_block \<Rightarrow> nat" where
  "skip_allocas pos block = pos + length (takeWhile (\<lambda>i. in_op i = AllocaOp) (drop pos block))"

section \<open>Counters\<close>

definition IncrementCounterInBlock :: "(basic_block \<Rightarrow> nat) \<Rightarrow> nat \<Rightarrow> u32 \<Rightarrow> nat \<Rightarrow> bool \<Rightarrow> basic_block \<Rightarrow> basic_block" where
  "IncrementCounterInBlock getFirstInsertionPt nxt CounterNum CounterArray beginning BB =
     (let InsertPos = skip_allocas (if beginning then getFirstInsertionPt BB else length BB - 1) BB;
          ElementPtr = ElementPtr CounterArray [0, CounterNum]
      in insert_at InsertPos
           [\<lparr>in_id = nxt, in_op = LoadOp, in_args = [ElementPtr]\<rparr>,
            \<lparr>in_id = nxt + 1, in_op = AddOp, in_args = [Result nxt, Constant32 1]\<rparr>,
            \<lparr>in_id = nxt + 2, in_op = StoreOp, in_args = [Result (nxt + 1), ElementPtr]\<rparr>] BB)"

section \<open>The call at the start\<close>

definition ArgVTy :: ir_type where
  "ArgVTy = PointerTy (PointerTy (IntTy 8))"

definition replace_uses :: "operand \<Rightarrow> operand \<Rightarrow> basic_block \<Rightarrow> basic_block" where
  "replace_uses v w block = map (\<lambda>i. i\<lparr>in_args := map (\<lambda>a. if a = v then w else a) (in_args i)\<rparr>) block"

definition replaceAllUsesWith :: "operand \<Rightarrow> operand \<Rightarrow> ir_function \<Rightarrow> ir_function" where
  "replaceAllUsesWith v w F = F\<lparr>fn_entry := replace_uses v w (fn_entry F), fn_blocks := map (replace_uses v w) (fn_blocks F)\<rparr>"

definition use_empty :: "operand \<Rightarrow> ir_function \<Rightarrow> bool" where
  "use_empty v F \<longleftrightarrow> (\<forall>block\<in>set (fn_entry F # fn_blocks F). \<forall>i\<in>set block. v \<notin> set (in_args i))"

definition setArgOperand :: "nat \<Rightarrow> nat \<Rightarrow> operand \<Rightarrow> ir_function \<Rightarrow> ir_function" where
  "setArgOperand call k v F =
     F\<lparr>fn_entry := map (\<lambda>i. if in_id i = call then i\<lparr>in_args := (in_args i)[k := v]\<rparr> else i) (fn_entry F)\<rparr>"

text \<open>A new instruction before or behind the call, and its value.\<close>

definition create_cast :: "nat \<Rightarrow> operand \<Rightarrow> ir_type \<Rightarrow> ir_function \<Rightarrow> operand \<times> ir_function" where
  "create_cast pos v ty F =
     (Result (fn_next F), F\<lparr>fn_entry := insert_at pos [\<lparr>in_id = fn_next F, in_op = CastOp ty, in_args = [v]\<rparr>] (fn_entry F), fn_next := fn_next F + 1\<rparr>)"

definition call_pos :: "nat \<Rightarrow> ir_function \<Rightarrow> nat" where
  "call_pos call F = length (takeWhile (\<lambda>i. in_id i \<noteq> call) (fn_entry F))"

definition pass_argv :: "nat \<Rightarrow> ir_function \<Rightarrow> ir_function" where
  "pass_argv InitCall F =
     (if fn_args F ! 1 \<noteq> ArgVTy
      then let (c, F1) = create_cast (call_pos InitCall F) (Argument 1) ArgVTy F in setArgOperand InitCall 1 c F1
      else setArgOperand InitCall 1 (Argument 1) F)"

definition pass_argc :: "nat \<Rightarrow> ir_function \<Rightarrow> ir_function" where
  "pass_argc InitCall F =
     (if fn_args F ! 0 \<noteq> IntTy 32
      then let F1 = (if use_empty (Argument 0) F then F
                     else let (c, F') = create_cast (call_pos InitCall F + 1) (Result InitCall) (fn_args F ! 0) F
                          in replaceAllUsesWith (Argument 0) c F');
               (c, F2) = create_cast (call_pos InitCall F1) (Argument 0) (IntTy 32) F1
           in setArgOperand InitCall 0 c F2
      else setArgOperand InitCall 0 (Argument 0) (replaceAllUsesWith (Argument 0) (Result InitCall) F))"

text \<open>\<open>Array\<close> is a global with the type that it points to; \<open>cast\<close> asserts that it is an array.\<close>

definition InsertProfilingInitCall :: "ir_function \<Rightarrow> string \<Rightarrow> (nat \<times> ir_type) option \<Rightarrow> ir_type option \<Rightarrow> ir_function res" where
  "InsertProfilingInitCall MainFn FnName Array arrayType =
     (let UIntPtr = (case arrayType of None \<Rightarrow> PointerTy (IntTy 32) | Some t \<Rightarrow> t);
          InsertPos = skip_allocas 0 (fn_entry MainFn)
      in bind_res (case Array of
            None \<Rightarrow> Inr (NullValue UIntPtr, 0)
          | Some (g, ArrayTy n t) \<Rightarrow> Inr (ElementPtr g [0, 0], n)
          | Some _ \<Rightarrow> Inl (Assert_Failed ''cast<ArrayType>'')) (\<lambda>(ptr, NumElements).
         let InitCall = fn_next MainFn;
             Args = [NullValue (IntTy 32), NullValue ArgVTy, ptr, Constant32 (of_nat NumElements)];
             F0 = MainFn\<lparr>fn_entry := insert_at InsertPos [\<lparr>in_id = InitCall, in_op = CallOp FnName, in_args = Args\<rparr>] (fn_entry MainFn),
                         fn_next := InitCall + 1\<rparr>;
             F1 = (if 2 \<le> length (fn_args F0) then pass_argv InitCall F0 else F0);
             F2 = (if 1 \<le> length (fn_args F0) then pass_argc InitCall F1 else F1)
         in Inr F2))"

section \<open>The call at the end\<close>

text \<open>
  The global \<open>llvm.global_dtors\<close>: the number of elements in its declared type and its initializer, when that is a constant array. An entry is a
  priority and a function.
\<close>

record global_dtors =
  gd_elements :: nat
  gd_initializer :: "(u32 \<times> nat) list option"

definition InsertProfilingShutdownCall :: "nat \<Rightarrow> global_dtors option \<Rightarrow> global_dtors" where
  "InsertProfilingShutdownCall Callee Mod =
     (let dtors = (case Mod of None \<Rightarrow> [] | Some g \<Rightarrow> (case gd_initializer g of None \<Rightarrow> [] | Some InitList \<Rightarrow> InitList))
      in \<lparr>gd_elements = 1, gd_initializer = Some (dtors @ [(65535, Callee)])\<rparr>)"

section \<open>The position behind a value\<close>

definition getInsertionPoint :: "(basic_block \<Rightarrow> nat) \<Rightarrow> basic_block \<Rightarrow> operand option \<Rightarrow> nat" where
  "getInsertionPoint getFirstInsertionPt block pathNumber = (case pathNumber of
     Some (Result i) \<Rightarrow>
       if i \<in> in_id ` set block then length (takeWhile (\<lambda>k. in_id k \<noteq> i) block) + 1 else getFirstInsertionPt block
   | _ \<Rightarrow> getFirstInsertionPt block)"


section \<open>What the helpers do\<close>

text \<open>Running a block: the new instructions on the values and the memory, the others by \<open>own\<close>.\<close>

fun value_in :: "(nat \<Rightarrow> u32) \<Rightarrow> operand \<Rightarrow> u32" where
  "value_in env (Result i) = env i"
| "value_in env (Constant32 c) = c"
| "value_in env _ = 0"

fun run_new :: "instruction \<Rightarrow> (nat \<Rightarrow> u32) \<times> (operand \<Rightarrow> u32) \<Rightarrow> (nat \<Rightarrow> u32) \<times> (operand \<Rightarrow> u32)" where
  "run_new i (env, mem) = (case (in_op i, in_args i) of
     (LoadOp, [p]) \<Rightarrow> (env(in_id i := mem p), mem)
   | (AddOp, [a, b]) \<Rightarrow> (env(in_id i := value_in env a + value_in env b), mem)
   | (StoreOp, [v, p]) \<Rightarrow> (env, mem(p := value_in env v))
   | _ \<Rightarrow> (env, mem))"

definition run_instruction where
  "run_instruction own nxt i s = (if nxt \<le> in_id i then run_new i s else own i s)"

definition counted_once :: "nat \<Rightarrow> operand \<Rightarrow> (nat \<Rightarrow> u32) \<times> (operand \<Rightarrow> u32) \<Rightarrow> (nat \<Rightarrow> u32) \<times> (operand \<Rightarrow> u32)" where
  "counted_once nxt p s = ((fst s)(nxt := snd s p, nxt + 1 := snd s p + 1), (snd s)(p := snd s p + 1))"

text \<open>A block whose own instructions know nothing of the counter counts one more each time it runs, and does the same otherwise.\<close>

lemma counter_block_counts:
  assumes fresh: "\<forall>i\<in>set BB. in_id i < nxt"
    and own: "\<forall>i\<in>set BB. \<forall>s. own i (counted_once nxt (ElementPtr arr [0, n]) s) = counted_once nxt (ElementPtr arr [0, n]) (own i s)"
  shows "fold (run_instruction own nxt) (IncrementCounterInBlock first nxt n arr beginning BB) s
    = counted_once nxt (ElementPtr arr [0, n]) (fold own BB s)"
proof -
  have old: "fold (run_instruction own nxt) xs s = fold own xs s" if "set xs \<subseteq> set BB" for xs s
    using that fresh by (induction xs arbitrary: s) (auto simp: run_instruction_def)
  have late: "fold own xs (counted_once nxt (ElementPtr arr [0, n]) s) = counted_once nxt (ElementPtr arr [0, n]) (fold own xs s)"
    if "set xs \<subseteq> set BB" for xs s
    using that own by (induction xs arbitrary: s) (simp_all del: split_paired_All)
  have new: "fold (run_instruction own nxt)
      [\<lparr>in_id = nxt, in_op = LoadOp, in_args = [ElementPtr arr [0, n]]\<rparr>,
       \<lparr>in_id = nxt + 1, in_op = AddOp, in_args = [Result nxt, Constant32 1]\<rparr>,
       \<lparr>in_id = nxt + 2, in_op = StoreOp, in_args = [Result (nxt + 1), ElementPtr arr [0, n]]\<rparr>] s
    = counted_once nxt (ElementPtr arr [0, n]) s" for s
    by (cases s) (simp add: run_instruction_def counted_once_def)
  have part: "set (take k BB) \<subseteq> set BB" "set (drop k BB) \<subseteq> set BB" for k by (rule set_take_subset, rule set_drop_subset)
  show ?thesis
    unfolding IncrementCounterInBlock_def Let_def insert_at_def fold_append comp_apply new old [OF part(1)] old [OF part(2)] late [OF part(2)]
    by (simp flip: fold_append [THEN fun_cong, unfolded comp_apply])
qed

text \<open>
  The start of \<open>main\<close>: the call comes behind the leading allocas with the arguments of \<open>main\<close>, the array and its size, and everything else that used
  the argument count uses the result of the call.
\<close>

lemma init_call_of_main:
  assumes args: "fn_args F = [IntTy 32, ArgVTy]" and fresh: "\<forall>i\<in>set (fn_entry F). in_id i < fn_next F"
  defines "old \<equiv> replace_uses (Argument 0) (Result (fn_next F))" and "pos \<equiv> skip_allocas 0 (fn_entry F)"
  shows "\<exists>F'. InsertProfilingInitCall F name (Some (g, ArrayTy n t)) ty = Inr F' \<and> fn_blocks F' = map old (fn_blocks F)
    \<and> fn_entry F' = old (take pos (fn_entry F))
        @ [\<lparr>in_id = fn_next F, in_op = CallOp name, in_args = [Argument 0, Argument 1, ElementPtr g [0, 0], Constant32 (of_nat n)]\<rparr>]
        @ old (drop pos (fn_entry F))"
proof -
  have ne: "\<forall>i\<in>set (take k (fn_entry F)). in_id i \<noteq> fn_next F" "\<forall>i\<in>set (drop k (fn_entry F)). in_id i \<noteq> fn_next F" for k
    using fresh by (auto dest!: in_set_takeD in_set_dropD)
  show ?thesis
    using args ne [of pos] unfolding pos_def
    by (simp add: InsertProfilingInitCall_def Let_def pass_argv_def pass_argc_def setArgOperand_def replaceAllUsesWith_def insert_at_def
        replace_uses_def old_def)
qed

text \<open>The new list of destructors is as long as its declared type only when there were none before.\<close>

lemma shutdown_list_length:
  "length (the (gd_initializer (InsertProfilingShutdownCall f m))) = gd_elements (InsertProfilingShutdownCall f m)
    \<longleftrightarrow> m = None \<or> gd_initializer (the m) \<in> {None, Some []}"
  by (cases m) (auto simp: InsertProfilingShutdownCall_def Let_def split: option.splits)

text \<open>The position of a value that is defined in the block is directly behind its definition.\<close>

lemma insertion_point_behind:
  assumes "b ! k = i" "k < length b" "distinct (map in_id b)"
  shows "getInsertionPoint first b (Some (Result (in_id i))) = Suc k"
proof -
  have "in_id i \<in> in_id ` set b" using assms(1,2) by auto
  moreover have "takeWhile (\<lambda>j. in_id j \<noteq> in_id i) b = take k b"
  proof (rule takeWhile_eq_take_P_nth)
    show "in_id (b ! j) \<noteq> in_id i" if "j < k" "j < length b" for j
      using assms that by (metis (no_types, lifting) length_map nat_neq_iff nth_eq_iff_index_eq nth_map)
    show "\<not> in_id (b ! k) \<noteq> in_id i" using assms(1) by simp
  qed
  ultimately show ?thesis using assms(2) by (simp add: getInsertionPoint_def)
qed

end
