(* ===== verification/Spec2Isabelle.thy ===== *)
theory Spec2Isabelle
  imports BL_Module BL_Dot Path_Runtime Seccomp_BPF Fputs Futex Vdso Rpc_Syscall Regtrace Watchpoint
    Notify_Desched Sysemu Lcmp Rrmon Pwrite64 Paths Count_Syscalls Prof_Helpers
begin

text \<open>
  A verification of the programs of the rr workbench.

  \<^bold>\<open>The programs.\<close> The repository holds a path profiler and a collection of small tools around ptrace, seccomp and
  the C library, all for 32-bit Linux. The profiler has two halves: a compiler pass (\<open>src/PathLogging.cpp\<close>), which places
  instrumentation on the edges of a function's Ball-Larus graph, and a runtime (\<open>src/path_logging.c\<close>), which the instrumented
  code calls with the number of each acyclic path it has completed. The tools are tracers
  (\<open>src/regtrace.c\<close>, \<open>src/rpc_syscall.c\<close>, \<open>src/sysemu.c\<close>, \<open>src/notify_desched.c\<close>, \<open>src/watchpoint.c\<close>), a
  seccomp filter and its loader (\<open>src/seccomp-bpf.h\<close>, \<open>src/seccomptrace.c\<close>), a patch of the vdso
  (\<open>src/vdso_monkeypatch.c\<close>), an instrumented \<open>strlen\<close> and its caller (\<open>src/libc-sysdeps-i386-i586-strlen.S\<close>,
  \<open>src/libc-libio-iofputs.c\<close>), printers (\<open>src/status2text.c\<close>, \<open>src/strfutexcmd.c\<close>), a comparison of files
  (\<open>src/lcmp.c\<close>), a monitor (\<open>src/rrmon.c\<close>), programs that count trace events (\<open>src/histogram-trace\<close>, \<open>src/count-syscalls\<close>) and test programs (\<open>src/pwrite64_testcase.c\<close>, \<open>src/paths.c\<close>, \<open>src/launch.c\<close>).

  \<^bold>\<open>The pass.\<close> \<open>BL_Dag\<close> has the nodes, edges and the graph with all members of the three classes; pointers are numbers
  into two heaps, \<open>long\<close> is a 32-bit word and the 64-bit field of an increment is kept as such. \<open>bl_wf\<close> is
  the graph that LLVM's library hands over and \<open>numbered\<close> its path numbers: LLVM is not part of the repository.
  \<open>BL_Spanning\<close>, \<open>BL_Chords\<close> and \<open>BL_Push\<close> are the passes \<open>calculateSpanningTree\<close>,
  \<open>calculateChordIncrements\<close>, \<open>pushInitialization\<close> and \<open>pushCounters\<close>, \<open>BL_Placement\<close> their sequence, \<open>BL_Surgery\<close> is
  \<open>unlinkPhony\<close> and \<open>splitUpdate\<close>, \<open>BL_Emit\<close> the creation of instructions from \<open>splitCritical\<close> to \<open>runOnModule\<close>
  and \<open>BL_Dot\<close> the printed forms of the graph. \<open>Prof_Helpers\<close> has the helpers at the head of the file, which the pass as it is configured does not
  call: counters in blocks, a call at the start of \<open>main\<close> and one at the end of the program.
  \<open>BL_Paths\<close>, \<open>BL_Numbering\<close>, \<open>BL_Log\<close> and \<open>BL_Profile\<close> show that the sums of increments around cycles are kept by every
  pass, that path numbers are dense and unique, and that an execution of the instrumented function logs exactly the numbers of
  its acyclic paths, from which the execution can be recovered.
  \<open>BL_Walk\<close> and \<open>BL_Codegen\<close> show that the walk over the graph ends although it splits edges, and that the instructions created
  for one edge do to the path register and the log what the edge is meant to do; \<open>BL_Cover\<close> that the walk leaves no edge behind.

  \<^bold>\<open>The emitted code.\<close> \<open>BL_Blocks\<close> is the meaning of the instrumented function, run block by block with the values of PHIs and
  instructions, and \<open>BL_Plan\<close> what the placement leaves for the emission: whether a node is entered with a number in the register.
  \<open>BL_Frame\<close>, \<open>BL_Inv\<close>, \<open>BL_Cross\<close>, \<open>BL_Join\<close> and \<open>BL_Pass\<close> hold the invariant of the emitting walk and that instrumenting an edge keeps
  it, split edges included; \<open>BL_Sim\<close> concludes that running the blocks logs what the edges are meant to log and \<open>BL_Whole\<close> joins
  it with the placement to a theorem about \<open>runOnFunction\<close>, which \<open>BL_Module\<close> carries over to \<open>runOnModule\<close> with its totals. \<open>base_ok\<close> and \<open>llvm_ok\<close> are what the emission relies on from LLVM's base class and
  control flow graph, \<open>instrumentable\<close> what it relies on from the function. \<open>BL_Types\<close> checks that the created instructions are well
  typed, operands existing before they are used, and that the PHIs of joining edges take the numbers that their sources leave behind. \<open>BL_Example\<close> and \<open>BL_Self\<close> are loops on which all hypotheses hold,
  the second with a critical edge that is split.

  \<^bold>\<open>The runtime.\<close> \<open>Path_Runtime\<close> has the per-thread buffers at explicit addresses, the process state and every function of
  the runtime; the locales \<open>log_sink\<close> and \<open>closing_sink\<close> are what instrumented code relies on, and their
  interpretation shows that the buffers lose, duplicate and reorder nothing. The section below joins the two halves.

  \<^bold>\<open>Machine code.\<close> \<open>I386\<close> is a small machine with registers, flags and byte memory; \<open>Strlen\<close>, \<open>Fputs\<close> and \<open>Vdso\<close>
  are programs for it, proved against their C meaning: the length, the counters handed to the caller, transparency of the patch. The results of the
  two calls of \<open>mprotect\<close> and the protection of the patched page are part of \<open>Vdso\<close>.

  \<^bold>\<open>Filters and tracers.\<close> \<open>Seccomp_BPF\<close> has the filter macros with a locale for fragments of a program. \<open>Wait_Status\<close> has the
  status macros, \<open>Ptrace\<close> the tracer's side of the system call with the kernel's answers as given sequences;
  \<open>Tracee\<close> is the other side, a traced child with any code and the documented behaviour of the kernel, so that \<open>Rpc_Syscall\<close> and \<open>Sysemu\<close> run
  parent and child against each other.
  \<open>Regtrace\<close>, \<open>Rpc_Syscall\<close>, \<open>Sysemu\<close>, \<open>Watchpoint\<close> and \<open>Notify_Desched\<close> are programs over it. For \<open>Regtrace\<close> the kernel's side
  is a step relation too and the log is shown to label every stop at a system call as what it is. The kernel that \<open>Notify_Desched\<close> passes a
  descriptor through, and the files of \<open>Pwrite64\<close>, are parameters with the documented behaviour as hypotheses.
  \<open>C_Text\<close> is what the programs use of \<open>printf\<close> and \<open>strtoul\<close>; \<open>Futex\<close>, \<open>Lcmp\<close>, \<open>Rrmon\<close>, \<open>Pwrite64\<close> and \<open>Paths\<close> are the
  remaining tools. \<open>Histogram\<close> is the Python program \<open>src/histogram-trace\<close>, from the scanned line to the printed table: every row has the number of
  events with its key. Percentages are rounded as doubles, exactly for counts below \<open>2 ^ 46\<close>. \<open>Count_Syscalls\<close> is the script \<open>src/count-syscalls\<close>,
  compared with the histogram. \<open>RRW_Prelude\<close> has the result type of operations that may fail, and the shared facts on lists and words.

  \<^bold>\<open>Fuel.\<close> The recursions over the graph take a budget of calls; \<open>enough_fuel\<close> (more than the greatest rank of a node and one) is enough for the
  placement passes and the depth plus twice the edges for the walk, because every call marks an edge and every edge is split at
  most once. The machine counts taken jumps; \<open>strlen\<close> needs the length plus six. The comparison of files needs two rounds
  more than the longer file has lines, and for a file that cannot be read it never ends, which the
  model shows too. Loops of the tracers take a status in every round and end with the statuses.

  \<^bold>\<open>Not modelled.\<close> The construction and numbering of the graph and all of LLVM are a library: they are arguments with the
  properties that the pass relies on. Debug output of the pass, command line options and pass registration do not
  affect what is emitted. \<open>main\<close> functions that only fork, the
  child of \<open>sysemu.c\<close>, and \<open>src/bad_syscall.c\<close>, \<open>src/ctor.cc\<close> and \<open>src/mod.cc\<close> only make calls and print. \<open>src/evalrr\<close>, the
  configurations, the makefile and \<open>gdbinit\<close> hold no program logic of the repository's own.
\<close>

section \<open>From executions to the written log\<close>

text \<open>
  C2. The pass instruments a module completely. It does not fail, it treats exactly the functions that have a body, and it reports their
  number, the sum of their path numbers and the greatest of them. When an instrumented function then runs from its entry
  to a return, block by block and whatever the values of its instructions were before, the created instructions log the path numbers
  of the acyclic paths that the run consists of, in order, and nothing else. When LLVM splits the critical edges it is asked to, every execution
  of the function is such a run.
\<close>

theorem instrumented_module_logs:
  fixes M :: "(bl_dag \<times> 'c) option list"
  assumes "base_ok B" and "llvm_ok blocks L"
    and "\<forall>f\<in>set (defined_functions M). \<exists>rk np. instrumentable blocks L rk np n (fst f) (snd f)"
  shows "\<exists>ss prof'. runOnModule n B L M prof =
      Inr (ss, (of_nat (length (defined_functions M)),
                pf_totalPaths prof + (\<Sum>f\<leftarrow>defined_functions M. ucast (d_numberOfPaths (fst f))),
                fold (\<lambda>f m. smax m (ucast (d_numberOfPaths (fst f)))) (defined_functions M) (pf_maxPaths prof)), prof')
    \<and> map (\<lambda>(kind, p, _). (kind, p)) (pf_ftInit prof') = map (\<lambda>f. (ProfilingHash, d_numberOfPaths (fst f))) (defined_functions M)
    \<and> list_all2 (\<lambda>f s. logs_paths (fst f) s \<and> (splits_critical blocks L \<longrightarrow> runs_all (fst f) s)) (defined_functions M) ss"
proof -
  obtain ss prof' where r: "run_functions n B L M 0 (prof\<lparr>pf_ftInit := []\<rparr>) = Inr (ss, 0 + of_nat (length (defined_functions M)), prof')"
    "list_all2 (\<lambda>f s. logs_paths (fst f) s \<and> (splits_critical blocks L \<longrightarrow> runs_all (fst f) s)) (defined_functions M) ss"
    "pf_totalPaths prof' = pf_totalPaths (prof\<lparr>pf_ftInit := []\<rparr>) + (\<Sum>f\<leftarrow>defined_functions M. ucast (d_numberOfPaths (fst f)))"
    "pf_maxPaths prof' = fold (\<lambda>f m. smax m (ucast (d_numberOfPaths (fst f)))) (defined_functions M) (pf_maxPaths (prof\<lparr>pf_ftInit := []\<rparr>))"
    "map (\<lambda>(kind, p, _). (kind, p)) (pf_ftInit prof') = map (\<lambda>(kind, p, _). (kind, p)) (pf_ftInit (prof\<lparr>pf_ftInit := []\<rparr>))
       @ map (\<lambda>f. (ProfilingHash, d_numberOfPaths (fst f))) (defined_functions M)"
    using run_functions_logs [OF assms, of 0 "prof\<lparr>pf_ftInit := []\<rparr>"] by (elim exE conjE)
  then show ?thesis by (intro exI [of _ ss] exI [of _ prof'] conjI) (simp_all add: runOnModule_def)
qed

definition empty_profiler :: profiler where
  "empty_profiler = \<lparr>pf_ftInit = [], pf_currentFunctionNumber = 1, pf_totalPaths = 0, pf_maxPaths = 0\<rparr>"

theorem instrumented_module_logs_witness:
  "\<exists>s prof' es. runOnModule 14 simple_base cfg_llvm [None, Some (self_dag, self_fn)] empty_profiler = Inr ([s], (1, 4, 4), prof')
    \<and> block_run (em_dag s) es \<and> kept self_dag es = [1, 2, 3, 4] \<and> code_log s (\<lambda>_. 0) es = [1, 2]"
proof -
  let ?M = "[None, Some (self_dag, self_fn)]"
  have i: "\<forall>f\<in>set (defined_functions ?M). \<exists>rk np. instrumentable cfg_blocks cfg_llvm rk np 14 (fst f) (snd f)"
    using self_dag_instrumentable by auto
  have n: "d_numberOfPaths self_dag = 4" by (simp add: self_dag_eval)
  obtain s prof' where r: "runOnModule 14 simple_base cfg_llvm ?M empty_profiler = Inr ([s], (1, 4, 4), prof')" "logs_paths self_dag s" "runs_all self_dag s"
    using instrumented_module_logs [OF simple_base_ok cfg_llvm_ok i, of empty_profiler] cfg_llvm_splits
    by (auto simp: list_all2_Cons1 empty_profiler_def n smax_def)
  obtain es where es: "block_run (em_dag s) es" "kept self_dag es = [1, 2, 3, 4]" using r(3) self_dag_executions(1) unfolding runs_all_def by blast
  then have "code_log s (\<lambda>_. 0) es = [1, 2]" using r(2) unfolding logs_paths_def by (simp only: self_dag_numbers list.map)
  with r(1) es show ?thesis by blast
qed

text \<open>
  An instrumented function hands each number that it logs to the runtime together with its own address. \<open>thread_log\<close> are the
  records of a thread that runs the function several times, each time with some values left in its instructions; the events of the
  process may interleave them with those of other threads.
\<close>

definition thread_log :: "'c emitter \<Rightarrow> u32 \<Rightarrow> ((inst_id \<Rightarrow> u32) \<times> edge_id list) list \<Rightarrow> path_record list" where
  "thread_log s fn runs = concat (map (\<lambda>(env, es). map (\<lambda>n. \<lparr>pr_fn = fn, pr_path = n\<rparr>) (code_log s env es)) runs)"

abbreviation executions :: "bl_dag \<Rightarrow> ((inst_id \<Rightarrow> u32) \<times> edge_id list) list \<Rightarrow> edge_id list list" where
  "executions d runs \<equiv> map (\<lambda>r. kept d (snd r)) runs"

definition returns_normally :: "bl_dag \<Rightarrow> bool" where
  "returns_normally d \<longleftrightarrow> (\<forall>e\<in>set (d_edges d). is_loop_edge d e \<longrightarrow> getTarget d e \<noteq> d_exit d)"

text \<open>The part that ends an execution ends with a real edge, the others with a phony one.\<close>

definition closing_part :: "bl_dag \<Rightarrow> edge_id list \<Rightarrow> bool" where
  "closing_part d p \<longleftrightarrow> p \<noteq> [] \<and> getType d (last p) = NORMAL"

lemma parts_delimited:
  assumes wf: "bl_wf rk d"
  shows "\<forall>e\<in>set es. real_edge d e \<Longrightarrow> es \<noteq> [] \<Longrightarrow> \<not> is_loop_edge d (last es) \<Longrightarrow>
    \<exists>ps q. acyclic_parts d acc es = ps @ [q] \<and> closing_part d q \<and> (\<forall>p\<in>set ps. \<not> closing_part d p)"
proof (induction es arbitrary: acc)
  case (Cons e es)
  show ?case
  proof (cases "is_loop_edge d e")
    case True
    then obtain p q where pq: "getPhonyRoot d e = Some p" "getPhonyExit d e = Some q" "getType d q \<in> {BACKEDGE_PHONY, SPLITEDGE_PHONY}"
      using wf_real_edge [OF wf, of e] Cons.prems(1) by (metis list.set_intros(1))
    have "es \<noteq> []" using True Cons.prems(3) by auto
    then obtain ps r where "acyclic_parts d [p] es = ps @ [r]" "closing_part d r" "\<forall>p\<in>set ps. \<not> closing_part d p"
      using Cons.IH [of "[p]"] Cons.prems by auto
    moreover have "\<not> closing_part d (acc @ [q])" using pq(3) by (auto simp: closing_part_def)
    ultimately show ?thesis using True pq by (intro exI [of _ "(acc @ [q]) # ps"] exI [of _ r]) auto
  next
    case False
    then have "getType d e = NORMAL" using Cons.prems(1) by (simp add: real_edge_def)
    then have "es = [] \<Longrightarrow> closing_part d (acc @ [e])" by (simp add: closing_part_def)
    then show ?thesis using Cons.IH [of "acc @ [e]"] Cons.prems False by (cases es) auto
  qed
qed simp

lemma walk_last: "walk d v es w \<Longrightarrow> es \<noteq> [] \<Longrightarrow> getTarget d (last es) = w"
  by (induction es arbitrary: v) (auto split: if_splits)

lemma execution_delimited:
  assumes "bl_wf rk d" "returns_normally d" "execution d es"
  shows "\<exists>ps q. acyclic_parts d [] es = ps @ [q] \<and> closing_part d q \<and> (\<forall>p\<in>set ps. \<not> closing_part d p)"
proof -
  have w: "walk d (d_root d) es (d_exit d)" "\<forall>e\<in>set es. real_edge d e" using assms(3) by (simp_all add: execution_def)
  have ne: "es \<noteq> []" using w(1) assms(1) by (auto simp: bl_wf_def)
  then have "getTarget d (last es) = d_exit d" "last es \<in> set (d_edges d)"
    using walk_last [OF w(1)] w(2) by (auto simp: real_edge_def)
  then have "\<not> is_loop_edge d (last es)" using assms(2) by (auto simp: returns_normally_def)
  then show ?thesis using parts_delimited [OF assms(1) w(2) ne] by blast
qed

lemma delimited_prefix:
  assumes "ps @ [q] @ xs = ps' @ [q'] @ ys" "P q" "P q'" "\<forall>p\<in>set ps. \<not> P p" "\<forall>p\<in>set ps'. \<not> P p"
  shows "ps = ps' \<and> q = q' \<and> xs = ys"
  using assms
proof (induction ps arbitrary: ps')
  case Nil
  then show ?case by (cases ps') auto
next
  case (Cons p ps)
  then show ?case by (cases ps') auto
qed

lemma concat_delimited:
  assumes "\<forall>b\<in>set bs \<union> set cs. \<exists>ps q. b = ps @ [q] \<and> P q \<and> (\<forall>p\<in>set ps. \<not> P p)" "concat bs = concat cs"
  shows "bs = cs"
  using assms
proof (induction bs arbitrary: cs)
  case Nil
  then show ?case by (cases cs) auto
next
  case (Cons b bs)
  obtain c cs' where cs: "cs = c # cs'" using Cons.prems by (cases cs) auto
  obtain ps q where b: "b = ps @ [q]" "P q" "\<forall>p\<in>set ps. \<not> P p" using Cons.prems(1) by auto
  obtain ps' q' where c: "c = ps' @ [q']" "P q'" "\<forall>p\<in>set ps'. \<not> P p" using Cons.prems(1) cs by auto
  have "ps = ps' \<and> q = q' \<and> concat bs = concat cs'"
    using Cons.prems(2) b c by (intro delimited_prefix [of _ _ _ _ _ _ P]) (simp_all add: cs)
  then show ?case using Cons.IH [of cs'] Cons.prems(1) b c cs by auto
qed

lemma executions_inject:
  assumes "bl_wf rk d" "loop_edges_marked d" "returns_normally d" "\<forall>es\<in>set runs. execution d es" "\<forall>es\<in>set runs'. execution d es"
    "concat (map (acyclic_parts d []) runs) = concat (map (acyclic_parts d []) runs')"
  shows "runs = runs'"
proof -
  have "map (acyclic_parts d []) runs = map (acyclic_parts d []) runs'"
    using assms(6) execution_delimited [OF assms(1,3)] assms(4,5) by (intro concat_delimited [where P = "closing_part d"]) auto
  moreover have "inj_on (acyclic_parts d []) (set runs \<union> set runs')"
    using assms(4,5) by (intro inj_onI acyclic_parts_injective [OF assms(1,2)]) (auto simp: execution_def)
  ultimately show ?thesis by (rule map_inj_on)
qed

lemma thread_exit_written:
  assumes "mmap_ok mmap"
  shows "\<exists>s. fold_res (rt_step mmap) (evs @ [Exit_Thread t]) new_proc = Inr s \<and> written s t = retired_by t evs"
proof -
  obtain s where s: "fold_res (rt_step mmap) evs new_proc = Inr s" "rt_inv s" "\<And>t. logged s t = retired_by t evs"
    using assms by (rule rt_run_new) blast
  then show ?thesis using rt.close_ok [of s mmap t] assms by (auto simp: fold_res_append simp del: rt_step.simps)
qed

abbreviation numbers_record :: "bl_dag \<Rightarrow> u32 \<Rightarrow> edge_id list \<Rightarrow> path_record" where
  "numbers_record d fn p \<equiv> \<lparr>pr_fn = fn, pr_path = path_number d p\<rparr>"

text \<open>The records of a thread are those of the acyclic parts of its executions, and the parts can be read off them.\<close>

lemma thread_log_parts:
  assumes "base_ok B" "llvm_ok blocks L" "instrumentable blocks L rk np n d F" "runOnFunction n B L (d, F) prof = Inr (s, prof')"
    "\<forall>r\<in>set runs. block_run (em_dag s) (snd r)"
  shows "\<forall>es\<in>set (executions d runs). execution d es"
    "thread_log s fn runs = map (numbers_record d fn) (concat (map (acyclic_parts d []) (executions d runs)))"
    "\<forall>p\<in>set (concat (map (acyclic_parts d []) (executions d runs))). dag_path d p"
proof -
  obtain s1 prof1 where r: "runOnFunction n B L (d, F) prof = Inr (s1, prof1)" "\<forall>es env. block_run (em_dag s1) es \<longrightarrow>
       execution d (kept d es) \<and> code_log s1 env es = map (path_number d) (acyclic_parts d [] (kept d es))"
    by (rule runOnFunction_logs [OF assms(1-3), of prof])
  then have "s1 = s" using assms(4) by simp
  note r = r(2) [unfolded this]
  show x: "\<forall>es\<in>set (executions d runs). execution d es" using assms(5) r by auto
  show "thread_log s fn runs = map (numbers_record d fn) (concat (map (acyclic_parts d []) (executions d runs)))"
    using assms(5) r by (induction runs) (auto simp: thread_log_def)
  obtain d1 where "\<And>es. execution d es \<Longrightarrow> run_function d1 es = Inr (None, map (path_number d) (acyclic_parts d [] es))
      \<and> (\<forall>q\<in>set (acyclic_parts d [] es). dag_path d q)"
    using run_function_log [of rk d np n] assms(3) unfolding instrumentable_def by metis
  then show "\<forall>p\<in>set (concat (map (acyclic_parts d []) (executions d runs))). dag_path d p" using x by fastforce
qed

lemma records_same_parts:
  assumes "bl_wf rk d" "numbered np d" "\<forall>p\<in>set ps. dag_path d p" "\<forall>q\<in>set qs. dag_path d q"
    "map (numbers_record d fn) ps = map (numbers_record d fn) qs"
  shows "ps = qs"
proof -
  have "map pr_path (map (numbers_record d fn) ps) = map pr_path (map (numbers_record d fn) qs)" using assms(5) by simp
  then show ?thesis by (intro same_numbers_same_parts [OF assms(1-4)]) (simp add: comp_def)
qed

text \<open>
  C1. Threads of a process run a function that the pass has instrumented any number of times, interleaved in any way; when a thread has ended,
  the runtime has written for it exactly the path numbers of the acyclic paths of its runs, in order, and this log tells its
  runs apart: a thread that wrote the same records executed the same edges.
\<close>

theorem profile_identifies_runs:
  assumes "base_ok B" and "llvm_ok blocks L" and "instrumentable blocks L rk np n d F"
    and "loop_edges_marked d" and "returns_normally d" and "mmap_ok mmap"
    and "runOnFunction n B L (d, F) prof = Inr (f, prof')"
    and "\<forall>r\<in>set runs. block_run (em_dag f) (snd r)" and "\<forall>r\<in>set runs'. block_run (em_dag f) (snd r)"
    and "retired_by t evs = thread_log f fn runs" and "retired_by t' evs' = thread_log f fn runs'"
  shows "\<exists>s s'. fold_res (rt_step mmap) (evs @ [Exit_Thread t]) new_proc = Inr s
    \<and> fold_res (rt_step mmap) (evs' @ [Exit_Thread t']) new_proc = Inr s'
    \<and> written s t = map (\<lambda>p. \<lparr>pr_fn = fn, pr_path = path_number d p\<rparr>) (concat (map (\<lambda>r. acyclic_parts d [] (kept d (snd r))) runs))
    \<and> (written s t = written s' t' \<longrightarrow> map (\<lambda>r. kept d (snd r)) runs = map (\<lambda>r. kept d (snd r)) runs')"
proof -
  note P = thread_log_parts [OF assms(1-3,7,8)] and P' = thread_log_parts [OF assms(1-3,7,9)]
  have wf: "bl_wf rk d" "numbered np d" using assms(3) by (simp_all add: instrumentable_def)
  obtain s where s: "fold_res (rt_step mmap) (evs @ [Exit_Thread t]) new_proc = Inr s" "written s t = thread_log f fn runs"
    using thread_exit_written [OF assms(6), of evs t] assms(10) by auto
  obtain s' where s': "fold_res (rt_step mmap) (evs' @ [Exit_Thread t']) new_proc = Inr s'" "written s' t' = thread_log f fn runs'"
    using thread_exit_written [OF assms(6), of evs' t'] assms(11) by auto
  have "executions d runs = executions d runs'" if "written s t = written s' t'"
    using records_same_parts [OF wf P(3) P'(3), of fn] that s(2) s'(2) P(2) [of fn] P'(2) [of fn]
    by (intro executions_inject [OF wf(1) assms(4,5) P(1) P'(1)]) simp
  then show ?thesis using s s' P(2) [of fn] by (simp add: comp_def)
qed

definition two_threads :: "rt_event list" where
  "two_threads = [Retire 1 64 1, Retire 2 64 0, Retire 1 64 2, Retire 1 64 0]"

theorem profile_identifies_runs_witness:
  "\<exists>s s'. fold_res (rt_step next_page) (two_threads @ [Exit_Thread 1]) new_proc = Inr s
    \<and> fold_res (rt_step next_page) (two_threads @ [Exit_Thread 2]) new_proc = Inr s'
    \<and> written s 1 = [\<lparr>pr_fn = 64, pr_path = 1\<rparr>, \<lparr>pr_fn = 64, pr_path = 2\<rparr>, \<lparr>pr_fn = 64, pr_path = 0\<rparr>]
    \<and> written s 1 \<noteq> written s' 2"
proof -
  note ok = simple_base_ok cfg_llvm_ok self_dag_instrumentable
  obtain f prof' where f: "runOnFunction 14 simple_base cfg_llvm (self_dag, self_fn) empty_profiler = Inr (f, prof')"
    "splits_critical cfg_blocks cfg_llvm \<longrightarrow> (\<forall>es. execution self_dag es \<longrightarrow> (\<exists>es'. block_run (em_dag f) es' \<and> kept self_dag es' = es))"
    by (rule runOnFunction_logs [OF ok])
  obtain loop where l: "block_run (em_dag f) loop" "kept self_dag loop = [1, 2, 3, 4]" using f(2) cfg_llvm_splits self_dag_executions(1) by blast
  obtain once where o: "block_run (em_dag f) once" "kept self_dag once = [1, 3, 4]" using f(2) cfg_llvm_splits self_dag_executions(2) by blast
  let ?runs = "[(\<lambda>_. 0, loop), (\<lambda>_. 7, once)]" and ?runs' = "[(\<lambda>_. 0, once)]"
  have x: "\<forall>r\<in>set ?runs. block_run (em_dag f) (snd r)" "\<forall>r\<in>set ?runs'. block_run (em_dag f) (snd r)" using l o by auto
  have m: "loop_edges_marked self_dag" "returns_normally self_dag"
    by (simp_all add: loop_edges_marked_def returns_normally_def is_loop_edge_def self_dag_eval)
  have parts: "concat (map (acyclic_parts self_dag []) (executions self_dag ?runs)) = [[1, 6], [5, 3, 4], [1, 3, 4]]"
    "concat (map (acyclic_parts self_dag []) (executions self_dag ?runs')) = [[1, 3, 4]]"
    by (simp_all only: list.map snd_conv l o self_dag_numbers concat.simps append.simps append_Nil2)
  have r: "retired_by 1 two_threads = thread_log f 64 ?runs" "retired_by 2 two_threads = thread_log f 64 ?runs'"
    unfolding thread_log_parts(2) [OF ok f(1) x(1)] thread_log_parts(2) [OF ok f(1) x(2)] parts
    by (simp_all only: list.map self_dag_numbers) (simp_all add: two_threads_def)
  show ?thesis
    using profile_identifies_runs [OF ok m next_page_ok f(1) x r]
    by (simp only: list.map snd_conv l o self_dag_numbers concat.simps append.simps append_Nil2) auto
qed

end
